(* ===== verification/Prelude.thy ===== *)
theory Prelude
  imports Complex_Main "HOL-Library.Finite_Map" "HOL-Library.Product_Lexorder"
begin

text \<open>
  The generic part of the development: fallible computations (a failed check or a trap of the
  virtual machine is the \<open>Inl\<close> of a sum), the machine integers of C++ as integers with the
  wrap-around of their width written out, truncating division, and lemmas on finite maps (the
  model's database tables) and their sums. Nothing here is about the contract itself.
\<close>

section \<open>Lemma collections\<close>

named_theorems res_simps "unfold a computation that is known to have succeeded"
named_theorems wrap_simps "wrap-around is the identity in range"
named_theorems frame_simps "fields an operation leaves alone"

section \<open>Fallible computations\<close>

text \<open>
  An operation of the contract either fails (the whole transaction is rolled back, so no state
  is returned) or returns a value. \<open>bindR\<close> runs one computation after another; \<open>check\<close> is
  \<open>eosio::check( b, msg )\<close> in front of the rest of the action.
\<close>

definition bindR :: "('e + 'a) \<Rightarrow> ('a \<Rightarrow> 'e + 'b) \<Rightarrow> 'e + 'b" where
  "bindR r f = (case r of Inl e \<Rightarrow> Inl e | Inr x \<Rightarrow> f x)"

definition check :: "bool \<Rightarrow> 'e \<Rightarrow> ('e + 'b) \<Rightarrow> 'e + 'b" where
  "check b e k = (if b then k else Inl e)"

text \<open>A row that must exist: \<open>get\<close> or \<open>require_find\<close> of a table.\<close>

definition fetch :: "'a option \<Rightarrow> 'e \<Rightarrow> ('a \<Rightarrow> 'e + 'b) \<Rightarrow> 'e + 'b" where
  "fetch x e k = (case x of None \<Rightarrow> Inl e | Some a \<Rightarrow> k a)"

lemma bindR_Inr [simp]: "bindR (Inr x) f = f x"
  by (simp add: bindR_def)

lemma bindR_Inl [simp]: "bindR (Inl e) f = Inl e"
  by (simp add: bindR_def)

lemma bindR_eq_Inr [res_simps]: "bindR r f = Inr y \<longleftrightarrow> (\<exists>x. r = Inr x \<and> f x = Inr y)"
  by (cases r) auto

lemma bindR_eq_Inl: "bindR r f = Inl e \<longleftrightarrow> r = Inl e \<or> (\<exists>x. r = Inr x \<and> f x = Inl e)"
  by (cases r) auto

lemma check_True [simp]: "check True e k = k"
  by (simp add: check_def)

lemma check_False [simp]: "check False e k = Inl e"
  by (simp add: check_def)

lemma check_eq_Inr [res_simps]: "check b e k = Inr y \<longleftrightarrow> b \<and> k = Inr y"
  by (simp add: check_def)

lemma fetch_Some [simp]: "fetch (Some a) e k = k a"
  by (simp add: fetch_def)

lemma fetch_None [simp]: "fetch None e k = Inl e"
  by (simp add: fetch_def)

lemma fetch_eq_Inr [res_simps]: "fetch x e k = Inr y \<longleftrightarrow> (\<exists>a. x = Some a \<and> k a = Inr y)"
  by (cases x) auto

text \<open>For evaluation: whether a computation returns.\<close>

definition succeeds :: "'e + 'a \<Rightarrow> bool" where
  "succeeds r = (case r of Inl _ \<Rightarrow> False | Inr _ \<Rightarrow> True)"

lemma succeedsE: "succeeds r \<Longrightarrow> (\<And>y. r = Inr y \<Longrightarrow> P) \<Longrightarrow> P"
  by (auto simp: succeeds_def split: sum.splits)

text \<open>A loop over a list whose body may fail, as a \<open>for\<close> over a container.\<close>

fun foldR :: "('a \<Rightarrow> 's \<Rightarrow> 'e + 's) \<Rightarrow> 'a list \<Rightarrow> 's \<Rightarrow> 'e + 's" where
  "foldR f [] s = Inr s"
| "foldR f (x # xs) s = bindR (f x s) (foldR f xs)"

lemma foldR_invariant:
  assumes "foldR f xs s = Inr t" and "P s"
    and "\<And>x u v. x \<in> set xs \<Longrightarrow> P u \<Longrightarrow> f x u = Inr v \<Longrightarrow> P v"
  shows "P t"
  using assms by (induction xs arbitrary: s) (auto simp: bindR_eq_Inr)

lemma foldR_append: "foldR f (xs @ ys) s = bindR (foldR f xs s) (foldR f ys)"
  by (induction xs arbitrary: s) (auto simp: bindR_def split: sum.splits)

section \<open>Machine integers\<close>

text \<open>
  A C++ integer is an \<open>int\<close>; every arithmetic operation of the source whose result is stored
  in a \<open>w\<close>-bit type is followed by the wrap of that type. Signed overflow is undefined in C++;
  the WebAssembly the contract is compiled to wraps, and so does the model.
\<close>

definition u8 :: "int \<Rightarrow> int" where "u8 x = x mod 256"
definition u16 :: "int \<Rightarrow> int" where "u16 x = x mod 65536"
definition u32 :: "int \<Rightarrow> int" where "u32 x = x mod 4294967296"
definition u64 :: "int \<Rightarrow> int" where "u64 x = x mod 18446744073709551616"
definition u128 :: "int \<Rightarrow> int" where "u128 x = x mod 340282366920938463463374607431768211456"

definition swrap :: "int \<Rightarrow> int \<Rightarrow> int" where
  "swrap h x = (x + h) mod (2 * h) - h"

definition i64 :: "int \<Rightarrow> int" where "i64 x = swrap 9223372036854775808 x"
definition i128 :: "int \<Rightarrow> int" where
  "i128 x = swrap 170141183460469231731687303715884105728 x"

lemma swrap_mod: "swrap h a mod (2 * h) = a mod (2 * h)"
proof -
  have "swrap h a mod (2 * h) = (a + h - h) mod (2 * h)"
    unfolding swrap_def by (rule mod_diff_left_eq)
  then show ?thesis by simp
qed

lemma swrap_cong: "a mod (2 * h) = b mod (2 * h) \<Longrightarrow> swrap h a = swrap h b"
  unfolding swrap_def using mod_add_cong [of a "2 * h" b h h] by simp

lemma swrap_add: "swrap h (swrap h a + b) = swrap h (a + b)" "swrap h (a + swrap h b) = swrap h (a + b)"
  by (rule swrap_cong, rule mod_add_cong; rule swrap_mod refl)+

lemma swrap_diff: "swrap h (swrap h a - b) = swrap h (a - b)" "swrap h (a - swrap h b) = swrap h (a - b)"
  by (rule swrap_cong, rule mod_diff_cong; rule swrap_mod refl)+

lemma swrap_id: "- h \<le> x \<Longrightarrow> x < h \<Longrightarrow> swrap h x = x"
  by (simp add: swrap_def)

lemma swrap_range: "0 < h \<Longrightarrow> - h \<le> swrap h x \<and> swrap h x < h"
  using pos_mod_bound [of "2 * h" "x + h"] pos_mod_sign [of "2 * h" "x + h"]
  by (simp add: swrap_def)

definition in_i64 :: "int \<Rightarrow> bool" where
  "in_i64 x \<longleftrightarrow> -9223372036854775808 \<le> x \<and> x \<le> 9223372036854775807"

definition i64_max :: int where "i64_max = 9223372036854775807"

lemma i64_id [wrap_simps]: "-9223372036854775808 \<le> x \<Longrightarrow> x \<le> 9223372036854775807 \<Longrightarrow> i64 x = x"
  by (simp add: i64_def swrap_id)

lemma i64_in_i64: "in_i64 x \<Longrightarrow> i64 x = x"
  by (simp add: i64_id in_i64_def)

lemma in_i64_i64 [simp]: "in_i64 (i64 x)"
  using swrap_range [of 9223372036854775808 x] by (simp add: in_i64_def i64_def)

lemma i64_le_max [simp]: "i64 x \<le> i64_max"
  using in_i64_i64 [of x] unfolding in_i64_def i64_max_def by (rule conjunct2)

lemma u128_id [wrap_simps]:
  "0 \<le> x \<Longrightarrow> x < 340282366920938463463374607431768211456 \<Longrightarrow> u128 x = x"
  by (simp add: u128_def)

lemma i128_id [wrap_simps]:
  "-170141183460469231731687303715884105728 \<le> x \<Longrightarrow>
   x < 170141183460469231731687303715884105728 \<Longrightarrow> i128 x = x"
  by (simp add: i128_def swrap_id)

lemma u64_id [wrap_simps]: "0 \<le> x \<Longrightarrow> x < 18446744073709551616 \<Longrightarrow> u64 x = x"
  by (simp add: u64_def)

lemma u32_id [wrap_simps]: "0 \<le> x \<Longrightarrow> x < 4294967296 \<Longrightarrow> u32 x = x"
  by (simp add: u32_def)

lemma u16_id [wrap_simps]: "0 \<le> x \<Longrightarrow> x < 65536 \<Longrightarrow> u16 x = x"
  by (simp add: u16_def)

lemma u8_id [wrap_simps]: "0 \<le> x \<Longrightarrow> x < 256 \<Longrightarrow> u8 x = x"
  by (simp add: u8_def)

lemma u32_range [simp]: "0 \<le> u32 x" "u32 x < 4294967296"
  by (simp_all add: u32_def)

lemma u64_range [simp]: "0 \<le> u64 x" "u64 x < 18446744073709551616"
  by (simp_all add: u64_def)

text \<open>Congruence of the wraps: a sum may be wrapped at every step or once at the end.\<close>

lemma i64_cong: "a mod 18446744073709551616 = b mod 18446744073709551616 \<Longrightarrow> i64 a = i64 b"
  unfolding i64_def by (rule swrap_cong) simp

lemma i64_over:
  assumes "9223372036854775808 \<le> x" "x < 18446744073709551616"
  shows "i64 x = x - 18446744073709551616"
proof -
  have "i64 x = i64 (x - 18446744073709551616)"
    unfolding i64_def by (rule swrap_cong) simp
  then show ?thesis using assms by (simp add: i64_id)
qed

lemma i64_mod: "i64 a mod 18446744073709551616 = a mod 18446744073709551616"
  using swrap_mod [of 9223372036854775808 a] by (simp add: i64_def)

lemma i64_add_i64 [simp]: "i64 (i64 a + b) = i64 (a + b)" "i64 (a + i64 b) = i64 (a + b)"
  by (simp_all add: i64_def swrap_add)

lemma i64_diff_i64 [simp]: "i64 (i64 a - b) = i64 (a - b)" "i64 (a - i64 b) = i64 (a - b)"
  by (simp_all add: i64_def swrap_diff)

lemma i64_i64 [simp]: "i64 (i64 a) = i64 a"
  by (simp add: i64_in_i64)

lemma i64_add_cong: "i64 a = i64 b \<Longrightarrow> i64 (a + c) = i64 (b + c)"
  by (metis i64_add_i64(1))

lemma i64_addL_cong: "i64 a = i64 b \<Longrightarrow> i64 (c + a) = i64 (c + b)"
  by (metis i64_add_i64(2))

lemma i64_minus [simp]: "i64 (- i64 a) = i64 (- a)"
  using i64_diff_i64(2) [of 0 a] by simp

lemma u64_add_u64 [simp]: "u64 (u64 a + b) = u64 (a + b)" "u64 (a + u64 b) = u64 (a + b)"
  by (simp_all add: u64_def mod_simps)

lemma u64_diff_u64 [simp]: "u64 (u64 a - b) = u64 (a - b)" "u64 (a - u64 b) = u64 (a - b)"
  by (simp_all add: u64_def mod_simps)

lemma u64_i64 [simp]: "u64 (i64 a) = u64 a"
  by (simp add: u64_def i64_mod)

lemma i64_u64 [simp]: "i64 (u64 a) = i64 a"
  by (rule i64_cong) (simp add: u64_def)

lemma i64_minus_u64: "i64 (x + (y - u64 z)) = i64 (x + (y - z))"
proof -
  have "i64 ((x + y) - i64 (u64 z)) = i64 ((x + y) - i64 z)" by (simp only: i64_u64)
  then show ?thesis unfolding i64_diff_i64 by (simp add: algebra_simps)
qed

text \<open>A wrap changes a value by a multiple of the modulus.\<close>

lemma i64_off: "\<exists>k. i64 x = x + k * 18446744073709551616"
proof -
  have "(i64 x - x) mod 18446744073709551616 = 0"
    using i64_mod [of x] by (simp add: mod_eq_dvd_iff mod_0_imp_dvd)
  then obtain k where "i64 x - x = 18446744073709551616 * k" by (auto simp: mod_eq_0_iff_dvd dvd_def)
  then show ?thesis by (intro exI [of _ k]) simp
qed

lemma i64_shift: "a = b + k * 18446744073709551616 \<Longrightarrow> i64 a = i64 b"
  by (rule i64_cong) simp

lemma u64_off: "\<exists>k. u64 x = x + k * 18446744073709551616"
  unfolding u64_def by (rule exI [of _ "- (x div 18446744073709551616)"]) (simp add: minus_div_mult_eq_mod [symmetric])

text \<open>Division of C++ truncates towards zero.\<close>

definition tdiv :: "int \<Rightarrow> int \<Rightarrow> int" where
  "tdiv a b = sgn a * sgn b * (\<bar>a\<bar> div \<bar>b\<bar>)"

definition tmod :: "int \<Rightarrow> int \<Rightarrow> int" where
  "tmod a b = a - tdiv a b * b"

lemma tdiv_nonneg [simp]: "0 \<le> a \<Longrightarrow> 0 < b \<Longrightarrow> tdiv a b = a div b"
  by (cases "a = 0") (simp_all add: tdiv_def)

lemma tmod_nonneg: "0 \<le> a \<Longrightarrow> 0 < b \<Longrightarrow> tmod a b = a mod b"
  by (simp add: tmod_def minus_div_mult_eq_mod)

lemma tdiv_neg: "a \<le> 0 \<Longrightarrow> 0 < b \<Longrightarrow> tdiv a b = - ((- a) div b)"
  by (cases "a = 0") (simp_all add: tdiv_def)

lemma tdiv_bound:
  assumes "0 < b" "0 \<le> a" "a \<le> c * b"
  shows "0 \<le> tdiv a b" and "tdiv a b \<le> c"
proof -
  show "0 \<le> tdiv a b" using assms by (simp add: pos_imp_zdiv_nonneg_iff)
  have "a div b \<le> (c * b) div b" using assms by (intro zdiv_mono1) auto
  then show "tdiv a b \<le> c" using assms by simp
qed

lemma div_mult_le: "0 < c \<Longrightarrow> (a :: int) div c * c \<le> a"
  using div_mult_mod_eq [of a c] pos_mod_sign [of c a] by linarith

text \<open>A multiply-and-divide through \<open>uint128_t\<close>, narrowed to \<open>int64_t\<close>.\<close>

definition muldiv :: "int \<Rightarrow> int \<Rightarrow> int \<Rightarrow> int" where
  "muldiv a b c = i64 (u128 (u128 a * u128 b) div u128 c)"

lemma muldiv_small:
  assumes "0 \<le> a" "0 \<le> b" "0 < c" "a < 18446744073709551616" "b < 18446744073709551616"
    and "c < 18446744073709551616" and "a * b div c \<le> 9223372036854775807"
  shows "muldiv a b c = a * b div c"
proof -
  have "a * b \<le> 18446744073709551615 * 18446744073709551615"
    using assms by (intro mult_mono) auto
  then have "a * b < 340282366920938463463374607431768211456" by simp
  moreover have "0 \<le> a * b" using assms by simp
  moreover have "0 \<le> a * b div c" using assms by (simp add: pos_imp_zdiv_nonneg_iff)
  ultimately show ?thesis using assms by (simp add: muldiv_def u128_id i64_id)
qed

section \<open>Tables: finite maps and their sums\<close>

text \<open>The rows in primary-key order, as iteration over a \<open>multi_index\<close> gives them.\<close>

definition rows :: "('k::linorder, 'v) fmap \<Rightarrow> ('k \<times> 'v) list" where
  "rows t = sorted_list_of_fmap t"

definition table_sum :: "('v \<Rightarrow> int) \<Rightarrow> ('k, 'v) fmap \<Rightarrow> int" where
  "table_sum f t = (\<Sum>k \<in> fset (fmdom t). f (the (fmlookup t k)))"

definition row_val :: "('v \<Rightarrow> int) \<Rightarrow> ('k, 'v) fmap \<Rightarrow> 'k \<Rightarrow> int" where
  "row_val f t k = (case fmlookup t k of None \<Rightarrow> 0 | Some v \<Rightarrow> f v)"

lemma row_val_simps [simp]:
  "fmlookup t k = None \<Longrightarrow> row_val f t k = 0"
  "fmlookup t k = Some v \<Longrightarrow> row_val f t k = f v"
  by (simp_all add: row_val_def)

lemma table_sum_empty [simp]: "table_sum f fmempty = 0"
  by (simp add: table_sum_def)

lemma table_sum_upd: "table_sum f (fmupd k v t) = table_sum f t + f v - row_val f t k"
proof -
  let ?D = "fset (fmdom t)"
  have rest: "(\<Sum>j \<in> ?D - {k}. f (the (fmlookup (fmupd k v t) j))) =
      (\<Sum>j \<in> ?D - {k}. f (the (fmlookup t j)))"
  proof (rule sum.cong)
    fix j assume "j \<in> ?D - {k}"
    then have "k \<noteq> j" by auto
    then show "f (the (fmlookup (fmupd k v t) j)) = f (the (fmlookup t j))" by simp
  qed simp
  have new: "table_sum f (fmupd k v t) = f v + (\<Sum>j \<in> ?D - {k}. f (the (fmlookup t j)))"
    by (simp add: table_sum_def sum.insert_remove rest del: fmupd_lookup) simp
  show ?thesis
  proof (cases "fmlookup t k")
    case None
    then have "k \<notin> ?D" by (simp add: fmdom_notI)
    then show ?thesis using new None by (simp add: table_sum_def)
  next
    case (Some w)
    then have "k \<in> ?D" by (simp add: fmdomI)
    then have "table_sum f t = f w + (\<Sum>j \<in> ?D - {k}. f (the (fmlookup t j)))"
      by (simp add: table_sum_def sum.remove [of _ k] Some)
    then show ?thesis using new Some by simp
  qed
qed

lemma table_sum_drop: "table_sum f (fmdrop k t) = table_sum f t - row_val f t k"
proof (cases "fmlookup t k")
  case None
  then have "fmdrop k t = t" by (intro fmap_ext) auto
  then show ?thesis using None by simp
next
  case (Some w)
  then have "k \<in> fset (fmdom t)" by (simp add: fmdomI)
  moreover have "(\<Sum>j \<in> fset (fmdom t) - {k}. f (the (fmlookup (fmdrop k t) j))) =
      (\<Sum>j \<in> fset (fmdom t) - {k}. f (the (fmlookup t j)))"
    by (rule sum.cong) auto
  ultimately show ?thesis
    using Some by (simp add: table_sum_def sum.remove [of _ k])
qed

lemma table_sum_nonneg:
  "(\<And>k v. fmlookup t k = Some v \<Longrightarrow> 0 \<le> f v) \<Longrightarrow> 0 \<le> table_sum f t"
  unfolding table_sum_def by (intro sum_nonneg) (auto elim!: fmdomE)

lemma row_le_table_sum:
  assumes nn: "\<And>k v. fmlookup t k = Some v \<Longrightarrow> 0 \<le> f v" and k: "fmlookup t k = Some v"
  shows "f v \<le> table_sum f t"
proof -
  have "0 \<le> table_sum f (fmdrop k t)" by (rule table_sum_nonneg) (auto split: if_splits dest: nn)
  then show ?thesis using k by (simp add: table_sum_drop)
qed

lemma rows_upd_lookup: "(k, v) \<in> set (rows t) \<longleftrightarrow> fmlookup t k = Some v"
proof -
  have "(k, v) \<in> set (rows t) \<longleftrightarrow> k \<in> fset (fmdom t) \<and> v = the (fmlookup t k)"
    by (auto simp: rows_def sorted_list_of_fmap_def)
  also have "\<dots> \<longleftrightarrow> fmlookup t k = Some v"
    by (auto simp: fmdomI)
  finally show ?thesis .
qed

end
