(* ===== verification/Float64.thy ===== *)
theory Float64
  imports Prelude
begin

text \<open>
  The type \<open>double\<close> of the source: IEEE-754 binary64 with round-to-nearest-even, executable.
  A finite double is the rational it denotes; every arithmetic operation computes the exact
  rational result and rounds it (\<open>rnd\<close>). The two zeros of the format are one value here: the
  contract never divides by a double that can be a negative zero, and no other operation it
  uses tells them apart. NaNs are one value as well.
\<close>

section \<open>Powers of two and binades\<close>

function ilog2 :: "int \<Rightarrow> int" where
  "ilog2 n = (if n < 2 then 0 else 1 + ilog2 (n div 2))"
  by pat_completeness auto
termination
  by (relation "measure nat") auto

declare ilog2.simps [simp del]

definition two_pow :: "int \<Rightarrow> rat" where
  "two_pow k = (if 0 \<le> k then 2 ^ nat k else 1 / 2 ^ nat (- k))"

text \<open>Binary powering, so that \<open>two_pow\<close> evaluates on exponents in the thousands.\<close>

function pow2i :: "int \<Rightarrow> int" where
  "pow2i k = (if k \<le> 0 then 1 else if even k then (let h = pow2i (k div 2) in h * h)
     else 2 * pow2i (k - 1))"
  by pat_completeness auto
termination
  by (relation "measure nat") auto

declare pow2i.simps [simp del]

lemma pow2i: "pow2i k = 2 ^ nat k"
proof (induction k rule: pow2i.induct)
  case (1 k)
  show ?case
  proof (cases "k \<le> 0")
    case True
    then show ?thesis by (simp add: pow2i.simps)
  next
    case pos: False
    show ?thesis
    proof (cases "even k")
      case True
      then have "nat k = nat (k div 2) + nat (k div 2)" using pos by (auto elim!: evenE)
      then show ?thesis
        using 1(1) [OF pos True] pos True by (simp add: pow2i.simps [of k] Let_def power_add)
    next
      case False
      have "nat k = Suc (nat (k - 1))" using pos by arith
      then show ?thesis using 1(2) [OF pos False] pos False by (simp add: pow2i.simps [of k])
    qed
  qed
qed

lemma two_pow_code [code]:
  "two_pow k = (if 0 \<le> k then of_int (pow2i k) else 1 / of_int (pow2i (- k)))"
  by (simp add: two_pow_def pow2i)

lemma two_pow_pos [simp]: "0 < two_pow k"
  by (simp add: two_pow_def)

lemma two_pow_nz [simp]: "two_pow k \<noteq> 0"
  using two_pow_pos [of k] by (metis less_irrefl)

lemma two_pow_nonneg [simp]: "0 \<le> two_pow k"
  by (simp add: less_imp_le)

lemma abs_two_pow [simp]: "\<bar>two_pow k\<bar> = two_pow k"
  by simp

lemma two_pow_53: "two_pow 53 = 9007199254740992"
  by (simp add: two_pow_def)

lemma two_pow_nat: "two_pow (int n) = 2 ^ n"
  by (simp add: two_pow_def)

lemma two_pow_add: "two_pow (a + b) = two_pow a * two_pow b"
proof -
  have eq: "two_pow (int m - int n) = 2 ^ m / 2 ^ n" for m n
  proof (cases "n \<le> m")
    case True
    then show ?thesis by (simp add: two_pow_def power_diff nat_diff_distrib')
  next
    case False
    then have "nat (int n - int m) = n - m" by simp
    with False show ?thesis by (simp add: two_pow_def power_diff)
  qed
  obtain m n p q where "a = int m - int n" "b = int p - int q"
    by (metis int_diff_cases)
  moreover from this have "a + b = int (m + p) - int (n + q)" by simp
  ultimately show ?thesis by (simp only: eq) (simp add: power_add)
qed

lemma two_pow_diff: "two_pow (a - b) = two_pow a / two_pow b"
proof -
  have "two_pow a = two_pow (a - b) * two_pow b" by (simp flip: two_pow_add)
  then show ?thesis by simp
qed

lemma two_pow_1: "two_pow (a + 1) = 2 * two_pow a"
  by (simp add: two_pow_add) (simp add: two_pow_def)

lemma two_pow_mono: "a \<le> b \<Longrightarrow> two_pow a \<le> two_pow b"
proof -
  assume "a \<le> b"
  then have "two_pow b = two_pow a * 2 ^ nat (b - a)"
    using two_pow_add [of a "b - a"] by (simp add: two_pow_def)
  moreover have "(1::rat) \<le> 2 ^ nat (b - a)" by simp
  ultimately show ?thesis using two_pow_pos [of a] by simp
qed

lemma two_pow_less_iff: "two_pow a < two_pow b \<longleftrightarrow> a < b"
proof
  show "a < b \<Longrightarrow> two_pow a < two_pow b"
    using two_pow_mono [of "a + 1" b] two_pow_pos [of a] unfolding two_pow_1 by linarith
  show "two_pow a < two_pow b \<Longrightarrow> a < b"
    using two_pow_mono [of b a] by (cases "a < b") simp_all
qed

lemma two_pow_of_int: "0 \<le> k \<Longrightarrow> two_pow k = of_int (2 ^ nat k)"
  by (simp add: two_pow_def)

lemma ilog2_spec: "0 < n \<Longrightarrow> 0 \<le> ilog2 n \<and> 2 ^ nat (ilog2 n) \<le> n \<and> n < 2 ^ Suc (nat (ilog2 n))"
proof (induction n rule: ilog2.induct)
  case (1 n)
  show ?case
  proof (cases "n < 2")
    case True
    with 1 show ?thesis by (simp add: ilog2.simps)
  next
    case False
    then have IH: "0 \<le> ilog2 (n div 2)" "2 ^ nat (ilog2 (n div 2)) \<le> n div 2"
      "n div 2 < 2 ^ Suc (nat (ilog2 (n div 2)))"
      using 1 by auto
    have "nat (ilog2 n) = Suc (nat (ilog2 (n div 2)))" "0 \<le> ilog2 n"
      using False IH(1) by (simp_all add: ilog2.simps [of n] nat_add_distrib)
    moreover have "2 * 2 ^ nat (ilog2 (n div 2)) \<le> n" "n < 2 * (2 * 2 ^ nat (ilog2 (n div 2)))"
      using IH(2,3) unfolding power_Suc by linarith+
    ultimately show ?thesis by simp
  qed
qed

lemma two_pow_ilog2:
  assumes "0 < n"
  shows "two_pow (ilog2 n) \<le> of_int n" and "of_int n < two_pow (ilog2 n + 1)"
proof -
  note spec = ilog2_spec [OF assms]
  have "(of_int (2 ^ nat (ilog2 n)) :: rat) \<le> of_int n"
    using spec by (simp only: of_int_le_iff)
  then show "two_pow (ilog2 n) \<le> of_int n" using spec by (simp only: two_pow_of_int)
  have "(of_int n :: rat) < of_int (2 ^ Suc (nat (ilog2 n)))"
    using spec by (simp only: of_int_less_iff)
  moreover have "nat (ilog2 n + 1) = Suc (nat (ilog2 n))" using spec by (simp add: nat_add_distrib)
  ultimately show "of_int n < two_pow (ilog2 n + 1)"
    using spec two_pow_of_int [of "ilog2 n + 1"] by simp
qed

definition binade :: "rat \<Rightarrow> int" where
  "binade x = (case quotient_of x of (n, d) \<Rightarrow>
     let k = ilog2 n - ilog2 d in if two_pow k \<le> x then k else k - 1)"

lemma binade_spec:
  assumes "0 < x"
  shows "two_pow (binade x) \<le> x" and "x < two_pow (binade x + 1)"
proof -
  obtain n d where q: "quotient_of x = (n, d)" by (cases "quotient_of x")
  have d: "0 < d" using quotient_of_denom_pos [OF q] .
  have x: "x = of_int n / of_int d" using quotient_of_div [OF q] .
  have n: "0 < n" using assms d by (simp add: x zero_less_divide_iff)
  define i j where "i = ilog2 n" and "j = ilog2 d"
  note i = two_pow_ilog2 [OF n, folded i_def] and j = two_pow_ilog2 [OF d, folded j_def]
  have lo: "two_pow (i - j - 1) \<le> x"
  proof -
    have "two_pow (i - j - 1) = two_pow i / two_pow (j + 1)"
      by (simp add: algebra_simps flip: two_pow_diff)
    also have "\<dots> \<le> of_int n / of_int d"
      using i j d n by (intro frac_le) auto
    finally show ?thesis by (simp add: x)
  qed
  have hi: "x < two_pow (i - j + 1)"
  proof -
    have "of_int n / of_int d < two_pow (i + 1) / two_pow j"
      using i j d n by (intro frac_less) auto
    also have "\<dots> = two_pow (i - j + 1)"
      by (simp add: algebra_simps flip: two_pow_diff)
    finally show ?thesis by (simp add: x)
  qed
  have b: "binade x = (if two_pow (i - j) \<le> x then i - j else i - j - 1)"
    by (simp add: binade_def q i_def j_def Let_def)
  show "two_pow (binade x) \<le> x" using lo by (simp add: b)
  show "x < two_pow (binade x + 1)" using hi by (simp add: b not_le)
qed

lemma binade_le: "0 < x \<Longrightarrow> x < two_pow (k + 1) \<Longrightarrow> binade x \<le> k"
  using binade_spec(1) [of x] two_pow_less_iff [of "binade x" "k + 1"] by simp

lemma binade_ge: "two_pow k \<le> x \<Longrightarrow> k \<le> binade x"
proof -
  assume k: "two_pow k \<le> x"
  then have "0 < x" using two_pow_pos [of k] by linarith
  then have "two_pow k < two_pow (binade x + 1)" using binade_spec(2) k by fastforce
  then show ?thesis by (simp add: two_pow_less_iff)
qed

lemma binade_mono: "0 < x \<Longrightarrow> x \<le> y \<Longrightarrow> binade x \<le> binade y"
  by (rule binade_ge) (use binade_spec(1) [of x] in simp)

section \<open>Rounding to nearest, ties to even\<close>

definition rne :: "rat \<Rightarrow> int" where
  "rne x = (let f = \<lfloor>x\<rfloor>; r = x - of_int f in
     if r < 1/2 then f else if r > 1/2 then f + 1 else if even f then f else f + 1)"

lemma rne_of_int [simp]: "rne (of_int n) = n"
  by (simp add: rne_def)

lemma rne_bounds: "\<lfloor>x\<rfloor> \<le> rne x" "rne x \<le> \<lfloor>x\<rfloor> + 1"
  by (simp_all add: rne_def Let_def)

lemma rne_error: "\<bar>of_int (rne x) - x\<bar> \<le> 1/2"
  using floor_correct [of x] by (auto simp: rne_def Let_def abs_le_iff)

lemma rne_mono: "x \<le> y \<Longrightarrow> rne x \<le> rne y"
proof -
  assume xy: "x \<le> y"
  show ?thesis
  proof (cases "\<lfloor>x\<rfloor> = \<lfloor>y\<rfloor>")
    case True
    with xy show ?thesis by (simp add: rne_def Let_def)
  next
    case False
    then have "\<lfloor>x\<rfloor> + 1 \<le> \<lfloor>y\<rfloor>" using floor_mono [OF xy] by simp
    then show ?thesis using rne_bounds [of x] rne_bounds [of y] by linarith
  qed
qed

lemma rne_le_int: "x \<le> of_int n \<Longrightarrow> rne x \<le> n"
  using rne_mono [of x "of_int n"] by simp

lemma rne_ge_int: "of_int n \<le> x \<Longrightarrow> n \<le> rne x"
  using rne_mono [of "of_int n" x] by simp

lemma rne_minus: "rne (- x) = - rne x"
proof (cases "x = of_int \<lfloor>x\<rfloor>")
  case True
  then show ?thesis by (metis of_int_minus rne_of_int)
next
  case False
  then have "\<lceil>x\<rceil> = \<lfloor>x\<rfloor> + 1" by (simp add: ceiling_altdef)
  then have "\<lfloor>- x\<rfloor> = - \<lfloor>x\<rfloor> - 1" by (simp add: floor_minus)
  then show ?thesis by (auto simp: rne_def Let_def)
qed

text \<open>The exponent of the last place of a double near \<open>x\<close>: 53 bits, not below the subnormals.\<close>

definition fexp :: "rat \<Rightarrow> int" where
  "fexp x = max (binade \<bar>x\<bar> - 52) (- 1074)"

definition rnd_rat :: "rat \<Rightarrow> rat" where
  "rnd_rat x = (if x = 0 then 0 else
     let e = fexp x in of_int (rne (x / two_pow e)) * two_pow e)"

lemma rnd_rat_0 [simp]: "rnd_rat 0 = 0"
  by (simp add: rnd_rat_def)

lemma rnd_rat_minus: "rnd_rat (- x) = - rnd_rat x"
  by (simp add: rnd_rat_def fexp_def Let_def rne_minus)

lemma rnd_rat_nonneg: "0 \<le> x \<Longrightarrow> 0 \<le> rnd_rat x"
  using rne_ge_int [of 0 "x / two_pow (fexp x)"]
  by (simp add: rnd_rat_def Let_def less_imp_le)

lemma rnd_rat_pos_mono:
  assumes "0 < x" "x \<le> y"
  shows "rnd_rat x \<le> rnd_rat y"
proof (cases "fexp x = fexp y")
  case True
  have "x / two_pow (fexp y) \<le> y / two_pow (fexp y)"
    using assms by (simp add: divide_right_mono less_imp_le)
  then have "rne (x / two_pow (fexp y)) \<le> rne (y / two_pow (fexp y))" by (rule rne_mono)
  with True assms show ?thesis by (simp add: rnd_rat_def Let_def less_imp_le)
next
  case False
  define e f where "e = fexp x" and "f = fexp y"
  have "binade x \<le> binade y" using assms by (intro binade_mono)
  with False assms have ef: "e < f" "f = binade y - 52" "binade x < binade y" "e + 52 < binade y"
    by (auto simp: e_def f_def fexp_def)
  define N :: int where "N = 2 ^ nat (binade y - e)"
  have N: "of_int N * two_pow e = two_pow (binade y)"
  proof -
    have "of_int N = two_pow (binade y - e)" using ef by (simp add: N_def two_pow_of_int)
    then show ?thesis by (simp flip: two_pow_add)
  qed
  have "x \<le> two_pow (binade y)"
    using binade_spec(2) [of x] two_pow_mono [of "binade x + 1" "binade y"] assms ef by simp
  then have "x / two_pow e \<le> of_int N" by (simp add: divide_le_eq N)
  then have "rne (x / two_pow e) \<le> N" by (rule rne_le_int)
  then have "rnd_rat x \<le> of_int N * two_pow e"
    using assms by (simp add: rnd_rat_def Let_def less_imp_le flip: e_def)
  also have "\<dots> = of_int (2 ^ nat 52) * two_pow f"
  proof -
    have "two_pow (binade y) = two_pow 52 * two_pow f" using ef by (simp flip: two_pow_add)
    then show ?thesis unfolding N by (simp add: two_pow_of_int)
  qed
  also have "\<dots> \<le> rnd_rat y"
  proof -
    have "two_pow 52 \<le> y / two_pow f"
      using binade_spec(1) [of y] assms ef by (simp add: le_divide_eq flip: two_pow_add)
    then have "of_int (2 ^ nat 52) \<le> y / two_pow f" by (simp add: two_pow_of_int)
    then have "2 ^ nat 52 \<le> rne (y / two_pow f)" by (rule rne_ge_int)
    then have "of_int (2 ^ nat 52) \<le> (of_int (rne (y / two_pow f)) :: rat)"
      by (simp only: of_int_le_iff)
    then show ?thesis using assms by (simp add: rnd_rat_def Let_def flip: f_def)
  qed
  finally show ?thesis .
qed

lemma rnd_rat_mono: "x \<le> y \<Longrightarrow> rnd_rat x \<le> rnd_rat y"
proof -
  assume xy: "x \<le> y"
  consider "0 < x" | "x \<le> 0" "0 \<le> y" | "y < 0" using xy by linarith
  then show ?thesis
  proof cases
    case 1
    then show ?thesis using xy by (rule rnd_rat_pos_mono)
  next
    case 2
    then show ?thesis
      using rnd_rat_nonneg [of y] rnd_rat_nonneg [of "- x"] by (simp add: rnd_rat_minus)
  next
    case 3
    then show ?thesis
      using rnd_rat_pos_mono [of "- y" "- x"] xy by (simp add: rnd_rat_minus)
  qed
qed

text \<open>Numbers with at most 53 significant bits are doubles: rounding leaves them alone.\<close>

lemma rnd_rat_exact_lt:
  assumes "\<bar>m\<bar> < 2 ^ 53" "- 1074 \<le> e"
  shows "rnd_rat (of_int m * two_pow e) = of_int m * two_pow e"
proof (cases "m = 0")
  case False
  define x where "x = of_int m * two_pow e"
  have ax: "\<bar>x\<bar> = of_int \<bar>m\<bar> * two_pow e" by (simp add: x_def abs_mult less_imp_le)
  have nz: "x \<noteq> 0" using False by (simp add: x_def)
  have "(of_int \<bar>m\<bar> :: rat) < of_int (2 ^ 53)" using assms(1) by (simp only: of_int_less_iff)
  also have "of_int (2 ^ 53) = two_pow 53" by (simp add: two_pow_def)
  finally have "\<bar>x\<bar> < two_pow 53 * two_pow e"
    unfolding ax by (rule mult_strict_right_mono) simp
  then have "\<bar>x\<bar> < two_pow (e + 52 + 1)" by (simp add: add.commute flip: two_pow_add)
  then have "binade \<bar>x\<bar> \<le> e + 52" using nz by (intro binade_le) auto
  then have f: "fexp x \<le> e" using assms(2) by (simp add: fexp_def)
  then have "x / two_pow (fexp x) = of_int (m * 2 ^ nat (e - fexp x))"
    by (simp add: x_def two_pow_of_int two_pow_diff [symmetric] flip: times_divide_eq_right)
  then have "of_int (rne (x / two_pow (fexp x))) = x / two_pow (fexp x)"
    by (simp only: rne_of_int)
  then show ?thesis using nz by (simp add: rnd_rat_def Let_def flip: x_def)
qed simp

lemma rnd_rat_exact:
  assumes "\<bar>m\<bar> \<le> 2 ^ 53" "- 1074 \<le> e"
  shows "rnd_rat (of_int m * two_pow e) = of_int m * two_pow e"
proof (cases "\<bar>m\<bar> = 2 ^ 53")
  case True
  then have m: "m = sgn m * 2 ^ 53" by (metis mult_sgn_abs mult.commute)
  have "of_int m * two_pow e = of_int (sgn m) * two_pow (53 + e)"
    by (subst m) (simp add: two_pow_add two_pow_53)
  then show ?thesis
    using rnd_rat_exact_lt [of "sgn m" "53 + e"] assms(2) by (auto simp: sgn_if)
next
  case False
  then show ?thesis using rnd_rat_exact_lt [of m e] assms by simp
qed

lemma rnd_rat_int: "\<bar>m\<bar> \<le> 9007199254740992 \<Longrightarrow> rnd_rat (of_int m) = of_int m"
  using rnd_rat_exact [of m 0] by (simp add: two_pow_def)

lemma rnd_rat_two_pow: "- 1074 \<le> k \<Longrightarrow> rnd_rat (two_pow k) = two_pow k"
  using rnd_rat_exact [of 1 k] by simp

lemma rnd_rat_error: "x \<noteq> 0 \<Longrightarrow> \<bar>rnd_rat x - x\<bar> \<le> two_pow (fexp x) / 2"
proof -
  assume nz: "x \<noteq> 0"
  define e where "e = fexp x"
  have "rnd_rat x - x = (of_int (rne (x / two_pow e)) - x / two_pow e) * two_pow e"
    using nz by (simp add: rnd_rat_def Let_def left_diff_distrib flip: e_def)
  then have "\<bar>rnd_rat x - x\<bar> = \<bar>of_int (rne (x / two_pow e)) - x / two_pow e\<bar> * two_pow e"
    by (simp add: abs_mult)
  also have "\<dots> \<le> 1/2 * two_pow e"
    by (intro mult_right_mono rne_error) (simp add: less_imp_le)
  finally show ?thesis by (simp add: e_def)
qed

text \<open>Half a unit in the last place, relative to the number, above the subnormals.\<close>

lemma rnd_rat_rel_error:
  assumes "two_pow (- 1022) \<le> x"
  shows "\<bar>rnd_rat x - x\<bar> \<le> x / 9007199254740992"
proof -
  have x: "0 < x" using assms two_pow_pos [of "- 1022"] by linarith
  have "- 1022 \<le> binade x" using assms by (rule binade_ge)
  then have "fexp x = binade x - 52" using x by (simp add: fexp_def)
  then have "two_pow (fexp x) / 2 = two_pow (binade x) / two_pow 53"
    using two_pow_diff [of "binade x" 52] by (simp add: two_pow_def)
  also have "\<dots> \<le> x / two_pow 53"
    using binade_spec(1) [OF x] by (intro divide_right_mono) auto
  finally show ?thesis using rnd_rat_error [of x] x by (simp add: two_pow_53)
qed

section \<open>The rounding interface\<close>

text \<open>
  What the contract's arithmetic relies on: rounding is monotone, leaves integers of at most 53
  bits alone and has a relative error of at most half a unit in the last place. Facts about
  rounded products and quotients are proved from these laws alone.
\<close>

locale rounding =
  fixes rd :: "rat \<Rightarrow> rat"
  assumes rd_mono: "x \<le> y \<Longrightarrow> rd x \<le> rd y"
    and rd_int: "\<bar>m\<bar> \<le> 9007199254740992 \<Longrightarrow> rd (of_int m) = of_int m"
    and rd_error: "two_pow (- 1022) \<le> x \<Longrightarrow> \<bar>rd x - x\<bar> \<le> x / 9007199254740992"
begin

lemma rd_nonneg: "0 \<le> x \<Longrightarrow> 0 \<le> rd x"
  using rd_mono [of 0 x] rd_int [of 0] by simp

lemma rd_le_int: "x \<le> of_int m \<Longrightarrow> \<bar>m\<bar> \<le> 9007199254740992 \<Longrightarrow> rd x \<le> of_int m"
  using rd_mono [of x "of_int m"] rd_int [of m] by simp

lemma rd_ge_int: "of_int m \<le> x \<Longrightarrow> \<bar>m\<bar> \<le> 9007199254740992 \<Longrightarrow> of_int m \<le> rd x"
  using rd_mono [of "of_int m" x] rd_int [of m] by simp

lemma rd_error_int_frac:
  assumes "0 \<le> p" "0 < d" "d \<le> 9007199254740992"
  shows "\<bar>rd (of_int p / of_int d) - of_int p / of_int d\<bar> \<le> of_int p / of_int d / 9007199254740992"
proof (cases "p = 0")
  case True
  then show ?thesis using rd_int [of 0] by simp
next
  case False
  have "two_pow (- 1022) \<le> two_pow (- 53)" by (rule two_pow_mono) simp
  also have "\<dots> = 1 / 9007199254740992" by (simp add: two_pow_def)
  also have "\<dots> \<le> 1 / of_int d"
  proof -
    have "(of_int d :: rat) \<le> of_int 9007199254740992" using assms by (simp only: of_int_le_iff)
    then show ?thesis using assms by (intro divide_left_mono) simp_all
  qed
  also have "\<dots> \<le> of_int p / of_int d"
    using assms False by (intro divide_right_mono) simp_all
  finally show ?thesis by (rule rd_error)
qed

text \<open>A quotient of integers whose numerator is below \<open>2 ^ 53\<close> truncates to the exact floor.\<close>

lemma rd_quotient_floor:
  assumes p: "0 \<le> p" "p < 9007199254740992" and d: "0 < d" "d \<le> 9007199254740992"
  shows "\<lfloor>rd (of_int p / of_int d)\<rfloor> = p div d"
proof -
  define q :: rat where "q = of_int p / of_int d"
  define N where "N = p div d"
  have dr: "(0::rat) < of_int d" using d by simp
  have Nd: "N * d \<le> p" "p + 1 \<le> (N + 1) * d"
  proof -
    have "p = N * d + p mod d" unfolding N_def by simp
    moreover have "0 \<le> p mod d" "p mod d < d" using d by simp_all
    moreover have "(N + 1) * d = N * d + d" by (simp add: algebra_simps)
    ultimately show "N * d \<le> p" "p + 1 \<le> (N + 1) * d" by linarith+
  qed
  have N: "0 \<le> N" "N \<le> 9007199254740992"
    unfolding N_def using p d zdiv_mono2 [of p 1 d] by (simp_all add: pos_imp_zdiv_nonneg_iff)
  have "of_int N \<le> q"
    using Nd(1) dr unfolding q_def by (simp add: le_divide_eq flip: of_int_mult)
  then have lo: "of_int N \<le> rd q" using N by (intro rd_ge_int) auto
  have "rd q \<le> q + q / 9007199254740992"
    using rd_error_int_frac [of p d] p d unfolding q_def by linarith
  also have "\<dots> < q + 1 / of_int d"
  proof -
    have "(of_int p :: rat) < 9007199254740992" using p of_int_less_iff [of p 9007199254740992, where 'a = rat] by simp
    then show ?thesis using dr unfolding q_def by (simp add: divide_less_eq field_simps)
  qed
  also have "\<dots> \<le> of_int (N + 1)"
  proof -
    have "(of_int (p + 1) :: rat) \<le> of_int ((N + 1) * d)" using Nd(2) by (simp only: of_int_le_iff)
    then show ?thesis using dr unfolding q_def by (simp add: field_simps)
  qed
  finally show ?thesis using lo by (simp add: floor_eq_iff q_def N_def)
qed

end

interpretation rne64: rounding rnd_rat
  by unfold_locales (fact rnd_rat_mono rnd_rat_int rnd_rat_rel_error)+

section \<open>Doubles\<close>

datatype f64 = Fin rat | PInf | NInf | NaN

definition rnd :: "rat \<Rightarrow> f64" where
  "rnd x = (let r = rnd_rat x in
     if two_pow 1024 \<le> r then PInf else if r \<le> - two_pow 1024 then NInf else Fin r)"

fun f64_add :: "f64 \<Rightarrow> f64 \<Rightarrow> f64" where
  "f64_add (Fin a) (Fin b) = rnd (a + b)"
| "f64_add PInf (Fin _) = PInf"
| "f64_add (Fin _) PInf = PInf"
| "f64_add PInf PInf = PInf"
| "f64_add NInf (Fin _) = NInf"
| "f64_add (Fin _) NInf = NInf"
| "f64_add NInf NInf = NInf"
| "f64_add _ _ = NaN"

fun f64_neg :: "f64 \<Rightarrow> f64" where
  "f64_neg (Fin a) = Fin (- a)"
| "f64_neg PInf = NInf"
| "f64_neg NInf = PInf"
| "f64_neg NaN = NaN"

definition inf_sgn :: "rat \<Rightarrow> f64" where
  "inf_sgn s = (if 0 < s then PInf else if s < 0 then NInf else NaN)"

fun f64_mul :: "f64 \<Rightarrow> f64 \<Rightarrow> f64" where
  "f64_mul (Fin a) (Fin b) = rnd (a * b)"
| "f64_mul NaN _ = NaN"
| "f64_mul _ NaN = NaN"
| "f64_mul PInf (Fin b) = inf_sgn b"
| "f64_mul (Fin a) PInf = inf_sgn a"
| "f64_mul NInf (Fin b) = inf_sgn (- b)"
| "f64_mul (Fin a) NInf = inf_sgn (- a)"
| "f64_mul PInf PInf = PInf"
| "f64_mul NInf NInf = PInf"
| "f64_mul _ _ = NInf"

fun f64_div :: "f64 \<Rightarrow> f64 \<Rightarrow> f64" where
  "f64_div (Fin a) (Fin b) = (if b = 0 then inf_sgn a else rnd (a / b))"
| "f64_div NaN _ = NaN"
| "f64_div _ NaN = NaN"
| "f64_div PInf (Fin b) = (if 0 \<le> b then PInf else NInf)"
| "f64_div NInf (Fin b) = (if 0 \<le> b then NInf else PInf)"
| "f64_div (Fin _) _ = Fin 0"
| "f64_div _ _ = NaN"

fun f64_less :: "f64 \<Rightarrow> f64 \<Rightarrow> bool" where
  "f64_less (Fin a) (Fin b) = (a < b)"
| "f64_less (Fin _) PInf = True"
| "f64_less NInf (Fin _) = True"
| "f64_less NInf PInf = True"
| "f64_less _ _ = False"

text \<open>The operator \<open>==\<close> of doubles: equality, except that a NaN equals nothing.\<close>

definition f64_eq :: "f64 \<Rightarrow> f64 \<Rightarrow> bool" where
  "f64_eq a b \<longleftrightarrow> a = b \<and> a \<noteq> NaN"

instantiation f64 :: "{zero, one, plus, minus, uminus, times, inverse, ord}"
begin

definition zero_f64 :: f64 where "0 = Fin 0"
definition one_f64 :: f64 where "1 = Fin 1"
definition plus_f64 :: "f64 \<Rightarrow> f64 \<Rightarrow> f64" where "a + b = f64_add a b"
definition uminus_f64 :: "f64 \<Rightarrow> f64" where "- a = f64_neg a"
definition minus_f64 :: "f64 \<Rightarrow> f64 \<Rightarrow> f64" where "a - b = f64_add a (f64_neg b)"
definition times_f64 :: "f64 \<Rightarrow> f64 \<Rightarrow> f64" where "a * b = f64_mul a b"
definition divide_f64 :: "f64 \<Rightarrow> f64 \<Rightarrow> f64" where "divide a b = f64_div a b"
definition inverse_f64 :: "f64 \<Rightarrow> f64" where "inverse a = f64_div 1 a"
definition less_f64 :: "f64 \<Rightarrow> f64 \<Rightarrow> bool" where "a < b \<longleftrightarrow> f64_less a b"
definition less_eq_f64 :: "f64 \<Rightarrow> f64 \<Rightarrow> bool" where "a \<le> b \<longleftrightarrow> f64_less a b \<or> f64_eq a b"

instance ..

end

text \<open>Conversions: from an integer (rounds), and to \<open>int64_t\<close> (truncates; undefined in C++ when
  the truncated value does not fit, an error of the model).\<close>

definition of_i :: "int \<Rightarrow> f64" where
  "of_i n = rnd (of_int n)"

definition trunc :: "rat \<Rightarrow> int" where
  "trunc q = (if 0 \<le> q then \<lfloor>q\<rfloor> else \<lceil>q\<rceil>)"

definition to_i64 :: "'e \<Rightarrow> f64 \<Rightarrow> 'e + int" where
  "to_i64 e x = (case x of Fin q \<Rightarrow> if in_i64 (trunc q) then Inr (trunc q) else Inl e | _ \<Rightarrow> Inl e)"

definition f64_abs :: "f64 \<Rightarrow> f64" where
  "f64_abs x = (case x of Fin a \<Rightarrow> Fin \<bar>a\<bar> | PInf \<Rightarrow> PInf | NInf \<Rightarrow> PInf | NaN \<Rightarrow> NaN)"

definition f64_ceil :: "f64 \<Rightarrow> f64" where
  "f64_ceil x = (case x of Fin a \<Rightarrow> Fin (of_int \<lceil>a\<rceil>) | y \<Rightarrow> y)"

definition f64_min :: "f64 \<Rightarrow> f64 \<Rightarrow> f64" where
  "f64_min a b = (if b < a then b else a)"

text \<open>A decimal literal of the source, the fraction \<open>n / d\<close> rounded to a double.\<close>

definition f64_lit :: "int \<Rightarrow> int \<Rightarrow> f64" where
  "f64_lit n d = rnd (of_int n / of_int d)"

text \<open>The order of a secondary index on a double: a total order (the platform refuses NaN keys).\<close>

definition f64_rank :: "f64 \<Rightarrow> int \<times> rat" where
  "f64_rank x = (case x of NInf \<Rightarrow> (0, 0) | Fin a \<Rightarrow> (1, a) | PInf \<Rightarrow> (2, 0) | NaN \<Rightarrow> (3, 0))"

definition is_fin :: "f64 \<Rightarrow> bool" where
  "is_fin x = (case x of Fin _ \<Rightarrow> True | _ \<Rightarrow> False)"

lemmas f64_defs = zero_f64_def one_f64_def plus_f64_def uminus_f64_def minus_f64_def
  times_f64_def divide_f64_def less_f64_def less_eq_f64_def f64_eq_def

lemma rnd_fin: "\<bar>x\<bar> \<le> two_pow 1023 \<Longrightarrow> rnd x = Fin (rnd_rat x)"
proof -
  assume x: "\<bar>x\<bar> \<le> two_pow 1023"
  have "rnd_rat x \<le> two_pow 1023" "- two_pow 1023 \<le> rnd_rat x"
    using rnd_rat_mono [of x "two_pow 1023"] rnd_rat_mono [of "- two_pow 1023" x] x
    by (simp_all add: rnd_rat_two_pow rnd_rat_minus abs_le_iff)
  moreover have "two_pow 1023 < two_pow 1024" by (simp add: two_pow_less_iff)
  ultimately show ?thesis by (simp add: rnd_def Let_def)
qed

lemma two_pow_1023_ge: "x \<le> 2 ^ n \<Longrightarrow> n \<le> 1023 \<Longrightarrow> x \<le> two_pow 1023"
  using two_pow_mono [of "int n" 1023] by (simp add: two_pow_nat)

lemma rnd_small:
  assumes "\<bar>x\<bar> \<le> 340282366920938463463374607431768211456"
  shows "rnd x = Fin (rnd_rat x)"
  using assms by (intro rnd_fin two_pow_1023_ge [of _ 128]) simp_all

lemma of_i_exact: "\<bar>n\<bar> \<le> 9007199254740992 \<Longrightarrow> of_i n = Fin (of_int n)"
proof -
  assume n: "\<bar>n\<bar> \<le> 9007199254740992"
  then have "(of_int \<bar>n\<bar> :: rat) \<le> of_int 9007199254740992" by (simp only: of_int_le_iff)
  then have "\<bar>of_int n :: rat\<bar> \<le> 340282366920938463463374607431768211456" by simp
  then show ?thesis using n by (simp add: of_i_def rnd_small rnd_rat_int)
qed

lemma trunc_of_int [simp]: "trunc (of_int n) = n"
  by (simp add: trunc_def)

lemma trunc_nonneg: "0 \<le> q \<Longrightarrow> trunc q = \<lfloor>q\<rfloor>"
  by (simp add: trunc_def)

lemma to_i64_Inr [res_simps]:
  "to_i64 e x = Inr n \<longleftrightarrow> (\<exists>q. x = Fin q \<and> n = trunc q \<and> in_i64 n)"
  by (auto simp: to_i64_def split: f64.splits)

end
