(* ===== verification/Platform.thy ===== *)
theory Platform
  imports Float64 "HOL-Library.Word"
begin

text \<open>
  What the contract uses of the platform it runs on: account names, symbols, assets, the errors
  that abort a transaction, the environment of one action (clock, authorisations, and the
  functions of the EOSIO libraries and host that are not part of this repository, which are
  parameters), and the messages an action sends.
\<close>

unbundle bit_operations_syntax

section \<open>Names\<close>

text \<open>
  An account name is the 64-bit value of \<open>eosio::name\<close>, compared as an unsigned integer; 0 is
  the empty name. The constants are the values of the name literals of class
  \<open>system_contract\<close>.
\<close>

type_synonym name = "64 word"

definition ram_account :: name where "ram_account = 6138663590285017088"
definition ramfee_account :: name where "ramfee_account = 6138663590285202592"
definition stake_account :: name where "stake_account = 6138663591134630912"
definition bpay_account :: name where "bpay_account = 6138663581940940800"
definition vpay_account :: name where "vpay_account = 6138663592678359040"
definition names_account :: name where "names_account = 6138663588137709568"
definition saving_account :: name where "saving_account = 6138663590826845888"
definition rex_account :: name where "rex_account = 6138663590357893120"
definition reserv_account :: name where "reserv_account = 6138663590355447728"
definition srpool_account :: name where "srpool_account = 6138663591109011728"
definition bpspay_account :: name where "bpspay_account = 6138663581950234080"
definition eosio_account :: name where "eosio_account = 6138663577826885632"
definition b1_account :: name where "b1_account = 4053239664633446400"

lemmas account_defs = ram_account_def ramfee_account_def stake_account_def bpay_account_def
  vpay_account_def names_account_def saving_account_def rex_account_def reserv_account_def
  srpool_account_def bpspay_account_def eosio_account_def b1_account_def

section \<open>Symbols and assets\<close>

datatype symbol = Symbol (sym_code: string) (sym_precision: nat)

definition ramcore_symbol :: symbol where "ramcore_symbol = Symbol ''RAMCORE'' 4"
definition ram_symbol :: symbol where "ram_symbol = Symbol ''RAM'' 0"
definition rex_symbol :: symbol where "rex_symbol = Symbol ''REX'' 4"
definition default_symbol :: symbol where "default_symbol = Symbol [] 0"

record asset =
  amount :: int
  asym :: symbol

text \<open>The zero of a symbol, and the default-constructed asset.\<close>

abbreviation asset0 :: "symbol \<Rightarrow> asset" where
  "asset0 s \<equiv> \<lparr>amount = 0, asym = s\<rparr>"

definition default_asset :: asset where
  "default_asset = asset0 default_symbol"

section \<open>Errors\<close>

text \<open>One constructor per failing check, named after its message, grouped by component.\<close>

datatype (plugins only: size) sys_err = Not_initialized | Already_initialized | Unsupported_version
  | Core_symbol_mismatch | Supply_not_positive | Ram_only_increase | Ram_unrealistic
  | Ram_below_reserved | Authority_depth_too_small | Kv_params_not_enabled
  | Only_unlimited_accounts | Managed_resources | Already_unmanaged | Ram_limit_unlimited
  | Invalid_weight | Revision_at_maximum | Revision_not_next | Revision_unsupported
  | Negative_annual_rate | Inflation_factor_too_small | Votepay_factor_too_small
  | No_active_bid | Not_highest_bidder | Auction_not_closed | Only_suffix_may_create
  | Onerror_called_directly

datatype (plugins only: size) ram_err = Must_buy_with_core_token | Must_purchase_positive | Must_reserve_positive
  | Cannot_sell_negative | No_resource_row | Insufficient_quota | Sell_amount_too_low
  | Unstake_more_than_staked | Same_symbol_conversion | Invalid_conversion

datatype (plugins only: size) bw_err = Should_stake_nonzero | Opposite_signs | Insufficient_staked_net
  | Insufficient_staked_cpu | Insufficient_total_net | Insufficient_total_cpu
  | Negative_net_refund | Negative_cpu_refund | Negative_vote_stake | B1_vesting
  | Must_stake_positive | Must_unstake_positive | Transfer_to_self | Refund_not_found
  | Refund_not_available

datatype (plugins only: size) bid_err = Only_top_level_suffix | Empty_name | Thirteen_characters | Twelve_characters
  | Account_exists | Not_system_token | Insufficient_bid | Auction_closed | Bid_increase_too_small
  | Already_highest_bidder | Bid_refund_not_found

datatype (plugins only: size) vote_err = Url_too_long | Invalid_authority | Producers_and_proxy | Proxy_to_self
  | Too_many_producers | Producers_not_sorted | Must_stake_before_vote | Proxy_uses_proxy
  | Old_proxy_not_found | Invalid_proxy | Proxy_not_found | Producer_not_active
  | Producer_not_registered | Producer_not_found | Rex_voting_requirement
  | Proxy_registration_no_effect | Proxied_account_as_proxy | Buy_rex_voting_requirement

datatype (plugins only: size) rex_err = Must_be_core_token | Must_be_positive | No_delegated_record
  | Exceeds_staked_net | Exceeds_staked_cpu | Must_first_buyrex | Bad_rex_asset
  | Insufficient_available_rex | Negligible_proceeds | B1_order_queued | Insufficient_for_orders
  | No_sell_order | Order_already_filled | No_rex_balance | Rex_not_initialized
  | Insufficient_rex_balance | Savings_logic_error | Savings_programmer_error
  | Insufficient_savings | Remaining_rex_balance | Limits_logic_error | Loans_not_available
  | Loan_price_unfavorable | Loan_not_found | Not_loan_creator | Loan_expired
  | Insufficient_loan_balance | Must_deposit_first | Insufficient_funds | Lendable_pool_empty
  | Unlent_negative

datatype (plugins only: size) pool_err = Pools_not_configured | Config_missing | Durations_empty | Mismatched_sizes
  | Duration_not_positive | Claim_period_not_positive | Vote_weight_not_positive
  | Claim_period_too_long | Durations_not_increasing | Claim_periods_decreasing
  | Vote_weights_decreasing | Config_cannot_change | Begin_after_end | Prod_rate_out_of_range
  | Voter_rate_out_of_range | Max_vote_ratio_out_of_range | Min_transfer_out_of_range
  | Need_proxy_or_21 | Proxy_lost_pool | Producer_not_upgraded | Producer_lost_pool
  | Pool_corruption | No_shares_in_pool | New_shares_not_positive | Withdrawing_zero
  | Invalid_pool | Pool_symbol_mismatch | Pool_amount_not_positive | Claim_too_soon
  | Pool_shares_negative | Pool_amount_negative | Memo_too_long | From_equals_to
  | Invalid_account | No_pool_voter | Too_small_to_create | Transferred_zero
  | Not_longer_term | Incorrect_symbol | Cannot_channel_fees | Unknown_producer
  | Pool_producer_inactive | Pay_already_processed | No_pay_available

datatype (plugins only: size) power_err = Reserv_account_missing | No_default_value | Target_not_in_future
  | Current_ratio_too_small | Current_ratio_too_large | Target_ratio_too_small
  | Weight_cannot_grow | Stake_weight_too_small | Stake_weight_too_large | Exponent_too_small
  | Decay_too_small | Max_price_symbol | Max_price_not_positive | Min_price_symbol
  | Min_price_negative | Min_exceeds_max | Prices_must_match | Powerup_days_zero
  | Min_fee_symbol | Min_fee_not_positive | Weight_below_utilization | Managed_account
  | Powerup_not_initialized | Max_payment_symbol | Days_mismatch | Frac_negative
  | Frac_too_large | No_resources_available | Not_enough_resources | Fee_below_minimum
  | Max_payment_exceeded

datatype (plugins only: size) pay_err = No_active_key | Chain_not_activated | Claimed_within_day | Inflation_overflow

datatype error =
    Missing_auth name
  | No_row            \<comment> \<open>a row that is dereferenced or required does not exist\<close>
  | Duplicate_row     \<comment> \<open>emplace of a primary key that exists\<close>
  | Division_trap     \<comment> \<open>integer division by zero\<close>
  | Bad_conversion    \<comment> \<open>a double outside the range of the integer type it is converted to\<close>
  | Out_of_range      \<comment> \<open>a vector index past the end\<close>
  | Asset_error       \<comment> \<open>raised by the asset library\<close>
  | External_error    \<comment> \<open>raised by another contract's table\<close>
  | Out_of_fuel       \<comment> \<open>not an error of the code: the recursion bound of the model\<close>
  | Sys sys_err | Ram ram_err | Bw bw_err | Bid bid_err | Vote vote_err | Rex rex_err
  | Pool pool_err | Power power_err | Pay pay_err

section \<open>The asset library\<close>

text \<open>
  \<open>eosio::asset\<close> is a library type: its checked constructor, its arithmetic and comparisons are
  parameters of the model. The locale states their documented behaviour: they refuse different
  symbols and amounts of magnitude \<open>2 ^ 62\<close> or more, and otherwise compute on the amounts.
\<close>

record asset_api =
  aa_make :: "int \<Rightarrow> symbol \<Rightarrow> error + asset"
  aa_plus :: "asset \<Rightarrow> asset \<Rightarrow> error + asset"
  aa_minus :: "asset \<Rightarrow> asset \<Rightarrow> error + asset"
  aa_neg :: "asset \<Rightarrow> asset"
  aa_less :: "asset \<Rightarrow> asset \<Rightarrow> error + bool"
  aa_leq :: "asset \<Rightarrow> asset \<Rightarrow> error + bool"
  aa_eq :: "asset \<Rightarrow> asset \<Rightarrow> error + bool"

definition max_amount :: int where "max_amount = 4611686018427387903"

locale asset_laws =
  fixes A :: asset_api
  assumes make_ok: "aa_make A n s = Inr a \<Longrightarrow> a = \<lparr>amount = n, asym = s\<rparr> \<and> \<bar>n\<bar> \<le> max_amount"
    and plus_ok: "aa_plus A a b = Inr c \<Longrightarrow>
      c = \<lparr>amount = amount a + amount b, asym = asym a\<rparr> \<and> asym b = asym a \<and>
      \<bar>amount a + amount b\<bar> \<le> max_amount"
    and minus_ok: "aa_minus A a b = Inr c \<Longrightarrow>
      c = \<lparr>amount = amount a - amount b, asym = asym a\<rparr> \<and> asym b = asym a \<and>
      \<bar>amount a - amount b\<bar> \<le> max_amount"
    and neg_ok: "aa_neg A a = a\<lparr>amount := - amount a\<rparr>"
    and less_ok: "aa_less A a b = Inr r \<Longrightarrow> asym a = asym b \<and> r = (amount a < amount b)"
    and leq_ok: "aa_leq A a b = Inr r \<Longrightarrow> asym a = asym b \<and> r = (amount a \<le> amount b)"
    and eq_ok: "aa_eq A a b = Inr r \<Longrightarrow> asym a = asym b \<and> r = (amount a = amount b)"
begin

lemmas arith_ok = make_ok plus_ok minus_ok
lemmas compare_ok = less_ok leq_ok eq_ok

lemma plus_amount: "aa_plus A a b = Inr c \<Longrightarrow> amount c = amount a + amount b"
  by (drule plus_ok) simp

lemma minus_amount: "aa_minus A a b = Inr c \<Longrightarrow> amount c = amount a - amount b"
  by (drule minus_ok) simp

lemma neg_amount: "amount (aa_neg A a) = - amount a"
  by (simp add: neg_ok)

lemma make_amount: "aa_make A n s = Inr a \<Longrightarrow> amount a = n"
  by (drule make_ok) simp

end

text \<open>The library itself, as documented, for evaluation.\<close>

definition cdt_asset :: asset_api where
  "cdt_asset = \<lparr>
     aa_make = (\<lambda>n s. if \<bar>n\<bar> \<le> max_amount then Inr \<lparr>amount = n, asym = s\<rparr> else Inl Asset_error),
     aa_plus = (\<lambda>a b. if asym a = asym b \<and> \<bar>amount a + amount b\<bar> \<le> max_amount
       then Inr \<lparr>amount = amount a + amount b, asym = asym a\<rparr> else Inl Asset_error),
     aa_minus = (\<lambda>a b. if asym a = asym b \<and> \<bar>amount a - amount b\<bar> \<le> max_amount
       then Inr \<lparr>amount = amount a - amount b, asym = asym a\<rparr> else Inl Asset_error),
     aa_neg = (\<lambda>a. a\<lparr>amount := - amount a\<rparr>),
     aa_less = (\<lambda>a b. if asym a = asym b then Inr (amount a < amount b) else Inl Asset_error),
     aa_leq = (\<lambda>a b. if asym a = asym b then Inr (amount a \<le> amount b) else Inl Asset_error),
     aa_eq = (\<lambda>a b. if asym a = asym b then Inr (amount a = amount b) else Inl Asset_error)\<rparr>"

interpretation cdt: asset_laws cdt_asset
  by unfold_locales (auto simp: cdt_asset_def split: if_splits)

section \<open>Block-signing authorities\<close>

type_synonym public_key = nat

text \<open>\<open>eosio::public_key\<close> is opaque; 0 is the default-constructed key.\<close>

record signing_authority =
  threshold :: int
  keys :: "(public_key \<times> int) list"

section \<open>The environment of an action\<close>

text \<open>
  The clock in its three granularities (microseconds of \<open>current_time_point()\<close>, seconds of
  \<open>time_point_sec\<close>, half-second slots of \<open>current_block_time()\<close>), the authorisations of the
  action, and the host and library functions the contract calls.
\<close>

record env =
  e_self :: name
  e_auth :: "name \<Rightarrow> bool"
  e_now :: int
  e_sec :: int
  e_slot :: int
  e_assets :: asset_api
  e_is_account :: "name \<Rightarrow> bool"
  e_suffix :: "name \<Rightarrow> name"
  e_supply :: "string \<Rightarrow> error + asset"
  e_sha256 :: "nat list \<Rightarrow> nat"
  e_pow :: "f64 \<Rightarrow> f64 \<Rightarrow> f64"
  e_exp :: "f64 \<Rightarrow> f64"
  e_log1p :: "f64 \<Rightarrow> f64"
  e_auth_valid :: "signing_authority \<Rightarrow> bool"
  e_propose :: "(name \<times> signing_authority) list \<Rightarrow> int"
  e_kv_available :: bool

definition require_auth :: "env \<Rightarrow> name \<Rightarrow> (error + 'a) \<Rightarrow> error + 'a" where
  "require_auth E a k = check (e_auth E a) (Missing_auth a) k"

lemma require_auth_eq_Inr [res_simps]: "require_auth E a k = Inr y \<longleftrightarrow> e_auth E a \<and> k = Inr y"
  by (simp add: require_auth_def check_eq_Inr)

section \<open>Messages an action sends\<close>

text \<open>
  Inline actions, deferred transactions and privileged host calls, in the order the action sends
  them. They run after the action; if one fails, the whole transaction is rolled back. The memo
  strings of transfers are not modelled.
\<close>

datatype deferred_action = Def_refund name | Def_bidrefund name name

datatype message =
    Transfer "name list" name name asset    \<comment> \<open>authorisers, from, to, quantity\<close>
  | Issue name asset
  | Open_token name symbol name
  | Cancel_deferred int
  | Send_deferred int deferred_action int   \<comment> \<open>sender id, action, delay in seconds\<close>
  | Buy_result asset | Sell_result asset | Order_result name asset | Rent_result asset
  | Powup_result asset int int
  | Tstake_notif name name name int asset asset  \<comment> \<open>receiver, from, to, pool, requested, moved\<close>
  | Set_privileged name int
  | Set_blockchain_parameters int "int list"
  | Set_kv_parameters "int list"
  | Preactivate_feature nat
  | Set_proposed_producers "(name \<times> signing_authority) list"

text \<open>The net amount a list of messages moves into an account.\<close>

definition msg_in :: "name \<Rightarrow> message \<Rightarrow> int" where
  "msg_in a m = (case m of
     Transfer _ f t q \<Rightarrow> (if t = a then amount q else 0) - (if f = a then amount q else 0)
   | _ \<Rightarrow> 0)"

definition net_in :: "name \<Rightarrow> message list \<Rightarrow> int" where
  "net_in a ms = (\<Sum>m\<leftarrow>ms. msg_in a m)"

lemma net_in_simps [simp]:
  "net_in a [] = 0" "net_in a (m # ms) = msg_in a m + net_in a ms"
  "net_in a (ms @ ns) = net_in a ms + net_in a ns"
  by (simp_all add: net_in_def)

lemma msg_in_Transfer [simp]:
  "msg_in a (Transfer au f t q) = (if t = a then amount q else 0) - (if f = a then amount q else 0)"
  by (simp add: msg_in_def)

end
