(* ===== verification/State.thy ===== *)
theory State
  imports Platform
begin

text \<open>
  The contract's database: one record per table row, with the fields of the C++ struct in its
  order, and the record \<open>chain\<close> of all tables and singletons. Amounts and times are integers
  (the width is applied by the operations), vote weights are doubles, and the bit field
  \<open>flags1\<close> is a 32-bit word. Below them, the primitive state changes the operations share.
\<close>

section \<open>Constants\<close>

definition seconds_per_day :: int where "seconds_per_day = 86400"
definition seconds_per_hour :: int where "seconds_per_hour = 3600"
definition seconds_per_year :: int where "seconds_per_year = 31449600"
definition useconds_per_year :: int where "useconds_per_year = 31449600000000"
definition useconds_per_day :: int where "useconds_per_day = 86400000000"
definition blocks_per_day :: int where "blocks_per_day = 172800"
definition blocks_per_round :: int where "blocks_per_round = 252"
definition rounds_per_year :: f64 where
  "rounds_per_year = of_i seconds_per_year * of_i 2 / of_i blocks_per_round"

definition powerup_frac :: int where "powerup_frac = 1000000000000000"
definition min_activated_stake :: int where "min_activated_stake = 1500000000000"
definition ram_gift_bytes :: int where "ram_gift_bytes = 1400"
definition min_pervote_daily_pay :: int where "min_pervote_daily_pay = 1000000"
definition refund_delay_sec :: int where "refund_delay_sec = 259200"
definition inflation_precision :: int where "inflation_precision = 100"
definition default_annual_rate :: int where "default_annual_rate = 500"
definition pay_factor_precision :: int where "pay_factor_precision = 10000"
definition default_inflation_pay_factor :: int where "default_inflation_pay_factor = 50000"
definition default_votepay_factor :: int where "default_votepay_factor = 40000"

definition time_point_sec_max :: int where "time_point_sec_max = 4294967295"

section \<open>Global state\<close>

text \<open>\<open>eosio::blockchain_parameters\<close> is a library struct of which one field is read.\<close>

record blockchain_parameters =
  max_authority_depth :: int
  other_parameters :: "int list"

record eosio_global_state =
  parameters :: blockchain_parameters
  max_ram_size :: int
  total_ram_bytes_reserved :: int
  total_ram_stake :: int
  last_producer_schedule_update :: int
  last_pervote_bucket_fill :: int
  pervote_bucket :: int
  perblock_bucket :: int
  total_unpaid_blocks :: int
  total_activated_stake :: int
  thresh_activated_stake_time :: int
  last_producer_schedule_size :: int
  total_producer_vote_weight :: f64
  last_name_close :: int

definition free_ram :: "eosio_global_state \<Rightarrow> int" where
  "free_ram g = u64 (max_ram_size g - total_ram_bytes_reserved g)"

record eosio_global_state2 =
  new_ram_per_block :: int
  last_ram_increase :: int
  last_block_num :: int
  total_producer_votepay_share :: f64
  revision :: int

record eosio_global_state3 =
  last_vpay_state_update :: int
  total_vpay_share_change_rate :: f64

record eosio_global_state4 =
  continuous_rate :: f64
  inflation_pay_factor :: int
  votepay_factor :: int

section \<open>RAM market\<close>

record connector =
  balance :: asset
  weight :: f64

record exchange_state =
  ex_supply :: asset
  base :: connector
  quote :: connector

section \<open>Producers and voters\<close>

record producer_info =
  p_owner :: name
  total_votes :: f64
  producer_key :: public_key
  is_active :: bool
  url :: string
  unpaid_blocks :: int
  last_claim_time :: int
  location :: int
  producer_authority :: "signing_authority option"
  pool_votes :: "f64 list option option"

record producer_info2 =
  p2_owner :: name
  votepay_share :: f64
  last_votepay_share_update :: int

record voter_info =
  v_owner :: name
  v_proxy :: name
  v_producers :: "name list"
  staked :: int
  last_vote_weight :: f64
  proxied_vote_weight :: f64
  is_proxy :: bool
  flags1 :: "32 word"
  reserved2 :: int
  reserved3 :: asset

definition new_voter :: voter_info where
  "new_voter = \<lparr>v_owner = 0, v_proxy = 0, v_producers = [], staked = 0, last_vote_weight = 0,
     proxied_vote_weight = 0, is_proxy = False, flags1 = 0, reserved2 = 0,
     reserved3 = default_asset\<rparr>"

text \<open>The bits of \<open>voter_info::flags1_fields\<close> and the two helpers on them.\<close>

definition ram_managed :: "32 word" where "ram_managed = 1"
definition net_managed :: "32 word" where "net_managed = 2"
definition cpu_managed :: "32 word" where "cpu_managed = 4"

definition has_field :: "32 word \<Rightarrow> 32 word \<Rightarrow> bool" where
  "has_field flags field = (flags AND field \<noteq> 0)"

definition set_field :: "32 word \<Rightarrow> 32 word \<Rightarrow> bool \<Rightarrow> 32 word" where
  "set_field flags field value = (if value then flags OR field else flags AND (NOT field))"

section \<open>Resources, delegations and refunds\<close>

record user_resources =
  ur_owner :: name
  ur_net_weight :: asset
  ur_cpu_weight :: asset
  ram_bytes :: int

definition ur_is_empty :: "user_resources \<Rightarrow> bool" where
  "ur_is_empty r = (amount (ur_net_weight r) = 0 \<and> amount (ur_cpu_weight r) = 0 \<and> ram_bytes r = 0)"

record delegated_bandwidth =
  db_from :: name
  db_to :: name
  db_net_weight :: asset
  db_cpu_weight :: asset

definition db_is_empty :: "delegated_bandwidth \<Rightarrow> bool" where
  "db_is_empty d = (amount (db_net_weight d) = 0 \<and> amount (db_cpu_weight d) = 0)"

record refund_request =
  rr_owner :: name
  request_time :: int
  net_amount :: asset
  cpu_amount :: asset

definition rr_is_empty :: "refund_request \<Rightarrow> bool" where
  "rr_is_empty r = (amount (net_amount r) = 0 \<and> amount (cpu_amount r) = 0)"

section \<open>Name auctions\<close>

record name_bid =
  newname :: name
  high_bidder :: name
  high_bid :: int
  last_bid_time :: int

definition by_high_bid :: "name_bid \<Rightarrow> int" where
  "by_high_bid b = u64 (- high_bid b)"

record bid_refund =
  bidder :: name
  bid_amount :: asset

section \<open>REX\<close>

record rex_pool =
  total_lent :: asset
  total_unlent :: asset
  total_rent :: asset
  total_lendable :: asset
  total_rex :: asset
  namebid_proceeds :: asset
  loan_num :: int

record rex_return_pool =
  last_dist_time :: int
  pending_bucket_time :: int
  oldest_bucket_time :: int
  pending_bucket_proceeds :: int
  current_rate_of_increase :: int
  proceeds :: int

definition total_intervals :: int where "total_intervals = 4320"
definition dist_interval :: int where "dist_interval = 600"
definition hours_per_bucket :: int where "hours_per_bucket = 12"

text \<open>The map of return buckets, as its entries in increasing key order.\<close>

type_synonym return_buckets = "(int \<times> int) list"

record rex_fund =
  rf_owner :: name
  rf_balance :: asset

record rex_balance =
  rb_owner :: name
  vote_stake :: asset
  rex_amount :: asset
  matured_rex :: int
  rex_maturities :: "(int \<times> int) list"

record rex_loan =
  ln_from :: name
  ln_receiver :: name
  payment :: asset
  ln_balance :: asset
  total_staked :: asset
  ln_num :: int
  expiration :: int

record rex_order =
  ro_owner :: name
  rex_requested :: asset
  ro_proceeds :: asset
  stake_change :: asset
  order_time :: int
  is_open :: bool

definition by_time :: "rex_order \<Rightarrow> int" where
  "by_time o' = (if is_open o' then order_time o' else 18446744073709551615)"

record rex_order_outcome =
  success :: bool
  out_proceeds :: asset
  out_stake_change :: asset

section \<open>Powerup\<close>

record powerup_config_resource =
  cf_current_weight_ratio :: "int option"
  cf_target_weight_ratio :: "int option"
  cf_assumed_stake_weight :: "int option"
  cf_target_timestamp :: "int option"
  cf_exponent :: "f64 option"
  cf_decay_secs :: "int option"
  cf_min_price :: "asset option"
  cf_max_price :: "asset option"

record powerup_config =
  cf_net :: powerup_config_resource
  cf_cpu :: powerup_config_resource
  cf_powerup_days :: "int option"
  cf_min_powerup_fee :: "asset option"

record powerup_state_resource =
  pr_weight :: int
  weight_ratio :: int
  assumed_stake_weight :: int
  initial_weight_ratio :: int
  target_weight_ratio :: int
  initial_timestamp :: int
  target_timestamp :: int
  exponent :: f64
  decay_secs :: int
  min_price :: asset
  max_price :: asset
  utilization :: int
  adjusted_utilization :: int
  utilization_timestamp :: int

definition new_power_resource :: powerup_state_resource where
  "new_power_resource = \<lparr>pr_weight = 0, weight_ratio = 0, assumed_stake_weight = 0,
     initial_weight_ratio = powerup_frac, target_weight_ratio = powerup_frac div 100,
     initial_timestamp = 0, target_timestamp = 0, exponent = of_i 2,
     decay_secs = seconds_per_day, min_price = default_asset, max_price = default_asset,
     utilization = 0, adjusted_utilization = 0, utilization_timestamp = 0\<rparr>"

record powerup_state =
  ps_net :: powerup_state_resource
  ps_cpu :: powerup_state_resource
  powerup_days :: int
  min_powerup_fee :: asset

definition new_power_state :: powerup_state where
  "new_power_state = \<lparr>ps_net = new_power_resource, ps_cpu = new_power_resource,
     powerup_days = 30, min_powerup_fee = default_asset\<rparr>"

record powerup_order =
  po_id :: int
  po_owner :: name
  po_net_weight :: int
  po_cpu_weight :: int
  po_expires :: int

section \<open>Staking pools\<close>

record pool =
  pl_balance :: asset
  total_shares :: f64

record staking_pool =
  duration :: int
  claim_period :: int
  vote_weight :: f64
  token_pool :: pool

record staking_pool_state =
  begin_transition :: int
  end_transition :: int
  prod_rate :: f64
  voter_rate :: f64
  max_num_pay :: int
  max_vote_ratio :: f64
  min_transfer_create :: asset
  pools :: "staking_pool list"
  interval_start :: int
  blocks :: int
  sp_unpaid_blocks :: int
  sp_total_votes :: "f64 list"
  sp_namebid_proceeds :: asset

definition new_pool_state :: staking_pool_state where
  "new_pool_state = \<lparr>begin_transition = 0, end_transition = 0, prod_rate = 0, voter_rate = 0,
     max_num_pay = 50, max_vote_ratio = f64_lit 8 10, min_transfer_create = default_asset,
     pools = [], interval_start = 0, blocks = 0, sp_unpaid_blocks = 0, sp_total_votes = [],
     sp_namebid_proceeds = default_asset\<rparr>"

record pool_voter =
  pv_owner :: name
  next_claim :: "int list"
  owned_shares :: "f64 list"
  proxied_shares :: "f64 list"
  last_votes :: "f64 list"
  pv_proxy :: name
  pv_producers :: "name list"
  pv_is_proxy :: bool
  xfer_out_notif :: bool
  xfer_in_notif :: bool

record total_pool_votes =
  tv_owner :: name
  active :: bool
  votes :: f64
  vote_pay :: asset

definition by_votes :: "total_pool_votes \<Rightarrow> f64" where
  "by_votes t = (if active t then - votes t else votes t)"

section \<open>The database\<close>

record chain =
  gstate :: eosio_global_state
  gstate2 :: eosio_global_state2
  gstate3 :: eosio_global_state3
  gstate4 :: eosio_global_state4
  rammarket :: "exchange_state option"
  voters :: "(name, voter_info) fmap"
  producers :: "(name, producer_info) fmap"
  producers2 :: "(name, producer_info2) fmap"
  userres :: "(name, user_resources) fmap"
  delband :: "(name \<times> name, delegated_bandwidth) fmap"
  refunds :: "(name, refund_request) fmap"
  namebids :: "(name, name_bid) fmap"
  bidrefunds :: "(name \<times> name, bid_refund) fmap"
  abihash :: "(name, nat) fmap"
  rexpool :: "rex_pool option"
  rexretpool :: "rex_return_pool option"
  rexretbuckets :: "return_buckets option"
  rexfunds :: "(name, rex_fund) fmap"
  rexbalance :: "(name, rex_balance) fmap"
  rexorders :: "(name, rex_order) fmap"
  cpu_loans :: "(int, rex_loan) fmap"
  net_loans :: "(int, rex_loan) fmap"
  powerstate :: "powerup_state option"
  powerorders :: "(int, powerup_order) fmap"
  poolstate :: "staking_pool_state option"
  poolvoters :: "(name, pool_voter) fmap"
  totpoolvotes :: "(name, total_pool_votes) fmap"
  limits :: "name \<Rightarrow> int \<times> int \<times> int"
  outbox :: "message list"

section \<open>Primitive state changes\<close>

definition emit :: "message \<Rightarrow> chain \<Rightarrow> chain" where
  "emit m s = s\<lparr>outbox := outbox s @ [m]\<rparr>"

text \<open>The host's \<open>get_resource_limits\<close> and \<open>set_resource_limits\<close> (RAM, NET, CPU).\<close>

definition get_resource_limits :: "chain \<Rightarrow> name \<Rightarrow> int \<times> int \<times> int" where
  "get_resource_limits s a = limits s a"

definition set_resource_limits :: "name \<Rightarrow> int \<Rightarrow> int \<Rightarrow> int \<Rightarrow> chain \<Rightarrow> chain" where
  "set_resource_limits a ram net cpu s = s\<lparr>limits := (limits s)(a := (ram, net, cpu))\<rparr>"

text \<open>The three managed flags of an account; no voter row means none is set.\<close>

definition account_flag :: "chain \<Rightarrow> name \<Rightarrow> 32 word \<Rightarrow> bool" where
  "account_flag s a field = (case fmlookup (voters s) a of
     None \<Rightarrow> False | Some v \<Rightarrow> has_field (flags1 v) field)"

definition core_symbol :: "chain \<Rightarrow> (symbol \<Rightarrow> error + 'a) \<Rightarrow> error + 'a" where
  "core_symbol s k = fetch (rammarket s) (Sys Not_initialized) (\<lambda>m. k (asym (balance (quote m))))"

lemma core_symbol_eq_Inr [res_simps]:
  "core_symbol s k = Inr y \<longleftrightarrow> (\<exists>m. rammarket s = Some m \<and> k (asym (balance (quote m))) = Inr y)"
  by (simp add: core_symbol_def fetch_eq_Inr)

lemma has_field_exp: "has_field f (2 ^ n) \<longleftrightarrow> bit f n"
  by (simp add: has_field_def and_exp_eq_0_iff_not_bit)

lemma managed_exp: "ram_managed = 2 ^ 0" "net_managed = 2 ^ 1" "cpu_managed = 2 ^ 2"
  by (simp_all add: ram_managed_def net_managed_def cpu_managed_def)

lemma has_field_set_field_exp:
  "n < 32 \<Longrightarrow> has_field (set_field f (2 ^ m) b) (2 ^ n) = (if m = n then b else has_field f (2 ^ n))"
  unfolding has_field_exp set_field_def
  by (auto simp: bit_or_iff bit_and_iff bit_not_iff bit_exp_iff)

lemma has_field_set_field [simp]:
  "has_field (set_field f ram_managed b) ram_managed = b"
  "has_field (set_field f net_managed b) net_managed = b"
  "has_field (set_field f cpu_managed b) cpu_managed = b"
  "has_field (set_field f ram_managed b) net_managed = has_field f net_managed"
  "has_field (set_field f ram_managed b) cpu_managed = has_field f cpu_managed"
  "has_field (set_field f net_managed b) ram_managed = has_field f ram_managed"
  "has_field (set_field f net_managed b) cpu_managed = has_field f cpu_managed"
  "has_field (set_field f cpu_managed b) ram_managed = has_field f ram_managed"
  "has_field (set_field f cpu_managed b) net_managed = has_field f net_managed"
  unfolding managed_exp by (subst has_field_set_field_exp; simp)+

lemma emit_simps [simp]:
  "outbox (emit m s) = outbox s @ [m]" "gstate (emit m s) = gstate s"
  "gstate2 (emit m s) = gstate2 s" "gstate3 (emit m s) = gstate3 s"
  "gstate4 (emit m s) = gstate4 s" "rammarket (emit m s) = rammarket s"
  "voters (emit m s) = voters s" "producers (emit m s) = producers s"
  "producers2 (emit m s) = producers2 s" "userres (emit m s) = userres s"
  "delband (emit m s) = delband s" "refunds (emit m s) = refunds s"
  "namebids (emit m s) = namebids s" "bidrefunds (emit m s) = bidrefunds s"
  "abihash (emit m s) = abihash s" "rexpool (emit m s) = rexpool s"
  "rexretpool (emit m s) = rexretpool s" "rexretbuckets (emit m s) = rexretbuckets s"
  "rexfunds (emit m s) = rexfunds s" "rexbalance (emit m s) = rexbalance s"
  "rexorders (emit m s) = rexorders s" "cpu_loans (emit m s) = cpu_loans s"
  "net_loans (emit m s) = net_loans s" "powerstate (emit m s) = powerstate s"
  "powerorders (emit m s) = powerorders s" "poolstate (emit m s) = poolstate s"
  "poolvoters (emit m s) = poolvoters s" "totpoolvotes (emit m s) = totpoolvotes s"
  "limits (emit m s) = limits s"
  by (simp_all add: emit_def)

section \<open>The initial state\<close>

text \<open>
  The constructor of \<open>system_contract\<close> reads the global singletons or, where there is none yet,
  takes their defaults. \<open>initial_chain\<close> is the state before the first action.
\<close>

definition get_continuous_rate :: "env \<Rightarrow> int \<Rightarrow> f64" where
  "get_continuous_rate E annual_rate =
     e_log1p E (of_i annual_rate / of_i (100 * inflation_precision))"

definition get_default_parameters :: "blockchain_parameters \<Rightarrow> eosio_global_state" where
  "get_default_parameters p = \<lparr>parameters = p, max_ram_size = 64 * 1024 * 1024 * 1024,
     total_ram_bytes_reserved = 0, total_ram_stake = 0, last_producer_schedule_update = 0,
     last_pervote_bucket_fill = 0, pervote_bucket = 0, perblock_bucket = 0,
     total_unpaid_blocks = 0, total_activated_stake = 0, thresh_activated_stake_time = 0,
     last_producer_schedule_size = 0, total_producer_vote_weight = 0, last_name_close = 0\<rparr>"

definition get_default_inflation_parameters :: "env \<Rightarrow> eosio_global_state4" where
  "get_default_inflation_parameters E = \<lparr>continuous_rate = get_continuous_rate E default_annual_rate,
     inflation_pay_factor = default_inflation_pay_factor, votepay_factor = default_votepay_factor\<rparr>"

definition initial_chain :: "env \<Rightarrow> blockchain_parameters \<Rightarrow> chain" where
  "initial_chain E p = \<lparr>gstate = get_default_parameters p,
     gstate2 = \<lparr>new_ram_per_block = 0, last_ram_increase = 0, last_block_num = 0,
       total_producer_votepay_share = 0, revision = 0\<rparr>,
     gstate3 = \<lparr>last_vpay_state_update = 0, total_vpay_share_change_rate = 0\<rparr>,
     gstate4 = get_default_inflation_parameters E,
     rammarket = None, voters = fmempty, producers = fmempty, producers2 = fmempty,
     userres = fmempty, delband = fmempty, refunds = fmempty, namebids = fmempty,
     bidrefunds = fmempty, abihash = fmempty, rexpool = None, rexretpool = None,
     rexretbuckets = None, rexfunds = fmempty, rexbalance = fmempty, rexorders = fmempty,
     cpu_loans = fmempty, net_loans = fmempty, powerstate = None, powerorders = fmempty,
     poolstate = None, poolvoters = fmempty, totpoolvotes = fmempty,
     limits = (\<lambda>a. (-1, -1, -1)), outbox = []\<rparr>"

section \<open>A sample environment and state\<close>

text \<open>
  For evaluation on concrete inputs: every account authorises, the time is 2020-09-13, the core
  token is \<open>(SYS, 4)\<close> with a supply of 1,000,000,000 tokens, and the transcendental functions are
  constant.
\<close>

definition sys_symbol :: symbol where "sys_symbol = Symbol ''SYS'' 4"

abbreviation sys :: "int \<Rightarrow> asset" where "sys n \<equiv> \<lparr>amount = n, asym = sys_symbol\<rparr>"

definition sample_env :: env where
  "sample_env = \<lparr>e_self = eosio_account, e_auth = (\<lambda>a. True), e_now = 1600000000000000,
     e_sec = 1600000000, e_slot = 1306630400, e_assets = cdt_asset, e_is_account = (\<lambda>a. True),
     e_suffix = (\<lambda>a. a), e_supply = (\<lambda>c. Inr (sys 10000000000000)), e_sha256 = length,
     e_pow = (\<lambda>a b. 1), e_exp = (\<lambda>a. 1), e_log1p = (\<lambda>a. a), e_auth_valid = (\<lambda>a. True),
     e_propose = (\<lambda>ps. 1), e_kv_available = True\<rparr>"

lemma sample_laws: "asset_laws (e_assets sample_env)"
  by (simp add: sample_env_def cdt.asset_laws_axioms)

definition sample_chain :: chain where
  "sample_chain = (initial_chain sample_env \<lparr>max_authority_depth = 6, other_parameters = []\<rparr>)\<lparr>
     rammarket := Some \<lparr>ex_supply = \<lparr>amount = 100000000000000, asym = ramcore_symbol\<rparr>,
       base = \<lparr>balance = \<lparr>amount = 68719476736, asym = ram_symbol\<rparr>, weight = f64_lit 1 2\<rparr>,
       quote = \<lparr>balance = sys 10000000000, weight = f64_lit 1 2\<rparr>\<rparr>\<rparr>"

end
