(* ===== verification/RexBalance.thy ===== *)
theory RexBalance
  imports State
begin

text \<open>
  The maturity buckets of one REX balance (the row-level half of \<open>rex.cpp\<close>): REX bought today can
  be sold from the end of the fourth full day; REX in savings sits in a bucket at the maximal
  time. The operations work on a \<open>rex_balance\<close> row. The lemmas show what maturing frees and
  that savings are read as they were put; \<open>RexRows\<close> shows that the operations only move REX between
  the buckets, and \<open>Savings\<close> what the actions do to the savings.
\<close>

section \<open>Operations on a row\<close>

definition get_rex_maturity :: "env \<Rightarrow> int" where
  "get_rex_maturity E = u32 (e_sec E - e_sec E mod seconds_per_day + 5 * seconds_per_day)"

fun mature :: "int \<Rightarrow> int \<Rightarrow> (int \<times> int) list \<Rightarrow> int \<times> (int \<times> int) list" where
  "mature now m [] = (m, [])"
| "mature now m ((t, n) # bs) =
     (if t \<le> now then mature now (i64 (m + n)) bs else (m, (t, n) # bs))"

definition process_rex_maturities :: "env \<Rightarrow> rex_balance \<Rightarrow> rex_balance" where
  "process_rex_maturities E rb =
     (let (m, bs) = mature (e_sec E) (matured_rex rb) (rex_maturities rb) in
      rb\<lparr>matured_rex := m, rex_maturities := bs\<rparr>)"

definition end_of_days :: int where "end_of_days = time_point_sec_max"

text \<open>The back of the deque is extended if it has the given time, else a bucket is appended.\<close>

definition add_to_bucket :: "int \<Rightarrow> int \<Rightarrow> (int \<times> int) list \<Rightarrow> (int \<times> int) list" where
  "add_to_bucket t n bs =
     (if bs \<noteq> [] \<and> fst (last bs) = t then butlast bs @ [(t, i64 (snd (last bs) + n))]
      else bs @ [(t, n)])"

definition read_rex_savings :: "rex_balance \<Rightarrow> int \<times> rex_balance" where
  "read_rex_savings rb =
     (let bs = rex_maturities rb in
      if bs \<noteq> [] \<and> fst (last bs) = end_of_days
      then (snd (last bs), rb\<lparr>rex_maturities := butlast bs\<rparr>) else (0, rb))"

definition put_rex_savings :: "int \<Rightarrow> rex_balance \<Rightarrow> rex_balance" where
  "put_rex_savings rex rb =
     (if rex = 0 then rb
      else rb\<lparr>rex_maturities := add_to_bucket end_of_days rex (rex_maturities rb)\<rparr>)"

definition add_rex_maturity :: "env \<Rightarrow> int \<Rightarrow> rex_balance \<Rightarrow> rex_balance" where
  "add_rex_maturity E rex rb =
     rb\<lparr>rex_maturities := add_to_bucket (get_rex_maturity E) rex (rex_maturities rb)\<rparr>"

definition consolidate_rex_balance :: "env \<Rightarrow> int \<Rightarrow> rex_balance \<Rightarrow> rex_balance" where
  "consolidate_rex_balance E rex_in_sell_order rb =
     (let (rex_in_savings, rb1) = read_rex_savings rb;
          total = fold (\<lambda>b n. i64 (n + snd b)) (rex_maturities rb1)
            (i64 (matured_rex rb1 - rex_in_sell_order));
          rb2 = rb1\<lparr>matured_rex := rex_in_sell_order, rex_maturities :=
            (if 0 < total then [(get_rex_maturity E, total)] else [])\<rparr> in
      put_rex_savings rex_in_savings rb2)"

text \<open>
  The loop of \<open>mvtosavings\<close> takes REX from the youngest buckets first (the list is given back to
  front). A bucket that is not emptied has covered the rest of the request (\<open>take_back_covers\<close>),
  so the loop ends there.
\<close>

fun take_back :: "int \<Rightarrow> int \<Rightarrow> (int \<times> int) list \<Rightarrow> int \<times> (int \<times> int) list" where
  "take_back want moved [] = (moved, [])"
| "take_back want moved ((t, n) # bs) =
     (if moved < want then
        let drex = min (i64 (want - moved)) n; left = i64 (n - drex); moved' = i64 (moved + drex) in
        if left = 0 then take_back want moved' bs else (moved', (t, left) # bs)
      else (moved, (t, n) # bs))"

lemma take_back_covers:
  "in_i64 want \<Longrightarrow> drex = min (i64 (want - moved)) n \<Longrightarrow> i64 (n - drex) \<noteq> 0 \<Longrightarrow>
     i64 (moved + drex) = want"
  by (auto simp: min_def i64_in_i64 i64_id split: if_splits)

definition move_to_savings :: "int \<Rightarrow> int \<Rightarrow> rex_balance \<Rightarrow> error + rex_balance" where
  "move_to_savings rex rex_in_sell_order rb =
     (let (moved, bs) = take_back rex 0 (rev (rex_maturities rb));
          rb1 = rb\<lparr>rex_maturities := rev bs\<rparr>; drex = i64 (rex - moved) in
      if moved < rex then
        let rb2 = rb1\<lparr>matured_rex := i64 (matured_rex rb1 - drex)\<rparr> in
        check (rex_in_sell_order \<le> matured_rex rb2) (Rex Savings_logic_error) (
        check (i64 (moved + drex) = rex) (Rex Savings_programmer_error) (Inr rb2))
      else check (moved = rex) (Rex Savings_programmer_error) (Inr rb1))"

section \<open>The buckets hold what has not matured\<close>

text \<open>\<open>rb_total\<close> is the REX of a row: matured and in buckets, as a 64-bit sum.\<close>

definition bucket_sum :: "(int \<times> int) list \<Rightarrow> int" where
  "bucket_sum bs = sum_list (map snd bs)"

definition rb_total :: "rex_balance \<Rightarrow> int" where
  "rb_total rb = i64 (matured_rex rb + bucket_sum (rex_maturities rb))"

lemma bucket_sum_simps [simp]:
  "bucket_sum [] = 0" "bucket_sum (b # bs) = snd b + bucket_sum bs"
  "bucket_sum (bs @ cs) = bucket_sum bs + bucket_sum cs" "bucket_sum (rev bs) = bucket_sum bs"
  by (simp_all add: bucket_sum_def rev_map [symmetric])

lemma bucket_sum_last: "bs \<noteq> [] \<Longrightarrow> bucket_sum bs = bucket_sum (butlast bs) + snd (last bs)"
  by (cases bs rule: rev_cases) simp_all

lemma process_rex_maturities_amount [simp]:
  "rex_amount (process_rex_maturities E rb) = rex_amount rb"
  by (simp add: process_rex_maturities_def split: prod.splits)

lemma put_rex_savings_amount [simp]: "rex_amount (put_rex_savings n rb) = rex_amount rb"
  by (simp add: put_rex_savings_def)

lemma fold_bucket_sum: "i64 (fold (\<lambda>b n. i64 (n + snd b)) bs m) = i64 (m + bucket_sum bs)"
  by (induction bs arbitrary: m) (simp_all add: add.assoc)

lemma fold_bucket_in_i64: "in_i64 m \<Longrightarrow> in_i64 (fold (\<lambda>b n. i64 (n + snd b)) bs m)"
  by (induction bs arbitrary: m) simp_all

text \<open>The REX of a row that is neither in savings nor reserved for an open sell order.\<close>

definition free_rex :: "int \<Rightarrow> rex_balance \<Rightarrow> int" where
  "free_rex order rb = i64 (rb_total (snd (read_rex_savings rb)) - order)"

lemma free_rex_fold:
  "fold (\<lambda>b n. i64 (n + snd b)) (rex_maturities rb) (i64 (matured_rex rb - x)) =
     i64 (rb_total rb - x)"
proof -
  have "in_i64 (fold (\<lambda>b n. i64 (n + snd b)) (rex_maturities rb) (i64 (matured_rex rb - x)))"
    by (rule fold_bucket_in_i64) simp
  then have "fold (\<lambda>b n. i64 (n + snd b)) (rex_maturities rb) (i64 (matured_rex rb - x)) =
      i64 (i64 (matured_rex rb - x) + bucket_sum (rex_maturities rb))"
    using fold_bucket_sum [of "rex_maturities rb" "i64 (matured_rex rb - x)"] by (simp add: i64_in_i64)
  then show ?thesis by (simp add: rb_total_def algebra_simps)
qed

lemma consolidate_eq:
  "consolidate_rex_balance E order rb =
     put_rex_savings (fst (read_rex_savings rb)) ((snd (read_rex_savings rb))\<lparr>matured_rex := order,
       rex_maturities := (if 0 < free_rex order rb then [(get_rex_maturity E, free_rex order rb)]
         else [])\<rparr>)"
  by (simp add: consolidate_rex_balance_def Let_def free_rex_fold free_rex_def split: prod.split)

section \<open>Properties\<close>

lemma mature_spec:
  "snd (mature now m bs) = dropWhile (\<lambda>b. fst b \<le> now) bs"
  "i64 (fst (mature now m bs)) = i64 (m + bucket_sum (takeWhile (\<lambda>b. fst b \<le> now) bs))"
  by (induction now m bs rule: mature.induct) (simp_all add: add.assoc)

lemma mature_in_i64: "in_i64 m \<Longrightarrow> in_i64 (fst (mature now m bs))"
  by (induction now m bs rule: mature.induct) simp_all

lemma sorted_takeWhile_filter:
  "sorted (map fst bs) \<Longrightarrow> takeWhile (\<lambda>b. fst b \<le> now) bs = filter (\<lambda>b. fst b \<le> now) bs \<and>
     dropWhile (\<lambda>b. fst b \<le> now) bs = filter (\<lambda>b. now < fst b) bs" for now :: int
proof (induction bs)
  case (Cons b bs)
  then show ?case
  proof (cases "fst b \<le> now")
    case False
    then have "\<forall>c \<in> set (b # bs). now < fst c" using Cons.prems by force
    then show ?thesis using False by (auto simp: filter_id_conv filter_empty_conv not_le)
  qed auto
qed simp

text \<open>
  C23: Maturing frees exactly the REX whose maturity time has come: the buckets left are those in
  the future, and the matured amount grows by the sum of the others.
\<close>

theorem process_rex_maturities_due:
  assumes "sorted (map fst (rex_maturities rb))" "in_i64 (matured_rex rb)"
  shows "process_rex_maturities E rb = rb\<lparr>
    rex_maturities := filter (\<lambda>b. e_sec E < fst b) (rex_maturities rb),
    matured_rex := i64 (matured_rex rb + bucket_sum (filter (\<lambda>b. fst b \<le> e_sec E) (rex_maturities rb)))\<rparr>"
  using mature_spec [of "e_sec E" "matured_rex rb" "rex_maturities rb"]
    mature_in_i64 [OF assms(2), of "e_sec E" "rex_maturities rb"]
    sorted_takeWhile_filter [OF assms(1), of "e_sec E"]
  by (auto simp: process_rex_maturities_def i64_in_i64 split: prod.splits)

definition sample_rex :: rex_balance where
  "sample_rex = \<lparr>rb_owner = 1, vote_stake = sys 100, rex_amount = \<lparr>amount = 100, asym = rex_symbol\<rparr>,
     matured_rex = 10, rex_maturities = [(1500000000, 20), (1700000000, 30), (4294967295, 40)]\<rparr>"

theorem process_rex_maturities_due_witness:
  "process_rex_maturities sample_env sample_rex = sample_rex\<lparr>
     rex_maturities := [(1700000000, 30), (4294967295, 40)], matured_rex := 30\<rparr>"
  using process_rex_maturities_due [of sample_rex sample_env]
  by (simp add: sample_rex_def sample_env_def in_i64_def i64_id)

definition has_savings :: "rex_balance \<Rightarrow> bool" where
  "has_savings rb \<longleftrightarrow> rex_maturities rb \<noteq> [] \<and> fst (last (rex_maturities rb)) = end_of_days"

text \<open>
  C24: REX put into the savings of a row without savings is read back exactly, and reading it
  leaves the row as it was.
\<close>

theorem rex_savings_round_trip:
  assumes "\<not> has_savings rb" "n \<noteq> 0"
  shows "read_rex_savings (put_rex_savings n rb) = (n, rb)"
  using assms by (auto simp: read_rex_savings_def put_rex_savings_def has_savings_def
      add_to_bucket_def Let_def)

theorem rex_savings_round_trip_witness:
  "read_rex_savings (put_rex_savings 40 (sample_rex\<lparr>rex_maturities := [(1700000000, 30)]\<rparr>)) =
     (40, sample_rex\<lparr>rex_maturities := [(1700000000, 30)]\<rparr>)"
  by (rule rex_savings_round_trip)
    (simp_all add: has_savings_def sample_rex_def end_of_days_def time_point_sec_max_def)

end
