(* ===== verification/Bancor.thy ===== *)
theory Bancor
  imports State
begin

text \<open>
  The Bancor exchange (\<open>exchange_state.cpp\<close>): the RAM market is a constant-product relay between
  RAM and the core token, and the REX rental price uses its two static functions. All of it is
  computed in doubles and truncated to integers. The lemmas bound the result by the reserve,
  compare it with the exact quotient, and prove it equal to integer division where the product
  of the inputs has at most 53 bits.
\<close>

section \<open>Conversions\<close>

definition get_bancor_output :: "int \<Rightarrow> int \<Rightarrow> int \<Rightarrow> error + int" where
  "get_bancor_output inp_reserve out_reserve inp =
     (let ib = of_i inp_reserve; ob = of_i out_reserve; i = of_i inp in
      bindR (to_i64 Bad_conversion ((i * ob) / (ib + i))) (\<lambda>out.
        Inr (if out < 0 then 0 else out)))"

definition get_bancor_input :: "int \<Rightarrow> int \<Rightarrow> int \<Rightarrow> error + int" where
  "get_bancor_input out_reserve inp_reserve out =
     (let ob = of_i out_reserve; ib = of_i inp_reserve in
      bindR (to_i64 Bad_conversion ((ib * of_i out) / (ob - of_i out))) (\<lambda>inp.
        Inr (if inp < 0 then 0 else inp)))"

definition set_base :: "asset \<Rightarrow> exchange_state \<Rightarrow> exchange_state" where
  "set_base a x = x\<lparr>base := (base x)\<lparr>balance := a\<rparr>\<rparr>"

definition set_quote :: "asset \<Rightarrow> exchange_state \<Rightarrow> exchange_state" where
  "set_quote a x = x\<lparr>quote := (quote x)\<lparr>balance := a\<rparr>\<rparr>"

text \<open>
  \<open>convert_to_exchange\<close> and \<open>convert_from_exchange\<close> take the connector by reference: they
  return it updated, with the supply and the amount converted. \<open>std::pow\<close> is a parameter.
\<close>

definition convert_to_exchange ::
  "env \<Rightarrow> exchange_state \<Rightarrow> connector \<Rightarrow> asset \<Rightarrow> error + (exchange_state \<times> connector \<times> asset)" where
  "convert_to_exchange E x reserve pay =
     (let S0 = of_i (amount (ex_supply x)); R0 = of_i (amount (balance reserve));
          dR = of_i (amount pay); F = weight reserve;
          dS = S0 * (e_pow E (1 + dR / R0) F - 1);
          dS = (if dS < 0 then 0 else dS) in
      bindR (aa_plus (e_assets E) (balance reserve) pay) (\<lambda>b.
      bindR (to_i64 Bad_conversion dS) (\<lambda>n.
      let x' = x\<lparr>ex_supply := (ex_supply x)\<lparr>amount := i64 (amount (ex_supply x) + n)\<rparr>\<rparr> in
      bindR (aa_make (e_assets E) n (asym (ex_supply x))) (\<lambda>out.
      Inr (x', reserve\<lparr>balance := b\<rparr>, out)))))"

definition convert_from_exchange ::
  "env \<Rightarrow> exchange_state \<Rightarrow> connector \<Rightarrow> asset \<Rightarrow> error + (exchange_state \<times> connector \<times> asset)" where
  "convert_from_exchange E x reserve tokens =
     (let R0 = of_i (amount (balance reserve)); S0 = of_i (amount (ex_supply x));
          dS = of_i (i64 (- amount tokens)); Fi = of_i 1 / weight reserve;
          dR = R0 * (e_pow E (1 + dS / S0) Fi - 1);
          dR = (if 0 < dR then 0 else dR) in
      bindR (to_i64 Bad_conversion (- dR)) (\<lambda>n.
      let b = (balance reserve)\<lparr>amount := i64 (amount (balance reserve) - n)\<rparr> in
      bindR (aa_minus (e_assets E) (ex_supply x) tokens) (\<lambda>sp.
      bindR (aa_make (e_assets E) n (asym (balance reserve))) (\<lambda>out.
      Inr (x\<lparr>ex_supply := sp\<rparr>, reserve\<lparr>balance := b\<rparr>, out)))))"

definition convert :: "env \<Rightarrow> exchange_state \<Rightarrow> asset \<Rightarrow> symbol \<Rightarrow> error + (exchange_state \<times> asset)" where
  "convert E x frm to =
     (let base_symbol = asym (balance (base x)); quote_symbol = asym (balance (quote x)) in
      check (asym frm \<noteq> to) (Ram Same_symbol_conversion) (
      if asym frm = base_symbol \<and> to = quote_symbol then
        bindR (convert_to_exchange E x (base x) frm) (\<lambda>(x1, b, tmp).
        bindR (convert_from_exchange E (x1\<lparr>base := b\<rparr>) (quote x1) tmp) (\<lambda>(x2, q, out).
        Inr (x2\<lparr>quote := q\<rparr>, out)))
      else if asym frm = quote_symbol \<and> to = base_symbol then
        bindR (convert_to_exchange E x (quote x) frm) (\<lambda>(x1, q, tmp).
        bindR (convert_from_exchange E (x1\<lparr>quote := q\<rparr>) (base x1) tmp) (\<lambda>(x2, b, out).
        Inr (x2\<lparr>base := b\<rparr>, out)))
      else Inl (Ram Invalid_conversion)))"

definition direct_convert ::
  "env \<Rightarrow> exchange_state \<Rightarrow> asset \<Rightarrow> symbol \<Rightarrow> error + (exchange_state \<times> asset)" where
  "direct_convert E x frm to =
     (let b = balance (base x); q = balance (quote x); A = e_assets E in
      check (asym frm \<noteq> to) (Ram Same_symbol_conversion) (
      if asym frm = asym b \<and> to = asym q then
        bindR (get_bancor_output (amount b) (amount q) (amount frm)) (\<lambda>n.
        let out = \<lparr>amount = n, asym = to\<rparr> in
        bindR (aa_plus A b frm) (\<lambda>b'.
        bindR (aa_minus A q out) (\<lambda>q'.
        Inr (set_quote q' (set_base b' x), out))))
      else if asym frm = asym q \<and> to = asym b then
        bindR (get_bancor_output (amount q) (amount b) (amount frm)) (\<lambda>n.
        let out = \<lparr>amount = n, asym = to\<rparr> in
        bindR (aa_plus A q frm) (\<lambda>q'.
        bindR (aa_minus A b out) (\<lambda>b'.
        Inr (set_base b' (set_quote q' x), out))))
      else Inl (Ram Invalid_conversion)))"

section \<open>The rounded constant-product formula\<close>

text \<open>What the formula gives under any rounding that satisfies the laws.\<close>

context rounding
begin

definition swap_out :: "int \<Rightarrow> int \<Rightarrow> int \<Rightarrow> int" where
  "swap_out ib ob i = trunc (rd (rd (of_int (i * ob)) / of_int (ib + i)))"

lemma swap_nonneg: "0 \<le> ib \<Longrightarrow> 0 \<le> ob \<Longrightarrow> 0 \<le> i \<Longrightarrow> 0 \<le> swap_out ib ob i"
  unfolding swap_out_def
  by (subst trunc_nonneg) (auto intro!: rd_nonneg divide_nonneg_nonneg simp flip: of_int_mult)

lemma rd_near:
  assumes "1 / 9007199254740992 \<le> x"
  shows "rd x \<le> x * (1 + 1 / 9007199254740992)" "x * (1 - 1 / 9007199254740992) \<le> rd x"
proof -
  have "two_pow (- 1022) \<le> two_pow (- 53)" by (rule two_pow_mono) simp
  also have "\<dots> = 1 / 9007199254740992" by (simp add: two_pow_def)
  also note assms
  finally have "\<bar>rd x - x\<bar> \<le> x / 9007199254740992" by (rule rd_error)
  then show "rd x \<le> x * (1 + 1 / 9007199254740992)" "x * (1 - 1 / 9007199254740992) \<le> rd x"
    unfolding abs_le_iff by (simp_all add: algebra_simps)
qed

text \<open>The relative error of the two roundings together is below \<open>1 / 2 ^ 51\<close>.\<close>

lemma swap_near:
  assumes "0 \<le> ib" "0 < ob" "0 < i" "ib + i \<le> 9007199254740992"
  defines "q \<equiv> of_int (i * ob) / (of_int (ib + i) :: rat)"
  shows "\<bar>rd (rd (of_int (i * ob)) / of_int (ib + i)) - q\<bar> < q / 2251799813685248"
proof -
  define d p u :: rat where "d = of_int (ib + i)" and "p = of_int (i * ob)"
    and "u = 1 / 9007199254740992"
  have d: "1 \<le> d" "d \<le> 9007199254740992"
    using assms of_int_le_iff [of "ib + i" 9007199254740992, where 'a = rat]
    by (simp_all add: d_def flip: of_int_add)
  have "1 \<le> i * ob" using assms by (simp add: int_one_le_iff_zero_less)
  then have p: "1 \<le> p" unfolding p_def using of_int_le_iff [of 1 "i * ob", where 'a = rat] by simp
  have u: "0 < u" "u \<le> 1 / 9007199254740992" by (simp_all add: u_def)
  have q: "0 < q" "u \<le> q" using d p unfolding q_def p_def [symmetric] d_def [symmetric] u_def
    by (auto intro: frac_le)
  have r1: "rd p \<le> p * (1 + u)" "p * (1 - u) \<le> rd p"
    using rd_near [of p] p by (auto simp: u_def)
  have q1: "rd p / d \<le> q * (1 + u)" "q * (1 - u) \<le> rd p / d"
    using divide_right_mono [OF r1(1), of d] divide_right_mono [OF r1(2), of d] d
    unfolding q_def p_def [symmetric] d_def [symmetric] by simp_all
  have "1 \<le> rd p" using rd_ge_int [of 1 p] p by simp
  then have big: "1 / 9007199254740992 \<le> rd p / d" using d by (intro frac_le) auto
  have "rd (rd p / d) \<le> (rd p / d) * (1 + u)" "(rd p / d) * (1 - u) \<le> rd (rd p / d)"
    using rd_near [OF big] by (simp_all add: u_def)
  moreover have "(rd p / d) * (1 + u) \<le> q * (1 + u) * (1 + u)"
    using q1 u by (intro mult_right_mono) auto
  moreover have "q * (1 - u) * (1 - u) \<le> (rd p / d) * (1 - u)"
    using q1 u by (intro mult_right_mono) auto
  moreover have "q * (1 + u) * (1 + u) < q + q / 2251799813685248"
    "q - q / 2251799813685248 < q * (1 - u) * (1 - u)"
    using q by (simp_all add: u_def algebra_simps)
  ultimately have "rd (rd p / d) - q < q / 2251799813685248 \<and> - (rd (rd p / d) - q) < q / 2251799813685248"
    by linarith
  then show ?thesis unfolding p_def d_def abs_less_iff .
qed

end

section \<open>The code's formula in its working range\<close>

text \<open>
  Reserves of the markets are below \<open>2 ^ 53\<close> (a token supply is at most \<open>10 ^ 14\<close>, RAM at most
  \<open>2 ^ 50\<close> bytes). There the integers convert exactly and nothing overflows, and the code
  computes the rounded formula above.
\<close>

definition reserves_ok :: "int \<Rightarrow> int \<Rightarrow> int \<Rightarrow> bool" where
  "reserves_ok ib ob i \<longleftrightarrow> 0 \<le> ib \<and> 0 \<le> i \<and> 0 < ib + i \<and> ib + i \<le> 9007199254740992 \<and>
     0 \<le> ob \<and> ob \<le> 2251799813685248"

lemma reserves_prod: "reserves_ok ib ob i \<Longrightarrow> 0 \<le> i * ob \<and> i * ob \<le> 9007199254740992 * 2251799813685248"
  using mult_mono [of i 9007199254740992 ob 2251799813685248] by (simp add: reserves_ok_def)

lemma quotient_le_ob:
  assumes "reserves_ok ib ob i"
  shows "of_int (i * ob) / (of_int (ib + i) :: rat) \<le> of_int ob"
proof -
  have "i * ob \<le> ob * (ib + i)"
    using assms mult_right_mono [of i "ib + i" ob] by (simp add: reserves_ok_def mult.commute)
  then have "(of_int (i * ob) :: rat) \<le> of_int (ob * (ib + i))" by (simp only: of_int_le_iff)
  moreover have "(0::rat) < of_int (ib + i)" using assms by (simp only: reserves_ok_def of_int_0_less_iff)
  ultimately show ?thesis by (simp add: divide_le_eq del: of_int_add)
qed

lemma rne64_swap_bounds:
  assumes "reserves_ok ib ob i"
  shows "0 \<le> rne64.swap_out ib ob i" "rne64.swap_out ib ob i \<le> ob"
    "\<bar>rne64.swap_out ib ob i - i * ob div (ib + i)\<bar> \<le> 1"
proof -
  show nn: "0 \<le> rne64.swap_out ib ob i"
    using assms by (intro rne64.swap_nonneg) (auto simp: reserves_ok_def)
  define q :: rat where "q = of_int (i * ob) / of_int (ib + i)"
  define r where "r = rnd_rat (rnd_rat (of_int (i * ob)) / of_int (ib + i))"
  have qob: "q \<le> of_int ob" unfolding q_def using assms by (rule quotient_le_ob)
  have near: "\<bar>r - q\<bar> < 1"
  proof (cases "ob = 0 \<or> i = 0")
    case True
    then show ?thesis by (auto simp: r_def q_def)
  next
    case False
    then have "\<bar>r - q\<bar> < q / 2251799813685248"
      unfolding r_def q_def using assms by (intro rne64.swap_near) (auto simp: reserves_ok_def)
    moreover have "q \<le> 2251799813685248"
      using qob assms of_int_le_iff [of ob 2251799813685248, where 'a = rat]
      by (simp add: reserves_ok_def)
    ultimately show ?thesis by linarith
  qed
  have "0 \<le> (of_int (i * ob) :: rat)" "0 \<le> (of_int (ib + i) :: rat)"
    using assms by (simp_all add: reserves_ok_def del: of_int_mult of_int_add)
  then have "0 \<le> r" unfolding r_def by (intro rnd_rat_nonneg divide_nonneg_nonneg)
  then have r: "rne64.swap_out ib ob i = \<lfloor>r\<rfloor>" "i * ob div (ib + i) = \<lfloor>q\<rfloor>"
    by (simp_all only: rne64.swap_out_def r_def q_def trunc_nonneg floor_divide_of_int_eq)
  show "rne64.swap_out ib ob i \<le> ob" unfolding r using near qob by linarith
  show "\<bar>rne64.swap_out ib ob i - i * ob div (ib + i)\<bar> \<le> 1" unfolding r using near by linarith
qed

lemma reserves_of_i:
  assumes "reserves_ok ib ob i"
  shows "of_i ib = Fin (of_int ib)" "of_i ob = Fin (of_int ob)" "of_i i = Fin (of_int i)"
    "Fin (of_int ib) + Fin (of_int i) = Fin (of_int (ib + i))"
    "Fin (of_int i) * Fin (of_int ob) = Fin (rnd_rat (of_int (i * ob)))"
proof -
  note ok = assms [unfolded reserves_ok_def]
  show "of_i ib = Fin (of_int ib)" "of_i ob = Fin (of_int ob)" "of_i i = Fin (of_int i)"
    using ok by (intro of_i_exact; simp)+
  have "of_i (ib + i) = Fin (of_int (ib + i))" using ok by (intro of_i_exact) simp
  then show "Fin (of_int ib) + Fin (of_int i) = Fin (of_int (ib + i))"
    by (simp add: plus_f64_def of_i_def)
  have "(of_int (i * ob) :: rat) \<le> of_int (9007199254740992 * 2251799813685248)"
    using reserves_prod [OF assms] by (simp only: of_int_le_iff)
  moreover have "(0::rat) \<le> of_int (i * ob)" using reserves_prod [OF assms] by (simp only: of_int_0_le_iff)
  ultimately show "Fin (of_int i) * Fin (of_int ob) = Fin (rnd_rat (of_int (i * ob)))"
    by (simp add: times_f64_def rnd_small)
qed

lemma bancor_output_eq:
  assumes "reserves_ok ib ob i"
  shows "get_bancor_output ib ob i = Inr (rne64.swap_out ib ob i)"
proof -
  note b = rne64_swap_bounds [OF assms] and f = reserves_of_i [OF assms]
  define p where "p = rnd_rat (of_int (i * ob))"
  define d :: rat where "d = of_int (ib + i)"
  have d: "1 \<le> d" using assms of_int_le_iff [of 1 "ib + i", where 'a = rat]
    by (simp add: d_def reserves_ok_def)
  have "two_pow 104 = of_int (9007199254740992 * 2251799813685248)"
    unfolding two_pow_def by simp
  then have "(of_int (i * ob) :: rat) \<le> two_pow 104" "(0::rat) \<le> of_int (i * ob)"
    using reserves_prod [OF assms] by (simp_all only: of_int_le_iff of_int_0_le_iff)
  then have p: "0 \<le> p" "p \<le> two_pow 104"
    unfolding p_def using rnd_rat_nonneg rnd_rat_mono [of "of_int (i * ob)" "two_pow 104"]
      rnd_rat_two_pow [of 104] by simp_all
  have "p / d \<le> p" using p d by (simp add: divide_le_eq mult_le_cancel_left1)
  then have "\<bar>p / d\<bar> \<le> two_pow 1023"
    using p d two_pow_mono [of 104 1023] by simp
  then have "Fin p / Fin d = Fin (rnd_rat (p / d))"
    using d by (simp add: divide_f64_def rnd_fin)
  moreover have "in_i64 (rne64.swap_out ib ob i)"
    using b assms by (simp add: in_i64_def reserves_ok_def)
  ultimately show ?thesis
    using b unfolding get_bancor_output_def Let_def f p_def [symmetric] d_def [symmetric]
    by (simp add: to_i64_def rne64.swap_out_def p_def d_def)
qed

lemma bancor_output_Inr:
  "reserves_ok ib ob i \<Longrightarrow> get_bancor_output ib ob i = Inr n \<Longrightarrow> 0 \<le> n \<and> n \<le> ob"
  using rne64_swap_bounds [of ib ob i] by (simp add: bancor_output_eq)

lemma bancor_output_exact:
  assumes ok: "reserves_ok ib ob i" and small: "i * ob < 9007199254740992"
  shows "get_bancor_output ib ob i = Inr (i * ob div (ib + i))"
proof -
  have p: "0 \<le> i * ob" using reserves_prod [OF ok] by simp
  have d: "0 < ib + i" "ib + i \<le> 9007199254740992" using ok by (simp_all add: reserves_ok_def)
  have "rnd_rat (of_int (i * ob)) = of_int (i * ob)" using p small by (intro rnd_rat_int) simp
  moreover have "0 \<le> (of_int (i * ob) / of_int (ib + i) :: rat)"
    using p d by (intro divide_nonneg_nonneg) (simp_all only: of_int_0_le_iff)
  ultimately have "rne64.swap_out ib ob i = i * ob div (ib + i)"
    using rne64.rd_quotient_floor [OF p small d]
    by (simp add: rne64.swap_out_def trunc_nonneg rnd_rat_nonneg del: of_int_mult of_int_add)
  then show ?thesis using ok by (simp add: bancor_output_eq)
qed

text \<open>
  C21: In the markets' working range \<open>get_bancor_output\<close> returns (no conversion out of range), the
  result lies between 0 and the output reserve, and the doubles are off from the exact integer
  quotient by at most one unit.
\<close>

theorem bancor_output_bounded:
  assumes "reserves_ok ib ob i"
  shows "\<exists>out. get_bancor_output ib ob i = Inr out \<and> 0 \<le> out \<and> out \<le> ob \<and>
    \<bar>out - i * ob div (ib + i)\<bar> \<le> 1"
  using rne64_swap_bounds [OF assms] bancor_output_eq [OF assms] by blast

theorem bancor_output_bounded_witness:
  "\<exists>out. get_bancor_output 1000000 70000000000 12345 = Inr out \<and> 0 \<le> out \<and> out \<le> 70000000000 \<and>
    \<bar>out - 12345 * 70000000000 div (1000000 + 12345)\<bar> \<le> 1"
  by (rule bancor_output_bounded) (simp add: reserves_ok_def)

lemma swap_below:
  assumes ok: "reserves_ok ib ob i" and pos: "0 < ob" "0 < i"
  shows "of_int (rne64.swap_out ib ob i) <
    of_int (i * ob) / (of_int (ib + i) :: rat) * (1 + 1 / 2251799813685248)"
proof -
  define r where "r = rnd_rat (rnd_rat (of_int (i * ob)) / of_int (ib + i))"
  have "\<bar>r - of_int (i * ob) / of_int (ib + i)\<bar> < of_int (i * ob) / of_int (ib + i) / 2251799813685248"
    unfolding r_def using ok pos by (intro rne64.swap_near) (auto simp: reserves_ok_def)
  then have "r < of_int (i * ob) / of_int (ib + i) * (1 + 1 / 2251799813685248)"
    by (simp only: abs_less_iff distrib_left mult_1_right times_divide_eq_right) linarith
  moreover have "0 \<le> (of_int (i * ob) :: rat)" "0 \<le> (of_int (ib + i) :: rat)"
    using ok by (simp_all add: reserves_ok_def del: of_int_mult of_int_add)
  then have "0 \<le> r" unfolding r_def by (intro rnd_rat_nonneg divide_nonneg_nonneg)
  then have "of_int (rne64.swap_out ib ob i) \<le> r"
    by (simp only: rne64.swap_out_def r_def trunc_nonneg of_int_floor_le)
  ultimately show ?thesis by linarith
qed

text \<open>
  C22: Buying on the exchange and selling the proceeds straight back never yields more than was
  paid, in spite of the roundings of the doubles: the reserves are in the working range and the
  payment is below \<open>2 ^ 50\<close> units, more than there are tokens or bytes of RAM.
\<close>

theorem bancor_round_trip:
  assumes ok: "reserves_ok ib ob i" and rng: "0 < ob" "ib + i \<le> 2251799813685248" "i < 1125899906842624"
    and out: "get_bancor_output ib ob i = Inr out"
  shows "\<exists>back. get_bancor_output (ob - out) (ib + i) out = Inr back \<and> 0 \<le> back \<and> back \<le> i"
proof -
  have o1: "out = rne64.swap_out ib ob i" "0 \<le> out" "out \<le> ob"
    using out bancor_output_eq [OF ok] bancor_output_Inr [OF ok out] by simp_all
  have ok2: "reserves_ok (ob - out) (ib + i) out" using ok rng o1 by (simp add: reserves_ok_def)
  note b = bancor_output_eq [OF ok2] rne64_swap_bounds(1) [OF ok2]
  define ret where "ret = rne64.swap_out (ob - out) (ib + i) out"
  have "ret \<le> i"
  proof (cases "out = 0 \<or> i = 0")
    case True
    then have "out = 0" using o1(1) by (auto simp: rne64.swap_out_def trunc_nonneg)
    then show ?thesis using ok by (simp add: ret_def rne64.swap_out_def trunc_nonneg reserves_ok_def)
  next
    case False
    then have pos: "0 < out" "0 < i" using o1 ok by (auto simp: reserves_ok_def)
    define d v x y n :: rat where "d = of_int (ib + i)" and "v = 1 / 2251799813685248"
      and "x = of_int i" and "y = of_int ob" and "n = of_int out"
    have d: "0 < d" "0 < y" "0 < x" "0 < v" "0 < n"
      using ok rng(1) pos by (simp_all only: d_def y_def x_def v_def n_def of_int_0_less_iff reserves_ok_def)
    have 1: "n < x * y / d * (1 + v)"
      using swap_below [OF ok rng(1) pos(2)] unfolding o1(1) [symmetric] d_def v_def x_def y_def n_def of_int_mult .
    have "of_int ret < n * d / y * (1 + v)"
      using swap_below [OF ok2 _ pos(1)] ok unfolding ret_def [symmetric]
      by (simp add: reserves_ok_def d_def v_def y_def n_def del: of_int_add)
    also have "n * d / y * (1 + v) \<le> (x * y / d * (1 + v)) * d / y * (1 + v)"
      using 1 d by (intro mult_right_mono divide_right_mono) simp_all
    also have "\<dots> = x * ((1 + v) * (1 + v))" using d by (simp add: field_simps)
    also have "\<dots> < x + 1"
    proof -
      have "x \<le> 1125899906842623" using rng(3) of_int_le_iff [of i 1125899906842623, where 'a = rat] by (simp add: x_def)
      then have "x * ((1 + v) * (1 + v) - 1) \<le> 1125899906842623 * ((1 + v) * (1 + v) - 1)"
        using d by (intro mult_right_mono) (simp_all add: v_def)
      also have "\<dots> < 1" by (simp add: v_def)
      finally show ?thesis by (simp add: right_diff_distrib)
    qed
    finally have "(of_int ret :: rat) < of_int (i + 1)" by (simp add: x_def)
    then show ?thesis by (simp only: of_int_less_iff)
  qed
  then show ?thesis using b by (simp add: ret_def)
qed

text \<open>Ten million units of tokens for RAM, of 64 GiB: the products have 60 bits.\<close>

theorem bancor_round_trip_witness:
  "\<exists>out back. get_bancor_output 10000000000 68719476736 10000000 = Inr out \<and>
     get_bancor_output (68719476736 - out) (10000000000 + 10000000) out = Inr back \<and> back \<le> 10000000"
proof -
  have ok: "reserves_ok 10000000000 68719476736 10000000" by (simp add: reserves_ok_def)
  show ?thesis using bancor_round_trip [OF ok _ _ _ bancor_output_eq [OF ok]] bancor_output_eq [OF ok] by auto
qed

end
