(* ===== verification/Quotas.thy ===== *)
theory Quotas
  imports State
begin

text \<open>
  The totals of an account (table \<open>userres\<close>) and its resource limits at the host. Three functions
  of the source change them together: \<open>update_resource_limits\<close> (\<open>rex.cpp\<close>), \<open>adjust_resources\<close>
  (\<open>powerup.cpp\<close>) and a block of \<open>changebw\<close> (\<open>delegate_bandwidth.cpp\<close>). They leave limits that are
  managed by the system account alone and drop a row whose totals are all zero.
\<close>

section \<open>Storing totals\<close>

abbreviation set_amount :: "int \<Rightarrow> asset \<Rightarrow> asset" where
  "set_amount n a \<equiv> a\<lparr>amount := n\<rparr>"

definition check_totals :: "user_resources \<Rightarrow> (error + 'a) \<Rightarrow> error + 'a" where
  "check_totals tot k =
     check (0 \<le> amount (ur_net_weight tot)) (Bw Insufficient_total_net) (
     check (0 \<le> amount (ur_cpu_weight tot)) (Bw Insufficient_total_cpu) k)"

lemma check_totals_eq_Inr [res_simps]:
  "check_totals tot k = Inr y \<longleftrightarrow> 0 \<le> amount (ur_net_weight tot) \<and> 0 \<le> amount (ur_cpu_weight tot) \<and> k = Inr y"
  by (simp add: check_totals_def check_eq_Inr)

definition store_totals :: "name \<Rightarrow> user_resources \<Rightarrow> chain \<Rightarrow> chain" where
  "store_totals receiver tot s =
     s\<lparr>userres := (if ur_is_empty tot then fmdrop receiver (userres s)
       else fmupd receiver tot (userres s))\<rparr>"

text \<open>The NET and CPU limits follow the totals unless managed; the RAM limit is given.\<close>

definition set_limits :: "name \<Rightarrow> int \<Rightarrow> user_resources \<Rightarrow> chain \<Rightarrow> chain" where
  "set_limits receiver ram tot s =
     (let net_man = account_flag s receiver net_managed; cpu_man = account_flag s receiver cpu_managed;
          (old_ram, net, cpu) = get_resource_limits s receiver in
      if net_man \<and> cpu_man then s
      else set_resource_limits receiver ram
        (if net_man then net else amount (ur_net_weight tot))
        (if cpu_man then cpu else amount (ur_cpu_weight tot)) s)"

text \<open>The RAM limit of a staker is at least the quota bought plus the gift, unless managed.\<close>

definition staker_ram :: "name \<Rightarrow> user_resources \<Rightarrow> chain \<Rightarrow> int" where
  "staker_ram receiver tot s =
     (let ram = fst (get_resource_limits s receiver) in
      if account_flag s receiver ram_managed then ram
      else max (i64 (ram_bytes tot + ram_gift_bytes)) ram)"

section \<open>The operations\<close>

text \<open>\<open>update_resource_limits\<close>; its first argument only pays for RAM and is left out.\<close>

definition update_resource_limits :: "env \<Rightarrow> name \<Rightarrow> int \<Rightarrow> int \<Rightarrow> chain \<Rightarrow> error + chain" where
  "update_resource_limits E receiver delta_net delta_cpu s =
     (if delta_cpu = 0 \<and> delta_net = 0 then Inr s
      else
        bindR (case fmlookup (userres s) receiver of
            None \<Rightarrow> check (0 \<le> delta_net \<and> 0 \<le> delta_cpu) (Rex Limits_logic_error) (
              core_symbol s (\<lambda>core.
              bindR (aa_make (e_assets E) delta_net core) (\<lambda>net.
              bindR (aa_make (e_assets E) delta_cpu core) (\<lambda>cpu.
              Inr \<lparr>ur_owner = receiver, ur_net_weight = net, ur_cpu_weight = cpu, ram_bytes = 0\<rparr>))))
          | Some t \<Rightarrow> Inr (t\<lparr>
              ur_net_weight := set_amount (i64 (amount (ur_net_weight t) + delta_net)) (ur_net_weight t),
              ur_cpu_weight := set_amount (i64 (amount (ur_cpu_weight t) + delta_cpu)) (ur_cpu_weight t)\<rparr>))
          (\<lambda>tot.
        check_totals tot (
        Inr (store_totals receiver tot
          (set_limits receiver (fst (get_resource_limits s receiver)) tot s)))))"

definition adjust_resources :: "env \<Rightarrow> name \<Rightarrow> symbol \<Rightarrow> int \<Rightarrow> int \<Rightarrow> bool \<Rightarrow> chain \<Rightarrow> error + chain" where
  "adjust_resources E account core net_delta cpu_delta must_not_be_managed s =
     (if net_delta = 0 \<and> cpu_delta = 0 then Inr s
      else
        bindR (case fmlookup (userres s) account of
            None \<Rightarrow>
              bindR (aa_make (e_assets E) net_delta core) (\<lambda>net.
              bindR (aa_make (e_assets E) cpu_delta core) (\<lambda>cpu.
              Inr \<lparr>ur_owner = account, ur_net_weight = net, ur_cpu_weight = cpu, ram_bytes = 0\<rparr>))
          | Some t \<Rightarrow> Inr (t\<lparr>
              ur_net_weight := set_amount (i64 (amount (ur_net_weight t) + net_delta)) (ur_net_weight t),
              ur_cpu_weight := set_amount (i64 (amount (ur_cpu_weight t) + cpu_delta)) (ur_cpu_weight t)\<rparr>))
          (\<lambda>tot.
        check_totals tot (
        check (must_not_be_managed \<longrightarrow>
            \<not> account_flag s account net_managed \<and> \<not> account_flag s account cpu_managed)
          (Power Managed_account) (
        Inr (store_totals account tot (set_limits account (staker_ram account tot s) tot s))))))"

section \<open>What they leave alone\<close>

definition same_but_quotas :: "chain \<Rightarrow> chain \<Rightarrow> bool" where
  "same_but_quotas s t \<longleftrightarrow> t = s\<lparr>userres := userres t, limits := limits t\<rparr>"

lemma same_but_quotas_refl [simp]: "same_but_quotas s s"
  by (simp add: same_but_quotas_def)

lemma same_but_quotas_trans: "same_but_quotas s t \<Longrightarrow> same_but_quotas t u \<Longrightarrow> same_but_quotas s u"
  unfolding same_but_quotas_def by (cases s, cases t, cases u) simp

lemma set_limits_same [simp]: "same_but_quotas s (set_limits a r tot s)"
  by (auto simp: set_limits_def same_but_quotas_def set_resource_limits_def Let_def split: prod.split)

lemma store_totals_same [simp]: "same_but_quotas s (store_totals a tot s)"
  by (simp add: store_totals_def same_but_quotas_def)

lemma quotas_stored: "same_but_quotas s (store_totals a tot (set_limits a r tot s))"
  by (rule same_but_quotas_trans [OF set_limits_same store_totals_same])

lemma update_resource_limits_same: "update_resource_limits E a n c s = Inr t \<Longrightarrow> same_but_quotas s t"
  by (auto simp: update_resource_limits_def res_simps Let_def quotas_stored
      split: if_splits prod.splits)

lemma adjust_resources_same: "adjust_resources E a core n c b s = Inr t \<Longrightarrow> same_but_quotas s t"
  by (auto simp: adjust_resources_def res_simps quotas_stored split: if_splits)

lemma same_but_quotas_fields:
  assumes "same_but_quotas s t"
  shows "voters t = voters s" "producers t = producers s" "gstate t = gstate s" "gstate2 t = gstate2 s"
    "gstate3 t = gstate3 s" "rammarket t = rammarket s" "delband t = delband s" "refunds t = refunds s"
    "rexpool t = rexpool s" "rexretpool t = rexretpool s" "rexretbuckets t = rexretbuckets s"
    "rexfunds t = rexfunds s" "rexbalance t = rexbalance s" "rexorders t = rexorders s"
    "cpu_loans t = cpu_loans s" "net_loans t = net_loans s" "powerstate t = powerstate s"
    "powerorders t = powerorders s" "outbox t = outbox s"
  using assms unfolding same_but_quotas_def by (cases s, cases t, simp)+

lemma row_ram: "fmlookup (userres s) a = None \<Longrightarrow> row_val ram_bytes (userres s) a = 0"
  by simp

lemma store_totals_ram:
  assumes "ram_bytes tot = row_val ram_bytes (userres s) a"
  shows "table_sum ram_bytes (userres (store_totals a tot s)) = table_sum ram_bytes (userres s)"
  using assms by (simp add: store_totals_def table_sum_upd table_sum_drop ur_is_empty_def)

lemma set_limits_userres [simp]: "userres (set_limits a r tot s) = userres s"
  by (auto simp: set_limits_def set_resource_limits_def Let_def split: prod.split)

lemma stored_ram:
  "ram_bytes tot = row_val ram_bytes (userres s) a \<Longrightarrow>
     table_sum ram_bytes (userres (store_totals a tot (set_limits a r tot s))) = table_sum ram_bytes (userres s)"
  using store_totals_ram [of tot "set_limits a r tot s" a] by simp

text \<open>The RAM bytes owned by all accounts together do not change with bandwidth.\<close>

lemma update_resource_limits_ram:
  "update_resource_limits E a n c s = Inr t \<Longrightarrow>
     table_sum ram_bytes (userres t) = table_sum ram_bytes (userres s)"
  by (cases "fmlookup (userres s) a")
    (auto simp: update_resource_limits_def res_simps stored_ram split: if_splits)

lemma adjust_resources_ram:
  "adjust_resources E a core n c b s = Inr t \<Longrightarrow>
     table_sum ram_bytes (userres t) = table_sum ram_bytes (userres s)"
  by (cases "fmlookup (userres s) a")
    (auto simp: adjust_resources_def res_simps stored_ram split: if_splits)

section \<open>Properties\<close>

definition limits_follow :: "chain \<Rightarrow> name \<Rightarrow> bool" where
  "limits_follow s a \<longleftrightarrow> (case get_resource_limits s a of (ram, net, cpu) \<Rightarrow>
     (\<not> account_flag s a net_managed \<longrightarrow>
        net = row_val (\<lambda>t. amount (ur_net_weight t)) (userres s) a) \<and>
     (\<not> account_flag s a cpu_managed \<longrightarrow>
        cpu = row_val (\<lambda>t. amount (ur_cpu_weight t)) (userres s) a))"

lemma stored_follow: "limits_follow (store_totals a tot (set_limits a r tot s)) a"
  by (auto simp: limits_follow_def store_totals_def set_limits_def set_resource_limits_def
      get_resource_limits_def account_flag_def Let_def ur_is_empty_def row_val_def split: prod.split)

text \<open>
  After a change of an account's totals its NET and CPU limits at the host are the totals,
  unless the system account manages them; no total is negative; and when the call is made on
  behalf of the power-up market, nothing is managed.
\<close>

theorem limits_follow_totals:
  assumes "adjust_resources E a core n c b s = Inr t" "n \<noteq> 0 \<or> c \<noteq> 0"
  shows "limits_follow t a \<and> 0 \<le> row_val (\<lambda>r. amount (ur_net_weight r)) (userres t) a \<and>
    0 \<le> row_val (\<lambda>r. amount (ur_cpu_weight r)) (userres t) a \<and>
    (b \<longrightarrow> \<not> account_flag t a net_managed \<and> \<not> account_flag t a cpu_managed)"
proof -
  obtain tot where t: "t = store_totals a tot (set_limits a (staker_ram a tot s) tot s)"
    and nn: "0 \<le> amount (ur_net_weight tot)" "0 \<le> amount (ur_cpu_weight tot)"
    and b: "b \<longrightarrow> \<not> account_flag s a net_managed \<and> \<not> account_flag s a cpu_managed"
    using assms by (auto simp: adjust_resources_def res_simps)
  have "voters t = voters s" using quotas_stored same_but_quotas_fields(1) unfolding t by blast
  then show ?thesis
    using stored_follow [of a tot "staker_ram a tot s" s] nn b
    by (auto simp: t account_flag_def store_totals_def row_val_def)
qed

theorem limits_follow_totals_witness:
  "\<exists>t. adjust_resources sample_env 9 sys_symbol 500 0 True sample_chain = Inr t \<and> limits_follow t 9"
proof -
  have "succeeds (adjust_resources sample_env 9 sys_symbol 500 0 True sample_chain)" by code_simp
  then obtain t where "adjust_resources sample_env 9 sys_symbol 500 0 True sample_chain = Inr t"
    by (rule succeedsE)
  with limits_follow_totals [OF this] show ?thesis by auto
qed

end
