(* ===== verification/RexPool.thy ===== *)
theory RexPool
  imports RexBalance Bancor Quotas
begin

text \<open>
  The REX pool and the return pool (\<open>rex.cpp\<close>): fees enter the return pool and are released to
  the lendable pool in equal parts over 30 days; buying REX adds to the pool, loans move tokens
  between its lent and unlent parts. The lemmas show that the lendable total stays the sum of
  the two, and that tokens are only moved between the return pool and the lendable pool.
\<close>

section \<open>The pool\<close>

definition rex_system_initialized :: "chain \<Rightarrow> bool" where
  "rex_system_initialized s \<longleftrightarrow> rexpool s \<noteq> None"

definition rex_available :: "chain \<Rightarrow> bool" where
  "rex_available s \<longleftrightarrow> (case rexpool s of None \<Rightarrow> False | Some p \<Rightarrow> 0 < amount (total_rex p))"

text \<open>Multiply and divide; the division traps on zero.\<close>

definition muldivR :: "int \<Rightarrow> int \<Rightarrow> int \<Rightarrow> error + int" where
  "muldivR a b c = check (c \<noteq> 0) Division_trap (Inr (muldiv a b c))"

lemma muldivR_eq_Inr [res_simps]: "muldivR a b c = Inr y \<longleftrightarrow> c \<noteq> 0 \<and> y = muldiv a b c"
  by (auto simp: muldivR_def check_eq_Inr)

definition rex_ratio :: int where "rex_ratio = 10000"
definition init_total_rent :: int where "init_total_rent = 200000000"

text \<open>\<open>rp\<close> after the purchase and the REX received, for an initialised pool.\<close>

definition grow_rex_pool :: "int \<Rightarrow> rex_pool \<Rightarrow> error + (int \<times> rex_pool)" where
  "grow_rex_pool paid rp =
     (if amount (total_rex rp) \<le> 0 then
        let rex = i64 (paid * rex_ratio) in
        Inr (rex, rp\<lparr>total_lendable := set_amount paid (total_lendable rp),
          total_lent := set_amount 0 (total_lent rp),
          total_unlent := set_amount (i64 (paid - 0)) (total_unlent rp),
          total_rent := set_amount init_total_rent (total_rent rp),
          total_rex := set_amount rex (total_rex rp)\<rparr>)
      else
        check (0 < amount (total_lendable rp)) (Rex Lendable_pool_empty) (
        let S0 = amount (total_lendable rp); S1 = i64 (S0 + paid); R0 = amount (total_rex rp) in
        bindR (muldivR S1 R0 S0) (\<lambda>R1.
        let unlent = i64 (S1 - amount (total_lent rp)) in
        check (0 \<le> unlent) (Rex Unlent_negative) (
        Inr (i64 (R1 - R0), rp\<lparr>total_lendable := set_amount S1 (total_lendable rp),
          total_rex := set_amount R1 (total_rex rp),
          total_unlent := set_amount unlent (total_unlent rp)\<rparr>)))))"

definition add_to_rex_pool :: "env \<Rightarrow> asset \<Rightarrow> chain \<Rightarrow> error + (asset \<times> chain)" where
  "add_to_rex_pool E pay s =
     core_symbol s (\<lambda>core.
     case rexpool s of
       None \<Rightarrow>
         let rex = i64 (amount pay * rex_ratio) in
         bindR (aa_minus (e_assets E) pay (asset0 core)) (\<lambda>unlent.
         Inr (\<lparr>amount = rex, asym = rex_symbol\<rparr>,
           s\<lparr>rexpool := Some \<lparr>total_lent = asset0 core, total_unlent = unlent,
             total_rent = \<lparr>amount = init_total_rent, asym = core\<rparr>, total_lendable = pay,
             total_rex = \<lparr>amount = rex, asym = rex_symbol\<rparr>, namebid_proceeds = asset0 core,
             loan_num = 0\<rparr>\<rparr>))
     | Some rp \<Rightarrow>
         bindR (grow_rex_pool (amount pay) rp) (\<lambda>(rex, rp').
         Inr (\<lparr>amount = rex, asym = rex_symbol\<rparr>, s\<lparr>rexpool := Some rp'\<rparr>)))"

section \<open>The return pool\<close>

definition get_elapsed_intervals :: "int \<Rightarrow> int \<Rightarrow> int" where
  "get_elapsed_intervals t1 t0 = u32 (t1 - t0) div dist_interval"

fun bucket_put :: "int \<Rightarrow> int \<Rightarrow> return_buckets \<Rightarrow> return_buckets" where
  "bucket_put t r [] = [(t, r)]"
| "bucket_put t r ((t', r') # bs) =
     (if t < t' then (t, r) # (t', r') # bs
      else if t = t' then (t, r) # bs
      else (t', r') # bucket_put t r bs)"

text \<open>
  Closing the pending bucket: its proceeds are released at a constant rate from its time on. The
  result is the new row, the change of the pool so far, and the bucket to store, if any.
\<close>

definition close_pending_bucket ::
  "int \<Rightarrow> int \<Rightarrow> rex_return_pool \<Rightarrow> rex_return_pool \<times> int \<times> (int \<times> int) option" where
  "close_pending_bucket effective_time change rp =
     (if pending_bucket_time rp \<le> effective_time then
        let remainder = tmod (pending_bucket_proceeds rp) total_intervals;
            rate = tdiv (i64 (pending_bucket_proceeds rp - remainder)) total_intervals;
            t = pending_bucket_time rp in
        (rp\<lparr>current_rate_of_increase := i64 (current_rate_of_increase rp + rate),
           pending_bucket_proceeds := 0, pending_bucket_time := time_point_sec_max,
           oldest_bucket_time := (if t < oldest_bucket_time rp then t else oldest_bucket_time rp)\<rparr>,
         i64 (change + i64 (remainder + i64 (rate * get_elapsed_intervals effective_time t))),
         Some (t, rate))
      else (rp, change, None))"

text \<open>Buckets older than 30 days stop releasing; what they released too much is taken back.\<close>

definition expired_surplus :: "int \<Rightarrow> return_buckets \<Rightarrow> int" where
  "expired_surplus effective_time bs = fold (\<lambda>(t, r) n.
     i64 (n + i64 (r * get_elapsed_intervals effective_time (u32 (t + total_intervals * dist_interval))))) bs 0"

definition expired_rate :: "return_buckets \<Rightarrow> int" where
  "expired_rate bs = fold (\<lambda>(t, r) n. i64 (n + r)) bs 0"

definition expire_buckets ::
  "int \<Rightarrow> int \<Rightarrow> rex_return_pool \<Rightarrow> return_buckets \<Rightarrow> rex_return_pool \<times> int \<times> return_buckets" where
  "expire_buckets effective_time change rp bs =
     (let threshold = u32 (effective_time - total_intervals * dist_interval) in
      if oldest_bucket_time rp \<le> threshold then
        let old = takeWhile (\<lambda>b. fst b \<le> threshold) bs; rest = dropWhile (\<lambda>b. fst b \<le> threshold) bs;
            surplus = expired_surplus effective_time old; rate = expired_rate old;
            rp1 = rp\<lparr>oldest_bucket_time := (case rest of [] \<Rightarrow> 0 | b # _ \<Rightarrow> fst b)\<rparr>;
            rp2 = (if 0 < rate then rp1\<lparr>current_rate_of_increase :=
              i64 (current_rate_of_increase rp1 - rate)\<rparr> else rp1) in
        if 0 < surplus then (rp2\<lparr>proceeds := i64 (proceeds rp2 + surplus)\<rparr>, i64 (change - surplus), rest)
        else (rp2, change, rest)
      else (rp, change, bs))"

definition release_to_pool :: "env \<Rightarrow> int \<Rightarrow> chain \<Rightarrow> error + chain" where
  "release_to_pool E change s =
     (if 0 < change then
        fetch (rexpool s) No_row (\<lambda>p.
        let unlent = set_amount (i64 (amount (total_unlent p) + change)) (total_unlent p) in
        bindR (aa_plus (e_assets E) unlent (total_lent p)) (\<lambda>lendable.
        Inr (s\<lparr>rexpool := Some (p\<lparr>total_unlent := unlent, total_lendable := lendable\<rparr>)\<rparr>)))
      else Inr s)"

text \<open>The whole step on the return pool and its buckets, with what it releases to the pool.\<close>

definition distribute_returns ::
  "int \<Rightarrow> rex_return_pool \<Rightarrow> return_buckets \<Rightarrow> rex_return_pool \<times> return_buckets \<times> int" where
  "distribute_returns effective_time rp bs0 =
     (let change0 = i64 (current_rate_of_increase rp *
            get_elapsed_intervals effective_time (last_dist_time rp));
          (rp1, change1, new) = close_pending_bucket effective_time change0 rp;
          rp2 = rp1\<lparr>proceeds := i64 (proceeds rp1 - change1), last_dist_time := effective_time\<rparr>;
          bs1 = (case new of None \<Rightarrow> bs0 | Some (t, r) \<Rightarrow> bucket_put t r bs0);
          (rp3, change2, bs2) = expire_buckets effective_time change1 rp2 bs1 in
      if 0 < change2 \<and> proceeds rp3 < 0
      then (rp3\<lparr>proceeds := 0\<rparr>, bs2, i64 (change2 + proceeds rp3))
      else (rp3, bs2, change2))"

definition update_rex_pool :: "env \<Rightarrow> chain \<Rightarrow> error + chain" where
  "update_rex_pool E s =
     (let effective_time = e_sec E - e_sec E mod dist_interval in
      case rexretpool s of
        None \<Rightarrow> Inr s
      | Some rp \<Rightarrow>
          if effective_time \<le> last_dist_time rp then Inr s
          else fetch (rexretbuckets s) No_row (\<lambda>bs.
            let (rp', bs', change) = distribute_returns effective_time rp bs in
            release_to_pool E change (s\<lparr>rexretpool := Some rp', rexretbuckets := Some bs'\<rparr>)))"

definition add_to_rex_return_pool :: "env \<Rightarrow> asset \<Rightarrow> chain \<Rightarrow> error + chain" where
  "add_to_rex_return_pool E fee s0 =
     bindR (update_rex_pool E s0) (\<lambda>s.
     if amount fee \<le> 0 then Inr s
     else
       let cts = e_sec E; bucket_interval = hours_per_bucket * seconds_per_hour;
           effective_time = u32 (cts - cts mod bucket_interval + bucket_interval) in
       case rexretpool s of
         None \<Rightarrow>
           check (rexretbuckets s = None) Duplicate_row (
           Inr (s\<lparr>rexretpool := Some \<lparr>last_dist_time = effective_time,
             pending_bucket_time = effective_time, oldest_bucket_time = 0,
             pending_bucket_proceeds = amount fee, current_rate_of_increase = 0,
             proceeds = amount fee\<rparr>, rexretbuckets := Some []\<rparr>))
       | Some rp \<Rightarrow>
           Inr (s\<lparr>rexretpool := Some (rp\<lparr>
             pending_bucket_proceeds := i64 (pending_bucket_proceeds rp + amount fee),
             proceeds := i64 (proceeds rp + amount fee),
             pending_bucket_time := (if pending_bucket_time rp = time_point_sec_max
               then effective_time else pending_bucket_time rp)\<rparr>)\<rparr>))"

section \<open>Channelling fees\<close>

text \<open>\<open>CHANNEL_RAM_AND_NAMEBID_FEES_TO_REX\<close> is 1, as the header defines it.\<close>

definition channel_to_rex :: "env \<Rightarrow> name \<Rightarrow> asset \<Rightarrow> chain \<Rightarrow> error + chain" where
  "channel_to_rex E from fee s =
     (if rex_available s then
        bindR (add_to_rex_return_pool E fee s) (\<lambda>s1.
        Inr (emit (Transfer [from] from rex_account fee) s1))
      else Inr s)"

definition channel_namebid_to_rex :: "int \<Rightarrow> chain \<Rightarrow> chain" where
  "channel_namebid_to_rex highest_bid s =
     (case rexpool s of
        Some rp \<Rightarrow> if 0 < amount (total_rex rp)
          then s\<lparr>rexpool := Some (rp\<lparr>namebid_proceeds :=
            set_amount (i64 (amount (namebid_proceeds rp) + highest_bid)) (namebid_proceeds rp)\<rparr>)\<rparr>
          else s
      | None \<Rightarrow> s)"

section \<open>Loans and the pool\<close>

definition lend_from_pool :: "asset \<Rightarrow> int \<Rightarrow> bool \<Rightarrow> rex_pool \<Rightarrow> rex_pool" where
  "lend_from_pool pay rented_tokens new_loan rt =
     rt\<lparr>total_rent := set_amount (i64 (amount (total_rent rt) + amount pay)) (total_rent rt),
       total_unlent := set_amount (i64 (amount (total_unlent rt) - rented_tokens)) (total_unlent rt),
       total_lent := set_amount (i64 (amount (total_lent rt) + rented_tokens)) (total_lent rt),
       loan_num := (if new_loan then u64 (loan_num rt + 1) else loan_num rt)\<rparr>"

definition add_loan_to_rex_pool :: "env \<Rightarrow> asset \<Rightarrow> int \<Rightarrow> bool \<Rightarrow> chain \<Rightarrow> error + chain" where
  "add_loan_to_rex_pool E pay rented_tokens new_loan s =
     bindR (add_to_rex_return_pool E pay s) (\<lambda>s1.
     fetch (rexpool s1) No_row (\<lambda>rt.
     Inr (s1\<lparr>rexpool := Some (lend_from_pool pay rented_tokens new_loan rt)\<rparr>)))"

definition remove_loan_from_rex_pool :: "rex_loan \<Rightarrow> chain \<Rightarrow> error + chain" where
  "remove_loan_from_rex_pool loan s =
     fetch (rexpool s) No_row (\<lambda>rt.
     let stake = amount (total_staked loan) in
     bindR (get_bancor_output (amount (total_unlent rt)) (amount (total_rent rt)) stake)
       (\<lambda>delta_total_rent.
     let unlent = i64 (amount (total_unlent rt) + stake); lent = i64 (amount (total_lent rt) - stake) in
     Inr (s\<lparr>rexpool := Some (rt\<lparr>
       total_rent := set_amount (i64 (amount (total_rent rt) - delta_total_rent)) (total_rent rt),
       total_unlent := set_amount unlent (total_unlent rt),
       total_lent := set_amount lent (total_lent rt),
       total_lendable := set_amount (i64 (unlent + lent)) (total_lendable rt)\<rparr>)\<rparr>)))"

section \<open>The lendable total\<close>

definition pool_balanced :: "rex_pool \<Rightarrow> bool" where
  "pool_balanced rp \<longleftrightarrow> amount (total_lendable rp) = i64 (amount (total_unlent rp) + amount (total_lent rp))"

definition pool_ok :: "chain \<Rightarrow> bool" where
  "pool_ok s \<longleftrightarrow> (\<forall>rp. rexpool s = Some rp \<longrightarrow> pool_balanced rp)"

lemma max_amount_i64: "\<bar>n\<bar> \<le> max_amount \<Longrightarrow> i64 n = n"
  by (simp add: max_amount_def i64_id)

lemma grow_rex_pool_balanced:
  "grow_rex_pool n rp = Inr (r, rp') \<Longrightarrow> in_i64 n \<Longrightarrow> pool_balanced rp'"
  by (auto simp: grow_rex_pool_def pool_balanced_def Let_def res_simps i64_in_i64 split: if_splits)

lemma lend_from_pool_balanced: "pool_balanced rp \<Longrightarrow> pool_balanced (lend_from_pool a n b rp)"
  by (simp add: pool_balanced_def lend_from_pool_def)

lemma add_to_rex_pool_ok:
  assumes A: "asset_laws (e_assets E)" and ok: "add_to_rex_pool E a s = Inr (r, t)" and "in_i64 (amount a)"
  shows "pool_ok t"
proof (cases "rexpool s")
  case None
  from ok None obtain m u rx where m: "aa_minus (e_assets E) a (asset0 m) = Inr u"
    and t: "rexpool t = Some \<lparr>total_lent = asset0 m, total_unlent = u,
      total_rent = \<lparr>amount = init_total_rent, asym = m\<rparr>, total_lendable = a,
      total_rex = rx, namebid_proceeds = asset0 m, loan_num = 0\<rparr>"
    by (auto simp: add_to_rex_pool_def res_simps Let_def)
  have "amount u = amount a" using asset_laws.minus_amount [OF A m] by simp
  then show ?thesis using t assms(3) by (simp add: pool_ok_def pool_balanced_def i64_in_i64)
next
  case (Some rp)
  with ok obtain n rp' where "grow_rex_pool (amount a) rp = Inr (n, rp')" "rexpool t = Some rp'"
    by (auto simp: add_to_rex_pool_def res_simps)
  then show ?thesis using grow_rex_pool_balanced assms(3) by (simp add: pool_ok_def)
qed

lemma release_to_pool_Inr:
  assumes A: "asset_laws (e_assets E)" and ok: "release_to_pool E n s = Inr t"
  obtains "n \<le> 0" "t = s"
  | p q where "0 < n" "rexpool s = Some p" "t = s\<lparr>rexpool := Some q\<rparr>" "pool_balanced q"
    "amount (total_unlent q) = i64 (amount (total_unlent p) + n)" "total_lent q = total_lent p"
    "amount (total_lendable q) = amount (total_unlent q) + amount (total_lent q)"
proof (cases "0 < n")
  case True
  with ok obtain p c where p: "rexpool s = Some p"
    and c: "aa_plus (e_assets E) (set_amount (i64 (amount (total_unlent p) + n)) (total_unlent p))
      (total_lent p) = Inr c"
    and t: "t = s\<lparr>rexpool := Some (p\<lparr>total_unlent := set_amount (i64 (amount (total_unlent p) + n))
      (total_unlent p), total_lendable := c\<rparr>)\<rparr>"
    by (auto simp: release_to_pool_def res_simps Let_def)
  note c' = asset_laws.plus_ok [OF A c, simplified]
  then have "i64 (amount c) = amount c" by (intro max_amount_i64) simp
  with c' show ?thesis
    by (intro that(2) [OF True p t]) (simp_all add: pool_balanced_def del: i64_add_i64)
next
  case False
  then show ?thesis using ok by (intro that(1)) (simp_all add: release_to_pool_def)
qed

lemma update_rex_pool_Inr:
  assumes "update_rex_pool E s = Inr t"
  obtains "t = s"
  | rp bs rp' bs' n where "rexretpool s = Some rp" "rexretbuckets s = Some bs"
    "last_dist_time rp < e_sec E - e_sec E mod dist_interval"
    "distribute_returns (e_sec E - e_sec E mod dist_interval) rp bs = (rp', bs', n)"
    "release_to_pool E n (s\<lparr>rexretpool := Some rp', rexretbuckets := Some bs'\<rparr>) = Inr t"
proof (cases "t = s")
  case False
  let ?e = "e_sec E - e_sec E mod dist_interval"
  obtain rp bs where *: "rexretpool s = Some rp" "rexretbuckets s = Some bs" "last_dist_time rp < ?e"
    using assms False by (auto simp: update_rex_pool_def res_simps Let_def split: option.splits if_splits)
  obtain rp' bs' n where d: "distribute_returns ?e rp bs = (rp', bs', n)" by (rule prod_cases3)
  show ?thesis
    using assms * d by (intro that(2) [OF * d]) (simp add: update_rex_pool_def Let_def)
qed (rule that(1))

lemma update_rex_pool_ok:
  assumes A: "asset_laws (e_assets E)" and "update_rex_pool E s = Inr t" and ok: "pool_ok s"
  shows "pool_ok t"
  using assms(2)
proof (cases rule: update_rex_pool_Inr)
  case (2 rp bs rp' bs' n)
  from A 2(5) show ?thesis by (cases rule: release_to_pool_Inr) (use ok in \<open>auto simp: pool_ok_def\<close>)
qed (use ok in simp)

lemma add_to_rex_return_pool_Inr:
  assumes "add_to_rex_return_pool E fee s = Inr t"
  obtains u where "update_rex_pool E s = Inr u" "amount fee \<le> 0" "t = u"
  | u rp bs where "update_rex_pool E s = Inr u" "0 < amount fee" "rexretpool u = None" "rexretbuckets u = None"
    "t = u\<lparr>rexretpool := Some rp, rexretbuckets := Some []\<rparr>" "proceeds rp = amount fee"
  | u rp rp' where "update_rex_pool E s = Inr u" "0 < amount fee" "rexretpool u = Some rp"
    "t = u\<lparr>rexretpool := Some rp'\<rparr>" "proceeds rp' = i64 (proceeds rp + amount fee)"
proof -
  obtain u where u: "update_rex_pool E s = Inr u"
    using assms by (auto simp: add_to_rex_return_pool_def res_simps)
  note eq = assms [unfolded add_to_rex_return_pool_def u bindR_Inr Let_def]
  show ?thesis
  proof (cases "amount fee \<le> 0")
    case True
    then show ?thesis using eq that(1) [OF u] by simp
  next
    case pos: False
    show ?thesis
    proof (cases "rexretpool u")
      case None
      then show ?thesis using eq pos by (intro that(2) [OF u]) (auto simp: check_eq_Inr)
    next
      case (Some rp)
      then show ?thesis using eq pos by (intro that(3) [OF u _ Some]) auto
    qed
  qed
qed

lemma add_to_rex_return_pool_ok:
  assumes A: "asset_laws (e_assets E)" and "add_to_rex_return_pool E fee s = Inr t" and ok: "pool_ok s"
  shows "pool_ok t"
  using assms(2)
  by (cases rule: add_to_rex_return_pool_Inr)
    (use update_rex_pool_ok [OF A _ ok] in \<open>auto simp: pool_ok_def\<close>)

lemma channel_to_rex_ok:
  assumes A: "asset_laws (e_assets E)" and "channel_to_rex E a fee s = Inr t" and ok: "pool_ok s"
  shows "pool_ok t"
  using assms(2) ok add_to_rex_return_pool_ok [OF A _ ok]
  by (auto simp: channel_to_rex_def res_simps emit_def pool_ok_def split: if_splits)

lemma channel_namebid_to_rex_ok: "pool_ok s \<Longrightarrow> pool_ok (channel_namebid_to_rex n s)"
  by (auto simp: channel_namebid_to_rex_def pool_ok_def pool_balanced_def split: option.split)

lemma add_loan_to_rex_pool_ok:
  assumes "asset_laws (e_assets E)" "add_loan_to_rex_pool E pay n b s = Inr t" "pool_ok s"
  shows "pool_ok t"
  using assms(2) add_to_rex_return_pool_ok [OF assms(1) _ assms(3)] lend_from_pool_balanced
  by (auto simp: add_loan_to_rex_pool_def res_simps pool_ok_def)

lemma remove_loan_from_rex_pool_ok:
  "remove_loan_from_rex_pool loan s = Inr t \<Longrightarrow> pool_ok t"
  by (auto simp: remove_loan_from_rex_pool_def res_simps Let_def pool_ok_def pool_balanced_def)

section \<open>Releasing the returns\<close>

text \<open>
  The return pool and its buckets between updates: the rate is the sum of the rates of the
  buckets that have not expired, and no bucket is older than the oldest time recorded.
\<close>

abbreviation return_period :: int where "return_period \<equiv> 2592000"

definition return_ok :: "rex_return_pool \<Rightarrow> return_buckets \<Rightarrow> bool" where
  "return_ok rp bs \<longleftrightarrow> 0 \<le> last_dist_time rp \<and> 0 \<le> pending_bucket_proceeds rp \<and> 0 \<le> proceeds rp \<and>
     0 \<le> pending_bucket_time rp \<and> current_rate_of_increase rp = bucket_sum bs \<and>
     (\<forall>(t, r) \<in> set bs. 0 \<le> r \<and> 0 \<le> t \<and> t \<le> last_dist_time rp \<and> t < pending_bucket_time rp \<and>
       last_dist_time rp < t + return_period \<and> oldest_bucket_time rp \<le> t) \<and>
     sorted_wrt (<) (map fst bs)"

text \<open>
  Amounts for which nothing overflows: the pending proceeds and the rate are far beyond what the
  supply of the core token allows.
\<close>

definition return_bounds :: "int \<Rightarrow> rex_return_pool \<Rightarrow> bool" where
  "return_bounds eff rp \<longleftrightarrow> return_period \<le> eff \<and> eff < 4294967295 \<and> last_dist_time rp < eff \<and>
     current_rate_of_increase rp \<le> 500000000000 \<and> pending_bucket_proceeds rp \<le> 1000000000000000 \<and>
     proceeds rp \<le> i64_max"

lemma period_eq [simp]: "total_intervals * dist_interval = return_period"
  by (simp add: total_intervals_def dist_interval_def)

lemma bucket_put_append: "\<forall>b \<in> set bs. fst b < t \<Longrightarrow> bucket_put t r bs = bs @ [(t, r)]"
  by (induction bs) auto

lemma bucket_sum_nonneg: "\<forall>b \<in> set bs. 0 \<le> snd b \<Longrightarrow> 0 \<le> bucket_sum bs"
  by (induction bs) auto

definition overtime :: "int \<Rightarrow> int \<times> int \<Rightarrow> int" where
  "overtime eff b = snd b * ((eff - fst b - return_period) div 600)"

lemma expired_rate_eq:
  "\<forall>b \<in> set bs. 0 \<le> snd b \<Longrightarrow> 0 \<le> n \<Longrightarrow> n + bucket_sum bs \<le> i64_max \<Longrightarrow>
     fold (\<lambda>(t, r) n. i64 (n + r)) bs n = n + bucket_sum bs"
proof (induction bs arbitrary: n)
  case (Cons b bs)
  then have "0 \<le> bucket_sum bs" by (intro bucket_sum_nonneg) simp
  with Cons show ?case by (cases b) (auto simp: i64_id i64_max_def)
qed simp

lemma expired_surplus_eq:
  assumes "\<forall>(t, r) \<in> set bs. 0 \<le> r \<and> 0 \<le> t \<and> t + return_period \<le> eff" "eff < 4294967295" "0 \<le> n"
    and "n + (\<Sum>b\<leftarrow>bs. overtime eff b) \<le> i64_max"
  shows "fold (\<lambda>(t, r) n. i64 (n + i64 (r * get_elapsed_intervals eff
      (u32 (t + total_intervals * dist_interval))))) bs n = n + (\<Sum>b\<leftarrow>bs. overtime eff b)"
  using assms
proof (induction bs arbitrary: n)
  case (Cons b bs)
  obtain t r where b: "b = (t, r)" by (cases b)
  have pos: "0 \<le> overtime eff c" if "c \<in> set (b # bs)" for c
    using Cons.prems(1) that unfolding overtime_def
    by (intro mult_nonneg_nonneg) (auto simp: pos_imp_zdiv_nonneg_iff)
  then have "0 \<le> (\<Sum>c\<leftarrow>bs. overtime eff c)" by (intro sum_list_nonneg) auto
  moreover have "get_elapsed_intervals eff (u32 (t + return_period)) = (eff - t - return_period) div 600"
    using Cons.prems b by (simp add: get_elapsed_intervals_def u32_id dist_interval_def algebra_simps)
  ultimately show ?case
    using Cons.prems pos [of b] Cons.IH [of "n + overtime eff b"]
    by (simp add: b overtime_def i64_id i64_max_def)
qed simp

lemma sum_takeWhile_le:
  "\<forall>x \<in> set xs. P x \<longrightarrow> 0 \<le> (g x :: int) \<and> g x \<le> h x \<Longrightarrow> \<forall>x \<in> set xs. 0 \<le> h x \<Longrightarrow>
     0 \<le> (\<Sum>x\<leftarrow>takeWhile P xs. g x) \<and> (\<Sum>x\<leftarrow>takeWhile P xs. g x) \<le> (\<Sum>x\<leftarrow>xs. h x)"
proof (induction xs)
  case (Cons x xs)
  have "0 \<le> (\<Sum>x\<leftarrow>xs. h x)" using Cons.prems(2) by (intro sum_list_nonneg) auto
  then show ?case using Cons by auto
qed simp

text \<open>Expiring takes back at most what the buckets have added since the last update.\<close>

lemma expire_buckets_spec:
  assumes bs: "\<forall>(t, r) \<in> set bs. 0 \<le> r \<and> 0 \<le> t \<and> t \<le> eff \<and> oldest_bucket_time rp \<le> t"
    and eff: "return_period \<le> eff" "eff < 4294967295"
    and h: "\<forall>b \<in> set bs. fst b + return_period \<le> eff \<longrightarrow> overtime eff b \<le> h b" "\<forall>b \<in> set bs. 0 \<le> h b"
    and sum: "(\<Sum>b\<leftarrow>bs. h b) \<le> change" "change \<le> i64_max"
    and rate: "current_rate_of_increase rp = bucket_sum bs" "bucket_sum bs \<le> i64_max"
    and sorted: "sorted_wrt (<) (map fst bs)"
    and p: "-i64_max \<le> proceeds rp" "proceeds rp + change \<le> i64_max"
    and ok: "expire_buckets eff change rp bs = (rp', change', bs')"
  shows "(0 \<le> change' \<and> change' \<le> change) \<and> proceeds rp' + change' = proceeds rp + change \<and>
    current_rate_of_increase rp' = bucket_sum bs' \<and>
    (\<forall>b \<in> set bs'. b \<in> set bs \<and> eff < fst b + return_period \<and> oldest_bucket_time rp' \<le> fst b) \<and>
    sorted_wrt (<) (map fst bs') \<and> pending_bucket_time rp' = pending_bucket_time rp \<and>
    pending_bucket_proceeds rp' = pending_bucket_proceeds rp \<and> last_dist_time rp' = last_dist_time rp"
proof -
  define thr where "thr = eff - return_period"
  define old where "old = takeWhile (\<lambda>b. fst b \<le> thr) bs"
  define rest where "rest = dropWhile (\<lambda>b. fst b \<le> thr) bs"
  have thr: "u32 (eff - return_period) = thr" using eff by (simp add: thr_def u32_id)
  have split: "bucket_sum bs = bucket_sum old + bucket_sum rest"
    unfolding old_def rest_def by (metis bucket_sum_simps(3) takeWhile_dropWhile_id)
  have oldset: "\<forall>b \<in> set old. b \<in> set bs \<and> fst b \<le> thr"
    unfolding old_def by (auto dest: set_takeWhileD)
  have nn: "0 \<le> bucket_sum old" "0 \<le> bucket_sum rest"
  proof -
    have "\<forall>b \<in> set bs. 0 \<le> snd b" using bs by auto
    moreover have "set rest \<subseteq> set bs" using set_dropWhileD by (force simp: rest_def)
    ultimately show "0 \<le> bucket_sum old" "0 \<le> bucket_sum rest"
      using oldset by (auto intro!: bucket_sum_nonneg)
  qed
  have rest_late: "\<forall>b \<in> set rest. thr < fst b"
  proof -
    have "sorted (map fst bs)" using sorted strict_sorted_imp_sorted by blast
    then show ?thesis using sorted_takeWhile_filter [of bs thr] by (auto simp: rest_def)
  qed
  have ov: "\<forall>b \<in> set bs. fst b \<le> thr \<longrightarrow> 0 \<le> overtime eff b \<and> overtime eff b \<le> h b"
    using bs h(1) unfolding overtime_def thr_def
    by (auto intro!: mult_nonneg_nonneg simp: pos_imp_zdiv_nonneg_iff split_beta)
  define surplus where "surplus = (\<Sum>b\<leftarrow>old. overtime eff b)"
  have sb: "0 \<le> surplus" "surplus \<le> change"
    using sum_takeWhile_le [OF ov h(2)] sum(1) unfolding surplus_def old_def by auto
  have se: "expired_surplus eff old = surplus"
    using expired_surplus_eq [of old eff 0] oldset bs eff sb sum(2)
    by (force simp: expired_surplus_def surplus_def thr_def split_beta)
  have re: "expired_rate old = bucket_sum old"
    using expired_rate_eq [of old 0] oldset bs split nn rate
    by (force simp: expired_rate_def split_beta)
  have rest_sub: "set rest \<subseteq> set bs" using set_dropWhileD by (force simp: rest_def)
  show ?thesis
  proof (cases "oldest_bucket_time rp \<le> thr")
    case False
    then have eq: "rp' = rp" "change' = change" "bs' = bs"
      using ok thr by (auto simp: expire_buckets_def Let_def)
    have "\<forall>b \<in> set bs. thr < fst b" using bs False by force
    moreover have "0 \<le> change" using sb by linarith
    ultimately show ?thesis unfolding eq using bs sorted rate by (auto simp: thr_def)
  next
    case True
    define rp2 where "rp2 = rp\<lparr>oldest_bucket_time := (case rest of [] \<Rightarrow> 0 | b # _ \<Rightarrow> fst b),
      current_rate_of_increase := bucket_sum rest\<rparr>"
    have "i64 (bucket_sum bs - bucket_sum old) = bucket_sum rest"
      using split nn rate by (simp add: i64_id i64_max_def)
    then have r2: "(if 0 < bucket_sum old
        then rp\<lparr>oldest_bucket_time := (case rest of [] \<Rightarrow> 0 | b # _ \<Rightarrow> fst b)\<rparr>\<lparr>current_rate_of_increase :=
          i64 (current_rate_of_increase (rp\<lparr>oldest_bucket_time :=
            (case rest of [] \<Rightarrow> 0 | b # _ \<Rightarrow> fst b)\<rparr>) - bucket_sum old)\<rparr>
        else rp\<lparr>oldest_bucket_time := (case rest of [] \<Rightarrow> 0 | b # _ \<Rightarrow> fst b)\<rparr>) = rp2"
      using split nn rate(1) by (cases rp) (auto simp: rp2_def)
    then have "(rp', change', bs') = (if 0 < surplus
        then (rp2\<lparr>proceeds := i64 (proceeds rp2 + surplus)\<rparr>, i64 (change - surplus), rest)
        else (rp2, change, rest))"
      using ok True unfolding expire_buckets_def thr period_eq Let_def
        old_def [symmetric] rest_def [symmetric] se re r2 by simp
    moreover have "proceeds rp2 = proceeds rp" by (simp add: rp2_def)
    moreover have "i64 (proceeds rp + surplus) = proceeds rp + surplus" "i64 (change - surplus) = change - surplus"
      using p sb sum(2) by (simp_all add: i64_id i64_max_def)
    ultimately have eq: "proceeds rp' = proceeds rp + surplus" "change' = change - surplus" "bs' = rest"
      "current_rate_of_increase rp' = bucket_sum rest"
      "oldest_bucket_time rp' = (case rest of [] \<Rightarrow> 0 | b # _ \<Rightarrow> fst b)"
      "pending_bucket_time rp' = pending_bucket_time rp"
      "pending_bucket_proceeds rp' = pending_bucket_proceeds rp" "last_dist_time rp' = last_dist_time rp"
      using sb by (auto simp: rp2_def split: if_splits)
    have "sorted_wrt (<) (map fst rest)"
    proof -
      have "map fst bs = map fst old @ map fst rest"
        unfolding old_def rest_def by (metis map_append takeWhile_dropWhile_id)
      then show ?thesis using sorted by (simp add: sorted_wrt_append)
    qed
    moreover have "\<forall>b \<in> set rest. (case rest of [] \<Rightarrow> 0 | b # _ \<Rightarrow> fst b) \<le> fst b"
      using calculation by (cases rest) auto
    ultimately show ?thesis
      unfolding eq using sb rest_late rest_sub by (auto simp: thr_def)
  qed
qed

text \<open>Closing the pending bucket adds its remainder at once and its rate to the sum.\<close>

lemma close_pending_bucket_spec:
  assumes ok: "return_ok rp bs" and b: "return_bounds eff rp"
    and c: "0 \<le> c" "c \<le> 5000000000000000000"
    and step: "close_pending_bucket eff c rp = (rp', c', new)"
  defines "bs' \<equiv> (case new of None \<Rightarrow> bs | Some (t, r) \<Rightarrow> bucket_put t r bs)"
  shows "proceeds rp' = proceeds rp \<and> last_dist_time rp' = last_dist_time rp \<and>
    current_rate_of_increase rp' = bucket_sum bs' \<and> 0 \<le> pending_bucket_proceeds rp' \<and>
    0 \<le> pending_bucket_time rp' \<and> bucket_sum bs' \<le> 800000000000 \<and>
    sorted_wrt (<) (map fst bs') \<and>
    (case new of None \<Rightarrow> c' = c \<and> bs' = bs \<and> rp' = rp
      | Some (t, r) \<Rightarrow> bs' = bs @ [(t, r)] \<and> 0 \<le> t \<and> t \<le> eff \<and> 0 \<le> r \<and> r \<le> 240000000000 \<and>
          oldest_bucket_time rp' \<le> t \<and> oldest_bucket_time rp' \<le> oldest_bucket_time rp \<and>
          pending_bucket_time rp' = time_point_sec_max \<and>
          c + r * ((eff - t) div 600) \<le> c' \<and> c' \<le> c + r * ((eff - t) div 600) + 4320)"
proof (cases "pending_bucket_time rp \<le> eff")
  case False
  then show ?thesis using step ok b unfolding bs'_def
    by (auto simp: close_pending_bucket_def return_ok_def return_bounds_def)
next
  case True
  define P t where "P = pending_bucket_proceeds rp" and "t = pending_bucket_time rp"
  define r where "r = P div 4320"
  define m where "m = P mod 4320"
  have P: "0 \<le> P" "P \<le> 1000000000000000" using ok b by (auto simp: P_def return_ok_def return_bounds_def)
  have t: "0 \<le> t" "t \<le> eff" using ok True by (auto simp: t_def return_ok_def)
  have eff: "eff < 4294967295" using b by (simp add: return_bounds_def)
  have m: "0 \<le> m" "m < 4320" by (simp_all add: m_def)
  have r: "0 \<le> r" "r \<le> 240000000000" using P by (simp_all add: r_def pos_imp_zdiv_nonneg_iff)
  have tm: "tmod P total_intervals = m" using P by (simp add: tmod_nonneg m_def total_intervals_def)
  have td: "tdiv (i64 (P - m)) total_intervals = r"
    using P m by (simp add: i64_id total_intervals_def m_def r_def minus_mod_eq_div_mult)
  have g: "get_elapsed_intervals eff t = (eff - t) div 600"
    using t eff by (simp add: get_elapsed_intervals_def dist_interval_def u32_id)
  have e: "0 \<le> (eff - t) div 600" "(eff - t) div 600 \<le> 7158279"
    using t eff by (simp_all add: pos_imp_zdiv_nonneg_iff)
  have re: "0 \<le> r * ((eff - t) div 600)" "r * ((eff - t) div 600) \<le> 240000000000 * 7158279"
    using r e mult_mono [of r 240000000000 "(eff - t) div 600" 7158279] by simp_all
  have rate: "0 \<le> current_rate_of_increase rp" "current_rate_of_increase rp \<le> 500000000000"
    using ok b by (auto simp: return_ok_def return_bounds_def intro!: bucket_sum_nonneg)
  have w: "i64 (r * ((eff - t) div 600)) = r * ((eff - t) div 600)"
    "i64 (m + r * ((eff - t) div 600)) = m + r * ((eff - t) div 600)"
    "i64 (c + (m + r * ((eff - t) div 600))) = c + (m + r * ((eff - t) div 600))"
    "i64 (current_rate_of_increase rp + r) = current_rate_of_increase rp + r"
    using m r re rate c by (intro i64_id; linarith)+
  have new: "new = Some (t, r)" "c' = c + (m + r * ((eff - t) div 600))"
    "rp' = rp\<lparr>current_rate_of_increase := current_rate_of_increase rp + r, pending_bucket_proceeds := 0,
      pending_bucket_time := time_point_sec_max,
      oldest_bucket_time := (if t < oldest_bucket_time rp then t else oldest_bucket_time rp)\<rparr>"
    using step True
    unfolding close_pending_bucket_def Let_def P_def [symmetric] t_def [symmetric] tm td g w
    by simp_all
  have "\<forall>b \<in> set bs. fst b < t" using ok by (auto simp: return_ok_def t_def)
  then have bs': "bs' = bs @ [(t, r)]" and "sorted_wrt (<) (map fst (bs @ [(t, r)]))"
    using ok by (auto simp: bs'_def new bucket_put_append sorted_wrt_append return_ok_def)
  then show ?thesis
    unfolding bs' new using ok rate r t m re by (auto simp: return_ok_def time_point_sec_max_def)
qed

lemma sum_list_const_mult: "(\<Sum>b\<leftarrow>bs. snd b * k) = bucket_sum bs * (k :: int)"
  by (induction bs) (simp_all add: algebra_simps)

lemma distribute_returns_ok:
  assumes ok: "return_ok rp bs" and b: "return_bounds eff rp"
    and step: "distribute_returns eff rp bs = (rp', bs', n)"
  shows "0 \<le> n" "proceeds rp' + n = proceeds rp" "return_ok rp' bs'"
proof -
  define L El c0 where "L = last_dist_time rp" and "El = (eff - L) div 600"
    and "c0 = i64 (current_rate_of_increase rp * get_elapsed_intervals eff L)"
  have eff: "return_period \<le> eff" "eff < 4294967295" "0 \<le> L" "L < eff"
    using ok b by (auto simp: return_bounds_def return_ok_def L_def)
  have El: "0 \<le> El" "El \<le> 7158279" using eff by (simp_all add: El_def pos_imp_zdiv_nonneg_iff)
  have rate: "current_rate_of_increase rp = bucket_sum bs" "0 \<le> bucket_sum bs" "bucket_sum bs \<le> 500000000000"
    using ok b by (auto simp: return_ok_def return_bounds_def intro!: bucket_sum_nonneg)
  have prod: "0 \<le> bucket_sum bs * El" "bucket_sum bs * El \<le> 500000000000 * 7158279"
    using rate El mult_mono [of "bucket_sum bs" 500000000000 El 7158279] by simp_all
  then have "i64 (bucket_sum bs * El) = bucket_sum bs * El" by (intro i64_id; linarith)
  then have c0: "c0 = bucket_sum bs * El"
    using eff rate(1) by (simp add: c0_def get_elapsed_intervals_def El_def dist_interval_def u32_id)
  obtain rp1 c1 new where cl: "close_pending_bucket eff c0 rp = (rp1, c1, new)" by (rule prod_cases3)
  define bs1 where "bs1 = (case new of None \<Rightarrow> bs | Some (t, r) \<Rightarrow> bucket_put t r bs)"
  have "0 \<le> c0" "c0 \<le> 5000000000000000000" using c0 prod by simp_all
  note sp = close_pending_bucket_spec [OF ok b this cl, folded bs1_def]
  define h where "h b = (if b \<in> set bs then snd b * El else snd b * ((eff - fst b) div 600))" for b
  have bs_old: "\<forall>b \<in> set bs. 0 \<le> snd b \<and> 0 \<le> fst b \<and> fst b \<le> L \<and> L < fst b + return_period \<and>
      oldest_bucket_time rp \<le> fst b \<and> fst b < pending_bucket_time rp"
    using ok by (auto simp: return_ok_def L_def)
  have hs: "(\<Sum>b\<leftarrow>bs. h b) = c0"
    unfolding c0 sum_list_const_mult [symmetric]
    by (intro arg_cong [where f = sum_list] map_cong) (auto simp: h_def)
  consider (none) "new = None" "c1 = c0" "bs1 = bs" "rp1 = rp"
    | (some) t r where "new = Some (t, r)" "bs1 = bs @ [(t, r)]" "0 \<le> t" "t \<le> eff" "0 \<le> r" "r \<le> 240000000000"
      "oldest_bucket_time rp1 \<le> t" "oldest_bucket_time rp1 \<le> oldest_bucket_time rp"
      "pending_bucket_time rp1 = time_point_sec_max"
      "c0 + r * ((eff - t) div 600) \<le> c1" "c1 \<le> c0 + r * ((eff - t) div 600) + 4320"
    using sp by (cases new) auto
  note cases = this
  have bs1: "\<forall>b \<in> set bs1. 0 \<le> snd b \<and> 0 \<le> fst b \<and> fst b \<le> eff \<and>
      oldest_bucket_time rp1 \<le> fst b \<and> fst b < pending_bucket_time rp1"
    using bs_old eff by (cases rule: cases) (auto simp: time_point_sec_max_def)
  have c1: "0 \<le> c1" "c1 \<le> 6000000000000000000" "(\<Sum>b\<leftarrow>bs1. h b) \<le> c1"
  proof (atomize (full), cases rule: cases)
    case none
    show "0 \<le> c1 \<and> c1 \<le> 6000000000000000000 \<and> (\<Sum>b\<leftarrow>bs1. h b) \<le> c1"
      unfolding none(2,3) hs c0 using prod by linarith
  next
    case (some t r)
    have "0 \<le> (eff - t) div 600" "(eff - t) div 600 \<le> 7158279"
      using some eff by (simp_all add: pos_imp_zdiv_nonneg_iff)
    then have "0 \<le> r * ((eff - t) div 600)" "r * ((eff - t) div 600) \<le> 240000000000 * 7158279"
      using some mult_mono [of r 240000000000 "(eff - t) div 600" 7158279] by simp_all
    moreover have "h (t, r) \<le> r * ((eff - t) div 600)"
    proof (cases "(t, r) \<in> set bs")
      case True
      then have "sorted_wrt (<) (map fst (bs @ [(t, r)])) \<and> (t, r) \<in> set bs" using sp some by simp
      then show ?thesis by (force simp: sorted_wrt_append)
    qed (simp add: h_def)
    moreover have "(\<Sum>b\<leftarrow>bs1. h b) = c0 + h (t, r)" using some(2) hs by simp
    ultimately show "0 \<le> c1 \<and> c1 \<le> 6000000000000000000 \<and> (\<Sum>b\<leftarrow>bs1. h b) \<le> c1"
      using prod c0 some(10,11) by (intro conjI; linarith)
  qed
  have h_nonneg: "\<forall>b \<in> set bs1. 0 \<le> h b"
    using bs1 El by (auto simp: h_def pos_imp_zdiv_nonneg_iff intro!: mult_nonneg_nonneg)
  have h_over: "\<forall>b \<in> set bs1. fst b + return_period \<le> eff \<longrightarrow> overtime eff b \<le> h b"
  proof (intro ballI impI)
    fix b assume b: "b \<in> set bs1" "fst b + return_period \<le> eff"
    show "overtime eff b \<le> h b"
      unfolding overtime_def h_def using bs_old bs1 b
      by (auto simp: El_def intro!: mult_left_mono zdiv_mono1)
  qed
  have p: "0 \<le> proceeds rp" "proceeds rp \<le> i64_max" using ok b by (auto simp: return_ok_def return_bounds_def)
  define rp2 where "rp2 = rp1\<lparr>proceeds := i64 (proceeds rp1 - c1), last_dist_time := eff\<rparr>"
  have p2: "proceeds rp2 = proceeds rp - c1"
    using sp p c1 by (simp add: rp2_def i64_id i64_max_def)
  obtain rp3 c2 bs2 where ex: "expire_buckets eff c1 rp2 bs1 = (rp3, c2, bs2)" by (rule prod_cases3)
  have X: "(0 \<le> c2 \<and> c2 \<le> c1) \<and> proceeds rp3 + c2 = proceeds rp2 + c1 \<and>
    current_rate_of_increase rp3 = bucket_sum bs2 \<and>
    (\<forall>b \<in> set bs2. b \<in> set bs1 \<and> eff < fst b + return_period \<and> oldest_bucket_time rp3 \<le> fst b) \<and>
    sorted_wrt (<) (map fst bs2) \<and> pending_bucket_time rp3 = pending_bucket_time rp2 \<and>
    pending_bucket_proceeds rp3 = pending_bucket_proceeds rp2 \<and> last_dist_time rp3 = last_dist_time rp2"
    using sp bs1 h_over h_nonneg c1 p p2 eff
    by (intro expire_buckets_spec [OF _ _ _ _ _ _ _ _ _ _ _ _ ex, where h = h])
      (auto simp: rp2_def i64_max_def)
  have out: "(rp', bs', n) = (if 0 < c2 \<and> proceeds rp3 < 0
      then (rp3\<lparr>proceeds := 0\<rparr>, bs2, i64 (c2 + proceeds rp3)) else (rp3, bs2, c2))"
    using step cl ex unfolding distribute_returns_def L_def c0_def
    by (simp add: Let_def rp2_def bs1_def)
  have tot: "proceeds rp3 + c2 = proceeds rp" using X p2 by linarith
  then have "i64 (c2 + proceeds rp3) = proceeds rp" using p by (simp add: i64_id i64_max_def add.commute)
  then have res: "0 \<le> n" "proceeds rp' + n = proceeds rp" "0 \<le> proceeds rp'" "bs' = bs2"
      "current_rate_of_increase rp' = current_rate_of_increase rp3"
      "oldest_bucket_time rp' = oldest_bucket_time rp3" "pending_bucket_time rp' = pending_bucket_time rp3"
      "pending_bucket_proceeds rp' = pending_bucket_proceeds rp3" "last_dist_time rp' = last_dist_time rp3"
    using out tot X p by (auto split: if_splits)
  show "0 \<le> n" "proceeds rp' + n = proceeds rp" by (rule res)+
  have "\<forall>b \<in> set bs2. 0 \<le> snd b \<and> 0 \<le> fst b \<and> fst b \<le> eff \<and> fst b < pending_bucket_time rp3 \<and>
      eff < fst b + return_period \<and> oldest_bucket_time rp3 \<le> fst b"
    using X bs1 by (simp add: rp2_def)
  moreover have "last_dist_time rp3 = eff" "0 \<le> pending_bucket_time rp3" "0 \<le> pending_bucket_proceeds rp3"
    using X sp by (simp_all add: rp2_def)
  ultimately show "return_ok rp' bs'"
    unfolding return_ok_def res using res(3) X eff by (simp add: split_beta)
qed

section \<open>Properties\<close>

definition returns_ok :: "chain \<Rightarrow> bool" where
  "returns_ok s \<longleftrightarrow> (case rexretpool s of None \<Rightarrow> True
     | Some rp \<Rightarrow> (\<exists>bs. rexretbuckets s = Some bs \<and> return_ok rp bs))"

definition effective_time :: "env \<Rightarrow> int" where
  "effective_time E = e_sec E - e_sec E mod dist_interval"

definition returns_bounded :: "env \<Rightarrow> chain \<Rightarrow> bool" where
  "returns_bounded E s \<longleftrightarrow> (\<forall>rp. rexretpool s = Some rp \<longrightarrow> last_dist_time rp < effective_time E \<longrightarrow>
     return_bounds (effective_time E) rp)"

text \<open>The core tokens REX owners have a claim on now or will have as they are released.\<close>

definition rex_assets :: "chain \<Rightarrow> int" where
  "rex_assets s = (case rexpool s of None \<Rightarrow> 0 | Some p \<Rightarrow> amount (total_lendable p)) +
     (case rexretpool s of None \<Rightarrow> 0 | Some rp \<Rightarrow> proceeds rp)"

lemma update_rex_pool_spec:
  assumes A: "asset_laws (e_assets E)" and "pool_ok s" "returns_ok s" "returns_bounded E s"
    and ok: "update_rex_pool E s = Inr t"
  shows "i64 (rex_assets t) = i64 (rex_assets s) \<and> returns_ok t"
  using ok
proof (cases rule: update_rex_pool_Inr)
  case 1
  then show ?thesis using assms by simp
next
  case (2 rp bs rp' bs' n)
  then have r: "return_ok rp bs" "return_bounds (effective_time E) rp"
    using assms by (auto simp: returns_ok_def returns_bounded_def effective_time_def)
  note d = distribute_returns_ok [OF r 2(4) [folded effective_time_def]]
  from A 2(5) show ?thesis
  proof (cases rule: release_to_pool_Inr)
    case 1
    then show ?thesis using d 2(1) by (simp add: rex_assets_def returns_ok_def)
  next
    case (2 p q)
    then have p: "rexpool s = Some p" by simp
    have "pool_balanced p" using assms(2) p by (simp add: pool_ok_def)
    then have "i64 (amount (total_lendable q)) = i64 (amount (total_lendable p) + n)"
      using 2 by (simp add: pool_balanced_def algebra_simps)
    then have "i64 (amount (total_lendable q) + proceeds rp') = i64 (amount (total_lendable p) + n + proceeds rp')"
      by (rule i64_add_cong)
    moreover have "amount (total_lendable p) + n + proceeds rp' = amount (total_lendable p) + proceeds rp"
      using d(2) by linarith
    ultimately show ?thesis using 2 p \<open>rexretpool s = Some rp\<close> d(3)
      by (simp add: rex_assets_def returns_ok_def)
  qed
qed

text \<open>
  C15: Updating the REX pool loses and creates no tokens: what leaves the return pool is exactly
  what becomes lendable, also when buckets expire late and their surplus is taken back, and the
  return pool stays consistent.
\<close>

theorem update_rex_pool_conserves:
  assumes "asset_laws (e_assets E)" "pool_ok s" "returns_ok s" "returns_bounded E s"
    and "update_rex_pool E s = Inr t"
  shows "i64 (rex_assets t) = i64 (rex_assets s) \<and> returns_ok t"
  using assms by (rule update_rex_pool_spec)

text \<open>A pool with 30-day-old returns, for evaluation.\<close>

definition sample_pool :: rex_pool where
  "sample_pool = \<lparr>total_lent = sys 4000, total_unlent = sys 6000, total_rent = sys 200000000,
     total_lendable = sys 10000, total_rex = \<lparr>amount = 50000000, asym = rex_symbol\<rparr>,
     namebid_proceeds = sys 0, loan_num = 3\<rparr>"

definition sample_rex_chain :: chain where
  "sample_rex_chain = sample_chain\<lparr>rexpool := Some sample_pool,
     rexretpool := Some \<lparr>last_dist_time = 1599999000, pending_bucket_time = 1599999600,
       oldest_bucket_time = 1597406400, pending_bucket_proceeds = 8645,
       current_rate_of_increase = 7, proceeds = 20000\<rparr>,
     rexretbuckets := Some [(1597407600, 5), (1599000000, 2)]\<rparr>"

lemma sample_rex_chain_ok: "pool_ok sample_rex_chain" "returns_ok sample_rex_chain"
    "returns_bounded sample_env sample_rex_chain"
  by (auto simp: sample_rex_chain_def pool_ok_def pool_balanced_def sample_pool_def i64_id
      returns_ok_def return_ok_def returns_bounded_def return_bounds_def effective_time_def
      sample_env_def dist_interval_def i64_max_def)

theorem update_rex_pool_conserves_witness:
  "\<exists>t. update_rex_pool sample_env sample_rex_chain = Inr t \<and> i64 (rex_assets t) = 30000"
proof -
  have "succeeds (update_rex_pool sample_env sample_rex_chain)" by code_simp
  then obtain t where t: "update_rex_pool sample_env sample_rex_chain = Inr t" by (rule succeedsE)
  have "rex_assets sample_rex_chain = 30000"
    by (simp add: rex_assets_def sample_rex_chain_def sample_pool_def)
  then show ?thesis
    using update_rex_pool_conserves [OF sample_laws sample_rex_chain_ok t] t by (simp add: i64_id)
qed

text \<open>Prices: integer division rounds against whoever acts, in favour of the pool.\<close>

definition pool_range :: "int \<Rightarrow> rex_pool \<Rightarrow> bool" where
  "pool_range pay rp \<longleftrightarrow> 0 \<le> pay \<and> 0 < amount (total_rex rp) \<and> 0 < amount (total_lendable rp) \<and>
     amount (total_lendable rp) + pay \<le> i64_max \<and> amount (total_rex rp) \<le> i64_max \<and>
     (amount (total_lendable rp) + pay) * amount (total_rex rp) div amount (total_lendable rp) \<le> i64_max"

lemma grow_rex_pool_range:
  assumes "grow_rex_pool pay rp = Inr (rex, rp')" "pool_range pay rp"
  defines "S0 \<equiv> amount (total_lendable rp)" and "R0 \<equiv> amount (total_rex rp)"
  shows "amount (total_lendable rp') = S0 + pay"
    "amount (total_rex rp') = (S0 + pay) * R0 div S0"
    "rex = (S0 + pay) * R0 div S0 - R0" "0 \<le> rex"
proof -
  have r: "0 \<le> pay" "0 < R0" "0 < S0" "S0 + pay \<le> i64_max" "R0 \<le> i64_max" "(S0 + pay) * R0 div S0 \<le> i64_max"
    using assms(2) by (simp_all add: pool_range_def S0_def R0_def)
  have md: "muldiv (i64 (S0 + pay)) R0 S0 = (S0 + pay) * R0 div S0"
    using r by (simp add: i64_id i64_max_def muldiv_small)
  have "S0 * R0 \<le> (S0 + pay) * R0" using r by (intro mult_right_mono) auto
  then have ge: "R0 \<le> (S0 + pay) * R0 div S0"
    using r zdiv_mono1 [of "S0 * R0" "(S0 + pay) * R0" S0] by simp
  then show "amount (total_lendable rp') = S0 + pay" "amount (total_rex rp') = (S0 + pay) * R0 div S0"
    "rex = (S0 + pay) * R0 div S0 - R0" "0 \<le> rex"
    using assms(1) r md unfolding grow_rex_pool_def S0_def R0_def
    by (auto simp: Let_def res_simps i64_id i64_max_def)
qed

text \<open>
  C16: Buying REX is fair to both sides: the buyer receives at most the REX the payment is worth at
  the old price, and the price of a REX for those who already hold it never falls.
\<close>

theorem buying_rex_is_fair:
  assumes "grow_rex_pool pay rp = Inr (rex, rp')" "pool_range pay rp"
  shows "rex * amount (total_lendable rp) \<le> pay * amount (total_rex rp) \<and>
    amount (total_lendable rp) * amount (total_rex rp') \<le> amount (total_lendable rp') * amount (total_rex rp)"
proof -
  define S0 R0 where "S0 = amount (total_lendable rp)" and "R0 = amount (total_rex rp)"
  note g = grow_rex_pool_range [OF assms, folded S0_def R0_def]
  have "0 < S0" using assms(2) by (simp add: pool_range_def S0_def)
  then have "(S0 + pay) * R0 div S0 * S0 \<le> (S0 + pay) * R0" by (rule div_mult_le)
  then show ?thesis
    unfolding g S0_def [symmetric] R0_def [symmetric] by (simp add: algebra_simps)
qed

theorem buying_rex_is_fair_witness:
  "\<exists>rex rp'. grow_rex_pool 777 sample_pool = Inr (rex, rp') \<and> rex * 10000 \<le> 777 * 50000000"
proof -
  have "succeeds (grow_rex_pool 777 sample_pool)" by code_simp
  then obtain y where "grow_rex_pool 777 sample_pool = Inr y" by (rule succeedsE)
  then obtain rex rp' where g: "grow_rex_pool 777 sample_pool = Inr (rex, rp')" by (cases y) simp
  have "pool_range 777 sample_pool" by (simp add: pool_range_def sample_pool_def i64_max_def)
  from buying_rex_is_fair [OF g this] have "rex * 10000 \<le> 777 * 50000000"
    by (simp add: sample_pool_def)
  with g show ?thesis by blast
qed

end
