(* ===== verification/Voting.thy ===== *)
theory Voting
  imports State
begin

text \<open>
  Vote weights and the proxy graph (\<open>voting.cpp\<close>, and the two functions of
  \<open>delegate_bandwidth.cpp\<close> that change a voter's stake). A voter's weight flows to the producers
  voted for, or along the proxy to the producers of the last proxy of the chain. The lemmas show
  that the proxy graph stays acyclic, so that the recursion of \<open>propagate_weight_change\<close>
  returns, and that voting touches nothing but the voting tables.
\<close>

section \<open>Vote weight and vote-pay shares\<close>

definition block_timestamp_epoch :: int where "block_timestamp_epoch = 946684800000"

definition stake2vote :: "env \<Rightarrow> int \<Rightarrow> f64" where
  "stake2vote E stake =
     (let weeks = tdiv (e_sec E - tdiv block_timestamp_epoch 1000) (seconds_per_day * 7);
          weight = of_i weeks / of_i 52 in
      of_i stake * e_pow E (of_i 2) weight)"

definition update_total_votepay_share :: "int \<Rightarrow> f64 \<Rightarrow> f64 \<Rightarrow> chain \<Rightarrow> f64 \<times> chain" where
  "update_total_votepay_share ct additional_shares_delta shares_rate_delta s =
     (let g2 = gstate2 s; g3 = gstate3 s; rate = total_vpay_share_change_rate g3;
          total = total_producer_votepay_share g2;
          delta = (if last_vpay_state_update g3 < ct
            then rate * (of_i (i64 (ct - last_vpay_state_update g3)) / of_i 1000000) else 0)
            + additional_shares_delta;
          total' = (if delta < 0 \<and> total < - delta then 0 else total + delta);
          rate' = (if shares_rate_delta < 0 \<and> rate < - shares_rate_delta then 0
            else rate + shares_rate_delta) in
      (total', s\<lparr>gstate2 := g2\<lparr>total_producer_votepay_share := total'\<rparr>,
         gstate3 := \<lparr>last_vpay_state_update = ct, total_vpay_share_change_rate = rate'\<rparr>\<rparr>))"

definition update_producer_votepay_share ::
  "name \<Rightarrow> int \<Rightarrow> f64 \<Rightarrow> bool \<Rightarrow> chain \<Rightarrow> error + (f64 \<times> chain)" where
  "update_producer_votepay_share acnt ct shares_rate reset_to_zero s =
     fetch (fmlookup (producers2 s) acnt) No_row (\<lambda>p.
     let delta = (if 0 < shares_rate \<and> last_votepay_share_update p < ct
           then shares_rate * (of_i (i64 (ct - last_votepay_share_update p)) / of_i 1000000) else 0);
         new_share = votepay_share p + delta;
         p' = p\<lparr>votepay_share := (if reset_to_zero then 0 else new_share),
           last_votepay_share_update := ct\<rparr> in
     Inr (new_share, s\<lparr>producers2 := fmupd acnt p' (producers2 s)\<rparr>))"

text \<open>
  The vote-pay bookkeeping that \<open>update_votes\<close> and \<open>propagate_weight_change\<close> do for each producer
  whose votes change: it accumulates the change of the global rate and the shares of producers
  that have not claimed for three days.
\<close>

definition votepay_step ::
  "int \<Rightarrow> name \<Rightarrow> f64 \<Rightarrow> f64 \<Rightarrow> f64 \<times> f64 \<times> chain \<Rightarrow> error + (f64 \<times> f64 \<times> chain)" where
  "votepay_step ct acnt init_total_votes delta acc =
     (case acc of (rate, inactive, s) \<Rightarrow>
      case fmlookup (producers2 s) acnt of
        None \<Rightarrow> Inr (rate, inactive, s)
      | Some prod2 \<Rightarrow>
          fetch (fmlookup (producers s) acnt) No_row (\<lambda>p.
          let last_claim_plus_3days = i64 (last_claim_time p + 3 * useconds_per_day);
              crossed_threshold = (last_claim_plus_3days \<le> ct);
              updated_after_threshold =
                (last_claim_plus_3days \<le> last_votepay_share_update prod2) in
          bindR (update_producer_votepay_share acnt ct
              (if updated_after_threshold then 0 else init_total_votes)
              (crossed_threshold \<and> \<not> updated_after_threshold) s) (\<lambda>(share, s').
          Inr (if \<not> crossed_threshold then (rate + delta, inactive, s')
               else if \<not> updated_after_threshold then (rate - init_total_votes, inactive + share, s')
               else (rate, inactive, s')))))"

section \<open>Propagating a change of weight along the proxies\<close>

definition voter_weight :: "env \<Rightarrow> voter_info \<Rightarrow> f64" where
  "voter_weight E v = (if is_proxy v then stake2vote E (staked v) + proxied_vote_weight v
     else stake2vote E (staked v))"

definition add_vote_weight :: "name \<Rightarrow> producer_info \<Rightarrow> f64 \<Rightarrow> f64 \<Rightarrow> chain \<Rightarrow> chain" where
  "add_vote_weight acnt p new_votes delta s =
     s\<lparr>producers := fmupd acnt (p\<lparr>total_votes := new_votes\<rparr>) (producers s),
       gstate := (gstate s)\<lparr>total_producer_vote_weight :=
         total_producer_vote_weight (gstate s) + delta\<rparr>\<rparr>"

definition propagate_producer ::
  "env \<Rightarrow> f64 \<Rightarrow> name \<Rightarrow> f64 \<times> f64 \<times> chain \<Rightarrow> error + (f64 \<times> f64 \<times> chain)" where
  "propagate_producer E delta acnt acc =
     (case acc of (rate, inactive, s) \<Rightarrow>
      fetch (fmlookup (producers s) acnt) (Vote Producer_not_found) (\<lambda>p.
      votepay_step (e_now E) acnt (total_votes p) delta
        (rate, inactive, add_vote_weight acnt p (total_votes p + delta) delta s)))"

definition add_proxied_weight :: "name \<Rightarrow> f64 \<Rightarrow> error \<Rightarrow> chain \<Rightarrow> error + chain" where
  "add_proxied_weight v d e s =
     fetch (fmlookup (voters s) v) e (\<lambda>r.
     Inr (s\<lparr>voters := fmupd v (r\<lparr>proxied_vote_weight := proxied_vote_weight r + d\<rparr>) (voters s)\<rparr>))"

definition propagate_to_producers :: "env \<Rightarrow> f64 \<Rightarrow> name list \<Rightarrow> chain \<Rightarrow> error + chain" where
  "propagate_to_producers E delta accounts s =
     bindR (foldR (propagate_producer E delta) accounts (0, 0, s)) (\<lambda>(rate, inactive, s').
     Inr (snd (update_total_votepay_share (e_now E) (- inactive) rate s')))"

definition set_last_weight :: "name \<Rightarrow> f64 \<Rightarrow> chain \<Rightarrow> error + chain" where
  "set_last_weight v w s =
     fetch (fmlookup (voters s) v) No_row (\<lambda>r.
     Inr (s\<lparr>voters := fmupd v (r\<lparr>last_vote_weight := w\<rparr>) (voters s)\<rparr>))"

text \<open>The recursion of the source is bounded by fuel; \<open>voting_fuel\<close> is shown to be enough.\<close>

fun propagate_weight_change :: "nat \<Rightarrow> env \<Rightarrow> name \<Rightarrow> chain \<Rightarrow> error + chain" where
  "propagate_weight_change 0 E v s = Inl Out_of_fuel"
| "propagate_weight_change (Suc n) E v s =
     fetch (fmlookup (voters s) v) No_row (\<lambda>voter.
     check (v_proxy voter = 0 \<or> \<not> is_proxy voter) (Vote Proxy_uses_proxy) (
     let new_weight = voter_weight E voter; delta = new_weight - last_vote_weight voter in
     bindR (if 1 < f64_abs delta then
              if v_proxy voter \<noteq> 0 then
                bindR (add_proxied_weight (v_proxy voter) delta (Vote Proxy_not_found) s)
                  (propagate_weight_change n E (v_proxy voter))
              else propagate_to_producers E delta (v_producers voter) s
            else Inr s) (set_last_weight v new_weight)))"

definition voting_fuel :: "chain \<Rightarrow> nat" where
  "voting_fuel s = Suc (fcard (fmdom (voters s)))"

section \<open>Casting a vote\<close>

definition delta_of :: "name \<Rightarrow> (name, f64 \<times> bool) fmap \<Rightarrow> f64 \<times> bool" where
  "delta_of p m = (case fmlookup m p of None \<Rightarrow> (0, False) | Some d \<Rightarrow> d)"

definition retract_deltas :: "f64 \<Rightarrow> name list \<Rightarrow> (name, f64 \<times> bool) fmap \<Rightarrow> (name, f64 \<times> bool) fmap" where
  "retract_deltas w ps m = fold (\<lambda>p m. fmupd p (fst (delta_of p m) - w, False) m) ps m"

definition cast_deltas :: "f64 \<Rightarrow> name list \<Rightarrow> (name, f64 \<times> bool) fmap \<Rightarrow> (name, f64 \<times> bool) fmap" where
  "cast_deltas w ps m = fold (\<lambda>p m. fmupd p (fst (delta_of p m) + w, True) m) ps m"

text \<open>The checks on the arguments, and the activation of the chain at the first vote.\<close>

definition valid_ballot :: "name \<Rightarrow> name \<Rightarrow> name list \<Rightarrow> (error + 'a) \<Rightarrow> error + 'a" where
  "valid_ballot voter_name proxy prods k =
     (if proxy \<noteq> 0 then
        check (prods = []) (Vote Producers_and_proxy) (
        check (voter_name \<noteq> proxy) (Vote Proxy_to_self) k)
      else
        check (length prods \<le> 30) (Vote Too_many_producers) (
        check (sorted_wrt (<) prods) (Vote Producers_not_sorted) k))"

definition activate_stake :: "env \<Rightarrow> voter_info \<Rightarrow> eosio_global_state \<Rightarrow> eosio_global_state" where
  "activate_stake E voter g =
     (let g1 = (if thresh_activated_stake_time g = 0
            then g\<lparr>thresh_activated_stake_time := e_now E\<rparr> else g) in
      if thresh_activated_stake_time g1 = 0 \<and> last_vote_weight voter \<le> 0 then
        let g2 = g1\<lparr>total_activated_stake := i64 (total_activated_stake g1 + staked voter)\<rparr> in
        if min_activated_stake \<le> total_activated_stake g2
        then g2\<lparr>thresh_activated_stake_time := e_now E\<rparr> else g2
      else g1)"

definition update_votes_producer ::
  "env \<Rightarrow> bool \<Rightarrow> name \<times> f64 \<times> bool \<Rightarrow> f64 \<times> f64 \<times> chain \<Rightarrow> error + (f64 \<times> f64 \<times> chain)" where
  "update_votes_producer E voting pd acc =
     (case pd of (acnt, delta, new) \<Rightarrow> case acc of (rate, inactive, s) \<Rightarrow>
      case fmlookup (producers s) acnt of
        Some p \<Rightarrow>
          check (\<not> (voting \<and> \<not> is_active p \<and> new)) (Vote Producer_not_active) (
          let v = total_votes p + delta in
          votepay_step (e_now E) acnt (total_votes p) delta
            (rate, inactive, add_vote_weight acnt p (if v < 0 then 0 else v) delta s))
      | None \<Rightarrow> check (\<not> new) (Vote Producer_not_registered) (Inr (rate, inactive, s)))"

text \<open>The three stages of \<open>update_votes\<close>: undo the last vote, cast the new one, apply the deltas.\<close>

definition retract_vote ::
  "env \<Rightarrow> voter_info \<Rightarrow> chain \<Rightarrow> error + ((name, f64 \<times> bool) fmap \<times> chain)" where
  "retract_vote E voter s =
     (if 0 < last_vote_weight voter then
        if v_proxy voter \<noteq> 0 then
          bindR (add_proxied_weight (v_proxy voter) (- last_vote_weight voter)
              (Vote Old_proxy_not_found) s) (\<lambda>s1.
          bindR (propagate_weight_change (voting_fuel s1) E (v_proxy voter) s1) (\<lambda>s2.
          Inr (fmempty, s2)))
        else Inr (retract_deltas (last_vote_weight voter) (v_producers voter) fmempty, s)
      else Inr (fmempty, s))"

definition cast_vote ::
  "env \<Rightarrow> name \<Rightarrow> name list \<Rightarrow> f64 \<Rightarrow> bool \<Rightarrow> (name, f64 \<times> bool) fmap \<times> chain \<Rightarrow>
     error + ((name, f64 \<times> bool) fmap \<times> chain)" where
  "cast_vote E proxy prods w voting ms =
     (case ms of (m, s) \<Rightarrow>
      if proxy \<noteq> 0 then
        fetch (fmlookup (voters s) proxy) (Vote Invalid_proxy) (\<lambda>new_proxy.
        check (\<not> voting \<or> is_proxy new_proxy) (Vote Proxy_not_found) (
        if 0 \<le> w then
          bindR (add_proxied_weight proxy w (Vote Invalid_proxy) s) (\<lambda>s1.
          bindR (propagate_weight_change (voting_fuel s1) E proxy s1) (\<lambda>s2. Inr (m, s2)))
        else Inr (m, s)))
      else Inr (if 0 \<le> w then cast_deltas w prods m else m, s))"

definition apply_deltas ::
  "env \<Rightarrow> bool \<Rightarrow> (name, f64 \<times> bool) fmap \<times> chain \<Rightarrow> error + chain" where
  "apply_deltas E voting ms =
     (case ms of (m, s) \<Rightarrow>
      bindR (foldR (update_votes_producer E voting) (rows m) (0, 0, s)) (\<lambda>(rate, inactive, s').
      Inr (snd (update_total_votepay_share (e_now E) (- inactive) rate s'))))"

definition record_vote :: "name \<Rightarrow> f64 \<Rightarrow> name list \<Rightarrow> name \<Rightarrow> chain \<Rightarrow> error + chain" where
  "record_vote voter_name w prods proxy s =
     fetch (fmlookup (voters s) voter_name) No_row (\<lambda>av.
     Inr (s\<lparr>voters := fmupd voter_name (av\<lparr>last_vote_weight := w, v_producers := prods,
       v_proxy := proxy\<rparr>) (voters s)\<rparr>))"

definition update_votes ::
  "env \<Rightarrow> name \<Rightarrow> name \<Rightarrow> name list \<Rightarrow> bool \<Rightarrow> chain \<Rightarrow> error + chain" where
  "update_votes E voter_name proxy prods voting s =
     valid_ballot voter_name proxy prods (
     fetch (fmlookup (voters s) voter_name) (Vote Must_stake_before_vote) (\<lambda>voter.
     check (proxy = 0 \<or> \<not> is_proxy voter) (Vote Proxy_uses_proxy) (
     let s1 = s\<lparr>gstate := activate_stake E voter (gstate s)\<rparr>; w = voter_weight E voter in
     bindR (retract_vote E voter s1) (\<lambda>ms.
     bindR (cast_vote E proxy prods w voting ms) (\<lambda>ms'.
     bindR (apply_deltas E voting ms')
       (record_vote voter_name w prods proxy))))))"

definition regproxy :: "env \<Rightarrow> name \<Rightarrow> bool \<Rightarrow> chain \<Rightarrow> error + chain" where
  "regproxy E proxy isproxy s =
     require_auth E proxy (
     case fmlookup (voters s) proxy of
       Some p \<Rightarrow>
         check (isproxy \<noteq> is_proxy p) (Vote Proxy_registration_no_effect) (
         check (\<not> isproxy \<or> v_proxy p = 0) (Vote Proxied_account_as_proxy) (
         let s1 = s\<lparr>voters := fmupd proxy (p\<lparr>is_proxy := isproxy\<rparr>) (voters s)\<rparr> in
         propagate_weight_change (voting_fuel s1) E proxy s1))
     | None \<Rightarrow> Inr (s\<lparr>voters :=
         fmupd proxy (new_voter\<lparr>v_owner := proxy, is_proxy := isproxy\<rparr>) (voters s)\<rparr>))"

section \<open>Voting power\<close>

definition validate_b1_vesting :: "env \<Rightarrow> int \<Rightarrow> (error + 'a) \<Rightarrow> error + 'a" where
  "validate_b1_vesting E stake k =
     (let base_time = 1527811200; max_claimable = 1000000000000 in
      bindR (to_i64 Bad_conversion
        (of_i max_claimable * of_i (e_sec E - base_time) / of_i (10 * seconds_per_year))) (\<lambda>claimable.
      check (i64 (max_claimable - claimable) \<le> stake) (Bw B1_vesting) k))"

definition update_voting_power :: "env \<Rightarrow> name \<Rightarrow> int \<Rightarrow> chain \<Rightarrow> error + chain" where
  "update_voting_power E voter total_update s =
     (let v = (case fmlookup (voters s) voter of
            None \<Rightarrow> new_voter\<lparr>v_owner := voter, staked := total_update\<rparr>
          | Some v \<Rightarrow> v\<lparr>staked := i64 (staked v + total_update)\<rparr>);
          s1 = s\<lparr>voters := fmupd voter v (voters s)\<rparr> in
      check (0 \<le> staked v) (Bw Negative_vote_stake) (
      (if voter = b1_account then validate_b1_vesting E (staked v) else (\<lambda>k. k)) (
      if v_producers v \<noteq> [] \<or> v_proxy v \<noteq> 0
      then update_votes E voter (v_proxy v) (v_producers v) False s1
      else Inr s1)))"

section \<open>What a change of vote weight leaves alone\<close>

text \<open>
  \<open>links\<close> is the part of a voter row that weight propagation never changes; \<open>vote_frame\<close> says
  that two states differ only in weights, vote-pay shares and the producers' totals.
\<close>

definition links :: "voter_info \<Rightarrow> voter_info" where
  "links r = r\<lparr>last_vote_weight := 0, proxied_vote_weight := 0\<rparr>"

definition same_links :: "chain \<Rightarrow> chain \<Rightarrow> bool" where
  "same_links s t \<longleftrightarrow>
     (\<forall>v. map_option links (fmlookup (voters t) v) = map_option links (fmlookup (voters s) v)) \<and>
     fmdom (producers t) = fmdom (producers s)"

definition without_votes :: "chain \<Rightarrow> chain" where
  "without_votes s = s\<lparr>voters := fmempty, producers := fmempty, producers2 := fmempty,
     gstate := (gstate s)\<lparr>total_producer_vote_weight := 0, total_activated_stake := 0,
       thresh_activated_stake_time := 0\<rparr>,
     gstate2 := (gstate2 s)\<lparr>total_producer_votepay_share := 0\<rparr>,
     gstate3 := \<lparr>last_vpay_state_update = 0, total_vpay_share_change_rate = 0\<rparr>\<rparr>"

definition vote_frame :: "chain \<Rightarrow> chain \<Rightarrow> bool" where
  "vote_frame s t \<longleftrightarrow> same_links s t \<and> without_votes t = without_votes s"

lemma vote_frame_refl [simp, intro]: "vote_frame s s"
  by (simp add: vote_frame_def same_links_def)

lemma vote_frame_trans: "vote_frame s t \<Longrightarrow> vote_frame t u \<Longrightarrow> vote_frame s u"
  by (simp add: vote_frame_def same_links_def)

lemma map_option_links_dom:
  "same_links s t \<Longrightarrow> fmlookup (voters t) v = None \<longleftrightarrow> fmlookup (voters s) v = None"
  unfolding same_links_def by (metis map_option_is_None)

lemma same_links_lookup:
  assumes "same_links s t" "fmlookup (voters s) v = Some r"
  obtains r' where "fmlookup (voters t) v = Some r'" "links r' = links r"
  using assms unfolding same_links_def by (metis map_option_eq_Some)

lemma links_fields:
  "links r' = links r \<Longrightarrow> v_proxy r' = v_proxy r \<and> v_producers r' = v_producers r \<and>
     is_proxy r' = is_proxy r \<and> staked r' = staked r \<and> flags1 r' = flags1 r"
  unfolding links_def by (cases r, cases r') simp

lemma links_upd [simp]:
  "links (r\<lparr>last_vote_weight := w\<rparr>) = links r" "links (r\<lparr>proxied_vote_weight := w\<rparr>) = links r"
  by (simp_all add: links_def)

lemma same_links_fmdom: "same_links s t \<Longrightarrow> fmdom (voters t) = fmdom (voters s)"
  using map_option_links_dom [of s t] by (intro fset_eqI) (simp add: fmlookup_dom_iff not_None_eq [symmetric] del: not_None_eq)

lemma same_links_trans: "same_links s t \<Longrightarrow> same_links t u \<Longrightarrow> same_links s u"
  by (simp add: same_links_def)

text \<open>The fields of the database that a change of votes leaves alone, for the other components.\<close>

lemma without_votes_fields:
  assumes eq: "without_votes t = without_votes s"
  shows "userres t = userres s" "delband t = delband s" "refunds t = refunds s"
    "namebids t = namebids s" "bidrefunds t = bidrefunds s" "rammarket t = rammarket s"
    "rexpool t = rexpool s" "rexfunds t = rexfunds s" "rexbalance t = rexbalance s"
    "rexorders t = rexorders s" "cpu_loans t = cpu_loans s" "net_loans t = net_loans s"
    "rexretpool t = rexretpool s" "rexretbuckets t = rexretbuckets s"
    "powerstate t = powerstate s" "powerorders t = powerorders s" "poolstate t = poolstate s"
    "poolvoters t = poolvoters s" "limits t = limits s" "outbox t = outbox s"
    "max_ram_size (gstate t) = max_ram_size (gstate s)"
    "total_ram_bytes_reserved (gstate t) = total_ram_bytes_reserved (gstate s)"
    "total_ram_stake (gstate t) = total_ram_stake (gstate s)"
proof -
  show "userres t = userres s" "delband t = delband s" "refunds t = refunds s"
    "namebids t = namebids s" "bidrefunds t = bidrefunds s" "rammarket t = rammarket s"
    "rexpool t = rexpool s" "rexfunds t = rexfunds s" "rexbalance t = rexbalance s"
    "rexorders t = rexorders s" "cpu_loans t = cpu_loans s" "net_loans t = net_loans s"
    "rexretpool t = rexretpool s" "rexretbuckets t = rexretbuckets s"
    "powerstate t = powerstate s" "powerorders t = powerorders s" "poolstate t = poolstate s"
    "poolvoters t = poolvoters s" "limits t = limits s" "outbox t = outbox s"
    using arg_cong [OF eq, of userres] arg_cong [OF eq, of delband] arg_cong [OF eq, of refunds]
      arg_cong [OF eq, of namebids] arg_cong [OF eq, of bidrefunds] arg_cong [OF eq, of rammarket]
      arg_cong [OF eq, of rexpool] arg_cong [OF eq, of rexfunds] arg_cong [OF eq, of rexbalance]
      arg_cong [OF eq, of rexorders] arg_cong [OF eq, of cpu_loans] arg_cong [OF eq, of net_loans]
      arg_cong [OF eq, of rexretpool] arg_cong [OF eq, of rexretbuckets]
      arg_cong [OF eq, of powerstate] arg_cong [OF eq, of powerorders]
      arg_cong [OF eq, of poolstate] arg_cong [OF eq, of poolvoters]
      arg_cong [OF eq, of limits] arg_cong [OF eq, of outbox]
    by (simp_all add: without_votes_def)
  show "max_ram_size (gstate t) = max_ram_size (gstate s)"
    "total_ram_bytes_reserved (gstate t) = total_ram_bytes_reserved (gstate s)"
    "total_ram_stake (gstate t) = total_ram_stake (gstate s)"
    using arg_cong [OF eq, of "\<lambda>s. max_ram_size (gstate s)"]
      arg_cong [OF eq, of "\<lambda>s. total_ram_bytes_reserved (gstate s)"]
      arg_cong [OF eq, of "\<lambda>s. total_ram_stake (gstate s)"]
    by (simp_all add: without_votes_def)
qed

lemma votepay_total [simp]:
  "voters (snd (update_total_votepay_share ct a r s)) = voters s"
  "producers (snd (update_total_votepay_share ct a r s)) = producers s"
  "vote_frame s (snd (update_total_votepay_share ct a r s))"
  by (simp_all add: update_total_votepay_share_def Let_def vote_frame_def same_links_def
      without_votes_def)

lemma votepay_step_frame:
  "votepay_step ct p i d (r, x, s) = Inr (r', x', t) \<Longrightarrow>
     vote_frame s t \<and> voters t = voters s \<and> producers t = producers s"
  by (auto simp: votepay_step_def update_producer_votepay_share_def Let_def res_simps
      vote_frame_def same_links_def without_votes_def split: option.splits if_splits)

lemma votepay_step_total:
  "p |\<in>| fmdom (producers s) \<Longrightarrow> \<exists>y. votepay_step ct p i d (r, x, s) = Inr y"
  by (auto simp: votepay_step_def update_producer_votepay_share_def Let_def fmlookup_dom_iff
      split: option.splits)

lemma add_vote_weight_frame:
  "fmlookup (producers s) p = Some q \<Longrightarrow> vote_frame s (add_vote_weight p q v d s)"
  "voters (add_vote_weight p q v d s) = voters s"
  "fmdom (producers (add_vote_weight p q v d s)) = finsert p (fmdom (producers s))"
  by (auto simp: add_vote_weight_def vote_frame_def same_links_def without_votes_def
      dest!: fmdomI)

lemma propagate_producer_frame:
  "propagate_producer E d p (r, x, s) = Inr (r', x', t) \<Longrightarrow> vote_frame s t \<and> voters t = voters s"
  by (auto simp: propagate_producer_def res_simps add_vote_weight_frame
      dest!: votepay_step_frame intro: vote_frame_trans add_vote_weight_frame)

lemma propagate_producers_frame:
  "foldR (propagate_producer E d) ps (r, x, s) = Inr (r', x', t) \<Longrightarrow>
     vote_frame s t \<and> voters t = voters s"
proof (induction ps arbitrary: r x s)
  case (Cons p ps)
  then obtain r1 x1 s1 where 1: "propagate_producer E d p (r, x, s) = Inr (r1, x1, s1)"
    and 2: "foldR (propagate_producer E d) ps (r1, x1, s1) = Inr (r', x', t)"
    by (auto simp: res_simps)
  from propagate_producer_frame [OF 1] Cons.IH [OF 2] show ?case
    by (auto intro: vote_frame_trans)
qed auto

lemma propagate_to_producers_frame: "propagate_to_producers E d ps s = Inr t \<Longrightarrow> vote_frame s t"
  by (auto simp: propagate_to_producers_def res_simps dest!: propagate_producers_frame
      intro: vote_frame_trans [OF _ votepay_total(3)])

lemma add_proxied_weight_frame: "add_proxied_weight v d e s = Inr t \<Longrightarrow> vote_frame s t"
  by (auto simp: add_proxied_weight_def res_simps vote_frame_def same_links_def without_votes_def)

lemma set_last_weight_frame: "set_last_weight v w s = Inr t \<Longrightarrow> vote_frame s t"
  by (auto simp: set_last_weight_def res_simps vote_frame_def same_links_def without_votes_def)

lemma propagate_frame: "propagate_weight_change n E v s = Inr t \<Longrightarrow> vote_frame s t"
proof (induction n arbitrary: v s t)
  case (Suc n)
  from Suc.prems obtain u w where "vote_frame s u" and "set_last_weight v w u = Inr t"
    by (auto simp: res_simps Let_def split: if_splits dest!: Suc.IH add_proxied_weight_frame
        propagate_to_producers_frame intro: vote_frame_trans)
  then show ?case using set_last_weight_frame vote_frame_trans by blast
qed simp

section \<open>The proxy graph\<close>

definition proxy_edges :: "chain \<Rightarrow> (name \<times> name) set" where
  "proxy_edges s = {(a, b). b \<noteq> 0 \<and> map_option v_proxy (fmlookup (voters s) a) = Some b}"

definition voter_ok :: "chain \<Rightarrow> voter_info \<Rightarrow> bool" where
  "voter_ok s r \<longleftrightarrow> (is_proxy r \<longrightarrow> v_proxy r = 0) \<and>
     (v_proxy r \<noteq> 0 \<longrightarrow> v_proxy r |\<in>| fmdom (voters s) \<and> v_producers r = []) \<and>
     length (v_producers r) \<le> 30 \<and> sorted_wrt (<) (v_producers r)"

definition voting_inv :: "chain \<Rightarrow> bool" where
  "voting_inv s \<longleftrightarrow> acyclic (proxy_edges s) \<and>
     (\<forall>v r. fmlookup (voters s) v = Some r \<longrightarrow> voter_ok s r)"

definition votes_registered :: "chain \<Rightarrow> bool" where
  "votes_registered s \<longleftrightarrow> (\<forall>v r. fmlookup (voters s) v = Some r \<longrightarrow>
     (\<forall>p \<in> set (v_producers r). p |\<in>| fmdom (producers s)))"

lemma same_links_map:
  assumes "same_links s t" and "\<And>r. f (links r) = f r"
  shows "map_option f (fmlookup (voters t) v) = map_option f (fmlookup (voters s) v)"
proof -
  have "map_option f x = map_option f (map_option links x)" for x
    using assms(2) by (cases x) auto
  then show ?thesis using assms(1) by (metis same_links_def)
qed

lemma proxy_edges_links: "same_links s t \<Longrightarrow> proxy_edges t = proxy_edges s"
  unfolding proxy_edges_def by (simp add: same_links_map links_def)

lemma voter_ok_links:
  "links r' = links r \<Longrightarrow> fmdom (voters t) = fmdom (voters s) \<Longrightarrow> voter_ok t r' = voter_ok s r"
  using links_fields [of r' r] by (simp add: voter_ok_def)

lemma same_links_sym: "same_links s t \<Longrightarrow> same_links t s"
  by (simp add: same_links_def)

lemma voting_inv_links:
  assumes "same_links s t" and inv: "voting_inv s"
  shows "voting_inv t"
  unfolding voting_inv_def
proof (intro conjI allI impI)
  show "acyclic (proxy_edges t)"
    using inv proxy_edges_links [OF assms(1)] by (simp add: voting_inv_def)
  fix v r assume "fmlookup (voters t) v = Some r"
  then obtain r0 where "fmlookup (voters s) v = Some r0" "links r0 = links r"
    using same_links_lookup [OF same_links_sym [OF assms(1)]] by blast
  then show "voter_ok t r"
    using inv voter_ok_links [of r r0 t s] same_links_fmdom [OF assms(1)] by (auto simp: voting_inv_def)
qed

lemma votes_registered_links:
  assumes "same_links s t" "votes_registered s"
  shows "votes_registered t"
  unfolding votes_registered_def
proof (intro allI impI)
  fix v r assume "fmlookup (voters t) v = Some r"
  then obtain r0 where "fmlookup (voters s) v = Some r0" "links r0 = links r"
    using same_links_lookup [OF same_links_sym [OF assms(1)]] by blast
  then show "\<forall>p \<in> set (v_producers r). p |\<in>| fmdom (producers t)"
    using assms links_fields [of r0 r] by (simp add: votes_registered_def same_links_def)
qed

text \<open>The accounts reachable from a voter along proxies bound the depth of the recursion.\<close>

definition downstream :: "chain \<Rightarrow> name \<Rightarrow> name set" where
  "downstream s v = (proxy_edges s)\<^sup>* `` {v}"

lemma downstream_subset:
  assumes "voting_inv s" "v |\<in>| fmdom (voters s)"
  shows "downstream s v \<subseteq> fset (fmdom (voters s))"
proof -
  have "w |\<in>| fmdom (voters s)" if "(v, w) \<in> (proxy_edges s)\<^sup>*" for w
    using that
  proof (induction rule: rtrancl_induct)
    case (step a b)
    then show ?case
      using assms(1) by (auto simp: proxy_edges_def voting_inv_def voter_ok_def)
  qed (rule assms)
  then show ?thesis by (auto simp: downstream_def)
qed

lemma downstream_card:
  assumes "voting_inv s" "v |\<in>| fmdom (voters s)"
  shows "card (downstream s v) < voting_fuel s" "finite (downstream s v)"
proof -
  show "finite (downstream s v)" by (rule finite_subset [OF downstream_subset [OF assms]]) simp
  show "card (downstream s v) < voting_fuel s"
    using card_mono [OF _ downstream_subset [OF assms]]
    by (simp add: voting_fuel_def fcard.rep_eq less_Suc_eq_le)
qed

lemma downstream_step:
  assumes "voting_inv s" "(v, p) \<in> proxy_edges s" "finite (downstream s v)"
  shows "card (downstream s p) < card (downstream s v)"
proof (rule psubset_card_mono [OF assms(3)])
  have "(p, v) \<notin> (proxy_edges s)\<^sup>*"
    using assms by (metis acyclic_def rtrancl_into_trancl2 voting_inv_def)
  then have "v \<notin> downstream s p" by (simp add: downstream_def)
  moreover have "v \<in> downstream s v" by (simp add: downstream_def)
  moreover have "downstream s p \<subseteq> downstream s v"
    using assms(2) by (auto simp: downstream_def intro: converse_rtrancl_into_rtrancl)
  ultimately show "downstream s p \<subset> downstream s v" by blast
qed

text \<open>Each step of the recursion, and hence the whole of it, succeeds.\<close>

lemma votes_ok_step:
  assumes "p |\<in>| fmdom (producers s)"
  shows "\<exists>r1 x1 s1. propagate_producer E d p (r, x, s) = Inr (r1, x1, s1) \<and>
    fmdom (producers s1) = fmdom (producers s)"
proof -
  obtain q where q: "fmlookup (producers s) p = Some q" using assms by (auto simp: fmlookup_dom_iff)
  obtain y where y: "propagate_producer E d p (r, x, s) = Inr y"
    using votepay_step_total [of p "add_vote_weight p q (total_votes q + d) d s"] q
    by (fastforce simp: propagate_producer_def add_vote_weight_frame)
  obtain r1 x1 s1 where "y = (r1, x1, s1)" using prod_cases3 by blast
  then show ?thesis
    using y propagate_producer_frame [of E d p r x s] by (auto simp: vote_frame_def same_links_def)
qed

lemma propagate_producers_total:
  "(\<exists>y. foldR (propagate_producer E d) ps (r, x, s) = Inr y) \<or>
   foldR (propagate_producer E d) ps (r, x, s) = Inl (Vote Producer_not_found) \<and>
     \<not> (\<forall>p \<in> set ps. p |\<in>| fmdom (producers s))"
proof (induction ps arbitrary: r x s)
  case (Cons p ps)
  show ?case
  proof (cases "p |\<in>| fmdom (producers s)")
    case True
    then obtain r1 x1 s1 where "propagate_producer E d p (r, x, s) = Inr (r1, x1, s1)"
      "fmdom (producers s1) = fmdom (producers s)" using votes_ok_step by blast
    then show ?thesis using Cons.IH [of r1 x1 s1] by auto
  next
    case False
    then show ?thesis by (simp add: propagate_producer_def fmdom_notD)
  qed
qed simp

lemma propagate_to_producers_total:
  "(\<exists>u. propagate_to_producers E d ps s = Inr u) \<or>
   propagate_to_producers E d ps s = Inl (Vote Producer_not_found) \<and>
     \<not> (\<forall>p \<in> set ps. p |\<in>| fmdom (producers s))"
  using propagate_producers_total [of E d ps 0 0 s] by (auto simp: propagate_to_producers_def)

lemma propagate_total_fuel:
  assumes "voting_inv s" "v |\<in>| fmdom (voters s)" "card (downstream s v) < n"
  shows "(\<exists>t. propagate_weight_change n E v s = Inr t) \<or>
    propagate_weight_change n E v s = Inl (Vote Producer_not_found) \<and> \<not> votes_registered s"
  using assms
proof (induction n arbitrary: v s)
  case (Suc n)
  obtain r where r: "fmlookup (voters s) v = Some r" using Suc.prems by (auto simp: fmlookup_dom_iff)
  then have ok: "voter_ok s r" using Suc.prems by (auto simp: voting_inv_def)
  define w where "w = voter_weight E r"
  define d where "d = w - last_vote_weight r"
  have last: "\<exists>t. set_last_weight v w u = Inr t" if "vote_frame s u" for u
    using that r map_option_links_dom [of s u v]
    by (auto simp: set_last_weight_def vote_frame_def fetch_def split: option.split)
  have closing: ?case if "\<exists>u. X = Inr u \<and> vote_frame s u"
    and "propagate_weight_change (Suc n) E v s = bindR X (set_last_weight v w)" for X
    using that last by auto
  show ?case
  proof (cases "1 < f64_abs d")
    case False
    then show ?thesis
      using ok r by (intro closing [of "Inr s"]) (auto simp: Let_def d_def w_def voter_ok_def)
  next
    case big: True
    show ?thesis
    proof (cases "v_proxy r = 0")
      case True
      let ?X = "propagate_to_producers E d (v_producers r) s"
      have eq: "propagate_weight_change (Suc n) E v s = bindR ?X (set_last_weight v w)"
        using True big r by (simp add: Let_def d_def w_def)
      from propagate_to_producers_total
      consider u where "?X = Inr u" | "?X = Inl (Vote Producer_not_found)"
          "\<not> (\<forall>p \<in> set (v_producers r). p |\<in>| fmdom (producers s))"
        by metis
      then show ?thesis
      proof cases
        case 1
        then show ?thesis using closing [OF _ eq] propagate_to_producers_frame by blast
      next
        case 2
        then have "\<not> votes_registered s" using r unfolding votes_registered_def by blast
        then show ?thesis unfolding eq using 2 by simp
      qed
    next
      case prox: False
      then have "v_proxy r |\<in>| fmdom (voters s)" and np: "\<not> is_proxy r"
        using ok by (auto simp: voter_ok_def)
      then obtain s1 where s1: "add_proxied_weight (v_proxy r) d (Vote Proxy_not_found) s = Inr s1"
        by (auto simp: add_proxied_weight_def fmlookup_dom_iff)
      then have f1: "vote_frame s s1" by (rule add_proxied_weight_frame)
      then have l1: "same_links s s1" by (simp add: vote_frame_def)
      have edge: "(v, v_proxy r) \<in> proxy_edges s" using r prox by (simp add: proxy_edges_def)
      have fin: "finite (downstream s v)" using downstream_card Suc.prems by blast
      have "downstream s1 w = downstream s w" for w
        by (simp add: downstream_def proxy_edges_links [OF l1])
      then have "card (downstream s1 (v_proxy r)) < n"
        using downstream_step [OF Suc.prems(1) edge fin] Suc.prems(3) by simp
      then have IH: "(\<exists>t. propagate_weight_change n E (v_proxy r) s1 = Inr t) \<or>
          propagate_weight_change n E (v_proxy r) s1 = Inl (Vote Producer_not_found) \<and>
            \<not> votes_registered s1"
        using Suc.IH voting_inv_links [OF l1 Suc.prems(1)] same_links_fmdom [OF l1]
          \<open>v_proxy r |\<in>| fmdom (voters s)\<close> by simp
      let ?X = "propagate_weight_change n E (v_proxy r) s1"
      have eq: "propagate_weight_change (Suc n) E v s = bindR ?X (set_last_weight v w)"
        using prox big r np s1 by (simp add: Let_def d_def w_def)
      show ?thesis
        using IH
      proof
        assume "\<exists>t. ?X = Inr t"
        then show ?thesis using closing [OF _ eq] propagate_frame f1 vote_frame_trans by blast
      next
        assume "?X = Inl (Vote Producer_not_found) \<and> \<not> votes_registered s1"
        then show ?thesis unfolding eq using votes_registered_links [OF l1] by auto
      qed
    qed
  qed
qed simp

lemma activate_stake_frame [simp]:
  "vote_frame s (s\<lparr>gstate := activate_stake E v (gstate s)\<rparr>)"
  by (simp add: vote_frame_def same_links_def without_votes_def activate_stake_def Let_def)

lemma retract_vote_frame: "retract_vote E v s = Inr (m, t) \<Longrightarrow> vote_frame s t"
  by (auto simp: retract_vote_def res_simps split: if_splits
      dest!: add_proxied_weight_frame propagate_frame intro: vote_frame_trans)

lemma cast_vote_frame: "cast_vote E p ps w b (m, s) = Inr (m', t) \<Longrightarrow> vote_frame s t"
  by (auto simp: cast_vote_def res_simps split: if_splits
      dest!: add_proxied_weight_frame propagate_frame intro: vote_frame_trans)

lemma update_votes_producer_frame:
  "update_votes_producer E b pd (r, x, s) = Inr (r', x', t) \<Longrightarrow> vote_frame s t"
  by (auto simp: update_votes_producer_def Let_def res_simps split: prod.splits option.splits
      dest!: votepay_step_frame intro: vote_frame_trans add_vote_weight_frame)

lemma update_votes_producers_frame:
  "foldR (update_votes_producer E b) pds (r, x, s) = Inr (r', x', t) \<Longrightarrow> vote_frame s t"
proof (induction pds arbitrary: r x s)
  case (Cons p ps)
  then obtain r1 x1 s1 where 1: "update_votes_producer E b p (r, x, s) = Inr (r1, x1, s1)"
    and 2: "foldR (update_votes_producer E b) ps (r1, x1, s1) = Inr (r', x', t)"
    by (auto simp: res_simps)
  from update_votes_producer_frame [OF 1] Cons.IH [OF 2] show ?case by (rule vote_frame_trans)
qed auto

lemma apply_deltas_frame: "apply_deltas E b (m, s) = Inr t \<Longrightarrow> vote_frame s t"
  by (auto simp: apply_deltas_def res_simps dest!: update_votes_producers_frame
      intro: vote_frame_trans [OF _ votepay_total(3)])

text \<open>Up to the recording of the new ballot nothing but weights changes.\<close>

lemma update_votes_Inr:
  assumes "update_votes E v proxy ps voting s = Inr t"
  obtains r u r' where "fmlookup (voters s) v = Some r" "vote_frame s u"
    "fmlookup (voters u) v = Some r'" "links r' = links r"
    "t = u\<lparr>voters := fmupd v (r'\<lparr>last_vote_weight := voter_weight E r, v_producers := ps,
        v_proxy := proxy\<rparr>) (voters u)\<rparr>"
    "valid_ballot v proxy ps (Inr ()) = Inr ()" "proxy = 0 \<or> \<not> is_proxy r"
    "proxy \<noteq> 0 \<longrightarrow> (\<exists>q. fmlookup (voters s) proxy = Some q \<and> (voting \<longrightarrow> is_proxy q))"
proof -
  from assms obtain r where r: "fmlookup (voters s) v = Some r"
    and vb: "valid_ballot v proxy ps (Inr ()) = Inr ()" and np: "proxy = 0 \<or> \<not> is_proxy r"
    by (auto simp: update_votes_def valid_ballot_def check_def fetch_def split: if_splits option.splits)
  define s1 where "s1 = s\<lparr>gstate := activate_stake E r (gstate s)\<rparr>"
  from assms r obtain m2 s2 m3 s3 u where steps: "retract_vote E r s1 = Inr (m2, s2)"
      "cast_vote E proxy ps (voter_weight E r) voting (m2, s2) = Inr (m3, s3)"
      "apply_deltas E voting (m3, s3) = Inr u"
      "record_vote v (voter_weight E r) ps proxy u = Inr t"
    by (auto simp: update_votes_def valid_ballot_def res_simps Let_def s1_def split: if_splits)
  have f2: "vote_frame s s2"
    using retract_vote_frame [OF steps(1)] activate_stake_frame vote_frame_trans unfolding s1_def by blast
  then have fu: "vote_frame s u"
    using cast_vote_frame [OF steps(2)] apply_deltas_frame [OF steps(3)] vote_frame_trans by blast
  then obtain r' where r': "fmlookup (voters u) v = Some r'" "links r' = links r"
    using same_links_lookup r unfolding vote_frame_def by metis
  have "\<exists>q. fmlookup (voters s) proxy = Some q \<and> (voting \<longrightarrow> is_proxy q)" if prox: "proxy \<noteq> 0"
  proof -
    obtain q where q: "fmlookup (voters s2) proxy = Some q" "voting \<longrightarrow> is_proxy q"
      using steps(2) prox by (auto simp: cast_vote_def res_simps)
    have "same_links s2 s" using f2 same_links_sym by (auto simp: vote_frame_def)
    then obtain q' where "fmlookup (voters s) proxy = Some q'" "links q' = links q"
      using q(1) by (rule same_links_lookup)
    then show ?thesis using q links_fields by blast
  qed
  then show ?thesis
    using that [OF r fu r' _ vb np] r' steps(4) by (simp add: record_vote_def)
qed

section \<open>The invariant is preserved\<close>

lemma acyclic_redirect:
  assumes "acyclic r" "\<And>b. (y, b) \<notin> r" "x \<noteq> y"
  shows "acyclic (insert (x, y) r)"
proof -
  have "(y, x) \<notin> r\<^sup>*" using assms(2,3) by (metis converse_rtranclE)
  then show ?thesis using assms(1) by (simp add: acyclic_insert)
qed

lemma acyclic_mono: "acyclic r \<Longrightarrow> q \<subseteq> r \<Longrightarrow> acyclic q"
  by (rule acyclic_subset)

lemma valid_ballot_iff:
  "valid_ballot v proxy ps k = Inr y \<longleftrightarrow>
     (if proxy \<noteq> 0 then ps = [] \<and> v \<noteq> proxy else length ps \<le> 30 \<and> sorted_wrt (<) ps) \<and> k = Inr y"
  by (auto simp: valid_ballot_def check_eq_Inr)

lemma proxy_edges_upd:
  "proxy_edges (s\<lparr>voters := fmupd v r (voters s)\<rparr>) =
     {(a, b) \<in> proxy_edges s. a \<noteq> v} \<union> (if v_proxy r \<noteq> 0 then {(v, v_proxy r)} else {})"
  by (auto simp: proxy_edges_def split: if_splits)

text \<open>
  A ballot is either cast by the voter, and then names a registered proxy, or repeats the ballot
  the voter has.
\<close>

definition ballot_of :: "chain \<Rightarrow> name \<Rightarrow> name \<Rightarrow> name list \<Rightarrow> bool" where
  "ballot_of s v proxy ps \<longleftrightarrow>
     (\<exists>r. fmlookup (voters s) v = Some r \<and> v_proxy r = proxy \<and> v_producers r = ps)"

lemma voting_inv_update_row:
  assumes inv: "voting_inv s" and r: "voter_ok s r"
    and "v_proxy r \<noteq> 0 \<Longrightarrow> v_proxy r \<noteq> v \<and> ((v, v_proxy r) \<in> proxy_edges s \<or>
      (\<forall>b. (v_proxy r, b) \<notin> proxy_edges s))"
  shows "voting_inv (s\<lparr>voters := fmupd v r (voters s)\<rparr>)" (is "voting_inv ?t")
proof -
  have ac: "acyclic (proxy_edges s)" using inv by (simp add: voting_inv_def)
  have "acyclic (proxy_edges ?t)"
  proof (cases "v_proxy r = 0 \<or> (v, v_proxy r) \<in> proxy_edges s")
    case True
    then show ?thesis by (intro acyclic_mono [OF ac]) (auto simp: proxy_edges_upd)
  next
    case False
    then have "acyclic (insert (v, v_proxy r) (proxy_edges s))"
      using assms(3) by (intro acyclic_redirect [OF ac]) auto
    then show ?thesis by (rule acyclic_mono) (auto simp: proxy_edges_upd)
  qed
  moreover have "voter_ok ?t q" if "voter_ok s q" for q
    using that by (auto simp: voter_ok_def)
  ultimately show ?thesis using inv r by (auto simp: voting_inv_def)
qed

lemma update_votes_inv:
  assumes inv: "voting_inv s" and ok: "update_votes E v proxy ps voting s = Inr t"
    and ballot: "voting \<or> ballot_of s v proxy ps"
  shows "voting_inv t"
proof -
  from ok obtain r u r' where r: "fmlookup (voters s) v = Some r" and fr: "vote_frame s u"
    and r': "fmlookup (voters u) v = Some r'" "links r' = links r"
    and t: "t = u\<lparr>voters := fmupd v (r'\<lparr>last_vote_weight := voter_weight E r, v_producers := ps,
        v_proxy := proxy\<rparr>) (voters u)\<rparr>"
    and vb: "valid_ballot v proxy ps (Inr ()) = Inr ()" and np: "proxy = 0 \<or> \<not> is_proxy r"
    and pr: "proxy \<noteq> 0 \<longrightarrow> (\<exists>q. fmlookup (voters s) proxy = Some q \<and> (voting \<longrightarrow> is_proxy q))"
    by (rule update_votes_Inr)
  have l: "same_links s u" using fr by (simp add: vote_frame_def)
  note dom = same_links_fmdom [OF l] and edges = proxy_edges_links [OF l]
  have sink: "(v, proxy) \<in> proxy_edges s \<or> (\<forall>b. (proxy, b) \<notin> proxy_edges s)" if pnz: "proxy \<noteq> 0"
  proof (cases voting)
    case True
    then obtain q where "fmlookup (voters s) proxy = Some q" "is_proxy q" using pr pnz by blast
    moreover have "v_proxy q = 0"
      using calculation inv by (auto simp: voting_inv_def voter_ok_def)
    ultimately show ?thesis by (simp add: proxy_edges_def)
  next
    case False
    then show ?thesis using ballot pnz by (auto simp: ballot_of_def proxy_edges_def)
  qed
  have "voter_ok u (r'\<lparr>last_vote_weight := voter_weight E r, v_producers := ps, v_proxy := proxy\<rparr>)"
    using vb np pr links_fields [OF r'(2)] dom
    by (auto simp: voter_ok_def valid_ballot_iff fmlookup_dom_iff split: if_splits)
  moreover have "proxy \<noteq> v" if "proxy \<noteq> 0" using vb that by (auto simp: valid_ballot_iff)
  ultimately show ?thesis
    unfolding t using sink edges by (intro voting_inv_update_row voting_inv_links [OF l inv]) auto
qed

lemma regproxy_inv:
  assumes inv: "voting_inv s" and ok: "regproxy E p b s = Inr t"
  shows "voting_inv t"
proof (cases "fmlookup (voters s) p")
  case None
  then show ?thesis using ok inv
    by (auto simp: regproxy_def res_simps new_voter_def voter_ok_def intro!: voting_inv_update_row)
next
  case (Some r)
  let ?s1 = "s\<lparr>voters := fmupd p (r\<lparr>is_proxy := b\<rparr>) (voters s)\<rparr>"
  have "voter_ok s r" using inv Some by (simp add: voting_inv_def)
  moreover have "b \<longrightarrow> v_proxy r = 0" using ok Some by (simp add: regproxy_def res_simps)
  moreover have "v_proxy r \<noteq> p" if "v_proxy r \<noteq> 0"
    using inv Some that unfolding voting_inv_def acyclic_def by (force simp: proxy_edges_def)
  ultimately have "voting_inv ?s1"
    using Some inv by (intro voting_inv_update_row) (auto simp: voter_ok_def proxy_edges_def)
  moreover have "propagate_weight_change (voting_fuel ?s1) E p ?s1 = Inr t"
    using ok unfolding regproxy_def require_auth_def Some check_eq_Inr option.case Let_def by blast
  then have "same_links ?s1 t" using propagate_frame vote_frame_def by blast
  ultimately show ?thesis by (rule voting_inv_links [rotated])
qed

text \<open>The row of a voter after a change of its stake.\<close>

definition with_stake :: "name \<Rightarrow> int \<Rightarrow> chain \<Rightarrow> voter_info" where
  "with_stake v n s = (case fmlookup (voters s) v of
     None \<Rightarrow> new_voter\<lparr>v_owner := v, staked := n\<rparr> | Some r \<Rightarrow> r\<lparr>staked := i64 (staked r + n)\<rparr>)"

lemma update_voting_power_eq:
  "update_voting_power E v n s =
     (let r = with_stake v n s; s1 = s\<lparr>voters := fmupd v r (voters s)\<rparr> in
      check (0 \<le> staked r) (Bw Negative_vote_stake) (
      (if v = b1_account then validate_b1_vesting E (staked r) else (\<lambda>k. k)) (
      if v_producers r \<noteq> [] \<or> v_proxy r \<noteq> 0
      then update_votes E v (v_proxy r) (v_producers r) False s1
      else Inr s1)))"
  unfolding update_voting_power_def with_stake_def ..

lemma with_stake_inv:
  assumes inv: "voting_inv s"
  shows "voting_inv (s\<lparr>voters := fmupd v (with_stake v n s) (voters s)\<rparr>)"
proof -
  let ?r = "with_stake v n s"
  have "voter_ok s ?r"
    using inv by (auto simp: with_stake_def voting_inv_def voter_ok_def new_voter_def split: option.split)
  moreover have "v_proxy ?r \<noteq> v \<and> (v, v_proxy ?r) \<in> proxy_edges s" if "v_proxy ?r \<noteq> 0"
    using inv that unfolding voting_inv_def acyclic_def
    by (force simp: with_stake_def proxy_edges_def new_voter_def split: option.splits)
  ultimately show ?thesis using inv by (intro voting_inv_update_row) auto
qed

lemma update_voting_power_inv:
  assumes inv: "voting_inv s" and ok: "update_voting_power E v n s = Inr t"
  shows "voting_inv t"
proof -
  let ?r = "with_stake v n s"
  let ?s1 = "s\<lparr>voters := fmupd v ?r (voters s)\<rparr>"
  have "t = ?s1 \<or> update_votes E v (v_proxy ?r) (v_producers ?r) False ?s1 = Inr t"
    using ok by (auto simp: update_voting_power_eq validate_b1_vesting_def Let_def res_simps split: if_splits)
  moreover have "ballot_of ?s1 v (v_proxy ?r) (v_producers ?r)" by (simp add: ballot_of_def)
  ultimately show ?thesis using with_stake_inv [OF inv] update_votes_inv by blast
qed

section \<open>Repeating a ballot, and the votes it counts\<close>

lemma propagate_total:
  assumes "voting_inv s" "v |\<in>| fmdom (voters s)"
  shows "(\<exists>t. propagate_weight_change (voting_fuel s) E v s = Inr t) \<or>
    propagate_weight_change (voting_fuel s) E v s = Inl (Vote Producer_not_found) \<and>
      \<not> votes_registered s"
  using assms downstream_card by (intro propagate_total_fuel) auto

lemma add_then_propagate:
  assumes "voting_inv s" "votes_registered s" "p |\<in>| fmdom (voters s)"
  shows "\<exists>s1 s2. add_proxied_weight p d e s = Inr s1 \<and>
    propagate_weight_change (voting_fuel s1) E p s1 = Inr s2 \<and> vote_frame s s2"
proof -
  obtain s1 where s1: "add_proxied_weight p d e s = Inr s1"
    using assms(3) by (auto simp: add_proxied_weight_def fmlookup_dom_iff)
  then have f1: "vote_frame s s1" by (rule add_proxied_weight_frame)
  then have l: "same_links s s1" by (simp add: vote_frame_def)
  obtain s2 where s2: "propagate_weight_change (voting_fuel s1) E p s1 = Inr s2"
    using propagate_total [OF voting_inv_links [OF l assms(1)], of p E]
      votes_registered_links [OF l assms(2)] assms(3) same_links_fmdom [OF l] by auto
  then show ?thesis using s1 f1 propagate_frame vote_frame_trans by blast
qed

definition new_votes_exist :: "(name, f64 \<times> bool) fmap \<Rightarrow> chain \<Rightarrow> bool" where
  "new_votes_exist m s \<longleftrightarrow> (\<forall>p d. fmlookup m p = Some (d, True) \<longrightarrow> p |\<in>| fmdom (producers s))"

lemma retract_deltas_new:
  "fmlookup (retract_deltas w ps m) p = Some (d, True) \<Longrightarrow> \<exists>d. fmlookup m p = Some (d, True)"
  unfolding retract_deltas_def by (induction ps arbitrary: m) (force split: if_splits)+

lemma cast_deltas_new:
  "fmlookup (cast_deltas w ps m) p = Some (d, True) \<Longrightarrow>
     p \<in> set ps \<or> (\<exists>d. fmlookup m p = Some (d, True))"
  unfolding cast_deltas_def by (induction ps arbitrary: m) (force split: if_splits)+

lemma update_votes_producers_total:
  assumes "\<forall>(p, d, new) \<in> set pds. new \<longrightarrow> p |\<in>| fmdom (producers s)"
  shows "\<exists>y. foldR (update_votes_producer E False) pds (r, x, s) = Inr y"
  using assms
proof (induction pds arbitrary: r x s)
  case (Cons pd pds)
  obtain p d new where pd: "pd = (p, d, new)" by (rule prod_cases3)
  have "\<exists>r1 x1 s1. update_votes_producer E False pd (r, x, s) = Inr (r1, x1, s1)"
  proof (cases "fmlookup (producers s) p")
    case (Some q)
    then show ?thesis
      using votepay_step_total [of p "add_vote_weight p q v d s" for v]
      by (force simp: pd update_votes_producer_def Let_def add_vote_weight_frame)
  next
    case None
    then show ?thesis using Cons.prems by (auto simp: pd update_votes_producer_def fmlookup_dom_iff)
  qed
  then obtain r1 x1 s1 where s1: "update_votes_producer E False pd (r, x, s) = Inr (r1, x1, s1)"
    by blast
  then have "fmdom (producers s1) = fmdom (producers s)"
    using update_votes_producer_frame by (auto simp: vote_frame_def same_links_def)
  then show ?case using s1 Cons.IH [of s1 r1 x1] Cons.prems by simp
qed simp

lemma revote_total:
  assumes inv: "voting_inv s" and reg: "votes_registered s"
    and r: "fmlookup (voters s) v = Some r"
  shows "\<exists>t. update_votes E v (v_proxy r) (v_producers r) False s = Inr t"
proof -
  have ok: "voter_ok s r" using inv r by (simp add: voting_inv_def)
  have noself: "v_proxy r \<noteq> 0 \<Longrightarrow> v \<noteq> v_proxy r"
    using inv r unfolding voting_inv_def acyclic_def by (force simp: proxy_edges_def)
  define w where "w = voter_weight E r"
  define s1 where "s1 = s\<lparr>gstate := activate_stake E r (gstate s)\<rparr>"
  have f1: "vote_frame s s1" by (simp add: s1_def)
  then have l1: "same_links s s1" by (simp add: vote_frame_def)
  obtain m2 s2 where 2: "retract_vote E r s1 = Inr (m2, s2)" "\<forall>p d. fmlookup m2 p \<noteq> Some (d, True)"
  proof (cases "0 < last_vote_weight r \<and> v_proxy r \<noteq> 0")
    case True
    then obtain u1 u2 where "add_proxied_weight (v_proxy r) (- last_vote_weight r)
        (Vote Old_proxy_not_found) s1 = Inr u1"
      "propagate_weight_change (voting_fuel u1) E (v_proxy r) u1 = Inr u2"
      using add_then_propagate [OF voting_inv_links [OF l1 inv] votes_registered_links [OF l1 reg]]
        ok same_links_fmdom [OF l1] by (metis voter_ok_def)
    then show ?thesis using True by (intro that [of fmempty u2]) (simp_all add: retract_vote_def)
  next
    case False
    then show ?thesis
      using retract_deltas_new [of "last_vote_weight r" "v_producers r" fmempty]
      by (cases "0 < last_vote_weight r") (force simp: retract_vote_def intro: that)+
  qed
  have f2: "vote_frame s s2" using retract_vote_frame [OF 2(1)] f1 vote_frame_trans by blast
  then have l2: "same_links s s2" by (simp add: vote_frame_def)
  obtain m3 s3 where 3: "cast_vote E (v_proxy r) (v_producers r) w False (m2, s2) = Inr (m3, s3)"
    "\<forall>p d. fmlookup m3 p = Some (d, True) \<longrightarrow> p \<in> set (v_producers r)"
  proof (cases "v_proxy r \<noteq> 0")
    case True
    then have p: "v_proxy r |\<in>| fmdom (voters s2)"
      using ok same_links_fmdom [OF l2] by (simp add: voter_ok_def)
    obtain u1 u2 where "add_proxied_weight (v_proxy r) w (Vote Invalid_proxy) s2 = Inr u1"
      "propagate_weight_change (voting_fuel u1) E (v_proxy r) u1 = Inr u2"
      using add_then_propagate [OF voting_inv_links [OF l2 inv] votes_registered_links [OF l2 reg] p]
      by metis
    then show ?thesis
      using True p 2(2) by (cases "0 \<le> w") (auto simp: cast_vote_def fmlookup_dom_iff intro: that)
  next
    case False
    then show ?thesis
      using cast_deltas_new [of w "v_producers r" m2] 2(2)
      by (cases "0 \<le> w") (force simp: cast_vote_def intro: that)+
  qed
  have f3: "vote_frame s s3" using cast_vote_frame [OF 3(1)] f2 vote_frame_trans by blast
  then have l3: "same_links s s3" by (simp add: vote_frame_def)
  have "\<forall>(p, d, new) \<in> set (rows m3). new \<longrightarrow> p |\<in>| fmdom (producers s3)"
    using 3(2) reg r l3 by (auto simp: rows_upd_lookup votes_registered_def same_links_def)
  then obtain u where u: "apply_deltas E False (m3, s3) = Inr u"
    using update_votes_producers_total [of "rows m3" s3 E 0 0] by (auto simp: apply_deltas_def)
  then have "same_links s u" using apply_deltas_frame f3 vote_frame_trans vote_frame_def by blast
  then obtain r' where "fmlookup (voters u) v = Some r'" using r by (rule same_links_lookup)
  then have "\<exists>t. record_vote v w (v_producers r) (v_proxy r) u = Inr t" by (simp add: record_vote_def)
  moreover have "valid_ballot v (v_proxy r) (v_producers r) k = k" for k :: "error + chain"
    using ok noself by (simp add: valid_ballot_def voter_ok_def)
  ultimately show ?thesis
    using r ok 2(1) 3(1) u by (auto simp: update_votes_def voter_ok_def s1_def w_def check_def)
qed

text \<open>A voter whose weight runs through a proxy to one producer.\<close>

definition proxied_chain :: chain where
  "proxied_chain = sample_chain\<lparr>
     voters := fmap_of_list [(1, new_voter\<lparr>v_owner := 1, v_proxy := 2, staked := 100,
         last_vote_weight := of_i 90\<rparr>),
       (2, new_voter\<lparr>v_owner := 2, is_proxy := True, v_producers := [3], staked := 50,
         proxied_vote_weight := of_i 90, last_vote_weight := of_i 140\<rparr>)],
     producers := fmap_of_list [(3, \<lparr>p_owner = 3, total_votes = of_i 140, producer_key = 1,
       is_active = True, url = [], unpaid_blocks = 0, last_claim_time = 1599999999000000,
       location = 0, producer_authority = None, pool_votes = None\<rparr>)],
     producers2 := fmap_of_list [(3, \<lparr>p2_owner = 3, votepay_share = 0,
       last_votepay_share_update = 1599999999000000\<rparr>)]\<rparr>"

lemma proxied_chain_ok: "voting_inv proxied_chain" "votes_registered proxied_chain"
proof -
  have "proxy_edges proxied_chain = {(1, 2)}"
    by (auto simp: proxy_edges_def proxied_chain_def new_voter_def fmlookup_of_list split: if_splits)
  then have "acyclic (proxy_edges proxied_chain)" by (simp add: acyclic_insert wf_acyclic)
  moreover have "voter_ok proxied_chain r" if "fmlookup (voters proxied_chain) v = Some r" for v r
    using that by (auto simp: voter_ok_def proxied_chain_def new_voter_def fmlookup_of_list
        split: if_splits)
  ultimately show "voting_inv proxied_chain" by (simp add: voting_inv_def)
  show "votes_registered proxied_chain"
    by (auto simp: votes_registered_def proxied_chain_def new_voter_def fmlookup_of_list
        split: if_splits)
qed

text \<open>
  C18: The recursion of \<open>propagate_weight_change\<close> ends: with fuel one more than the number of
  voters it returns a state, and the only check it can fail is that of a producer that does not
  exist.
\<close>

theorem propagate_weight_change_ends:
  assumes "voting_inv s" "v |\<in>| fmdom (voters s)"
  shows "(\<exists>t. propagate_weight_change (voting_fuel s) E v s = Inr t) \<or>
    propagate_weight_change (voting_fuel s) E v s = Inl (Vote Producer_not_found) \<and>
      \<not> votes_registered s"
  using assms by (rule propagate_total)

theorem propagate_weight_change_ends_witness:
  "\<exists>t. propagate_weight_change (voting_fuel proxied_chain) sample_env 1 proxied_chain = Inr t"
proof -
  have "1 |\<in>| fmdom (voters proxied_chain)" by (simp add: proxied_chain_def)
  from propagate_weight_change_ends [OF proxied_chain_ok(1) this, of sample_env]
  show ?thesis using proxied_chain_ok(2) by blast
qed

text \<open>The operations on the voting tables as steps of a transition system.\<close>

inductive vote_step :: "env \<Rightarrow> chain \<Rightarrow> chain \<Rightarrow> bool" for E where
  Ballot: "update_votes E v proxy ps True s = Inr t \<Longrightarrow> vote_step E s t"
| Proxy: "regproxy E p b s = Inr t \<Longrightarrow> vote_step E s t"
| Stake: "update_voting_power E v n s = Inr t \<Longrightarrow> vote_step E s t"
| Propagate: "propagate_weight_change n E v s = Inr t \<Longrightarrow> vote_step E s t"

inductive vote_reachable :: "chain \<Rightarrow> bool" where
  Start: "voters s = fmempty \<Longrightarrow> vote_reachable s"
| Step: "vote_reachable s \<Longrightarrow> vote_step E s t \<Longrightarrow> vote_reachable t"

inductive_cases vote_stepE: "vote_step E s t"

lemma vote_step_inv: "vote_step E s t \<Longrightarrow> voting_inv s \<Longrightarrow> voting_inv t"
  by (erule vote_stepE)
    (auto intro: update_votes_inv regproxy_inv update_voting_power_inv
      dest!: propagate_frame simp: vote_frame_def voting_inv_links)

text \<open>
  C17: In every state the voting operations lead to, the proxy graph has no cycle, a proxy uses no
  proxy itself, a proxied voter has no producer list, and producer lists are sorted, without
  duplicates and at most 30 long.
\<close>

theorem voting_reachable_inv:
  assumes "vote_reachable s"
  shows "voting_inv s"
  using assms
proof induction
  case (Start s)
  then show ?case by (auto simp: voting_inv_def proxy_edges_def acyclic_def)
qed (rule vote_step_inv)

theorem voting_reachable_inv_witness: "voting_inv (case regproxy sample_env 7 True sample_chain of Inr t \<Rightarrow> t)"
proof (rule voting_reachable_inv)
  have "vote_reachable sample_chain" by (rule Start) (simp add: sample_chain_def initial_chain_def)
  moreover have "regproxy sample_env 7 True sample_chain =
      Inr (sample_chain\<lparr>voters := fmupd 7 (new_voter\<lparr>v_owner := 7, is_proxy := True\<rparr>) fmempty\<rparr>)"
    by (simp add: regproxy_def require_auth_def sample_env_def sample_chain_def initial_chain_def)
  ultimately show "vote_reachable (case regproxy sample_env 7 True sample_chain of Inr t \<Rightarrow> t)"
    by (auto intro: Step Proxy)
qed

text \<open>What the deltas of a direct ballot add to each producer.\<close>

lemma rows_distinct: "distinct (map fst (rows m))"
  by (simp add: rows_def sorted_list_of_fmap_def comp_def sorted_list_of_fset.rep_eq)

lemma map_of_rows: "map_of (rows m) k = fmlookup m k"
proof (cases "map_of (rows m) k")
  case None
  then have "(k, v) \<notin> set (rows m)" for v by (force simp: map_of_eq_None_iff)
  then show ?thesis using None by (cases "fmlookup m k") (auto simp: rows_upd_lookup)
next
  case (Some v)
  then show ?thesis using map_of_SomeD rows_upd_lookup by metis
qed

definition clamp :: "f64 \<Rightarrow> f64" where "clamp v = (if v < 0 then 0 else v)"

definition count_delta :: "(f64 \<times> bool) option \<Rightarrow> producer_info \<Rightarrow> producer_info" where
  "count_delta d q = (case d of None \<Rightarrow> q
     | Some (x, new) \<Rightarrow> q\<lparr>total_votes := clamp (total_votes q + x)\<rparr>)"

lemma count_delta_simps [simp]:
  "count_delta None = (\<lambda>q. q)"
  "count_delta (Some (x, n)) q = q\<lparr>total_votes := clamp (total_votes q + x)\<rparr>"
  by (simp_all add: count_delta_def fun_eq_iff)

lemma update_votes_producer_count:
  "update_votes_producer E b (p, d, n) (r, x, s) = Inr (r1, x1, t) \<Longrightarrow>
   fmlookup (producers t) q = map_option (count_delta (if p = q then Some (d, n) else None))
     (fmlookup (producers s) q)"
  by (auto simp: update_votes_producer_def Let_def res_simps add_vote_weight_def clamp_def option.map_ident dest!: votepay_step_frame split: option.splits)

lemma update_votes_producers_count:
  "foldR (update_votes_producer E b) pds (r, x, s) = Inr (r1, x1, t) \<Longrightarrow> distinct (map fst pds) \<Longrightarrow>
   fmlookup (producers t) q = map_option (count_delta (map_of pds q)) (fmlookup (producers s) q)"
proof (induction pds arbitrary: r x s)
  case Nil
  then show ?case by (simp add: option.map_ident)
next
  case (Cons pd pds)
  obtain p d n where pd: "pd = (p, d, n)" by (rule prod_cases3)
  obtain r2 x2 s2 where 1: "update_votes_producer E b (p, d, n) (r, x, s) = Inr (r2, x2, s2)"
    and 2: "foldR (update_votes_producer E b) pds (r2, x2, s2) = Inr (r1, x1, t)"
    using Cons.prems(1) by (auto simp: pd res_simps)
  have "map_of pds p = None" using Cons.prems(2) by (simp add: pd map_of_eq_None_iff)
  then show ?case
    using Cons.IH [OF 2] Cons.prems(2) update_votes_producer_count [OF 1]
    by (auto simp: pd option.map_comp comp_def option.map_ident)
qed

lemma delta_of_fmupd: "delta_of p (fmupd q d m) = (if p = q then d else delta_of p m)"
  by (simp add: delta_of_def)

lemma retract_deltas_lookup:
  "distinct ps \<Longrightarrow> fmlookup (retract_deltas w ps m) p =
     (if p \<in> set ps then Some (fst (delta_of p m) - w, False) else fmlookup m p)"
  unfolding retract_deltas_def by (induction ps arbitrary: m) (auto simp: delta_of_fmupd)

lemma cast_deltas_lookup:
  "distinct ps \<Longrightarrow> fmlookup (cast_deltas w ps m) p =
     (if p \<in> set ps then Some (fst (delta_of p m) + w, True) else fmlookup m p)"
  unfolding cast_deltas_def by (induction ps arbitrary: m) (auto simp: delta_of_fmupd)

text \<open>The net change of a producer's votes when a ballot replaces another.\<close>

definition ballot_delta :: "f64 \<Rightarrow> name list \<Rightarrow> f64 \<Rightarrow> name list \<Rightarrow> name \<Rightarrow> f64 option" where
  "ballot_delta w0 old w new p =
     (let out = (0 < w0 \<and> p \<in> set old); inn = (0 \<le> w \<and> p \<in> set new);
          x = (if out then 0 - w0 else 0) in
      if inn then Some (x + w) else if out then Some x else None)"

lemma sorted_distinct: "sorted_wrt (<) xs \<Longrightarrow> distinct (xs :: name list)"
  by (simp add: strict_sorted_iff)

lemma direct_ballot:
  assumes inv: "voting_inv s" and r: "fmlookup (voters s) v = Some r" "v_proxy r = 0"
    and ok: "update_votes E v 0 ps voting s = Inr t"
  shows "fmlookup (producers t) p = map_option (\<lambda>q.
    case ballot_delta (last_vote_weight r) (v_producers r) (voter_weight E r) ps p of
      None \<Rightarrow> q | Some d \<Rightarrow> q\<lparr>total_votes := clamp (total_votes q + d)\<rparr>) (fmlookup (producers s) p)"
proof -
  define w where "w = voter_weight E r"
  define s1 where "s1 = s\<lparr>gstate := activate_stake E r (gstate s)\<rparr>"
  define m1 where "m1 = (if 0 < last_vote_weight r
    then retract_deltas (last_vote_weight r) (v_producers r) fmempty else fmempty)"
  define m2 where "m2 = (if 0 \<le> w then cast_deltas w ps m1 else m1)"
  have ds: "distinct (v_producers r)" "distinct ps"
    using inv r ok by (auto simp: voting_inv_def voter_ok_def update_votes_def valid_ballot_iff
        intro!: sorted_distinct)
  have "retract_vote E r s1 = Inr (m1, s1)" using r by (simp add: retract_vote_def m1_def)
  moreover have "cast_vote E 0 ps w voting (m1, s1) = Inr (m2, s1)" by (simp add: cast_vote_def m2_def)
  ultimately obtain u where "apply_deltas E voting (m2, s1) = Inr u"
    and "record_vote v w ps 0 u = Inr t"
    using ok r by (auto simp: update_votes_def valid_ballot_iff res_simps Let_def s1_def w_def)
  then have t: "producers t = producers u" by (auto simp: record_vote_def res_simps)
  obtain rt ina s2 where "foldR (update_votes_producer E voting) (rows m2) (0, 0, s1) = Inr (rt, ina, s2)"
    and "producers u = producers s2"
    using \<open>apply_deltas E voting (m2, s1) = Inr u\<close> by (auto simp: apply_deltas_def res_simps)
  then have "fmlookup (producers t) p = map_option (count_delta (fmlookup m2 p)) (fmlookup (producers s) p)"
    using update_votes_producers_count [of E voting "rows m2" 0 0 s1 rt ina s2 p] t
    by (simp add: rows_distinct map_of_rows s1_def)
  moreover have "count_delta (fmlookup m2 p) q =
      (case ballot_delta (last_vote_weight r) (v_producers r) w ps p of
        None \<Rightarrow> q | Some d \<Rightarrow> q\<lparr>total_votes := clamp (total_votes q + d)\<rparr>)" for q
    using ds by (simp add: m2_def m1_def ballot_delta_def Let_def cast_deltas_lookup
        retract_deltas_lookup delta_of_def)
  ultimately show ?thesis by (cases "fmlookup (producers s) p") (simp_all add: w_def)
qed

text \<open>
  C19: Replacing a direct ballot by another changes the votes of each producer by the new weight
  if it is on the new ballot, less the old weight if it was on the old one, never below zero;
  no other producer row changes.
\<close>

theorem direct_ballot_counts:
  assumes inv: "voting_inv s" and r: "fmlookup (voters s) v = Some r" "v_proxy r = 0"
    and ok: "update_votes E v 0 ps voting s = Inr t"
  shows "fmlookup (producers t) p = map_option (\<lambda>q.
    case ballot_delta (last_vote_weight r) (v_producers r) (voter_weight E r) ps p of
      None \<Rightarrow> q | Some d \<Rightarrow> q\<lparr>total_votes := clamp (total_votes q + d)\<rparr>) (fmlookup (producers s) p)"
  using assms by (rule direct_ballot)

theorem direct_ballot_counts_witness:
  "\<exists>t. update_votes sample_env 2 0 [3] False proxied_chain = Inr t \<and>
     map_option total_votes (fmlookup (producers t) 3) = Some (of_i 140)"
proof -
  let ?r = "new_voter\<lparr>v_owner := 2, is_proxy := True, v_producers := [3], staked := 50,
    proxied_vote_weight := of_i 90, last_vote_weight := of_i 140\<rparr>"
  have r: "fmlookup (voters proxied_chain) 2 = Some ?r" "v_proxy ?r = 0"
    by (simp_all add: proxied_chain_def new_voter_def fmlookup_of_list)
  obtain t where t: "update_votes sample_env 2 0 [3] False proxied_chain = Inr t"
    using revote_total [OF proxied_chain_ok r(1), of sample_env] by (auto simp: new_voter_def)
  have d: "ballot_delta (of_i 140) [3] (voter_weight sample_env ?r) [3] 3 = Some 0"
    by code_simp
  have "clamp (of_i 140 + 0) = of_i 140" by code_simp
  then have "map_option total_votes (fmlookup (producers t) 3) = Some (of_i 140)"
    using direct_ballot_counts [OF proxied_chain_ok(1) r t, of 3] d
    by (simp add: new_voter_def) (simp add: proxied_chain_def fmlookup_of_list)
  with t show ?thesis by blast
qed

section \<open>A change of stake\<close>

text \<open>A change of weight runs down the proxies and leaves what is delegated to its origin.\<close>

definition proxied :: "chain \<Rightarrow> name \<Rightarrow> f64 option" where
  "proxied s p = map_option proxied_vote_weight (fmlookup (voters s) p)"

lemma add_proxied_weight_proxied:
  "add_proxied_weight v d e s = Inr t \<Longrightarrow> proxied t p = (if p = v then map_option (\<lambda>x. x + d) (proxied s p) else proxied s p)"
  by (auto simp: add_proxied_weight_def proxied_def res_simps)

lemma set_last_weight_proxied: "set_last_weight v w s = Inr t \<Longrightarrow> proxied t p = proxied s p"
  by (auto simp: set_last_weight_def proxied_def res_simps)

lemma propagate_to_producers_proxied: "propagate_to_producers E d ps s = Inr t \<Longrightarrow> proxied t p = proxied s p"
  by (auto simp: propagate_to_producers_def proxied_def res_simps dest!: propagate_producers_frame)

lemma propagate_proxied:
  "propagate_weight_change n E v s = Inr t \<Longrightarrow> (v, p) \<notin> (proxy_edges s)\<^sup>+ \<Longrightarrow> proxied t p = proxied s p"
proof (induction n arbitrary: v s t)
  case (Suc n)
  obtain r where r: "fmlookup (voters s) v = Some r" using Suc.prems(1) by (auto simp: res_simps)
  define d where "d = voter_weight E r - last_vote_weight r"
  from Suc.prems(1) r obtain u where u: "set_last_weight v (voter_weight E r) u = Inr t"
    and "u = s \<or> propagate_to_producers E d (v_producers r) s = Inr u \<or> v_proxy r \<noteq> 0 \<and>
      (\<exists>s1. add_proxied_weight (v_proxy r) d (Vote Proxy_not_found) s = Inr s1 \<and>
        propagate_weight_change n E (v_proxy r) s1 = Inr u)"
    by (auto simp: res_simps Let_def d_def split: if_splits)
  then consider "u = s" | "propagate_to_producers E d (v_producers r) s = Inr u"
    | s1 where "v_proxy r \<noteq> 0" "add_proxied_weight (v_proxy r) d (Vote Proxy_not_found) s = Inr s1"
      "propagate_weight_change n E (v_proxy r) s1 = Inr u" by blast
  then have "proxied u p = proxied s p"
  proof cases
    case 3
    have e: "(v, v_proxy r) \<in> proxy_edges s" using r 3(1) by (simp add: proxy_edges_def)
    then have "p \<noteq> v_proxy r" "(v_proxy r, p) \<notin> (proxy_edges s)\<^sup>+"
      using Suc.prems(2) by (auto intro: trancl_into_trancl2)
    moreover have "proxy_edges s1 = proxy_edges s"
      using add_proxied_weight_frame [OF 3(2)] proxy_edges_links by (simp add: vote_frame_def)
    ultimately show ?thesis using Suc.IH [OF 3(3)] add_proxied_weight_proxied [OF 3(2)] by simp
  qed (simp_all add: propagate_to_producers_proxied)
  then show ?case using set_last_weight_proxied [OF u] by simp
qed simp

text \<open>What repeating a ballot does to the weight delegated to its proxy.\<close>

definition reproxied :: "f64 \<Rightarrow> f64 \<Rightarrow> f64 \<Rightarrow> f64" where
  "reproxied w0 w x = (let y = (if 0 < w0 then x + - w0 else x) in if 0 \<le> w then y + w else y)"

lemma add_and_propagate_proxied:
  assumes "voting_inv s" "add_proxied_weight p d e s = Inr s1" "propagate_weight_change n E p s1 = Inr t"
  shows "proxied t p = map_option (\<lambda>x. x + d) (proxied s p)"
proof -
  have l: "same_links s s1" using add_proxied_weight_frame [OF assms(2)] by (simp add: vote_frame_def)
  have "(p, p) \<notin> (proxy_edges s1)\<^sup>+"
    using voting_inv_links [OF l assms(1)] by (auto simp: voting_inv_def acyclic_def)
  then show ?thesis using propagate_proxied [OF assms(3)] add_proxied_weight_proxied [OF assms(2)] by simp
qed

lemma rows_fmempty: "rows (fmempty :: (name, f64 \<times> bool) fmap) = []"
proof (rule ccontr)
  assume "rows (fmempty :: (name, f64 \<times> bool) fmap) \<noteq> []"
  then obtain k x ps where "rows (fmempty :: (name, f64 \<times> bool) fmap) = (k, x) # ps" by (metis list.exhaust surj_pair)
  then show False using map_of_rows [of "fmempty :: (name, f64 \<times> bool) fmap" k] by simp
qed

lemma proxied_ballot:
  assumes inv: "voting_inv s" and r: "fmlookup (voters s) v = Some r" "v_proxy r \<noteq> 0" "v_producers r = []"
    and ok: "update_votes E v (v_proxy r) [] False s = Inr t"
  shows "proxied t (v_proxy r) =
    map_option (reproxied (last_vote_weight r) (voter_weight E r)) (proxied s (v_proxy r))"
proof -
  let ?p = "v_proxy r" and ?w = "voter_weight E r" and ?o = "last_vote_weight r"
  define s1 where "s1 = s\<lparr>gstate := activate_stake E r (gstate s)\<rparr>"
  have f1: "vote_frame s s1" by (simp add: s1_def)
  obtain m2 s2 m3 s3 u where 2: "retract_vote E r s1 = Inr (m2, s2)"
    and 3: "cast_vote E ?p [] ?w False (m2, s2) = Inr (m3, s3)"
    and u: "apply_deltas E False (m3, s3) = Inr u" and t: "record_vote v ?w [] ?p u = Inr t"
    using ok r by (auto simp: update_votes_def valid_ballot_iff res_simps Let_def s1_def)
  have inv1: "voting_inv s1" using f1 inv voting_inv_links unfolding vote_frame_def by blast
  have p2: "m2 = fmempty \<and> proxied s2 ?p = map_option (\<lambda>x. if 0 < ?o then x + - ?o else x) (proxied s ?p)"
    using 2 r(2) add_and_propagate_proxied [OF inv1]
    by (auto simp: retract_vote_def res_simps s1_def proxied_def option.map_ident split: if_splits)
  have inv2: "voting_inv s2"
    using retract_vote_frame [OF 2] inv1 voting_inv_links unfolding vote_frame_def by blast
  have p3: "m3 = fmempty \<and> proxied s3 ?p = map_option (\<lambda>x. if 0 \<le> ?w then x + ?w else x) (proxied s2 ?p)"
    using 3 r(2) p2 add_and_propagate_proxied [OF inv2]
    by (auto simp: cast_vote_def res_simps option.map_ident split: if_splits)
  have "proxied u ?p = proxied s3 ?p"
    using u p3 by (auto simp: apply_deltas_def rows_fmempty proxied_def res_simps)
  moreover have "?p \<noteq> v"
    using inv r unfolding voting_inv_def acyclic_def by (force simp: proxy_edges_def)
  ultimately have "proxied t ?p = proxied s3 ?p" using t by (auto simp: record_vote_def proxied_def res_simps)
  then show ?thesis
    using p2 p3 by (simp add: option.map_comp comp_def reproxied_def [abs_def] Let_def)
qed

lemma ballot_repeated:
  fixes v n
  assumes inv: "voting_inv s" and reg: "votes_registered s"
  defines "r \<equiv> with_stake v n s"
  assumes b: "v_producers r \<noteq> [] \<or> v_proxy r \<noteq> 0"
  obtains t r' where "update_votes E v (v_proxy r) (v_producers r) False (s\<lparr>voters := fmupd v r (voters s)\<rparr>) = Inr t"
    "fmlookup (voters t) v = Some r'" "staked r' = staked r" "v_proxy r' = v_proxy r" "v_producers r' = v_producers r"
    "last_vote_weight r' = voter_weight E r"
    "v_proxy r \<noteq> 0 \<Longrightarrow> proxied t (v_proxy r) =
       map_option (reproxied (last_vote_weight r) (voter_weight E r)) (proxied s (v_proxy r))"
    "\<And>p. v_proxy r = 0 \<Longrightarrow> fmlookup (producers t) p = map_option (\<lambda>q.
       case ballot_delta (last_vote_weight r) (v_producers r) (voter_weight E r) (v_producers r) p of
         None \<Rightarrow> q | Some d \<Rightarrow> q\<lparr>total_votes := clamp (total_votes q + d)\<rparr>) (fmlookup (producers s) p)"
proof -
  let ?s1 = "s\<lparr>voters := fmupd v r (voters s)\<rparr>"
  have inv1: "voting_inv ?s1" unfolding r_def by (rule with_stake_inv [OF inv])
  have reg1: "votes_registered ?s1"
    using reg by (auto simp: votes_registered_def r_def with_stake_def new_voter_def split: option.splits)
  have r: "fmlookup (voters ?s1) v = Some r" by simp
  obtain t where t: "update_votes E v (v_proxy r) (v_producers r) False ?s1 = Inr t"
    using revote_total [OF inv1 reg1 r] by blast
  from t obtain u r' where u: "fmlookup (voters u) v = Some r'" "links r' = links r"
    "t = u\<lparr>voters := fmupd v (r'\<lparr>last_vote_weight := voter_weight E r, v_producers := v_producers r,
        v_proxy := v_proxy r\<rparr>) (voters u)\<rparr>"
    by (rule update_votes_Inr) (use r in auto)
  have ok: "voter_ok ?s1 r" using inv1 r unfolding voting_inv_def by blast
  have p: "v_proxy r \<noteq> v" if "v_proxy r \<noteq> 0"
    using inv1 r that unfolding voting_inv_def acyclic_def by (force simp: proxy_edges_def)
  show thesis
  proof (rule that [OF t])
    show "fmlookup (voters t) v = Some (r'\<lparr>last_vote_weight := voter_weight E r, v_producers := v_producers r,
        v_proxy := v_proxy r\<rparr>)" by (simp add: u(3))
    show "proxied t (v_proxy r) =
       map_option (reproxied (last_vote_weight r) (voter_weight E r)) (proxied s (v_proxy r))" if "v_proxy r \<noteq> 0"
      using proxied_ballot [OF inv1 r that] t p [OF that] ok that by (simp add: voter_ok_def proxied_def)
    show "fmlookup (producers t) q = map_option (\<lambda>p.
       case ballot_delta (last_vote_weight r) (v_producers r) (voter_weight E r) (v_producers r) q of
         None \<Rightarrow> p | Some d \<Rightarrow> p\<lparr>total_votes := clamp (total_votes p + d)\<rparr>) (fmlookup (producers s) q)"
      if "v_proxy r = 0" for q
      using direct_ballot [OF inv1 r that] t that by simp
  qed (use links_fields [OF u(2)] in simp_all)
qed

text \<open>
  C20: A change of a voter's stake fails only if the stake would be negative, or if the vesting of
  \<open>b1\<close> forbids it. Otherwise the new stake is recorded and the voter's ballot, if there is one, is
  repeated, which never fails: the voter's weight becomes that of the new stake, a direct ballot's
  producers lose the old weight and gain the new one, and so does the weight delegated to the
  voter's proxy. The ballot itself stays.
\<close>

theorem stake_change_revotes:
  fixes v n
  assumes "voting_inv s" "votes_registered s"
  defines "r \<equiv> with_stake v n s"
  shows "if staked r < 0 then update_voting_power E v n s = Inl (Bw Negative_vote_stake)
    else case if v = b1_account then validate_b1_vesting E (staked r) (Inr ()) else Inr () of
      Inl e \<Rightarrow> update_voting_power E v n s = Inl e
    | Inr u \<Rightarrow> \<exists>t r'. update_voting_power E v n s = Inr t \<and> fmlookup (voters t) v = Some r' \<and>
        staked r' = staked r \<and> v_proxy r' = v_proxy r \<and> v_producers r' = v_producers r \<and>
        (if v_proxy r = 0 \<and> v_producers r = [] then t = s\<lparr>voters := fmupd v r (voters s)\<rparr>
         else last_vote_weight r' = voter_weight E r \<and>
           (if v_proxy r \<noteq> 0
            then proxied t (v_proxy r) =
              map_option (reproxied (last_vote_weight r) (voter_weight E r)) (proxied s (v_proxy r))
            else \<forall>p. fmlookup (producers t) p = map_option (\<lambda>q.
              case ballot_delta (last_vote_weight r) (v_producers r) (voter_weight E r) (v_producers r) p of
                None \<Rightarrow> q | Some d \<Rightarrow> q\<lparr>total_votes := clamp (total_votes q + d)\<rparr>)
              (fmlookup (producers s) p)))"
proof -
  let ?vest = "\<lambda>k. (if v = b1_account then validate_b1_vesting E (staked r) else (\<lambda>k. k)) k"
  have vest: "?vest (Inr ()) = Inr u \<and> ?vest k = k \<or> (\<exists>e. ?vest (Inr ()) = Inl e \<and> ?vest k = Inl e)" for k u
    by (auto simp: validate_b1_vesting_def check_def bindR_def split: sum.split)
  let ?s1 = "s\<lparr>voters := fmupd v r (voters s)\<rparr>"
  let ?k = "if v_producers r \<noteq> [] \<or> v_proxy r \<noteq> 0
    then update_votes E v (v_proxy r) (v_producers r) False ?s1 else Inr ?s1"
  have eq: "update_voting_power E v n s = check (0 \<le> staked r) (Bw Negative_vote_stake) (?vest ?k)"
    by (simp only: update_voting_power_eq Let_def r_def)
  have if_app: "(if v = b1_account then validate_b1_vesting E (staked r) (Inr ()) else Inr ()) = ?vest (Inr ())"
    by simp
  show ?thesis
  proof (cases "staked r < 0 \<or> (\<exists>e. ?vest (Inr ()) = Inl e)")
    case True
    show ?thesis
    proof (cases "staked r < 0")
      case neg: True
      then have "update_voting_power E v n s = Inl (Bw Negative_vote_stake)" unfolding eq by (simp add: check_def)
      then show ?thesis unfolding if_P [OF neg] .
    next
      case pos: False
      with True obtain e where e: "?vest (Inr ()) = Inl e" "?vest ?k = Inl e" using vest [of "()" ?k] by auto
      then have "update_voting_power E v n s = Inl e" using pos unfolding eq by (simp only: check_def) simp
      then show ?thesis unfolding if_app e(1) if_not_P [OF pos] sum.case .
    qed
  next
    case False
    then have 1: "\<not> staked r < 0" "?vest (Inr ()) = Inr ()" "?vest ?k = ?k" using vest [of "()" ?k] by auto
    then have 2: "update_voting_power E v n s = ?k" unfolding eq by (simp add: check_def)
    show ?thesis
    proof (cases "v_proxy r = 0 \<and> v_producers r = []")
      case True
      then show ?thesis using 1(1) unfolding if_app 1(2) 2 by simp
    next
      case b: False
      then have k: "v_producers r \<noteq> [] \<or> v_proxy r \<noteq> 0" by blast
      show ?thesis unfolding if_app 1(2) 2 if_P [OF k] if_not_P [OF 1(1)] if_not_P [OF b] sum.case
        by (rule ballot_repeated [OF assms(1,2), of v n E, folded r_def, OF k]) auto
    qed
  qed
qed

theorem stake_change_revotes_witness:
  "\<exists>t r'. update_voting_power sample_env 1 20 proxied_chain = Inr t \<and> fmlookup (voters t) 1 = Some r' \<and>
    staked r' = 120 \<and> v_proxy r' = 2"
proof -
  let ?r = "new_voter\<lparr>v_owner := 1, v_proxy := 2, staked := 120, last_vote_weight := of_i 90\<rparr>"
  have "with_stake 1 20 proxied_chain = ?r"
    by (simp add: with_stake_def proxied_chain_def new_voter_def fmlookup_of_list i64_id)
  then show ?thesis using stake_change_revotes [OF proxied_chain_ok, of 1 20 sample_env]
    by (auto simp: new_voter_def b1_account_def)
qed

end
