(* ===== verification/Ledger.thy ===== *)
theory Ledger
  imports Voting
begin

text \<open>
  The interface between a component that holds tokens and the voting tables. A ledger is a value
  of the database that a change of votes leaves alone: the tokens a component accounts for, less
  what has been transferred to its account. An operation \<open>moves\<close> the ledger by the amount its
  caller has to make up; an operation that moves it by 0 keeps the component's books in step with
  its token balance. Amounts are compared as 64-bit integers, as the code computes them.
\<close>

lemma update_votes_without_votes:
  assumes "update_votes E v proxy ps voting s = Inr t"
  shows "without_votes t = without_votes s"
  using assms by (rule update_votes_Inr) (auto simp: vote_frame_def without_votes_def)

lemma update_voting_power_without_votes:
  assumes "update_voting_power E v n s = Inr t"
  shows "without_votes t = without_votes s"
proof -
  obtain r p ps where "t = s\<lparr>voters := fmupd v r (voters s)\<rparr> \<or>
      update_votes E v p ps False (s\<lparr>voters := fmupd v r (voters s)\<rparr>) = Inr t"
    using assms by (auto simp: update_voting_power_def validate_b1_vesting_def Let_def res_simps
        split: if_splits)
  then show ?thesis
    by (auto dest: update_votes_without_votes simp: without_votes_def)
qed

locale ledger =
  fixes ledger_value :: "chain \<Rightarrow> int"
  assumes votes: "without_votes t = without_votes s \<Longrightarrow> ledger_value t = ledger_value s"
begin

definition moves :: "int \<Rightarrow> chain \<Rightarrow> chain \<Rightarrow> bool" where
  "moves d s t \<longleftrightarrow> i64 (ledger_value t) = i64 (ledger_value s + d)"

lemma moves_refl [simp]: "moves 0 s s"
  by (simp add: moves_def)

lemma moves_trans:
  assumes "moves d s t" "moves e t u"
  shows "moves (d + e) s u"
proof -
  have "i64 (ledger_value u) = i64 (ledger_value t + e)" using assms(2) by (simp add: moves_def)
  also have "\<dots> = i64 (ledger_value s + d + e)"
    using assms(1) by (intro i64_add_cong) (simp add: moves_def)
  finally show ?thesis by (simp add: moves_def add.assoc)
qed

lemma moves_0_trans: "moves 0 s t \<Longrightarrow> moves e t u \<Longrightarrow> moves e s u"
  using moves_trans [of 0 s t e u] by simp

lemma moves_trans_0: "moves d s t \<Longrightarrow> moves 0 t u \<Longrightarrow> moves d s u"
  using moves_trans [of d s t 0 u] by simp

lemma moves_cong: "i64 d = i64 e \<Longrightarrow> moves d s t \<longleftrightarrow> moves e s t"
  using i64_addL_cong [of d e "ledger_value s"] by (simp add: moves_def)

lemma moves_eq: "ledger_value t = ledger_value s + d \<Longrightarrow> moves d s t"
  by (simp add: moves_def)

lemma update_votes_moves: "update_votes E v p ps b s = Inr t \<Longrightarrow> moves 0 s t"
  by (intro moves_eq) (simp add: votes [OF update_votes_without_votes])

lemma update_voting_power_moves: "update_voting_power E v n s = Inr t \<Longrightarrow> moves 0 s t"
  by (intro moves_eq) (simp add: votes [OF update_voting_power_without_votes])

lemma foldR_moves:
  assumes "\<And>x u v. f x u = Inr v \<Longrightarrow> moves 0 u v" "foldR f xs s = Inr t"
  shows "moves 0 s t"
  by (rule foldR_invariant [OF assms(2), of "moves 0 s"]) (auto intro: moves_trans_0 assms(1))

end

end
