(* ===== verification/Rex.thy ===== *)
theory Rex
  imports RexPool Ledger
begin

text \<open>
  The resource exchange (\<open>rex.cpp\<close>): REX funds, balances, sell orders, CPU and NET loans, the
  maintenance loop \<open>runrex\<close>, and the actions on them. The lemmas show that the pool stays
  balanced, that REX rows stay balanced, and that the tokens the accounts have in the exchange
  change by exactly what is transferred.
\<close>

section \<open>Funds\<close>

definition transfer_from_fund :: "env \<Rightarrow> name \<Rightarrow> asset \<Rightarrow> chain \<Rightarrow> error + chain" where
  "transfer_from_fund E owner a s =
     core_symbol s (\<lambda>core.
     check (0 < amount a \<and> asym a = core) (Rex Must_be_positive) (
     fetch (fmlookup (rexfunds s) owner) (Rex Must_deposit_first) (\<lambda>f.
     bindR (aa_leq (e_assets E) a (rf_balance f)) (\<lambda>le.
     check le (Rex Insufficient_funds) (
     Inr (s\<lparr>rexfunds := fmupd owner (f\<lparr>rf_balance :=
       set_amount (i64 (amount (rf_balance f) - amount a)) (rf_balance f)\<rparr>) (rexfunds s)\<rparr>))))))"

definition transfer_to_fund :: "name \<Rightarrow> asset \<Rightarrow> chain \<Rightarrow> error + chain" where
  "transfer_to_fund owner a s =
     core_symbol s (\<lambda>core.
     check (0 < amount a \<and> asym a = core) (Rex Must_be_positive) (
     let f = (case fmlookup (rexfunds s) owner of
           None \<Rightarrow> \<lparr>rf_owner = owner, rf_balance = a\<rparr>
         | Some f \<Rightarrow> f\<lparr>rf_balance := set_amount (i64 (amount (rf_balance f) + amount a)) (rf_balance f)\<rparr>) in
     Inr (s\<lparr>rexfunds := fmupd owner f (rexfunds s)\<rparr>)))"

section \<open>Voting stake\<close>

definition check_voting_requirement :: "name \<Rightarrow> error \<Rightarrow> chain \<Rightarrow> (error + 'a) \<Rightarrow> error + 'a" where
  "check_voting_requirement owner e s k =
     check (case fmlookup (voters s) owner of None \<Rightarrow> False
       | Some v \<Rightarrow> v_proxy v \<noteq> 0 \<or> 21 \<le> length (v_producers v)) e k"

text \<open>\<open>vote_stake_updater\<close>: the voter's stake follows the current value of the REX held.\<close>

definition update_rex_stake :: "name \<Rightarrow> chain \<Rightarrow> error + chain" where
  "update_rex_stake voter s =
     (case fmlookup (rexbalance s) voter of
        None \<Rightarrow> Inr s
      | Some rb \<Rightarrow>
          if \<not> rex_available s then Inr s
          else fetch (rexpool s) No_row (\<lambda>p.
            core_symbol s (\<lambda>core.
            bindR (muldivR (amount (rex_amount rb)) (amount (total_lendable p)) (amount (total_rex p))) (\<lambda>cur.
            let delta = i64 (cur - amount (vote_stake rb));
                s1 = s\<lparr>rexbalance := fmupd voter (rb\<lparr>vote_stake := set_amount cur (vote_stake rb)\<rparr>) (rexbalance s)\<rparr> in
            if delta = 0 then Inr s1
            else case fmlookup (voters s1) voter of
                None \<Rightarrow> Inr s1
              | Some v \<Rightarrow> Inr (s1\<lparr>voters := fmupd voter (v\<lparr>staked := i64 (staked v + delta)\<rparr>) (voters s1)\<rparr>)))))"

section \<open>Balances\<close>

definition modify_rex :: "name \<Rightarrow> (rex_balance \<Rightarrow> rex_balance) \<Rightarrow> chain \<Rightarrow> error + chain" where
  "modify_rex owner f s =
     fetch (fmlookup (rexbalance s) owner) No_row (\<lambda>rb.
     Inr (s\<lparr>rexbalance := fmupd owner (f rb) (rexbalance s)\<rparr>))"

text \<open>The buckets of a row that receives \<open>rex\<close>, with the savings bucket kept last.\<close>

definition receive_rex :: "env \<Rightarrow> int \<Rightarrow> rex_balance \<Rightarrow> rex_balance" where
  "receive_rex E rex rb =
     (let (savings, rb1) = read_rex_savings rb in
      put_rex_savings savings (add_rex_maturity E rex (process_rex_maturities E rb1)))"

definition add_to_rex_balance ::
  "env \<Rightarrow> name \<Rightarrow> asset \<Rightarrow> asset \<Rightarrow> chain \<Rightarrow> error + (asset \<times> chain)" where
  "add_to_rex_balance E owner pay rex_received s =
     core_symbol s (\<lambda>core.
     bindR (case fmlookup (rexbalance s) owner of
         None \<Rightarrow> Inr (0, amount pay, \<lparr>rb_owner = owner, vote_stake = pay, rex_amount = rex_received,
           matured_rex = 0, rex_maturities = []\<rparr>)
       | Some rb \<Rightarrow> fetch (rexpool s) No_row (\<lambda>p.
           let n = i64 (amount (rex_amount rb) + amount rex_received) in
           bindR (muldivR n (amount (total_lendable p)) (amount (total_rex p))) (\<lambda>stake.
           Inr (amount (vote_stake rb), stake, rb\<lparr>rex_amount := set_amount n (rex_amount rb),
             vote_stake := set_amount stake (vote_stake rb)\<rparr>)))) (\<lambda>(init_stake, stake, rb).
     bindR (aa_minus (e_assets E) \<lparr>amount = stake, asym = core\<rparr> \<lparr>amount = init_stake, asym = core\<rparr>) (\<lambda>delta.
     Inr (delta, s\<lparr>rexbalance := fmupd owner (receive_rex E (amount rex_received) rb) (rexbalance s)\<rparr>))))"

section \<open>Sell orders\<close>

text \<open>The orders in the order of the index \<open>bytime\<close>.\<close>

definition orders_by_time :: "chain \<Rightarrow> (name \<times> rex_order) list" where
  "orders_by_time s = sort_key (\<lambda>(k, o'). (u64 (by_time o'), k)) (rows (rexorders s))"

definition rex_loans_available :: "chain \<Rightarrow> bool" where
  "rex_loans_available s =
     (if \<not> rex_available s then False
      else case orders_by_time s of [] \<Rightarrow> True | (k, o') # _ \<Rightarrow> \<not> is_open o')"

text \<open>What a sale takes out of the pool, if enough of it is not lent.\<close>

definition sell_from_pool :: "int \<Rightarrow> int \<Rightarrow> rex_pool \<Rightarrow> rex_pool option" where
  "sell_from_pool rex pr p =
     (let S1 = i64 (amount (total_lendable p) - pr);
          unlent_lower_bound = tdiv (amount (total_lent p)) 10;
          available_unlent = i64 (amount (total_unlent p) - unlent_lower_bound) in
      if pr \<le> available_unlent then
        Some (p\<lparr>total_rex := set_amount (i64 (amount (total_rex p) - rex)) (total_rex p),
          total_lendable := set_amount S1 (total_lendable p),
          total_unlent := set_amount (i64 (S1 - amount (total_lent p))) (total_unlent p)\<rparr>)
      else None)"

definition sell_from_balance :: "int \<Rightarrow> int \<Rightarrow> rex_balance \<Rightarrow> rex_balance" where
  "sell_from_balance rex stake rb =
     rb\<lparr>vote_stake := set_amount stake (vote_stake rb),
       rex_amount := set_amount (i64 (amount (rex_amount rb) - rex)) (rex_amount rb),
       matured_rex := i64 (matured_rex rb - rex)\<rparr>"

definition fill_rex_order ::
  "env \<Rightarrow> name \<Rightarrow> asset \<Rightarrow> chain \<Rightarrow> error + (rex_order_outcome \<times> chain)" where
  "fill_rex_order E owner rex s =
     fetch (rexpool s) No_row (\<lambda>p.
     core_symbol s (\<lambda>core.
     let S0 = amount (total_lendable p); R0 = amount (total_rex p) in
     bindR (muldivR (amount rex) S0 R0) (\<lambda>pr.
     bindR (aa_make (e_assets E) pr core) (\<lambda>sold.
     case sell_from_pool (amount rex) pr p of
       None \<Rightarrow> Inr (\<lparr>success = False, out_proceeds = asset0 core, out_stake_change = asset0 core\<rparr>, s)
     | Some p' \<Rightarrow>
         fetch (fmlookup (rexbalance s) owner) No_row (\<lambda>rb.
         bindR (muldivR (amount (rex_amount rb)) S0 R0) (\<lambda>current_stake_value.
         let stake = i64 (current_stake_value - pr) in
         Inr (\<lparr>success = True, out_proceeds = sold,
             out_stake_change = \<lparr>amount = i64 (stake - amount (vote_stake rb)), asym = core\<rparr>\<rparr>,
           s\<lparr>rexpool := Some p',
             rexbalance := fmupd owner (sell_from_balance (amount rex) stake rb) (rexbalance s)\<rparr>)))))))"

definition update_rex_account ::
  "env \<Rightarrow> name \<Rightarrow> int \<Rightarrow> int \<Rightarrow> bool \<Rightarrow> chain \<Rightarrow> error + (int \<times> chain)" where
  "update_rex_account E owner to_fund0 to_stake0 force_vote_update s =
     core_symbol s (\<lambda>core.
     let (in_order, to_fund, to_stake, s1) = (case fmlookup (rexorders s) owner of
           None \<Rightarrow> (0, to_fund0, to_stake0, s)
         | Some o' \<Rightarrow>
             if is_open o' then (amount (rex_requested o'), to_fund0, to_stake0, s)
             else (0, i64 (to_fund0 + amount (ro_proceeds o')), i64 (to_stake0 + amount (stake_change o')),
               s\<lparr>rexorders := fmdrop owner (rexorders s)\<rparr>)) in
     bindR (if 0 < to_fund then transfer_to_fund owner \<lparr>amount = to_fund, asym = core\<rparr> s1 else Inr s1) (\<lambda>s2.
     bindR (if force_vote_update \<or> to_stake \<noteq> 0 then update_voting_power E owner to_stake s2 else Inr s2)
       (\<lambda>s3. Inr (in_order, s3))))"

section \<open>Loans\<close>

datatype loan_kind = Cpu | Net

definition loans :: "loan_kind \<Rightarrow> chain \<Rightarrow> (int, rex_loan) fmap" where
  "loans k s = (case k of Cpu \<Rightarrow> cpu_loans s | Net \<Rightarrow> net_loans s)"

definition set_loans :: "loan_kind \<Rightarrow> (int, rex_loan) fmap \<Rightarrow> chain \<Rightarrow> chain" where
  "set_loans k t s = (case k of Cpu \<Rightarrow> s\<lparr>cpu_loans := t\<rparr> | Net \<Rightarrow> s\<lparr>net_loans := t\<rparr>)"

definition limits_delta :: "env \<Rightarrow> loan_kind \<Rightarrow> name \<Rightarrow> int \<Rightarrow> chain \<Rightarrow> error + chain" where
  "limits_delta E k receiver n s =
     (case k of Cpu \<Rightarrow> update_resource_limits E receiver 0 n s
      | Net \<Rightarrow> update_resource_limits E receiver n 0 s)"

definition loans_by_expiration :: "loan_kind \<Rightarrow> chain \<Rightarrow> (int \<times> rex_loan) list" where
  "loans_by_expiration k s = sort_key (\<lambda>(n, l). (u64 (expiration l), n)) (rows (loans k s))"

definition thirty_days :: int where "thirty_days = 30 * useconds_per_day"

definition update_renewed_loan :: "int \<Rightarrow> rex_loan \<Rightarrow> int \<times> rex_loan" where
  "update_renewed_loan rented_tokens loan =
     (i64 (rented_tokens - amount (total_staked loan)),
      loan\<lparr>total_staked := set_amount rented_tokens (total_staked loan),
        expiration := i64 (expiration loan + thirty_days),
        ln_balance := set_amount (i64 (amount (ln_balance loan) - amount (payment loan))) (ln_balance loan)\<rparr>)"

text \<open>Renewal or closing of an expired loan: whether to delete it, and the change of its stake.\<close>

definition process_expired_loan ::
  "env \<Rightarrow> loan_kind \<Rightarrow> int \<Rightarrow> rex_loan \<Rightarrow> chain \<Rightarrow> error + (bool \<times> int \<times> chain)" where
  "process_expired_loan E k n loan s =
     bindR (remove_loan_from_rex_pool loan s) (\<lambda>s1.
     fetch (rexpool s1) No_row (\<lambda>p.
     bindR (get_bancor_output (amount (total_rent p)) (amount (total_unlent p)) (amount (payment loan)))
       (\<lambda>rented_tokens.
     bindR (aa_leq (e_assets E) (payment loan) (ln_balance loan)) (\<lambda>funded.
     if funded \<and> amount (payment loan) < rented_tokens \<and> rex_loans_available s1 then
       bindR (add_loan_to_rex_pool E (payment loan) rented_tokens False s1) (\<lambda>s2.
       let (delta_stake, loan') = update_renewed_loan rented_tokens loan in
       Inr (False, delta_stake, set_loans k (fmupd n loan' (loans k s2)) s2))
     else
       bindR (if 0 < amount (ln_balance loan) then transfer_to_fund (ln_from loan) (ln_balance loan) s1
         else Inr s1) (\<lambda>s2.
       Inr (True, i64 (- amount (total_staked loan)), s2))))))"

fun process_loans :: "nat \<Rightarrow> env \<Rightarrow> loan_kind \<Rightarrow> chain \<Rightarrow> error + chain" where
  "process_loans 0 E k s = Inr s"
| "process_loans (Suc i) E k s =
     (case loans_by_expiration k s of
        [] \<Rightarrow> Inr s
      | (n, loan) # _ \<Rightarrow>
          if e_now E < expiration loan then Inr s
          else
            bindR (process_expired_loan E k n loan s) (\<lambda>(delete_loan, delta_stake, s1).
            bindR (if delta_stake \<noteq> 0 then limits_delta E k (ln_receiver loan) delta_stake s1 else Inr s1)
              (\<lambda>s2.
            process_loans i E k (if delete_loan then set_loans k (fmdrop n (loans k s2)) s2 else s2))))"

definition process_order :: "env \<Rightarrow> name \<times> rex_order \<Rightarrow> chain \<Rightarrow> error + chain" where
  "process_order E ko s =
     (case ko of (owner, o') \<Rightarrow>
      case fmlookup (rexbalance s) owner of
        None \<Rightarrow> Inr s
      | Some rb \<Rightarrow>
          bindR (fill_rex_order E owner (rex_requested o') s) (\<lambda>(result, s1).
          if success result then
            let o'' = o'\<lparr>ro_proceeds := set_amount (amount (out_proceeds result)) (ro_proceeds o'),
                  stake_change := set_amount (amount (out_stake_change result)) (stake_change o'),
                  is_open := False\<rparr> in
            Inr (emit (Order_result owner (out_proceeds result))
              (s1\<lparr>rexorders := fmupd owner o'' (rexorders s1)\<rparr>))
          else Inr s1))"

definition channel_namebids :: "env \<Rightarrow> chain \<Rightarrow> error + chain" where
  "channel_namebids E s =
     fetch (rexpool s) No_row (\<lambda>p.
     if 0 < amount (namebid_proceeds p) then
       bindR (channel_to_rex E names_account (namebid_proceeds p) s) (\<lambda>s1.
       fetch (rexpool s1) No_row (\<lambda>p1.
       Inr (s1\<lparr>rexpool := Some (p1\<lparr>namebid_proceeds := set_amount 0 (namebid_proceeds p1)\<rparr>)\<rparr>)))
     else Inr s)"

definition runrex :: "env \<Rightarrow> nat \<Rightarrow> chain \<Rightarrow> error + chain" where
  "runrex E max_items s =
     check (rex_system_initialized s) (Rex Rex_not_initialized) (
     bindR (update_rex_pool E s) (\<lambda>s1.
     bindR (channel_namebids E s1) (\<lambda>s2.
     bindR (process_loans max_items E Cpu s2) (\<lambda>s3.
     bindR (process_loans max_items E Net s3) (\<lambda>s4.
     foldR (process_order E) (takeWhile (\<lambda>(k, o'). is_open o') (take max_items (orders_by_time s4))) s4)))))"

definition rent_rex ::
  "env \<Rightarrow> loan_kind \<Rightarrow> name \<Rightarrow> name \<Rightarrow> asset \<Rightarrow> asset \<Rightarrow> chain \<Rightarrow> error + (int \<times> chain)" where
  "rent_rex E k from receiver pay fund s =
     bindR (runrex E 2 s) (\<lambda>s1.
     check (rex_loans_available s1) (Rex Loans_not_available) (
     core_symbol s1 (\<lambda>core.
     check (asym pay = core \<and> asym fund = core) (Rex Must_be_core_token) (
     check (0 < amount pay \<and> 0 \<le> amount fund) (Rex Must_be_positive) (
     bindR (aa_plus (e_assets E) pay fund) (\<lambda>both.
     bindR (transfer_from_fund E from both s1) (\<lambda>s2.
     fetch (rexpool s2) No_row (\<lambda>p.
     bindR (get_bancor_output (amount (total_rent p)) (amount (total_unlent p)) (amount pay)) (\<lambda>rented_tokens.
     check (amount pay < rented_tokens) (Rex Loan_price_unfavorable) (
     bindR (add_loan_to_rex_pool E pay rented_tokens True s2) (\<lambda>s3.
     fetch (rexpool s3) No_row (\<lambda>p3.
     bindR (aa_make (e_assets E) rented_tokens core) (\<lambda>staked_asset.
     check (fmlookup (loans k s3) (loan_num p3) = None) Duplicate_row (
     let loan = \<lparr>ln_from = from, ln_receiver = receiver, payment = pay, ln_balance = fund,
           total_staked = staked_asset, ln_num = loan_num p3,
           expiration = i64 (e_now E + thirty_days)\<rparr>;
         s4 = set_loans k (fmupd (loan_num p3) loan (loans k s3)) s3 in
     Inr (rented_tokens, emit (Rent_result staked_asset) s4)))))))))))))))"

definition fund_rex_loan ::
  "env \<Rightarrow> loan_kind \<Rightarrow> name \<Rightarrow> int \<Rightarrow> asset \<Rightarrow> chain \<Rightarrow> error + chain" where
  "fund_rex_loan E k from n pay s =
     core_symbol s (\<lambda>core.
     check (asym pay = core) (Rex Must_be_core_token) (
     bindR (transfer_from_fund E from pay s) (\<lambda>s1.
     fetch (fmlookup (loans k s1) n) (Rex Loan_not_found) (\<lambda>l.
     check (ln_from l = from) (Rex Not_loan_creator) (
     check (e_now E < expiration l) (Rex Loan_expired) (
     Inr (set_loans k (fmupd n (l\<lparr>ln_balance :=
       set_amount (i64 (amount (ln_balance l) + amount pay)) (ln_balance l)\<rparr>) (loans k s1)) s1)))))))"

definition defund_rex_loan ::
  "env \<Rightarrow> loan_kind \<Rightarrow> name \<Rightarrow> int \<Rightarrow> asset \<Rightarrow> chain \<Rightarrow> error + chain" where
  "defund_rex_loan E k from n a s =
     core_symbol s (\<lambda>core.
     check (asym a = core) (Rex Must_be_core_token) (
     fetch (fmlookup (loans k s) n) (Rex Loan_not_found) (\<lambda>l.
     check (ln_from l = from) (Rex Not_loan_creator) (
     check (e_now E < expiration l) (Rex Loan_expired) (
     bindR (aa_leq (e_assets E) a (ln_balance l)) (\<lambda>le.
     check le (Rex Insufficient_loan_balance) (
     transfer_to_fund from a (set_loans k (fmupd n (l\<lparr>ln_balance :=
       set_amount (i64 (amount (ln_balance l) - amount a)) (ln_balance l)\<rparr>) (loans k s)) s))))))))"

section \<open>Actions\<close>

definition deposit :: "env \<Rightarrow> name \<Rightarrow> asset \<Rightarrow> chain \<Rightarrow> error + chain" where
  "deposit E owner a s =
     require_auth E owner (
     core_symbol s (\<lambda>core.
     check (asym a = core) (Rex Must_be_core_token) (
     check (0 < amount a) (Rex Must_be_positive) (
     transfer_to_fund owner a (emit (Transfer [owner] owner rex_account a) s)))))"

definition withdraw :: "env \<Rightarrow> name \<Rightarrow> asset \<Rightarrow> chain \<Rightarrow> error + chain" where
  "withdraw E owner a s =
     require_auth E owner (
     core_symbol s (\<lambda>core.
     check (asym a = core) (Rex Must_be_core_token) (
     check (0 < amount a) (Rex Must_be_positive) (
     bindR (update_rex_account E owner 0 0 False s) (\<lambda>(n, s1).
     bindR (transfer_from_fund E owner a s1) (\<lambda>s2.
     Inr (emit (Transfer [rex_account] rex_account owner a) s2)))))))"

definition buyrex :: "env \<Rightarrow> name \<Rightarrow> asset \<Rightarrow> chain \<Rightarrow> error + chain" where
  "buyrex E from a s =
     require_auth E from (
     core_symbol s (\<lambda>core.
     check (asym a = core) (Rex Must_be_core_token) (
     check (0 < amount a) (Rex Must_be_positive) (
     check_voting_requirement from (Vote Buy_rex_voting_requirement) s (
     bindR (transfer_from_fund E from a s) (\<lambda>s1.
     bindR (add_to_rex_pool E a s1) (\<lambda>(rex_received, s2).
     bindR (add_to_rex_balance E from a rex_received s2) (\<lambda>(delta_rex_stake, s3).
     bindR (runrex E 2 s3) (\<lambda>s4.
     bindR (update_rex_account E from 0 (amount delta_rex_stake) False s4) (\<lambda>(n, s5).
     Inr (emit (Buy_result rex_received) s5)))))))))))"

definition unstaketorex ::
  "env \<Rightarrow> name \<Rightarrow> name \<Rightarrow> asset \<Rightarrow> asset \<Rightarrow> chain \<Rightarrow> error + chain" where
  "unstaketorex E owner receiver from_net from_cpu s =
     require_auth E owner (
     core_symbol s (\<lambda>core.
     check (asym from_net = core \<and> asym from_cpu = core) (Rex Must_be_core_token) (
     check (0 \<le> amount from_net \<and> 0 \<le> amount from_cpu \<and> (0 < amount from_net \<or> 0 < amount from_cpu))
       (Rex Must_be_positive) (
     check_voting_requirement owner (Vote Buy_rex_voting_requirement) s (
     fetch (fmlookup (delband s) (owner, receiver)) (Rex No_delegated_record) (\<lambda>d.
     check (amount from_net \<le> amount (db_net_weight d)) (Rex Exceeds_staked_net) (
     check (amount from_cpu \<le> amount (db_cpu_weight d)) (Rex Exceeds_staked_cpu) (
     let d' = d\<lparr>
           db_net_weight := set_amount (i64 (amount (db_net_weight d) - amount from_net)) (db_net_weight d),
           db_cpu_weight := set_amount (i64 (amount (db_cpu_weight d) - amount from_cpu)) (db_cpu_weight d)\<rparr>;
         s1 = s\<lparr>delband := (if db_is_empty d' then fmdrop (owner, receiver) (delband s)
           else fmupd (owner, receiver) d' (delband s))\<rparr> in
     bindR (update_resource_limits E receiver (i64 (- amount from_net)) (i64 (- amount from_cpu)) s1) (\<lambda>s2.
     bindR (aa_plus (e_assets E) from_net from_cpu) (\<lambda>pay.
     bindR (add_to_rex_pool E pay (emit (Transfer [stake_account] stake_account rex_account pay) s2))
       (\<lambda>(rex_received, s3).
     bindR (add_to_rex_balance E owner pay rex_received s3) (\<lambda>(delta, s4).
     bindR (runrex E 2 s4) (\<lambda>s5.
     bindR (update_rex_account E owner 0 0 True s5) (\<lambda>(n, s6).
     Inr (emit (Buy_result rex_received) s6)))))))))))))))"

text \<open>A sale that the pool cannot serve now opens an order or adds to the open one.\<close>

definition queue_order :: "env \<Rightarrow> name \<Rightarrow> asset \<Rightarrow> symbol \<Rightarrow> chain \<Rightarrow> error + (int \<times> chain)" where
  "queue_order E from rex core s =
     check (from \<noteq> b1_account) (Rex B1_order_queued) (
     let o' = (case fmlookup (rexorders s) from of
           None \<Rightarrow> \<lparr>ro_owner = from, rex_requested = rex, ro_proceeds = asset0 core,
             stake_change = asset0 core, order_time = e_now E, is_open = True\<rparr>
         | Some o' \<Rightarrow> o'\<lparr>rex_requested :=
             set_amount (i64 (amount (rex_requested o') + amount rex)) (rex_requested o')\<rparr>) in
     Inr (amount (rex_requested o'), s\<lparr>rexorders := fmupd from o' (rexorders s)\<rparr>))"

definition sellrex :: "env \<Rightarrow> name \<Rightarrow> asset \<Rightarrow> chain \<Rightarrow> error + chain" where
  "sellrex E from rex s =
     require_auth E from (
     bindR (runrex E 2 s) (\<lambda>s1.
     fetch (fmlookup (rexbalance s1) from) (Rex Must_first_buyrex) (\<lambda>rb.
     check (0 < amount rex \<and> asym rex = asym (rex_amount rb)) (Rex Bad_rex_asset) (
     bindR (modify_rex from (process_rex_maturities E) s1) (\<lambda>s2.
     fetch (fmlookup (rexbalance s2) from) No_row (\<lambda>rb2.
     check (amount rex \<le> matured_rex rb2) (Rex Insufficient_available_rex) (
     bindR (fill_rex_order E from rex s2) (\<lambda>(current_order, s3).
     check (\<not> (success current_order \<and> amount (out_proceeds current_order) = 0))
       (Rex Negligible_proceeds) (
     bindR (update_rex_account E from (amount (out_proceeds current_order))
         (amount (out_stake_change current_order)) False s3) (\<lambda>(pending, s4).
     core_symbol s4 (\<lambda>core.
     bindR (if success current_order then Inr (pending, s4) else queue_order E from rex core s4)
       (\<lambda>(pending_sell_order, s5).
     fetch (fmlookup (rexbalance s5) from) No_row (\<lambda>rb5.
     check (pending_sell_order \<le> matured_rex rb5) (Rex Insufficient_for_orders) (
     Inr (if success current_order then emit (Sell_result (out_proceeds current_order)) s5 else s5)))))))))))))))"

definition cnclrexorder :: "env \<Rightarrow> name \<Rightarrow> chain \<Rightarrow> error + chain" where
  "cnclrexorder E owner s =
     require_auth E owner (
     fetch (fmlookup (rexorders s) owner) (Rex No_sell_order) (\<lambda>o'.
     check (is_open o') (Rex Order_already_filled) (
     Inr (s\<lparr>rexorders := fmdrop owner (rexorders s)\<rparr>))))"

definition rent :: "env \<Rightarrow> loan_kind \<Rightarrow> name \<Rightarrow> name \<Rightarrow> asset \<Rightarrow> asset \<Rightarrow> chain \<Rightarrow> error + chain" where
  "rent E k from receiver loan_payment loan_fund s =
     require_auth E from (
     bindR (rent_rex E k from receiver loan_payment loan_fund s) (\<lambda>(rented_tokens, s1).
     limits_delta E k receiver rented_tokens s1))"

definition rentcpu :: "env \<Rightarrow> name \<Rightarrow> name \<Rightarrow> asset \<Rightarrow> asset \<Rightarrow> chain \<Rightarrow> error + chain" where
  "rentcpu E = rent E Cpu"

definition rentnet :: "env \<Rightarrow> name \<Rightarrow> name \<Rightarrow> asset \<Rightarrow> asset \<Rightarrow> chain \<Rightarrow> error + chain" where
  "rentnet E = rent E Net"

definition fundcpuloan :: "env \<Rightarrow> name \<Rightarrow> int \<Rightarrow> asset \<Rightarrow> chain \<Rightarrow> error + chain" where
  "fundcpuloan E from n a s = require_auth E from (fund_rex_loan E Cpu from n a s)"

definition fundnetloan :: "env \<Rightarrow> name \<Rightarrow> int \<Rightarrow> asset \<Rightarrow> chain \<Rightarrow> error + chain" where
  "fundnetloan E from n a s = require_auth E from (fund_rex_loan E Net from n a s)"

definition defcpuloan :: "env \<Rightarrow> name \<Rightarrow> int \<Rightarrow> asset \<Rightarrow> chain \<Rightarrow> error + chain" where
  "defcpuloan E from n a s = require_auth E from (defund_rex_loan E Cpu from n a s)"

definition defnetloan :: "env \<Rightarrow> name \<Rightarrow> int \<Rightarrow> asset \<Rightarrow> chain \<Rightarrow> error + chain" where
  "defnetloan E from n a s = require_auth E from (defund_rex_loan E Net from n a s)"

definition updaterex :: "env \<Rightarrow> name \<Rightarrow> chain \<Rightarrow> error + chain" where
  "updaterex E owner s =
     require_auth E owner (
     bindR (runrex E 2 s) (\<lambda>s1.
     fetch (fmlookup (rexbalance s1) owner) (Rex No_rex_balance) (\<lambda>rb.
     fetch (rexpool s1) No_row (\<lambda>p.
     core_symbol s1 (\<lambda>core.
     let current_stake = \<lparr>amount = (if 0 < amount (total_rex p)
           then muldiv (amount (rex_amount rb)) (amount (total_lendable p)) (amount (total_rex p))
           else 0), asym = core\<rparr>;
         s2 = s1\<lparr>rexbalance := fmupd owner (rb\<lparr>vote_stake := current_stake\<rparr>) (rexbalance s1)\<rparr> in
     bindR (aa_minus (e_assets E) current_stake (vote_stake rb)) (\<lambda>delta.
     bindR (update_rex_account E owner 0 (amount delta) True s2) (\<lambda>(n, s3).
     modify_rex owner (process_rex_maturities E) s3)))))))"

definition setrex :: "env \<Rightarrow> asset \<Rightarrow> chain \<Rightarrow> error + chain" where
  "setrex E bal s =
     require_auth E eosio_account (
     check (0 < amount bal) (Rex Must_be_positive) (
     core_symbol s (\<lambda>core.
     check (asym bal = core) (Rex Must_be_core_token) (
     fetch (rexpool s) (Rex Rex_not_initialized) (\<lambda>p.
     Inr (s\<lparr>rexpool := Some (p\<lparr>total_rent := bal\<rparr>)\<rparr>))))))"

definition rexexec :: "env \<Rightarrow> name \<Rightarrow> nat \<Rightarrow> chain \<Rightarrow> error + chain" where
  "rexexec E user max_items s = require_auth E user (runrex E max_items s)"

definition consolidate :: "env \<Rightarrow> name \<Rightarrow> chain \<Rightarrow> error + chain" where
  "consolidate E owner s =
     require_auth E owner (
     bindR (runrex E 2 s) (\<lambda>s1.
     fetch (fmlookup (rexbalance s1) owner) (Rex No_rex_balance) (\<lambda>rb.
     bindR (update_rex_account E owner 0 0 False s1) (\<lambda>(rex_in_sell_order, s2).
     modify_rex owner (consolidate_rex_balance E rex_in_sell_order) s2))))"

definition mvtosavings :: "env \<Rightarrow> name \<Rightarrow> asset \<Rightarrow> chain \<Rightarrow> error + chain" where
  "mvtosavings E owner rex s =
     require_auth E owner (
     bindR (runrex E 2 s) (\<lambda>s1.
     fetch (fmlookup (rexbalance s1) owner) (Rex No_rex_balance) (\<lambda>rb.
     check (0 < amount rex \<and> asym rex = asym (rex_amount rb)) (Rex Bad_rex_asset) (
     bindR (update_rex_account E owner 0 0 False s1) (\<lambda>(rex_in_sell_order, s2).
     fetch (fmlookup (rexbalance s2) owner) No_row (\<lambda>rb2.
     let (rex_in_savings, rb3) = read_rex_savings rb2 in
     check (i64 (i64 (amount rex + rex_in_sell_order) + rex_in_savings) \<le> amount (rex_amount rb3))
       (Rex Insufficient_rex_balance) (
     bindR (move_to_savings (amount rex) rex_in_sell_order (process_rex_maturities E rb3)) (\<lambda>rb4.
     Inr (s2\<lparr>rexbalance := fmupd owner
       (put_rex_savings (i64 (rex_in_savings + amount rex)) rb4) (rexbalance s2)\<rparr>)))))))))"

definition mvfrsavings :: "env \<Rightarrow> name \<Rightarrow> asset \<Rightarrow> chain \<Rightarrow> error + chain" where
  "mvfrsavings E owner rex s =
     require_auth E owner (
     bindR (runrex E 2 s) (\<lambda>s1.
     fetch (fmlookup (rexbalance s1) owner) (Rex No_rex_balance) (\<lambda>rb.
     check (0 < amount rex \<and> asym rex = asym (rex_amount rb)) (Rex Bad_rex_asset) (
     let (rex_in_savings, rb1) = read_rex_savings rb in
     check (amount rex \<le> rex_in_savings) (Rex Insufficient_savings) (
     let rb2 = put_rex_savings (i64 (rex_in_savings - amount rex))
           (add_rex_maturity E (amount rex) (process_rex_maturities E rb1)) in
     bindR (update_rex_account E owner 0 0 False (s1\<lparr>rexbalance := fmupd owner rb2 (rexbalance s1)\<rparr>))
       (\<lambda>(n, s2). Inr s2))))))"

definition closerex :: "env \<Rightarrow> name \<Rightarrow> chain \<Rightarrow> error + chain" where
  "closerex E owner s =
     require_auth E owner (
     bindR (if rex_system_initialized s then runrex E 2 s else Inr s) (\<lambda>s1.
     bindR (update_rex_account E owner 0 0 False s1) (\<lambda>(n, s2).
     let no_loans = (\<forall>k \<in> {Cpu, Net}. \<forall>(n, l) \<in> set (rows (loans k s2)). ln_from l \<noteq> owner);
         no_fund = (case fmlookup (rexfunds s2) owner of
           None \<Rightarrow> False | Some f \<Rightarrow> amount (rf_balance f) = 0);
         s3 = (if no_loans \<and> no_fund then s2\<lparr>rexfunds := fmdrop owner (rexfunds s2)\<rparr> else s2) in
     case fmlookup (rexbalance s3) owner of
       None \<Rightarrow> Inr s3
     | Some rb \<Rightarrow> check (amount (rex_amount rb) = 0) (Rex Remaining_rex_balance) (
         Inr (s3\<lparr>rexbalance := fmdrop owner (rexbalance s3)\<rparr>)))))"

text \<open>\<open>voteproducer\<close>: an owner of REX has to keep voting for a proxy or 21 producers.\<close>

definition voteproducer :: "env \<Rightarrow> name \<Rightarrow> name \<Rightarrow> name list \<Rightarrow> chain \<Rightarrow> error + chain" where
  "voteproducer E voter_name proxy prods s =
     require_auth E voter_name (
     bindR (update_rex_stake voter_name s) (\<lambda>s1.
     bindR (update_votes E voter_name proxy prods True s1) (\<lambda>s2.
     case fmlookup (rexbalance s2) voter_name of
       None \<Rightarrow> Inr s2
     | Some rb \<Rightarrow>
         if 0 < amount (rex_amount rb)
         then check_voting_requirement voter_name (Vote Rex_voting_requirement) s2 (Inr s2)
         else Inr s2)))"

section \<open>The books of the exchange\<close>

text \<open>
  What the exchange owes: the funds, the balances of loans, the lendable pool, the returns not yet
  released, and the proceeds of filled orders not yet collected; less what was transferred to
  \<open>eosio.rex\<close>.
\<close>

definition collectable :: "rex_order \<Rightarrow> int" where
  "collectable o' = (if is_open o' then 0 else amount (ro_proceeds o'))"

definition rex_net :: "chain \<Rightarrow> int" where
  "rex_net s = rex_assets s + table_sum (\<lambda>f. amount (rf_balance f)) (rexfunds s) +
     table_sum (\<lambda>l. amount (ln_balance l)) (cpu_loans s) +
     table_sum (\<lambda>l. amount (ln_balance l)) (net_loans s) +
     table_sum collectable (rexorders s) - net_in rex_account (outbox s)"

interpretation rexl: ledger rex_net
proof
  fix t s assume "without_votes t = without_votes s"
  note f = without_votes_fields [OF this]
  show "rex_net t = rex_net s" by (simp add: rex_net_def rex_assets_def f)
qed

lemma transfer_to_fund_moves:
  assumes "transfer_to_fund owner a s = Inr t"
  shows "rexl.moves (amount a) s t"
proof -
  obtain f where t: "t = s\<lparr>rexfunds := fmupd owner f (rexfunds s)\<rparr>"
    and f: "i64 (amount (rf_balance f)) = i64 (row_val (\<lambda>f. amount (rf_balance f)) (rexfunds s) owner + amount a)"
    using assms by (auto simp: transfer_to_fund_def res_simps Let_def row_val_def split: option.splits)
  let ?X = "rex_net s - row_val (\<lambda>f. amount (rf_balance f)) (rexfunds s) owner"
  have "rex_net t = ?X + amount (rf_balance f)"
    by (simp add: t rex_net_def rex_assets_def table_sum_upd)
  then show ?thesis
    using i64_addL_cong [OF f, of ?X] by (simp add: rexl.moves_def)
qed

lemma transfer_from_fund_moves:
  assumes "transfer_from_fund E owner a s = Inr t"
  shows "rexl.moves (- amount a) s t"
proof -
  obtain f where f: "fmlookup (rexfunds s) owner = Some f"
    and t: "t = s\<lparr>rexfunds := fmupd owner (f\<lparr>rf_balance :=
      set_amount (i64 (amount (rf_balance f) - amount a)) (rf_balance f)\<rparr>) (rexfunds s)\<rparr>"
    using assms by (auto simp: transfer_from_fund_def res_simps)
  have "rex_net t = (rex_net s - amount (rf_balance f)) + i64 (amount (rf_balance f) - amount a)"
    by (simp add: t f rex_net_def rex_assets_def table_sum_upd)
  then show ?thesis by (simp add: rexl.moves_def)
qed

lemma limits_delta_same: "limits_delta E k r n s = Inr t \<Longrightarrow> same_but_quotas s t"
  by (cases k) (auto simp: limits_delta_def dest: update_resource_limits_same)

lemma same_but_quotas_moves: "same_but_quotas s t \<Longrightarrow> rexl.moves 0 s t"
  using same_but_quotas_fields [of s t] by (intro rexl.moves_eq) (simp add: rex_net_def rex_assets_def)

text \<open>Within an action the pool is up to date after the first update, and then stays so.\<close>

definition updated :: "env \<Rightarrow> chain \<Rightarrow> bool" where
  "updated E s \<longleftrightarrow> (case rexretpool s of None \<Rightarrow> True | Some rp \<Rightarrow> effective_time E \<le> last_dist_time rp)"

definition clock_ok :: "env \<Rightarrow> bool" where
  "clock_ok E \<longleftrightarrow> 0 \<le> e_sec E \<and> e_sec E < 4294900000"

lemma update_rex_pool_idle: "updated E s \<Longrightarrow> update_rex_pool E s = Inr s"
  by (auto simp: update_rex_pool_def updated_def effective_time_def Let_def split: option.splits)

lemma distribute_last: "distribute_returns eff rp bs = (rp', bs', n) \<Longrightarrow> last_dist_time rp' = eff"
  by (auto simp: distribute_returns_def close_pending_bucket_def expire_buckets_def Let_def
      split: if_splits prod.splits option.splits)

lemma release_to_pool_ret: "release_to_pool E n s = Inr t \<Longrightarrow> rexretpool t = rexretpool s"
  by (auto simp: release_to_pool_def Let_def res_simps split: if_splits)

lemma update_rex_pool_updated:
  assumes ok: "update_rex_pool E s = Inr t"
  shows "updated E t"
proof (cases "updated E s")
  case True
  then show ?thesis using ok by (simp add: update_rex_pool_idle)
next
  case False
  then obtain rp where rp: "rexretpool s = Some rp" "\<not> effective_time E \<le> last_dist_time rp"
    by (auto simp: updated_def split: option.splits)
  then obtain bs where "rexretbuckets s = Some bs"
    using ok by (auto simp: update_rex_pool_def effective_time_def Let_def res_simps)
  obtain rp' bs' n where d: "distribute_returns (effective_time E) rp bs = (rp', bs', n)"
    by (rule prod_cases3)
  have "release_to_pool E n (s\<lparr>rexretpool := Some rp', rexretbuckets := Some bs'\<rparr>) = Inr t"
    using ok rp \<open>rexretbuckets s = Some bs\<close> d by (simp add: update_rex_pool_def effective_time_def Let_def)
  then show ?thesis using distribute_last [OF d] release_to_pool_ret by (fastforce simp: updated_def)
qed

definition same_but_pool :: "chain \<Rightarrow> chain \<Rightarrow> bool" where
  "same_but_pool s t \<longleftrightarrow>
     t = s\<lparr>rexpool := rexpool t, rexretpool := rexretpool t, rexretbuckets := rexretbuckets t\<rparr>"

lemma same_but_pool_refl [simp]: "same_but_pool s s"
  by (simp add: same_but_pool_def)

lemma same_but_pool_trans: "same_but_pool s t \<Longrightarrow> same_but_pool t u \<Longrightarrow> same_but_pool s u"
  unfolding same_but_pool_def by (cases s, cases t, cases u) simp

lemma same_but_pool_fields:
  assumes "same_but_pool s t"
  shows "rexfunds t = rexfunds s" "cpu_loans t = cpu_loans s" "net_loans t = net_loans s"
    "rexorders t = rexorders s" "rexbalance t = rexbalance s" "outbox t = outbox s"
    "rammarket t = rammarket s" "voters t = voters s" "loans k t = loans k s"
  using assms unfolding same_but_pool_def loans_def by (cases s, cases t, cases k, simp+)+

lemma release_to_pool_same: "release_to_pool E n s = Inr t \<Longrightarrow> same_but_pool s t"
  by (auto simp: release_to_pool_def Let_def res_simps same_but_pool_def split: if_splits)

lemma same_but_pool_upd: "same_but_pool s (s\<lparr>rexretpool := a, rexretbuckets := b\<rparr>)"
  "same_but_pool s (s\<lparr>rexretpool := a\<rparr>)" "same_but_pool s (s\<lparr>rexpool := p\<rparr>)"
  by (simp_all add: same_but_pool_def)

lemma update_rex_pool_same: "update_rex_pool E s = Inr t \<Longrightarrow> same_but_pool s t"
  by (erule update_rex_pool_Inr)
    (auto dest!: release_to_pool_same intro: same_but_pool_trans [OF same_but_pool_upd(1)])

lemma same_but_pool_moves:
  assumes "same_but_pool s t" "i64 (rex_assets t) = i64 (rex_assets s + d)"
  shows "rexl.moves d s t"
proof -
  define X where "X = rex_net s - rex_assets s"
  have "rex_net t = rex_assets t + X" "rex_net s = rex_assets s + X"
    using same_but_pool_fields [OF assms(1)] by (simp_all add: X_def rex_net_def)
  then show ?thesis using i64_add_cong [OF assms(2), of X] by (simp add: rexl.moves_def ac_simps)
qed

lemma update_rex_pool_moves:
  assumes "asset_laws (e_assets E)" "pool_ok s" "returns_ok s" "returns_bounded E s"
    and ok: "update_rex_pool E s = Inr t"
  shows "rexl.moves 0 s t"
  using update_rex_pool_spec [OF assms] update_rex_pool_same [OF ok] same_but_pool_moves by simp

lemma add_to_rex_return_pool_updated:
  assumes up: "updated E s" and clk: "clock_ok E" and ok: "add_to_rex_return_pool E fee s = Inr t"
    and fee: "0 < amount fee"
  shows "rexl.moves (amount fee) s t" "updated E t" "same_but_pool s t" "rexpool t = rexpool s"
proof -
  have "update_rex_pool E s = Inr s" using up by (rule update_rex_pool_idle)
  note eq = ok [unfolded add_to_rex_return_pool_def this bindR_Inr Let_def]
  have R: "same_but_pool s t \<and> rexpool t = rexpool s \<and> updated E t \<and>
      i64 (rex_assets t) = i64 (rex_assets s + amount fee)"
  proof (cases "rexretpool s")
    case None
    then obtain rp where t: "t = s\<lparr>rexretpool := Some rp, rexretbuckets := Some []\<rparr>"
      and rp: "proceeds rp = amount fee"
        "last_dist_time rp = u32 (e_sec E - e_sec E mod (hours_per_bucket * seconds_per_hour) +
          hours_per_bucket * seconds_per_hour)"
      using eq fee by (auto simp: check_eq_Inr)
    have "e_sec E \<le> last_dist_time rp"
    proof -
      define m where "m = e_sec E mod 43200"
      have m: "0 \<le> m" "m < 43200" "m \<le> e_sec E" and e: "e_sec E < 4294900000"
        using clk by (simp_all add: m_def clock_ok_def zmod_le_nonneg_dividend)
      have "u32 (e_sec E - m + 43200) = e_sec E - m + 43200"
        by (rule u32_id) (use m e in linarith)+
      then show ?thesis using rp(2) m by (simp add: hours_per_bucket_def seconds_per_hour_def m_def)
    qed
    moreover have "effective_time E \<le> e_sec E"
      using clk by (simp add: effective_time_def dist_interval_def)
    ultimately show ?thesis using None rp by (simp add: t updated_def rex_assets_def same_but_pool_upd)
  next
    case (Some rp)
    then obtain rp' where t: "t = s\<lparr>rexretpool := Some rp'\<rparr>" and "last_dist_time rp' = last_dist_time rp"
      "proceeds rp' = i64 (proceeds rp + amount fee)"
      using eq fee by auto
    then show ?thesis using Some up by (simp add: updated_def rex_assets_def same_but_pool_upd add.assoc)
  qed
  then show "updated E t" "same_but_pool s t" "rexpool t = rexpool s" by simp_all
  from R show "rexl.moves (amount fee) s t" by (simp add: same_but_pool_moves)
qed

text \<open>The rows a loan or an order can have.\<close>

definition loans_ok :: "chain \<Rightarrow> bool" where
  "loans_ok s \<longleftrightarrow> (\<forall>k n l. fmlookup (loans k s) n = Some l \<longrightarrow>
     0 < amount (payment l) \<and> 0 \<le> amount (ln_balance l) \<and> amount (ln_balance l) \<le> i64_max)"

lemma loans_ok_same: "loans_ok s \<Longrightarrow> (\<And>k. loans k t = loans k s) \<Longrightarrow> loans_ok t"
  by (simp add: loans_ok_def)

text \<open>The state of the exchange inside \<open>runrex\<close>, once the pool is up to date.\<close>

definition running :: "env \<Rightarrow> chain \<Rightarrow> bool" where
  "running E s \<longleftrightarrow> updated E s \<and> pool_ok s \<and> loans_ok s"

lemma pool_ok_i64:
  "pool_ok s \<Longrightarrow> rexpool s = Some p \<Longrightarrow>
     i64 (amount (total_unlent p) + amount (total_lent p)) = amount (total_lendable p)"
  by (simp add: pool_ok_def pool_balanced_def)

lemma remove_loan_moves:
  assumes "remove_loan_from_rex_pool loan s = Inr t" "running E s"
  shows "rexl.moves 0 s t \<and> running E t \<and> same_but_pool s t"
proof -
  obtain p q where p: "rexpool s = Some p" and t: "t = s\<lparr>rexpool := Some q\<rparr>"
    and q: "amount (total_lendable q) = i64 (amount (total_unlent p) + amount (total_lent p))"
    using assms(1) by (auto simp: remove_loan_from_rex_pool_def res_simps Let_def)
  have "amount (total_lendable q) = amount (total_lendable p)"
    using q pool_ok_i64 [OF _ p] assms(2) by (simp add: running_def)
  then have "rex_assets t = rex_assets s" by (simp add: t p rex_assets_def)
  moreover have same: "same_but_pool s t" unfolding t by (rule same_but_pool_upd)
  ultimately have "rexl.moves 0 s t" by (simp add: same_but_pool_moves)
  moreover have "pool_ok t" using assms(1) by (rule remove_loan_from_rex_pool_ok)
  moreover have "loans_ok t"
    using assms(2) same_but_pool_fields(9) [OF same] by (auto simp: running_def intro: loans_ok_same)
  moreover have "updated E t" using assms(2) by (simp add: t running_def updated_def)
  ultimately show ?thesis using same by (simp add: running_def)
qed

lemma add_loan_moves:
  assumes A: "asset_laws (e_assets E)" and clk: "clock_ok E"
    and ok: "add_loan_to_rex_pool E pay n b s = Inr t" and pay: "0 < amount pay" and run: "running E s"
  shows "rexl.moves (amount pay) s t \<and> running E t \<and> same_but_pool s t"
proof -
  obtain u p where u: "add_to_rex_return_pool E pay s = Inr u" and p: "rexpool u = Some p"
    and t: "t = u\<lparr>rexpool := Some (lend_from_pool pay n b p)\<rparr>"
    using ok by (auto simp: add_loan_to_rex_pool_def res_simps)
  have "updated E s" using run by (simp add: running_def)
  note r = add_to_rex_return_pool_updated [OF this clk u pay]
  have "rexl.moves 0 u t" unfolding t
    by (rule same_but_pool_moves [OF same_but_pool_upd(3)]) (simp add: rex_assets_def p lend_from_pool_def)
  with r(1) have "rexl.moves (amount pay) s t" by (rule rexl.moves_trans_0)
  moreover have same: "same_but_pool s t"
    unfolding t using r(3) same_but_pool_upd(3) by (rule same_but_pool_trans)
  moreover have "pool_ok t" using add_loan_to_rex_pool_ok [OF A ok] run by (simp add: running_def)
  moreover have "updated E t" using r(2) by (simp add: t updated_def)
  moreover have "loans_ok t"
    using run same_but_pool_fields(9) [OF same] by (auto simp: running_def intro: loans_ok_same)
  ultimately show ?thesis by (simp add: running_def)
qed

lemma set_loans_lookup: "loans j (set_loans k t s) = (if j = k then t else loans j s)"
  by (cases j; cases k) (simp_all add: loans_def set_loans_def)

lemma loans_moves:
  "rex_net (set_loans k t s) = rex_net s + table_sum (\<lambda>l. amount (ln_balance l)) t -
     table_sum (\<lambda>l. amount (ln_balance l)) (loans k s)"
  by (cases k) (simp_all add: rex_net_def rex_assets_def set_loans_def loans_def)

lemma set_loans_pool [simp]:
  "rexpool (set_loans k t s) = rexpool s" "rexretpool (set_loans k t s) = rexretpool s"
  "rexorders (set_loans k t s) = rexorders s" "rammarket (set_loans k t s) = rammarket s"
  by (cases k; simp add: set_loans_def)+

lemma running_set_loans:
  "running E s \<Longrightarrow> (\<And>n l. fmlookup t n = Some l \<Longrightarrow> 0 < amount (payment l) \<and>
     0 \<le> amount (ln_balance l) \<and> amount (ln_balance l) \<le> i64_max) \<Longrightarrow> running E (set_loans k t s)"
  by (auto simp: running_def updated_def pool_ok_def loans_ok_def set_loans_lookup)

lemma transfer_to_fund_same: "transfer_to_fund o' a s = Inr t \<Longrightarrow> t = s\<lparr>rexfunds := rexfunds t\<rparr>"
  by (auto simp: transfer_to_fund_def res_simps Let_def)

lemma transfer_from_fund_same: "transfer_from_fund E o' a s = Inr t \<Longrightarrow> t = s\<lparr>rexfunds := rexfunds t\<rparr>"
  by (auto simp: transfer_from_fund_def res_simps)

lemma loans_upd [simp]:
  "loans k (s\<lparr>rexfunds := f\<rparr>) = loans k s" "loans k (s\<lparr>rexorders := os\<rparr>) = loans k s"
  "loans k (s\<lparr>rexpool := p\<rparr>) = loans k s" "loans k (s\<lparr>rexbalance := b\<rparr>) = loans k s"
  "loans k (emit m s) = loans k s"
  by (cases k; simp add: loans_def emit_def)+

lemma running_funds:
  assumes "t = s\<lparr>rexfunds := rexfunds t\<rparr>"
  shows "running E t = running E s \<and> loans k t = loans k s"
proof -
  obtain f where "t = s\<lparr>rexfunds := f\<rparr>" using assms by blast
  then show ?thesis by (simp add: running_def updated_def pool_ok_def loans_ok_def)
qed

text \<open>An expired loan is renewed or closed; in the second case its row is still to be deleted.\<close>

lemma process_expired_loan_moves:
  assumes A: "asset_laws (e_assets E)" and clk: "clock_ok E"
    and ok: "process_expired_loan E k n loan s = Inr (del, d, t)"
    and run: "running E s" and row: "fmlookup (loans k s) n = Some loan"
  shows "running E t \<and> (if del then rexl.moves (amount (ln_balance loan)) s t \<and>
    fmlookup (loans k t) n = Some loan else rexl.moves 0 s t)"
proof -
  have pos: "0 < amount (payment loan)" "0 \<le> amount (ln_balance loan)" "amount (ln_balance loan) \<le> i64_max"
    using run row by (auto simp: running_def loans_ok_def)
  obtain s1 p n' funded where s1: "remove_loan_from_rex_pool loan s = Inr s1"
    and le: "aa_leq (e_assets E) (payment loan) (ln_balance loan) = Inr funded"
    and rest: "(if funded \<and> amount (payment loan) < n' \<and> rex_loans_available s1 then
       bindR (add_loan_to_rex_pool E (payment loan) n' False s1) (\<lambda>s2.
       let (delta_stake, loan') = update_renewed_loan n' loan in
       Inr (False, delta_stake, set_loans k (fmupd n loan' (loans k s2)) s2))
     else
       bindR (if 0 < amount (ln_balance loan) then transfer_to_fund (ln_from loan) (ln_balance loan) s1
         else Inr s1) (\<lambda>s2.
       Inr (True, i64 (- amount (total_staked loan)), s2))) = Inr (del, d, t)"
    using ok by (auto simp: process_expired_loan_def res_simps)
  note r1 = remove_loan_moves [OF s1 run]
  have row1: "loans k s1 = loans k s" using r1 same_but_pool_fields(9) by blast
  show ?thesis
  proof (cases "funded \<and> amount (payment loan) < n' \<and> rex_loans_available s1")
    case True
    then have le: "amount (payment loan) \<le> amount (ln_balance loan)"
      using asset_laws.leq_ok [OF A le] by simp
    obtain s2 where s2: "add_loan_to_rex_pool E (payment loan) n' False s1 = Inr s2" and del: "\<not> del"
      and t: "t = set_loans k (fmupd n (snd (update_renewed_loan n' loan)) (loans k s2)) s2"
      using rest True by (auto simp: res_simps update_renewed_loan_def)
    have r2: "rexl.moves (amount (payment loan)) s1 s2" "running E s2" "loans k s2 = loans k s"
      using add_loan_moves [OF A clk s2 pos(1)] r1 row1 same_but_pool_fields(9) by auto
    define loan' where "loan' = snd (update_renewed_loan n' loan)"
    have bal: "amount (ln_balance loan') = amount (ln_balance loan) - amount (payment loan)"
      "payment loan' = payment loan"
      using pos le by (simp_all add: loan'_def update_renewed_loan_def i64_id i64_max_def)
    have "rexl.moves (- amount (payment loan)) s2 t"
      unfolding t loan'_def [symmetric] using row r2(3)
      by (intro rexl.moves_eq) (simp add: loans_moves table_sum_upd bal)
    then have "rexl.moves 0 s t"
      using rexl.moves_trans [OF rexl.moves_0_trans [OF conjunct1 [OF r1] r2(1)]] by fastforce
    moreover have "running E t"
      unfolding t loan'_def [symmetric] using r2(2) pos le
      by (intro running_set_loans) (auto simp: bal running_def loans_ok_def split: if_splits)
    ultimately show ?thesis using del by simp
  next
    case False
    then obtain del: del and s2: "(if 0 < amount (ln_balance loan)
        then transfer_to_fund (ln_from loan) (ln_balance loan) s1 else Inr s1) = Inr t"
      using rest by (auto simp: res_simps split: if_splits)
    show ?thesis
    proof (cases "0 < amount (ln_balance loan)")
      case True
      then have f: "transfer_to_fund (ln_from loan) (ln_balance loan) s1 = Inr t" using s2 by simp
      then show ?thesis
        using del row row1 r1 running_funds [OF transfer_to_fund_same [OF f]]
          rexl.moves_0_trans [OF _ transfer_to_fund_moves [OF f]] by simp
    next
      case False
      then have "t = s1" "amount (ln_balance loan) = 0" using s2 pos by simp_all
      then show ?thesis using del row row1 r1 by simp
    qed
  qed
qed

lemma running_quotas: "same_but_quotas s t \<Longrightarrow> running E t = running E s \<and> loans k t = loans k s"
proof -
  assume "same_but_quotas s t"
  note f = same_but_quotas_fields [OF this]
  then have "loans j t = loans j s" for j by (cases j) (simp_all add: loans_def)
  then show ?thesis by (simp add: running_def updated_def pool_ok_def loans_ok_def f)
qed

lemma sorted_list_mem: "sort_key f (rows t) = (n, l) # r \<Longrightarrow> fmlookup t n = Some l"
  by (metis list.set_intros(1) rows_upd_lookup set_sort)

lemma process_loans_moves:
  assumes A: "asset_laws (e_assets E)" and clk: "clock_ok E"
  shows "process_loans i E k s = Inr t \<Longrightarrow> running E s \<Longrightarrow> rexl.moves 0 s t \<and> running E t"
proof (induction i arbitrary: s)
  case (Suc i)
  show ?case
  proof (cases "loans_by_expiration k s")
    case Nil
    then show ?thesis using Suc.prems by simp
  next
    case (Cons nl rest)
    obtain n loan where nl: "nl = (n, loan)" by (cases nl)
    have row: "fmlookup (loans k s) n = Some loan"
      using Cons nl sorted_list_mem by (metis loans_by_expiration_def)
    show ?thesis
    proof (cases "e_now E < expiration loan")
      case True
      then show ?thesis using Suc.prems Cons nl by simp
    next
      case False
      then obtain del d s1 s2 where 1: "process_expired_loan E k n loan s = Inr (del, d, s1)"
        and 2: "(if d \<noteq> 0 then limits_delta E k (ln_receiver loan) d s1 else Inr s1) = Inr s2"
        and 3: "process_loans i E k (if del then set_loans k (fmdrop n (loans k s2)) s2 else s2) = Inr t"
        using Suc.prems Cons nl by (auto simp: res_simps simp del: process_loans.simps(1))
      note r1 = process_expired_loan_moves [OF A clk 1 Suc.prems(2) row]
      have q: "same_but_quotas s1 s2" using 2 limits_delta_same by (auto split: if_splits)
      then have m2: "rexl.moves 0 s1 s2" by (rule same_but_quotas_moves)
      note rq = running_quotas [OF q]
      show ?thesis
      proof (cases del)
        case True
        let ?u = "set_loans k (fmdrop n (loans k s2)) s2"
        have "rexl.moves (- amount (ln_balance loan)) s2 ?u"
          using True r1 rq by (intro rexl.moves_eq) (simp add: loans_moves table_sum_drop)
        moreover have "rexl.moves (amount (ln_balance loan)) s s2"
          using True r1 m2 by (auto intro: rexl.moves_trans_0)
        ultimately have "rexl.moves 0 s ?u" using rexl.moves_trans by fastforce
        moreover have "running E ?u"
          using r1 rq by (intro running_set_loans) (auto simp: running_def loans_ok_def split: if_splits)
        ultimately show ?thesis using Suc.IH [of ?u] 3 True by (auto intro: rexl.moves_0_trans)
      next
        case False
        then have "rexl.moves 0 s s2" "running E s2" using r1 m2 rq by (auto intro: rexl.moves_0_trans)
        then show ?thesis using Suc.IH [of s2] 3 False by (auto intro: rexl.moves_0_trans)
      qed
    qed
  qed
qed simp

end
