(* ===== verification/RexBooks.thy ===== *)
theory RexBooks
  imports Rex
begin

text \<open>
  The books of the exchange, continued: sales of REX, sell orders, the maintenance loop
  \<open>runrex\<close>, and every action of the exchange. What the exchange owes changes by exactly what is
  transferred to and from \<open>eosio.rex\<close>.
\<close>

section \<open>Channelling\<close>

lemma emit_moves: "rexl.moves (- msg_in rex_account m) s (emit m s)"
  by (rule rexl.moves_eq) (simp add: rex_net_def rex_assets_def emit_def)

lemma emit_moves_0: "msg_in rex_account m = 0 \<Longrightarrow> rexl.moves 0 s (emit m s)"
  using emit_moves [of m s] by simp

lemma running_fields:
  assumes "rexretpool t = rexretpool s" "rexpool t = rexpool s" "\<And>k. loans k t = loans k s"
  shows "running E t = running E s"
  using assms by (simp add: running_def updated_def pool_ok_def loans_ok_def)

lemma running_emit [simp]: "running E (emit m s) = running E s"
  by (rule running_fields) simp_all

lemma channel_to_rex_moves:
  assumes up: "updated E s" and clk: "clock_ok E" and ok: "channel_to_rex E from fee s = Inr t"
    and fee: "0 < amount fee" and frm: "from \<noteq> rex_account"
  shows "rexl.moves 0 s t \<and> updated E t \<and> rexpool t = rexpool s \<and> loans k t = loans k s"
proof (cases "rex_available s")
  case True
  then obtain u where u: "add_to_rex_return_pool E fee s = Inr u"
    and t: "t = emit (Transfer [from] from rex_account fee) u"
    using ok by (auto simp: channel_to_rex_def res_simps)
  note r = add_to_rex_return_pool_updated [OF up clk u fee]
  have "rexl.moves (- amount fee) u t" using emit_moves [of "Transfer [from] from rex_account fee" u] frm
    by (simp add: t)
  with r(1) have "rexl.moves 0 s t" using rexl.moves_trans by fastforce
  then show ?thesis using r same_but_pool_fields(9) [OF r(3)] by (simp add: t updated_def)
next
  case False
  then show ?thesis using ok up by (simp add: channel_to_rex_def)
qed

lemma channel_namebids_moves:
  assumes clk: "clock_ok E" and ok: "channel_namebids E s = Inr t" and run: "running E s"
  shows "rexl.moves 0 s t \<and> running E t"
proof -
  obtain p where p: "rexpool s = Some p" using ok by (auto simp: channel_namebids_def res_simps)
  show ?thesis
  proof (cases "0 < amount (namebid_proceeds p)")
    case True
    then obtain s1 p1 where 1: "channel_to_rex E names_account (namebid_proceeds p) s = Inr s1"
      and p1: "rexpool s1 = Some p1"
      and t: "t = s1\<lparr>rexpool := Some (p1\<lparr>namebid_proceeds := set_amount 0 (namebid_proceeds p1)\<rparr>)\<rparr>"
      using ok p by (auto simp: channel_namebids_def res_simps)
    have "updated E s" using run by (simp add: running_def)
    note r = channel_to_rex_moves [OF this clk 1 True]
    have n: "names_account \<noteq> rex_account" by (simp add: names_account_def rex_account_def)
    have "rexl.moves 0 s1 t" by (rule rexl.moves_eq) (simp add: t p1 rex_net_def rex_assets_def)
    moreover have "running E t" using r [OF n] run p1 p
      by (auto simp: t running_def updated_def pool_ok_def pool_balanced_def loans_ok_def)
    ultimately show ?thesis using r [OF n] by (auto intro: rexl.moves_0_trans)
  next
    case False
    then show ?thesis using ok p run by (auto simp: channel_namebids_def res_simps)
  qed
qed

section \<open>Sales\<close>

lemma sell_from_pool_Some:
  assumes "sell_from_pool rex pr p = Some q"
  shows "amount (total_lendable q) = i64 (amount (total_lendable p) - pr)" "pool_balanced q"
    "amount (total_rex q) = i64 (amount (total_rex p) - rex)"
    "asym (total_rex q) = asym (total_rex p)"
  using assms by (auto simp: sell_from_pool_def Let_def pool_balanced_def split: if_splits)

lemma fill_rex_order_cases:
  assumes A: "asset_laws (e_assets E)" and ok: "fill_rex_order E owner rex s = Inr (r, t)"
  obtains (filled) p q rb stake where "rexpool s = Some p" "fmlookup (rexbalance s) owner = Some rb"
      "sell_from_pool (amount rex) (amount (out_proceeds r)) p = Some q" "success r"
      "amount (out_proceeds r) = muldiv (amount rex) (amount (total_lendable p)) (amount (total_rex p))"
      "t = s\<lparr>rexpool := Some q,
         rexbalance := fmupd owner (sell_from_balance (amount rex) stake rb) (rexbalance s)\<rparr>"
    | (queued) "t = s" "\<not> success r" "amount (out_proceeds r) = 0" "amount (out_stake_change r) = 0"
  using ok unfolding fill_rex_order_def Let_def fetch_eq_Inr bindR_eq_Inr core_symbol_eq_Inr
proof (elim exE conjE)
  fix p m pr sold
  assume p: "rexpool s = Some p"
    and pr: "muldivR (amount rex) (amount (total_lendable p)) (amount (total_rex p)) = Inr pr"
    and sold: "aa_make (e_assets E) pr (asym (balance (quote m))) = Inr sold"
    and rest: "(case sell_from_pool (amount rex) pr p of
       None \<Rightarrow> Inr (\<lparr>success = False, out_proceeds = asset0 (asym (balance (quote m))),
         out_stake_change = asset0 (asym (balance (quote m)))\<rparr>, s)
     | Some p' \<Rightarrow>
         fetch (fmlookup (rexbalance s) owner) No_row (\<lambda>rb.
         bindR (muldivR (amount (rex_amount rb)) (amount (total_lendable p)) (amount (total_rex p)))
           (\<lambda>current_stake_value.
         Inr (\<lparr>success = True, out_proceeds = sold,
             out_stake_change = \<lparr>amount = i64 (i64 (current_stake_value - pr) - amount (vote_stake rb)),
               asym = asym (balance (quote m))\<rparr>\<rparr>,
           s\<lparr>rexpool := Some p', rexbalance :=
             fmupd owner (sell_from_balance (amount rex) (i64 (current_stake_value - pr)) rb) (rexbalance s)\<rparr>)))) =
      Inr (r, t)"
  have sold': "amount sold = pr" using asset_laws.make_ok [OF A sold] by simp
  have pr': "pr = muldiv (amount rex) (amount (total_lendable p)) (amount (total_rex p))"
    using pr by (auto simp: muldivR_def res_simps split: if_splits)
  show thesis
  proof (cases "sell_from_pool (amount rex) pr p")
    case None
    then show thesis using rest queued by auto
  next
    case (Some q)
    from rest show thesis
      unfolding Some option.case fetch_eq_Inr bindR_eq_Inr
    proof (elim exE conjE)
      fix rb current_stake_value
      let ?stake = "i64 (current_stake_value - pr)"
      assume rb: "fmlookup (rexbalance s) owner = Some rb"
      assume "Inr (\<lparr>success = True, out_proceeds = sold, out_stake_change =
          \<lparr>amount = i64 (?stake - amount (vote_stake rb)), asym = asym (balance (quote m))\<rparr>\<rparr>,
          s\<lparr>rexpool := Some q, rexbalance :=
            fmupd owner (sell_from_balance (amount rex) ?stake rb) (rexbalance s)\<rparr>) = Inr (r, t)"
      then have r: "success r" "out_proceeds r = sold" and t: "t = s\<lparr>rexpool := Some q, rexbalance :=
            fmupd owner (sell_from_balance (amount rex) ?stake rb) (rexbalance s)\<rparr>"
        by auto
      from p rb _ r(1) _ t show thesis by (rule filled) (simp_all add: r Some sold' flip: pr')
    qed
  qed
qed

lemma fill_rex_order_moves:
  assumes A: "asset_laws (e_assets E)" and ok: "fill_rex_order E owner rex s = Inr (r, t)"
    and run: "running E s"
  shows "rexl.moves (- amount (out_proceeds r)) s t \<and> running E t \<and> rexorders t = rexorders s"
  using A ok
proof (cases rule: fill_rex_order_cases)
  case (filled p q rb stake)
  note q = sell_from_pool_Some [OF filled(3)]
  have net: "rex_net t = (rex_net s - amount (total_lendable p)) +
      i64 (amount (total_lendable p) - amount (out_proceeds r))"
    by (simp add: rex_net_def rex_assets_def filled(1,6) q(1))
  have "rexl.moves (- amount (out_proceeds r)) s t" by (simp add: rexl.moves_def net)
  then show ?thesis using run q(2)
    by (simp add: filled(6) running_def updated_def pool_ok_def loans_ok_def)
next
  case queued
  then show ?thesis using run by simp
qed

definition filled_order :: "rex_order_outcome \<Rightarrow> rex_order \<Rightarrow> rex_order" where
  "filled_order r o' = o'\<lparr>ro_proceeds := set_amount (amount (out_proceeds r)) (ro_proceeds o'),
     stake_change := set_amount (amount (out_stake_change r)) (stake_change o'), is_open := False\<rparr>"

lemma process_order_Inr:
  assumes ok: "process_order E (owner, o') s = Inr t" and rb: "fmlookup (rexbalance s) owner = Some rb"
  obtains r s1 where "fill_rex_order E owner (rex_requested o') s = Inr (r, s1)"
    "t = (if success r then emit (Order_result owner (out_proceeds r))
       (s1\<lparr>rexorders := fmupd owner (filled_order r o') (rexorders s1)\<rparr>) else s1)"
proof -
  have "bindR (fill_rex_order E owner (rex_requested o') s) (\<lambda>(r, s1).
      if success r then Inr (emit (Order_result owner (out_proceeds r))
        (s1\<lparr>rexorders := fmupd owner (filled_order r o') (rexorders s1)\<rparr>)) else Inr s1) = Inr t"
    using ok rb unfolding process_order_def Let_def filled_order_def by simp
  then show thesis
    using that by (fastforce simp only: bindR_eq_Inr split_paired_Ex prod.case sum.inject split: if_splits)
qed

lemma process_order_moves:
  assumes A: "asset_laws (e_assets E)" and ok: "process_order E (owner, o') s = Inr t"
    and run: "running E s" and row: "fmlookup (rexorders s) owner = Some o'" "is_open o'"
  shows "rexl.moves 0 s t \<and> running E t \<and>
    (\<forall>k. k \<noteq> owner \<longrightarrow> fmlookup (rexorders t) k = fmlookup (rexorders s) k)"
proof (cases "fmlookup (rexbalance s) owner")
  case None
  then show ?thesis using ok run by (simp add: process_order_def)
next
  case (Some rb)
  obtain r s1 where f: "fill_rex_order E owner (rex_requested o') s = Inr (r, s1)"
    and t: "t = (if success r then emit (Order_result owner (out_proceeds r))
        (s1\<lparr>rexorders := fmupd owner (filled_order r o') (rexorders s1)\<rparr>) else s1)"
    using ok Some by (rule process_order_Inr)
  note r = fill_rex_order_moves [OF A f run]
  show ?thesis
  proof (cases "success r")
    case True
    have "rex_net t = rex_net s1 + amount (out_proceeds r)"
      using r row True by (simp add: t rex_net_def rex_assets_def table_sum_upd collectable_def msg_in_def filled_order_def emit_def)
    then have "rexl.moves (amount (out_proceeds r)) s1 t" by (rule rexl.moves_eq)
    with r have "rexl.moves 0 s t" using rexl.moves_trans by fastforce
    moreover have "running E t" using r True
      by (simp add: t running_def updated_def pool_ok_def loans_ok_def)
    ultimately show ?thesis using r True by (simp add: t)
  next
    case False
    then have "s1 = s" using f A by (auto elim: fill_rex_order_cases)
    then show ?thesis using run False by (simp add: t)
  qed
qed

lemma process_orders_moves:
  assumes A: "asset_laws (e_assets E)"
  shows "foldR (process_order E) xs s = Inr t \<Longrightarrow> running E s \<Longrightarrow> distinct (map fst xs) \<Longrightarrow>
    (\<And>k o'. (k, o') \<in> set xs \<Longrightarrow> fmlookup (rexorders s) k = Some o' \<and> is_open o') \<Longrightarrow>
    rexl.moves 0 s t \<and> running E t"
proof (induction xs arbitrary: s)
  case (Cons x xs)
  obtain k o' where x: "x = (k, o')" by (cases x)
  obtain u where 1: "process_order E (k, o') s = Inr u" and 2: "foldR (process_order E) xs u = Inr t"
    using Cons.prems(1) by (auto simp: x res_simps)
  have row: "fmlookup (rexorders s) k = Some o'" "is_open o'" using Cons.prems(4) [of k o'] by (simp_all add: x)
  note r = process_order_moves [OF A 1 Cons.prems(2) row]
  have "rexl.moves 0 u t \<and> running E t"
  proof (rule Cons.IH [OF 2])
    show "running E u" using r by simp
    show "distinct (map fst xs)" using Cons.prems(3) by simp
    fix j p assume j: "(j, p) \<in> set xs"
    then have "j \<noteq> k" using Cons.prems(3) by (force simp: x)
    then show "fmlookup (rexorders u) j = Some p \<and> is_open p" using r j Cons.prems(4) [of j p] by simp
  qed
  then show ?case using r by (auto intro: rexl.moves_0_trans)
qed simp

lemma open_orders:
  fixes s i
  defines "xs \<equiv> takeWhile (\<lambda>(k, o'). is_open o') (take i (orders_by_time s))"
  shows "distinct (map fst xs)" "(k, o') \<in> set xs \<Longrightarrow> fmlookup (rexorders s) k = Some o' \<and> is_open o'"
proof -
  let ?L = "orders_by_time s"
  have "distinct (map fst ?L)"
    using rows_distinct [of "rexorders s"] by (simp add: orders_by_time_def distinct_map)
  then have "distinct (map fst (take i ?L))" by (simp add: take_map [symmetric])
  then show "distinct (map fst xs)" unfolding xs_def
    by (metis (mono_tags) distinct_append map_append takeWhile_dropWhile_id)
  assume m: "(k, o') \<in> set xs"
  then have "is_open o'" unfolding xs_def by (auto dest: set_takeWhileD)
  moreover have "(k, o') \<in> set ?L" using m unfolding xs_def by (meson in_set_takeD set_takeWhileD)
  then have "fmlookup (rexorders s) k = Some o'"
    by (simp add: orders_by_time_def rows_upd_lookup)
  ultimately show "fmlookup (rexorders s) k = Some o' \<and> is_open o'" by simp
qed

section \<open>The queue of sell orders\<close>

text \<open>
  The open orders ask for no more REX than there is, the lendable pool has a token amount, and
  the proceeds of filled orders are token amounts. So no sale overflows: its proceeds are at most
  the lendable pool.
\<close>

definition wanted :: "rex_order \<Rightarrow> int" where
  "wanted o' = (if is_open o' then amount (rex_requested o') else 0)"

definition order_ok :: "rex_order \<Rightarrow> bool" where
  "order_ok o' \<longleftrightarrow> 0 \<le> wanted o' \<and> 0 \<le> collectable o' \<and> collectable o' \<le> max_amount"

definition pool_size_ok :: "chain \<Rightarrow> bool" where
  "pool_size_ok s \<longleftrightarrow> (\<forall>p. rexpool s = Some p \<longrightarrow>
     0 \<le> amount (total_lendable p) \<and> amount (total_lendable p) \<le> max_amount \<and>
     amount (total_rex p) \<le> i64_max \<and> table_sum wanted (rexorders s) \<le> amount (total_rex p))"

definition queue_ok :: "chain \<Rightarrow> bool" where
  "queue_ok s \<longleftrightarrow> pool_size_ok s \<and> (\<forall>k o'. fmlookup (rexorders s) k = Some o' \<longrightarrow> order_ok o')"

lemma queue_ok_row: "queue_ok s \<Longrightarrow> fmlookup (rexorders s) k = Some o' \<Longrightarrow> order_ok o'"
  by (simp add: queue_ok_def)

lemma queue_ok_fields:
  "rexorders t = rexorders s \<Longrightarrow> rexpool t = rexpool s \<Longrightarrow> queue_ok t = queue_ok s"
  by (simp add: queue_ok_def pool_size_ok_def)

lemma queue_ok_pool:
  assumes "queue_ok s" "rexpool s = Some p" "rexpool t = Some q" "rexorders t = rexorders s"
    and "amount (total_lendable q) = amount (total_lendable p)" "amount (total_rex q) = amount (total_rex p)"
  shows "queue_ok t"
  using assms by (simp add: queue_ok_def pool_size_ok_def)

lemma muldiv_share:
  assumes "0 \<le> x" "x \<le> R" "0 < R" "R \<le> i64_max" "0 \<le> S" "S \<le> i64_max"
  shows "0 \<le> muldiv x S R \<and> muldiv x S R \<le> S \<and> muldiv x S R * R \<le> x * S"
proof -
  have "x * S \<le> R * S" using assms by (intro mult_right_mono) auto
  then have le: "x * S div R \<le> S"
    using assms zdiv_mono1 [of "x * S" "R * S" R] by simp
  have "muldiv x S R = x * S div R" using assms le by (intro muldiv_small) (auto simp: i64_max_def)
  moreover have "0 \<le> x * S div R" using assms by (simp add: pos_imp_zdiv_nonneg_iff)
  ultimately show ?thesis using le div_mult_le [OF assms(3)] by (simp add: mult.commute)
qed

lemma fill_rex_order_queue:
  assumes A: "asset_laws (e_assets E)" and ok: "fill_rex_order E owner rex s = Inr (r, t)"
    and q: "queue_ok s" and size: "0 \<le> amount rex" "\<And>p. rexpool s = Some p \<Longrightarrow> amount rex \<le> amount (total_rex p)"
  shows "0 \<le> amount (out_proceeds r) \<and> amount (out_proceeds r) \<le> max_amount \<and>
    (\<forall>p q. rexpool s = Some p \<longrightarrow> rexpool t = Some q \<longrightarrow> success r \<longrightarrow>
       0 \<le> amount (total_lendable q) \<and> amount (total_lendable q) \<le> max_amount \<and>
       amount (total_rex q) = amount (total_rex p) - amount rex)"
  using A ok
proof (cases rule: fill_rex_order_cases)
  case (filled p q rb stake)
  have z: "amount (total_rex p) \<noteq> 0" using ok filled(1) by (auto simp: fill_rex_order_def res_simps Let_def)
  have p: "0 \<le> amount (total_lendable p)" "amount (total_lendable p) \<le> max_amount" "amount (total_rex p) \<le> i64_max"
    using \<open>queue_ok s\<close> filled(1) by (auto simp: queue_ok_def pool_size_ok_def)
  have sz: "amount rex \<le> amount (total_rex p)" using size(2) filled(1) .
  then have "0 < amount (total_rex p)" using size(1) z by simp
  then have m: "0 \<le> amount (out_proceeds r)" "amount (out_proceeds r) \<le> amount (total_lendable p)"
    using muldiv_share [OF size(1) sz _ p(3,1)] p(2) unfolding filled(5) by (auto simp: max_amount_def i64_max_def)
  note q = sell_from_pool_Some [OF filled(3)]
  show ?thesis using m p q(1,3) sz size(1) filled(1,6)
    by (auto simp: i64_id max_amount_def i64_max_def)
next
  case queued
  then show ?thesis by (simp add: max_amount_def)
qed

lemma process_order_queue:
  assumes A: "asset_laws (e_assets E)" and ok: "process_order E (owner, o') s = Inr t"
    and q: "queue_ok s" and row: "fmlookup (rexorders s) owner = Some o'" "is_open o'"
  shows "queue_ok t"
proof (cases "fmlookup (rexbalance s) owner")
  case None
  then show ?thesis using ok q by (simp add: process_order_def)
next
  case (Some rb)
  let ?w = "rex_requested o'"
  obtain r s1 where f: "fill_rex_order E owner ?w s = Inr (r, s1)"
    and t: "t = (if success r then emit (Order_result owner (out_proceeds r))
        (s1\<lparr>rexorders := fmupd owner (filled_order r o') (rexorders s1)\<rparr>) else s1)"
    using ok Some by (rule process_order_Inr)
  have w: "0 \<le> amount ?w" using queue_ok_row [OF q row(1)] row(2) by (simp add: order_ok_def wanted_def)
  have le: "amount ?w \<le> amount (total_rex p)" if "rexpool s = Some p" for p
  proof -
    have "wanted o' \<le> table_sum wanted (rexorders s)"
      using row(1) queue_ok_row [OF q] by (intro row_le_table_sum) (auto simp: order_ok_def)
    then show ?thesis using q that row(2) by (simp add: queue_ok_def pool_size_ok_def wanted_def)
  qed
  note b = fill_rex_order_queue [OF A f q w le]
  from A f show ?thesis
  proof (cases rule: fill_rex_order_cases)
    case (filled p p' rb' stake)
    have 2: "order_ok (filled_order r o')"
      using b by (simp add: order_ok_def wanted_def collectable_def filled_order_def)
    have "table_sum wanted (rexorders t) = table_sum wanted (rexorders s) - amount ?w"
      using row filled by (simp add: t table_sum_upd wanted_def filled_order_def)
    then show ?thesis using q b filled 2 w by (auto simp: t queue_ok_def pool_size_ok_def)
  next
    case queued
    then show ?thesis using q by (simp add: t)
  qed
qed

lemma process_orders_queue:
  assumes A: "asset_laws (e_assets E)"
  shows "foldR (process_order E) xs s = Inr t \<Longrightarrow> queue_ok s \<Longrightarrow> running E s \<Longrightarrow> distinct (map fst xs) \<Longrightarrow>
    (\<And>k o'. (k, o') \<in> set xs \<Longrightarrow> fmlookup (rexorders s) k = Some o' \<and> is_open o') \<Longrightarrow> queue_ok t"
proof (induction xs arbitrary: s)
  case (Cons x xs)
  obtain k o' where x: "x = (k, o')" by (cases x)
  obtain u where 1: "process_order E (k, o') s = Inr u" and 2: "foldR (process_order E) xs u = Inr t"
    using Cons.prems(1) by (auto simp: x res_simps)
  have row: "fmlookup (rexorders s) k = Some o'" "is_open o'" using Cons.prems(5) [of k o'] by (simp_all add: x)
  note r = process_order_moves [OF A 1 Cons.prems(3) row]
  show ?case
  proof (rule Cons.IH [OF 2])
    show "queue_ok u" using A 1 Cons.prems(2) row by (rule process_order_queue)
    show "running E u" using r by simp
    show "distinct (map fst xs)" using Cons.prems(4) by simp
    fix j p assume j: "(j, p) \<in> set xs"
    then have "j \<noteq> k" using Cons.prems(4) by (force simp: x)
    then show "fmlookup (rexorders u) j = Some p \<and> is_open p" using r j Cons.prems(5) [of j p] by simp
  qed
qed simp

lemma release_to_pool_size:
  assumes A: "asset_laws (e_assets E)" and ok: "release_to_pool E n s = Inr t" and n: "0 < n" "n \<le> i64_max"
    and p: "rexpool s = Some p" "pool_balanced p" "0 \<le> amount (total_lendable p)"
      "amount (total_lendable p) \<le> max_amount"
  shows "\<exists>q. t = s\<lparr>rexpool := Some q\<rparr> \<and> total_rex q = total_rex p \<and>
    0 \<le> amount (total_lendable q) \<and> amount (total_lendable q) \<le> max_amount"
proof -
  obtain c where c: "aa_plus (e_assets E) (set_amount (i64 (amount (total_unlent p) + n)) (total_unlent p))
      (total_lent p) = Inr c"
    and t: "t = s\<lparr>rexpool := Some (p\<lparr>total_unlent := set_amount (i64 (amount (total_unlent p) + n))
      (total_unlent p), total_lendable := c\<rparr>)\<rparr>"
    using ok n p(1) by (auto simp: release_to_pool_def res_simps Let_def)
  note c' = asset_laws.plus_ok [OF A c, simplified]
  let ?x = "amount (total_lendable p) + n"
  have "amount c = i64 (i64 (amount (total_unlent p) + n) + amount (total_lent p))"
    using c' by (simp add: max_amount_i64 del: i64_add_i64)
  also have "\<dots> = i64 ?x"
    using p(2) by (simp add: pool_balanced_def algebra_simps)
  finally have "amount c = i64 ?x" .
  moreover have "0 \<le> i64 ?x"
  proof (cases "?x \<le> i64_max")
    case True
    then show ?thesis using n p by (simp add: i64_id i64_max_def)
  next
    case False
    then have "i64 ?x = ?x - 18446744073709551616"
      using n p by (intro i64_over) (simp_all add: i64_max_def max_amount_def)
    then have "i64 ?x < - max_amount" using n p by (simp add: i64_max_def max_amount_def)
    then show ?thesis using c' \<open>amount c = i64 ?x\<close> by auto
  qed
  ultimately show ?thesis using c' t by auto
qed

lemma close_pending_le: "c \<le> i64_max \<Longrightarrow> fst (snd (close_pending_bucket e c rp)) \<le> i64_max"
  by (simp add: close_pending_bucket_def Let_def)

lemma expire_le: "c \<le> i64_max \<Longrightarrow> fst (snd (expire_buckets e c rp bs)) \<le> i64_max"
  by (simp add: expire_buckets_def Let_def)

lemma distribute_released:
  assumes "distribute_returns e rp bs = (rp', bs', n)"
  shows "n \<le> i64_max"
proof -
  let ?c = "i64 (current_rate_of_increase rp * get_elapsed_intervals e (last_dist_time rp))"
  obtain rp1 c1 new where 1: "close_pending_bucket e ?c rp = (rp1, c1, new)" by (rule prod_cases3)
  obtain bs1 rp2 rp3 c2 bs2 where 2: "expire_buckets e c1 rp2 bs1 = (rp3, c2, bs2)"
    and n: "n = c2 \<or> n = i64 (c2 + proceeds rp3)"
    using assms 1 by (auto simp: distribute_returns_def Let_def split: prod.splits if_splits)
  have "c1 \<le> i64_max" using close_pending_le [of ?c e rp] 1 by simp
  then have "c2 \<le> i64_max" using expire_le [of c1 e rp2 bs1] 2 by simp
  then show ?thesis using n by auto
qed

lemma update_rex_pool_queue:
  assumes A: "asset_laws (e_assets E)" and ok: "update_rex_pool E s = Inr t"
    and p: "pool_ok s" and q: "queue_ok s"
  shows "queue_ok t"
  using ok
proof (cases rule: update_rex_pool_Inr)
  case 1
  then show ?thesis using q by simp
next
  case (2 rp bs rp' bs' n)
  let ?s = "s\<lparr>rexretpool := Some rp', rexretbuckets := Some bs'\<rparr>"
  have q': "queue_ok ?s" using queue_ok_fields [of ?s s] q by simp
  from A 2(5) show ?thesis
  proof (cases rule: release_to_pool_Inr)
    case 1
    then show ?thesis using q' by simp
  next
    case (2 r r')
    have b: "n \<le> i64_max" using distribute_released \<open>distribute_returns _ _ _ = _\<close> .
    have S: "rexpool ?s = Some r" "0 \<le> amount (total_lendable r)" "amount (total_lendable r) \<le> max_amount"
      "pool_balanced r"
      using q p 2(2) by (simp_all add: queue_ok_def pool_size_ok_def pool_ok_def)
    obtain r2 where "t = ?s\<lparr>rexpool := Some r2\<rparr>" "total_rex r2 = total_rex r"
      "0 \<le> amount (total_lendable r2)" "amount (total_lendable r2) \<le> max_amount"
      using release_to_pool_size [OF A \<open>release_to_pool _ _ _ = _\<close> 2(1) b S(1,4,2,3)] by blast
    then show ?thesis using q 2(2) by (simp add: queue_ok_def pool_size_ok_def)
  qed
qed

lemma remove_loan_queue:
  assumes "remove_loan_from_rex_pool loan s = Inr t" "pool_ok s" "queue_ok s"
  shows "queue_ok t"
proof -
  obtain p q where p: "rexpool s = Some p" and t: "t = s\<lparr>rexpool := Some q\<rparr>"
    and q: "amount (total_lendable q) = i64 (amount (total_unlent p) + amount (total_lent p))"
      "amount (total_rex q) = amount (total_rex p)"
    using assms(1) by (auto simp: remove_loan_from_rex_pool_def res_simps Let_def)
  have "amount (total_lendable q) = amount (total_lendable p)"
    using q(1) pool_ok_i64 [OF assms(2) p] by simp
  then show ?thesis using queue_ok_pool [OF assms(3) p, of t q] q(2) by (simp add: t)
qed

lemma add_to_rex_return_pool_queue:
  assumes "updated E s" "add_to_rex_return_pool E fee s = Inr t"
  shows "queue_ok t = queue_ok s"
proof (rule queue_ok_fields)
  from assms(2) show "rexorders t = rexorders s" "rexpool t = rexpool s"
    by (cases rule: add_to_rex_return_pool_Inr; simp add: update_rex_pool_idle [OF assms(1)])+
qed

lemma add_loan_queue:
  assumes ok: "add_loan_to_rex_pool E pay n b s = Inr t" and up: "updated E s" and q: "queue_ok s"
  shows "queue_ok t"
proof -
  obtain u p where u: "add_to_rex_return_pool E pay s = Inr u" and p: "rexpool u = Some p"
    and t: "t = u\<lparr>rexpool := Some (lend_from_pool pay n b p)\<rparr>"
    using ok by (auto simp: add_loan_to_rex_pool_def res_simps)
  have "queue_ok u" using add_to_rex_return_pool_queue [OF up u] q by simp
  from queue_ok_pool [OF this p, of t] show ?thesis by (simp add: t lend_from_pool_def)
qed

lemma process_expired_loan_queue:
  assumes ok: "process_expired_loan E k n loan s = Inr (del, d, t)" and run: "running E s" and q: "queue_ok s"
  shows "queue_ok t"
proof -
  obtain s1 n' R where s1: "remove_loan_from_rex_pool loan s = Inr s1"
    and rest: "(if R then
       bindR (add_loan_to_rex_pool E (payment loan) n' False s1) (\<lambda>s2.
       let (delta_stake, loan') = update_renewed_loan n' loan in
       Inr (False, delta_stake, set_loans k (fmupd n loan' (loans k s2)) s2))
     else
       bindR (if 0 < amount (ln_balance loan) then transfer_to_fund (ln_from loan) (ln_balance loan) s1
         else Inr s1) (\<lambda>s2.
       Inr (True, i64 (- amount (total_staked loan)), s2))) = Inr (del, d, t)"
    using ok by (auto simp: process_expired_loan_def res_simps)
  have q1: "queue_ok s1" using remove_loan_queue [OF s1] run q by (simp add: running_def)
  have up: "updated E s1" using remove_loan_moves [OF s1 run] by (simp add: running_def)
  show ?thesis
  proof (cases R)
    case True
    then obtain s2 where s2: "add_loan_to_rex_pool E (payment loan) n' False s1 = Inr s2"
      and "t = set_loans k (fmupd n (snd (update_renewed_loan n' loan)) (loans k s2)) s2"
      using rest by (auto simp: res_simps update_renewed_loan_def)
    moreover from s2 up q1 have "queue_ok s2" by (rule add_loan_queue)
    ultimately show ?thesis using queue_ok_fields [of t s2] by simp
  next
    case False
    show ?thesis
    proof (cases "0 < amount (ln_balance loan)")
      case True
      with rest False have "transfer_to_fund (ln_from loan) (ln_balance loan) s1 = Inr t"
        by (auto simp: res_simps)
      from transfer_to_fund_same [OF this] obtain f where "t = s1\<lparr>rexfunds := f\<rparr>" by blast
      then show ?thesis using queue_ok_fields [of t s1] q1 by simp
    qed (use rest False q1 in simp)
  qed
qed

lemma same_but_quotas_queue: "same_but_quotas s t \<Longrightarrow> queue_ok t = queue_ok s"
  using same_but_quotas_fields [of s t] by (intro queue_ok_fields) simp_all

lemma process_loans_queue:
  assumes A: "asset_laws (e_assets E)" and clk: "clock_ok E"
  shows "process_loans i E k s = Inr t \<Longrightarrow> running E s \<Longrightarrow> queue_ok s \<Longrightarrow> queue_ok t"
proof (induction i arbitrary: s)
  case (Suc i)
  show ?case
  proof (cases "loans_by_expiration k s")
    case Nil
    then show ?thesis using Suc.prems by simp
  next
    case (Cons nl rest)
    obtain n loan where nl: "nl = (n, loan)" by (cases nl)
    have row: "fmlookup (loans k s) n = Some loan"
      using Cons nl sorted_list_mem by (metis loans_by_expiration_def)
    show ?thesis
    proof (cases "e_now E < expiration loan")
      case True
      then show ?thesis using Suc.prems Cons nl by simp
    next
      case False
      then obtain del d s1 s2 where 1: "process_expired_loan E k n loan s = Inr (del, d, s1)"
        and 2: "(if d \<noteq> 0 then limits_delta E k (ln_receiver loan) d s1 else Inr s1) = Inr s2"
        and 3: "process_loans i E k (if del then set_loans k (fmdrop n (loans k s2)) s2 else s2) = Inr t"
        using Suc.prems Cons nl by (auto simp: res_simps simp del: process_loans.simps(1))
      let ?u = "if del then set_loans k (fmdrop n (loans k s2)) s2 else s2"
      have "process_loans 1 E k s = Inr ?u" using Cons nl False 1 2 by (simp add: res_simps)
      then have "running E ?u" using process_loans_moves [OF A clk _ Suc.prems(2)] by blast
      moreover have "queue_ok s1" using 1 Suc.prems(2,3) by (rule process_expired_loan_queue)
      then have "queue_ok s2"
        using 2 same_but_quotas_queue [OF limits_delta_same] by (cases "d = 0") auto
      then have "queue_ok ?u" using queue_ok_fields [of ?u s2] by simp
      ultimately show ?thesis using Suc.IH [OF 3] by blast
    qed
  qed
qed simp

lemma channel_namebids_queue:
  assumes clk: "clock_ok E" and ok: "channel_namebids E s = Inr t" and run: "running E s" and q: "queue_ok s"
  shows "queue_ok t"
proof -
  obtain p where p: "rexpool s = Some p" using ok by (auto simp: channel_namebids_def res_simps)
  show ?thesis
  proof (cases "0 < amount (namebid_proceeds p)")
    case True
    then obtain s1 p1 where 1: "channel_to_rex E names_account (namebid_proceeds p) s = Inr s1"
      and p1: "rexpool s1 = Some p1"
      and t: "t = s1\<lparr>rexpool := Some (p1\<lparr>namebid_proceeds := set_amount 0 (namebid_proceeds p1)\<rparr>)\<rparr>"
      using ok p by (auto simp: channel_namebids_def res_simps)
    have up: "updated E s" using run by (simp add: running_def)
    have "queue_ok s1"
    proof (cases "rex_available s")
      case True
      then obtain u where u: "add_to_rex_return_pool E (namebid_proceeds p) s = Inr u"
        and s1: "s1 = emit (Transfer [names_account] names_account rex_account (namebid_proceeds p)) u"
        using 1 by (auto simp: channel_to_rex_def res_simps)
      show ?thesis using add_to_rex_return_pool_queue [OF up u] queue_ok_fields [of s1 u] q by (simp add: s1)
    qed (use 1 q in \<open>simp add: channel_to_rex_def\<close>)
    then show ?thesis using queue_ok_pool [OF _ p1, of t] t by simp
  qed (use ok p q in \<open>auto simp: channel_namebids_def res_simps\<close>)
qed

section \<open>The maintenance loop\<close>

text \<open>The state of the exchange between actions, and what the environment has to satisfy.\<close>

definition books_ok :: "env \<Rightarrow> chain \<Rightarrow> bool" where
  "books_ok E s \<longleftrightarrow> asset_laws (e_assets E) \<and> clock_ok E \<and> pool_ok s \<and> returns_ok s \<and>
     returns_bounded E s \<and> loans_ok s \<and> queue_ok s"

lemma runrex_moves:
  assumes b: "books_ok E s" and ok: "runrex E n s = Inr t"
  shows "rexl.moves 0 s t \<and> running E t \<and> queue_ok t"
proof -
  note b' = b [unfolded books_ok_def]
  obtain s1 s2 s3 s4 where
    1: "update_rex_pool E s = Inr s1" and 2: "channel_namebids E s1 = Inr s2"
    and 3: "process_loans n E Cpu s2 = Inr s3" and 4: "process_loans n E Net s3 = Inr s4"
    and 5: "foldR (process_order E) (takeWhile (\<lambda>(k, o'). is_open o') (take n (orders_by_time s4))) s4 = Inr t"
    using ok unfolding runrex_def check_eq_Inr bindR_eq_Inr by (elim exE conjE)
  have A: "asset_laws (e_assets E)" and clk: "clock_ok E" using b' by simp_all
  have m1: "rexl.moves 0 s s1" using b' 1 by (intro update_rex_pool_moves) simp_all
  have "loans k s1 = loans k s" for k
    by (rule same_but_pool_fields(9) [OF update_rex_pool_same [OF 1]])
  then have "loans_ok s1" using b' loans_ok_same by blast
  moreover have "pool_ok s1" using update_rex_pool_ok [OF A 1] b' by simp
  ultimately have r1: "running E s1" using update_rex_pool_updated [OF 1] by (simp add: running_def)
  have q1: "queue_ok s1" using update_rex_pool_queue [OF A 1] b' by simp
  note r2 = channel_namebids_moves [OF clk 2 r1] and q2 = channel_namebids_queue [OF clk 2 r1 q1]
  note r3 = process_loans_moves [OF A clk 3 conjunct2 [OF r2]]
    and q3 = process_loans_queue [OF A clk 3 conjunct2 [OF r2] q2]
  note r4 = process_loans_moves [OF A clk 4 conjunct2 [OF r3]]
    and q4 = process_loans_queue [OF A clk 4 conjunct2 [OF r3] q3]
  have r5: "rexl.moves 0 s4 t \<and> running E t"
    by (rule process_orders_moves [OF A 5 conjunct2 [OF r4] open_orders(1)]) (rule open_orders(2))
  have "queue_ok t"
    by (rule process_orders_queue [OF A 5 q4 conjunct2 [OF r4] open_orders(1)]) (rule open_orders(2))
  moreover have "rexl.moves 0 s s2" using m1 conjunct1 [OF r2] by (rule rexl.moves_0_trans)
  then have "rexl.moves 0 s s3" using conjunct1 [OF r3] by (rule rexl.moves_0_trans)
  then have "rexl.moves 0 s s4" using conjunct1 [OF r4] by (rule rexl.moves_0_trans)
  then have "rexl.moves 0 s t" using conjunct1 [OF r5] by (rule rexl.moves_0_trans)
  ultimately show ?thesis using r5 by simp
qed

section \<open>Accounts\<close>

lemma update_voting_power_pool:
  assumes "update_voting_power E v n s = Inr t"
  shows "rexpool t = rexpool s" "rexorders t = rexorders s" "rexfunds t = rexfunds s"
  using without_votes_fields [OF update_voting_power_without_votes [OF assms]] by simp_all

text \<open>Collecting a filled order moves its proceeds to the owner's fund, with \<open>f\<close> on top.\<close>

lemma update_rex_account_moves:
  assumes row: "\<And>o'. fmlookup (rexorders s) owner = Some o' \<Longrightarrow> order_ok o'"
    and f: "0 \<le> f" "f \<le> max_amount" and ok: "update_rex_account E owner f n b s = Inr (m, t)"
  shows "rexl.moves f s t"
proof -
  obtain core f' n' s1 s2 where
    1: "(f', s1) = (case fmlookup (rexorders s) owner of None \<Rightarrow> (f, s)
      | Some o' \<Rightarrow> if is_open o' then (f, s)
        else (i64 (f + amount (ro_proceeds o')), s\<lparr>rexorders := fmdrop owner (rexorders s)\<rparr>))"
    and 2: "(if 0 < f' then transfer_to_fund owner \<lparr>amount = f', asym = core\<rparr> s1 else Inr s1) = Inr s2"
    and 3: "(if b \<or> n' \<noteq> 0 then update_voting_power E owner n' s2 else Inr s2) = Inr t"
    using ok by (fastforce simp: update_rex_account_def core_symbol_eq_Inr bindR_eq_Inr Let_def
        split: option.splits if_splits)
  have 4: "0 \<le> f' \<and> rexl.moves (f - f') s s1"
  proof (cases "fmlookup (rexorders s) owner")
    case None
    then show ?thesis using 1 f by simp
  next
    case (Some o')
    show ?thesis
    proof (cases "is_open o'")
      case True
      then show ?thesis using 1 f Some by simp
    next
      case False
      then have "0 \<le> amount (ro_proceeds o')" "amount (ro_proceeds o') \<le> max_amount"
        using row [OF Some] by (simp_all add: order_ok_def collectable_def)
      then have "f' = f + amount (ro_proceeds o')" "0 \<le> f'"
        using 1 Some False f by (simp_all add: i64_id max_amount_def)
      moreover have "rex_net s1 = rex_net s - amount (ro_proceeds o')"
        using 1 Some False by (simp add: rex_net_def rex_assets_def table_sum_drop collectable_def)
      ultimately show ?thesis by (auto intro: rexl.moves_eq)
    qed
  qed
  have "rexl.moves f' s1 s2"
  proof (cases "0 < f'")
    case True
    then show ?thesis using 2 transfer_to_fund_moves by fastforce
  next
    case False
    then show ?thesis using 2 4 by simp
  qed
  moreover have "rexl.moves 0 s2 t"
    using 3 rexl.update_voting_power_moves by (auto split: if_splits)
  ultimately show ?thesis using 4 rexl.moves_trans [of "f - f'" s s1 f' s2] rexl.moves_trans_0 by simp
qed

section \<open>Deposits and withdrawals\<close>

lemma deposit_books:
  assumes "deposit E owner a s = Inr t" "owner \<noteq> rex_account"
  shows "rexl.moves 0 s t"
proof -
  let ?s1 = "emit (Transfer [owner] owner rex_account a) s"
  have "transfer_to_fund owner a ?s1 = Inr t" using assms(1) by (auto simp: deposit_def res_simps)
  then have "rexl.moves (amount a) ?s1 t" by (rule transfer_to_fund_moves)
  moreover have "rexl.moves (- amount a) s ?s1"
    using emit_moves [of "Transfer [owner] owner rex_account a" s] assms(2) by simp
  ultimately show ?thesis using rexl.moves_trans by fastforce
qed

lemma withdraw_books:
  assumes ok: "withdraw E owner a s = Inr t" and o': "owner \<noteq> rex_account" and q: "queue_ok s"
  shows "rexl.moves 0 s t"
proof -
  obtain n s1 s2 where 1: "update_rex_account E owner 0 0 False s = Inr (n, s1)"
    and 2: "transfer_from_fund E owner a s1 = Inr s2"
    and t: "t = emit (Transfer [rex_account] rex_account owner a) s2"
    using ok by (auto simp: withdraw_def res_simps)
  have "rexl.moves 0 s s1"
    using 1 by (intro update_rex_account_moves [OF queue_ok_row [OF q]]) (simp_all add: max_amount_def)
  then have "rexl.moves (- amount a) s s2"
    using transfer_from_fund_moves [OF 2] by (rule rexl.moves_0_trans)
  moreover have "rexl.moves (amount a) s2 t"
    using emit_moves [of "Transfer [rex_account] rex_account owner a" s2] o' t by simp
  ultimately show ?thesis using rexl.moves_trans by fastforce
qed

section \<open>Loans\<close>

lemma loan_row_moves:
  assumes "fmlookup (loans k s) n = Some l" "i64 (amount (ln_balance l')) = i64 (amount (ln_balance l) + d)"
  shows "rexl.moves d s (set_loans k (fmupd n l' (loans k s)) s)"
proof -
  let ?X = "rex_net s - amount (ln_balance l)"
  have "rex_net (set_loans k (fmupd n l' (loans k s)) s) = ?X + amount (ln_balance l')"
    using assms(1) by (simp add: loans_moves table_sum_upd)
  then show ?thesis using i64_addL_cong [OF assms(2), of ?X] by (simp add: rexl.moves_def)
qed

lemma fund_rex_loan_books: "fund_rex_loan E k from n a s = Inr t \<Longrightarrow> rexl.moves 0 s t"
proof -
  assume "fund_rex_loan E k from n a s = Inr t"
  then obtain s1 l where 1: "transfer_from_fund E from a s = Inr s1"
    and l: "fmlookup (loans k s1) n = Some l"
    and t: "t = set_loans k (fmupd n (l\<lparr>ln_balance :=
       set_amount (i64 (amount (ln_balance l) + amount a)) (ln_balance l)\<rparr>) (loans k s1)) s1"
    by (auto simp: fund_rex_loan_def res_simps)
  have "rexl.moves (amount a) s1 t" unfolding t by (rule loan_row_moves [OF l]) simp
  with transfer_from_fund_moves [OF 1] show ?thesis using rexl.moves_trans by fastforce
qed

lemma defund_rex_loan_books: "defund_rex_loan E k from n a s = Inr t \<Longrightarrow> rexl.moves 0 s t"
proof -
  assume "defund_rex_loan E k from n a s = Inr t"
  then obtain l where l: "fmlookup (loans k s) n = Some l"
    and 1: "transfer_to_fund from a (set_loans k (fmupd n (l\<lparr>ln_balance :=
       set_amount (i64 (amount (ln_balance l) - amount a)) (ln_balance l)\<rparr>) (loans k s)) s) = Inr t"
    by (auto simp: defund_rex_loan_def res_simps)
  have "rexl.moves (- amount a) s (set_loans k (fmupd n (l\<lparr>ln_balance :=
       set_amount (i64 (amount (ln_balance l) - amount a)) (ln_balance l)\<rparr>) (loans k s)) s)"
    by (rule loan_row_moves [OF l]) simp
  with transfer_to_fund_moves [OF 1] show ?thesis using rexl.moves_trans by fastforce
qed

lemma rent_rex_books:
  assumes b: "books_ok E s" and ok: "rent_rex E k from receiver a fund s = Inr (n, t)"
  shows "rexl.moves 0 s t"
proof -
  note A = conjunct1 [OF b [unfolded books_ok_def]]
  have clk: "clock_ok E" using b by (simp add: books_ok_def)
  from ok show ?thesis
    unfolding rent_rex_def core_symbol_eq_Inr check_eq_Inr bindR_eq_Inr fetch_eq_Inr Let_def
  proof (elim exE conjE)
    fix s1 m both s2 p n' s3 p3 st
    assume 1: "runrex E 2 s = Inr s1" and pay: "0 < amount a"
      and both: "aa_plus (e_assets E) a fund = Inr both" and 2: "transfer_from_fund E from both s1 = Inr s2"
      and 3: "add_loan_to_rex_pool E a n' True s2 = Inr s3"
      and new: "fmlookup (loans k s3) (loan_num p3) = None"
    let ?l = "\<lparr>ln_from = from, ln_receiver = receiver, payment = a, ln_balance = fund,
           total_staked = st, ln_num = loan_num p3, expiration = i64 (e_now E + thirty_days)\<rparr>"
    assume "Inr (n', emit (Rent_result st) (set_loans k (fmupd (loan_num p3) ?l (loans k s3)) s3)) = Inr (n, t)"
    then have t: "t = emit (Rent_result st) (set_loans k (fmupd (loan_num p3) ?l (loans k s3)) s3)" by simp
    note r1 = runrex_moves [OF b 1]
    have r2: "rexl.moves (- amount both) s1 s2" by (rule transfer_from_fund_moves [OF 2])
    have "running E s2" using r1 running_funds [OF transfer_from_fund_same [OF 2]] by simp
    note r3 = add_loan_moves [OF A clk 3 pay this]
    have "rexl.moves (amount fund) s3 (set_loans k (fmupd (loan_num p3) ?l (loans k s3)) s3)"
      using new by (intro rexl.moves_eq) (simp add: loans_moves table_sum_upd)
    then have r4: "rexl.moves (amount fund) s3 t"
      using emit_moves_0 [of "Rent_result st"] unfolding t by (simp add: msg_in_def rexl.moves_trans_0)
    have "amount both = amount a + amount fund" using asset_laws.plus_amount [OF A both] .
    moreover have "rexl.moves (- amount both + amount a + amount fund) s t"
      using rexl.moves_trans [OF rexl.moves_trans [OF rexl.moves_0_trans [OF conjunct1 [OF r1] r2]
        conjunct1 [OF r3]] r4] .
    ultimately show ?thesis by simp
  qed
qed

lemma rent_books:
  assumes b: "books_ok E s" and ok: "rent E k from receiver a fund s = Inr t"
  shows "rexl.moves 0 s t"
proof -
  obtain n s1 where 1: "rent_rex E k from receiver a fund s = Inr (n, s1)"
    and 2: "limits_delta E k receiver n s1 = Inr t"
    using ok by (auto simp: rent_def res_simps)
  show ?thesis
    using rent_rex_books [OF b 1] same_but_quotas_moves [OF limits_delta_same [OF 2]]
    by (rule rexl.moves_trans_0)
qed

section \<open>Purchases\<close>

text \<open>
  The range of a purchase: the pool has room for the tokens and the REX. A purchase from a pool
  whose REX has all been sold replaces the lendable tokens by the payment: what was released to the
  pool in the meantime is \<open>overwritten\<close> and belongs to nobody afterwards.
\<close>

definition overwritten :: "chain \<Rightarrow> int" where
  "overwritten s =
     (case rexpool s of None \<Rightarrow> 0 | Some p \<Rightarrow> if amount (total_rex p) \<le> 0 then amount (total_lendable p) else 0)"

definition buy_range :: "int \<Rightarrow> chain \<Rightarrow> bool" where
  "buy_range n s \<longleftrightarrow> 0 < n \<and> n * 10000 \<le> i64_max \<and>
     (rexpool s = None \<longrightarrow> table_sum wanted (rexorders s) \<le> 0) \<and>
     (\<forall>p. rexpool s = Some p \<longrightarrow> 0 < amount (total_rex p) \<longrightarrow>
        pool_range n p \<and> amount (total_lendable p) + n \<le> max_amount)"

lemma buy_range_fields:
  "rexpool t = rexpool s \<Longrightarrow> rexorders t = rexorders s \<Longrightarrow> buy_range n t = buy_range n s"
  by (simp add: buy_range_def)

lemma overwritten_fields: "rexpool t = rexpool s \<Longrightarrow> overwritten t = overwritten s"
  by (simp add: overwritten_def)

lemma add_to_rex_pool_Inr:
  assumes "add_to_rex_pool E pay s = Inr (r, t)"
  obtains q where "t = s\<lparr>rexpool := Some q\<rparr>" "rexpool s = None" "total_lendable q = pay"
      "amount (total_rex q) = i64 (amount pay * rex_ratio)"
    | p q where "t = s\<lparr>rexpool := Some q\<rparr>" "rexpool s = Some p"
      "grow_rex_pool (amount pay) p = Inr (amount r, q)"
  using assms unfolding add_to_rex_pool_def core_symbol_eq_Inr
  by (cases "rexpool s") (auto simp: res_simps Let_def)

lemma add_to_rex_pool_moves:
  assumes A: "asset_laws (e_assets E)" and ok: "add_to_rex_pool E a s = Inr (r, t)"
    and rng: "buy_range (amount a) s" and q: "queue_ok s"
  shows "rexl.moves (amount a - overwritten s) s t \<and> queue_ok t"
proof -
  have a: "0 < amount a" "amount a * 10000 \<le> i64_max" using rng by (simp_all add: buy_range_def)
  then have ia: "i64 (amount a * rex_ratio) = amount a * 10000" "i64 (amount a) = amount a"
    by (simp_all add: i64_id rex_ratio_def i64_max_def)
  have am: "amount a \<le> max_amount" using a by (simp add: i64_max_def max_amount_def)
  from ok show ?thesis
  proof (cases rule: add_to_rex_pool_Inr)
    case (1 p)
    then have "rex_net t = rex_net s + (amount a - overwritten s)"
      by (simp add: rex_net_def rex_assets_def overwritten_def)
    moreover have "queue_ok t" using q rng a am 1
      by (auto simp: queue_ok_def pool_size_ok_def ia buy_range_def)
    ultimately show ?thesis by (simp add: rexl.moves_eq)
  next
    case (2 p p')
    show ?thesis
    proof (cases "amount (total_rex p) \<le> 0")
      case True
      then have p': "amount (total_lendable p') = amount a" "amount (total_rex p') = amount a * 10000"
        using 2(3) by (auto simp: grow_rex_pool_def Let_def ia)
      then have "rex_net t = rex_net s + (amount a - overwritten s)"
        using 2 True by (simp add: rex_net_def rex_assets_def overwritten_def)
      moreover have "queue_ok t" using q a am 2 p' True
        by (auto simp: queue_ok_def pool_size_ok_def)
      ultimately show ?thesis by (simp add: rexl.moves_eq)
    next
      case False
      then have pr: "pool_range (amount a) p" "amount (total_lendable p) + amount a \<le> max_amount"
        using rng 2(2) by (simp_all add: buy_range_def)
      note g = grow_rex_pool_range [OF 2(3) pr(1)]
      have "rex_net t = rex_net s + (amount a - overwritten s)"
        using 2 g(1) False by (simp add: rex_net_def rex_assets_def overwritten_def)
      moreover have "amount (total_rex p') \<le> i64_max" using g(2) pr(1) by (simp add: pool_range_def)
      then have "queue_ok t" using q a 2 g(1,2,3,4) pr(2)
        by (auto simp: queue_ok_def pool_size_ok_def)
      ultimately show ?thesis by (simp add: rexl.moves_eq)
    qed
  qed
qed

lemma add_to_rex_balance_same:
  assumes "add_to_rex_balance E owner a r s = Inr (d, t)"
  shows "t = s\<lparr>rexbalance := rexbalance t\<rparr>"
  using assms unfolding add_to_rex_balance_def core_symbol_eq_Inr bindR_eq_Inr split_paired_Ex prod.case
  by (elim exE conjE) auto

lemma books_ok_step:
  assumes "books_ok E s" "pool_ok t" "queue_ok t" "rexretpool t = rexretpool s"
    "rexretbuckets t = rexretbuckets s" "\<And>k. loans k t = loans k s"
  shows "books_ok E t"
  using assms(1-3,6) unfolding books_ok_def returns_ok_def returns_bounded_def loans_ok_def assms(4,5) by simp

lemma loans_fields:
  "cpu_loans t = cpu_loans s \<Longrightarrow> net_loans t = net_loans s \<Longrightarrow> loans k t = loans k s"
  by (cases k) (simp_all add: loans_def)

text \<open>What follows the purchase itself in \<open>buyrex\<close> and \<open>unstaketorex\<close>.\<close>

lemma after_purchase:
  assumes b: "books_ok E s" and rng: "buy_range (amount a) s"
    and 1: "add_to_rex_pool E a s = Inr (r, s1)" and 2: "add_to_rex_balance E owner a' r s1 = Inr (d, s2)"
    and 3: "runrex E 2 s2 = Inr s3" and 4: "update_rex_account E owner 0 n f s3 = Inr (m, s4)"
  shows "rexl.moves (amount a - overwritten s) s (emit (Buy_result r) s4)"
proof -
  have A: "asset_laws (e_assets E)" "queue_ok s" using b by (simp_all add: books_ok_def)
  note m1 = add_to_rex_pool_moves [OF A(1) 1 rng A(2)]
  have s1: "\<exists>p. s1 = s\<lparr>rexpool := p\<rparr>" using 1 by (rule add_to_rex_pool_Inr) blast+
  obtain bb where s2: "s2 = s1\<lparr>rexbalance := bb\<rparr>" using add_to_rex_balance_same [OF 2] by blast
  have "rexl.moves 0 s1 s2" unfolding s2 by (intro rexl.moves_eq) (simp add: rex_net_def rex_assets_def)
  then have m2: "rexl.moves (amount a - overwritten s) s s2" using m1 rexl.moves_trans_0 by blast
  have "pool_ok s1" using add_to_rex_pool_ok [OF A(1) 1] rng
    by (simp add: buy_range_def in_i64_def i64_max_def)
  then have "books_ok E s2" using s1 m1 queue_ok_fields [of s2 s1]
    by (intro books_ok_step [OF b]) (auto simp: s2 pool_ok_def intro: loans_fields)
  note m3 = runrex_moves [OF this 3]
  have "rexl.moves 0 s3 s4"
    using 4 m3 by (intro update_rex_account_moves [OF queue_ok_row]) (auto simp: max_amount_def)
  moreover have "rexl.moves 0 s4 (emit (Buy_result r) s4)" by (rule emit_moves_0) (simp add: msg_in_def)
  ultimately show ?thesis using m2 m3 by (meson rexl.moves_trans_0)
qed

lemma buyrex_books:
  assumes b: "books_ok E s" and rng: "buy_range (amount a) s" and ok: "buyrex E owner a s = Inr t"
  shows "rexl.moves (- overwritten s) s t"
  using ok unfolding buyrex_def require_auth_eq_Inr core_symbol_eq_Inr check_eq_Inr bindR_eq_Inr
    check_voting_requirement_def split_paired_Ex prod.case sum.inject
proof (elim exE conjE)
  fix s1 r s2 d s3 s4 n s5
  assume 1: "transfer_from_fund E owner a s = Inr s1" and r: "add_to_rex_pool E a s1 = Inr (r, s2)"
    "add_to_rex_balance E owner a r s2 = Inr (d, s3)" "runrex E 2 s3 = Inr s4"
    "update_rex_account E owner 0 (amount d) False s4 = Inr (n, s5)" and t: "emit (Buy_result r) s5 = t"
  obtain f where s1: "s1 = s\<lparr>rexfunds := f\<rparr>" using transfer_from_fund_same [OF 1] by blast
  have "books_ok E s1" using b queue_ok_fields [of s1 s]
    by (intro books_ok_step [OF b]) (auto simp: s1 books_ok_def pool_ok_def intro: loans_fields)
  moreover have "buy_range (amount a) s1" using rng buy_range_fields [of s1 s] by (simp add: s1)
  moreover have "overwritten s1 = overwritten s" by (rule overwritten_fields) (simp add: s1)
  ultimately have "rexl.moves (amount a - overwritten s) s1 t" using after_purchase r t by metis
  with transfer_from_fund_moves [OF 1] show ?thesis using rexl.moves_trans by fastforce
qed

lemma unstaketorex_books:
  assumes b: "books_ok E s" and rng: "buy_range (amount from_net + amount from_cpu) s"
    and ok: "unstaketorex E owner receiver from_net from_cpu s = Inr t"
  shows "rexl.moves (- overwritten s) s t"
  using ok unfolding unstaketorex_def require_auth_eq_Inr core_symbol_eq_Inr check_eq_Inr bindR_eq_Inr
    check_voting_requirement_def fetch_eq_Inr Let_def split_paired_Ex prod.case sum.inject
proof (elim exE conjE)
  fix d n c s2 pay r s3 dd s4 s5 m s6 db
  let ?t = "Transfer [stake_account] stake_account rex_account pay"
  assume 1: "update_resource_limits E receiver n c (s\<lparr>delband := db\<rparr>) = Inr s2"
    and pay: "aa_plus (e_assets E) from_net from_cpu = Inr pay"
    and r: "add_to_rex_pool E pay (emit ?t s2) = Inr (r, s3)"
    "add_to_rex_balance E owner pay r s3 = Inr (dd, s4)" "runrex E 2 s4 = Inr s5"
    "update_rex_account E owner 0 0 True s5 = Inr (m, s6)" and t: "emit (Buy_result r) s6 = t"
  let ?s1 = "s\<lparr>delband := db\<rparr>"
  have q: "same_but_quotas ?s1 s2" by (rule update_resource_limits_same [OF 1])
  have A: "amount pay = amount from_net + amount from_cpu"
    using b pay asset_laws.plus_amount by (auto simp: books_ok_def)
  have f: "rexpool s2 = rexpool s" "rexorders s2 = rexorders s" "rexretpool s2 = rexretpool s"
    "rexretbuckets s2 = rexretbuckets s" "loans k s2 = loans k s" for k
    using same_but_quotas_fields [OF q] by (auto intro: loans_fields)
  have "books_ok E (emit ?t s2)" using b queue_ok_fields [of "emit ?t s2" s]
    by (intro books_ok_step [OF b]) (auto simp: f books_ok_def pool_ok_def)
  moreover have "buy_range (amount pay) (emit ?t s2)"
    using rng buy_range_fields [of "emit ?t s2" s] by (simp add: f A)
  moreover have "overwritten (emit ?t s2) = overwritten s" by (rule overwritten_fields) (simp add: f)
  ultimately have 2: "rexl.moves (amount pay - overwritten s) (emit ?t s2) t" using after_purchase r t by metis
  have "rexl.moves 0 s ?s1" by (rule rexl.moves_eq) (simp add: rex_net_def rex_assets_def)
  then have "rexl.moves 0 s s2" using same_but_quotas_moves [OF q] by (rule rexl.moves_0_trans)
  moreover have "rexl.moves (- amount pay) s2 (emit ?t s2)"
    using emit_moves [of ?t s2] by (simp add: stake_account_def rex_account_def)
  ultimately have "rexl.moves (- amount pay) s (emit ?t s2)" by (rule rexl.moves_0_trans)
  with 2 show ?thesis using rexl.moves_trans by fastforce
qed

section \<open>The other actions\<close>

lemma rexbalance_moves: "rexl.moves 0 s (s\<lparr>rexbalance := b\<rparr>)"
  by (rule rexl.moves_eq) (simp add: rex_net_def rex_assets_def)

lemma modify_rex_moves: "modify_rex owner f s = Inr t \<Longrightarrow> rexl.moves 0 s t"
  by (auto simp: modify_rex_def res_simps rexbalance_moves)

lemma update_rex_account_0:
  assumes "queue_ok s" "update_rex_account E owner 0 n b s = Inr (m, t)"
  shows "rexl.moves 0 s t"
  using assms(2) by (intro update_rex_account_moves [OF queue_ok_row [OF assms(1)]]) (simp_all add: max_amount_def)

lemma queue_ok_rexbalance [simp]: "queue_ok (s\<lparr>rexbalance := b\<rparr>) = queue_ok s"
  by (rule queue_ok_fields) simp_all

lemma updaterex_books:
  assumes b: "books_ok E s" and ok: "updaterex E owner s = Inr t"
  shows "rexl.moves 0 s t"
  using ok unfolding updaterex_def require_auth_eq_Inr core_symbol_eq_Inr check_eq_Inr bindR_eq_Inr
    fetch_eq_Inr Let_def split_paired_Ex prod.case
proof (elim exE conjE)
  fix s1 rb rb' d n s3
  assume 1: "runrex E 2 s = Inr s1"
    and 2: "update_rex_account E owner 0 (amount d) True (s1\<lparr>rexbalance := fmupd owner rb' (rexbalance s1)\<rparr>) =
      Inr (n, s3)" and 3: "modify_rex owner (process_rex_maturities E) s3 = Inr t"
  note r = runrex_moves [OF b 1]
  then have "rexl.moves 0 s (s1\<lparr>rexbalance := fmupd owner rb' (rexbalance s1)\<rparr>)"
    using rexbalance_moves rexl.moves_trans_0 by blast
  moreover have "rexl.moves 0 (s1\<lparr>rexbalance := fmupd owner rb' (rexbalance s1)\<rparr>) s3"
    using r by (intro update_rex_account_0 [OF _ 2]) simp
  ultimately show ?thesis using modify_rex_moves [OF 3] by (meson rexl.moves_trans_0)
qed

lemma consolidate_books:
  assumes b: "books_ok E s" and ok: "consolidate E owner s = Inr t"
  shows "rexl.moves 0 s t"
proof -
  obtain s1 n s2 where 1: "runrex E 2 s = Inr s1" and 2: "update_rex_account E owner 0 0 False s1 = Inr (n, s2)"
    and 3: "modify_rex owner (consolidate_rex_balance E n) s2 = Inr t"
    using ok by (auto simp: consolidate_def res_simps)
  note r = runrex_moves [OF b 1]
  then show ?thesis using update_rex_account_0 [OF _ 2] modify_rex_moves [OF 3] by (meson rexl.moves_trans_0)
qed

lemma mvtosavings_books:
  assumes b: "books_ok E s" and ok: "mvtosavings E owner rex s = Inr t"
  shows "rexl.moves 0 s t"
proof -
  obtain s1 n s2 bb where 1: "runrex E 2 s = Inr s1" and 2: "update_rex_account E owner 0 0 False s1 = Inr (n, s2)"
    and t: "t = s2\<lparr>rexbalance := bb\<rparr>"
    using ok by (auto simp: mvtosavings_def res_simps Let_def split_beta)
  note r = runrex_moves [OF b 1]
  then show ?thesis using update_rex_account_0 [OF _ 2] rexbalance_moves [of s2 bb] t by (meson rexl.moves_trans_0)
qed

lemma mvfrsavings_books:
  assumes b: "books_ok E s" and ok: "mvfrsavings E owner rex s = Inr t"
  shows "rexl.moves 0 s t"
proof -
  obtain s1 n bb where 1: "runrex E 2 s = Inr s1"
    and 2: "update_rex_account E owner 0 0 False (s1\<lparr>rexbalance := bb\<rparr>) = Inr (n, t)"
    using ok by (auto simp: mvfrsavings_def res_simps Let_def split_beta)
  note r = runrex_moves [OF b 1]
  then have "rexl.moves 0 s (s1\<lparr>rexbalance := bb\<rparr>)" using rexbalance_moves rexl.moves_trans_0 by blast
  moreover have "rexl.moves 0 (s1\<lparr>rexbalance := bb\<rparr>) t"
    using r by (intro update_rex_account_0 [OF _ 2]) simp
  ultimately show ?thesis by (rule rexl.moves_trans_0)
qed

lemma closerex_books:
  assumes b: "books_ok E s" and ok: "closerex E owner s = Inr t"
  shows "rexl.moves 0 s t"
proof -
  define close where "close = (\<lambda>s2. if (\<forall>k \<in> {Cpu, Net}. \<forall>(n, l) \<in> set (rows (loans k s2)). ln_from l \<noteq> owner) \<and>
      (case fmlookup (rexfunds s2) owner of None \<Rightarrow> False | Some f \<Rightarrow> amount (rf_balance f) = 0)
    then s2\<lparr>rexfunds := fmdrop owner (rexfunds s2)\<rparr> else s2)"
  have "require_auth E owner (
     bindR (if rex_system_initialized s then runrex E 2 s else Inr s) (\<lambda>s1.
     bindR (update_rex_account E owner 0 0 False s1) (\<lambda>(n, s2).
     case fmlookup (rexbalance (close s2)) owner of
       None \<Rightarrow> Inr (close s2)
     | Some rb \<Rightarrow> check (amount (rex_amount rb) = 0) (Rex Remaining_rex_balance) (
         Inr ((close s2)\<lparr>rexbalance := fmdrop owner (rexbalance (close s2))\<rparr>))))) = Inr t"
    using ok unfolding closerex_def Let_def close_def by simp
  then obtain s1 n s2 where 1: "(if rex_system_initialized s then runrex E 2 s else Inr s) = Inr s1"
    and 2: "update_rex_account E owner 0 0 False s1 = Inr (n, s2)"
    and t: "t = close s2 \<or> t = (close s2)\<lparr>rexbalance := fmdrop owner (rexbalance (close s2))\<rparr>"
    by (auto simp: res_simps split: option.splits)
  have "queue_ok s" using b by (simp add: books_ok_def)
  then have "rexl.moves 0 s s1 \<and> queue_ok s1" using 1 runrex_moves [OF b] by (auto split: if_splits)
  then have m: "rexl.moves 0 s s2" using update_rex_account_0 [OF _ 2] by (meson rexl.moves_trans_0)
  have "rexl.moves 0 s2 (close s2)"
    by (rule rexl.moves_eq)
      (auto simp: close_def rex_net_def rex_assets_def table_sum_drop row_val_def split: option.splits)
  with m have "rexl.moves 0 s (close s2)" by (rule rexl.moves_trans_0)
  then show ?thesis using t rexbalance_moves rexl.moves_trans_0 by blast
qed

lemma cnclrexorder_books: "cnclrexorder E owner s = Inr t \<Longrightarrow> rexl.moves 0 s t"
  by (auto simp: cnclrexorder_def res_simps rex_net_def rex_assets_def table_sum_drop collectable_def
      intro!: rexl.moves_eq)

lemma setrex_books: "setrex E bal s = Inr t \<Longrightarrow> rexl.moves 0 s t"
  by (auto simp: setrex_def res_simps rex_net_def rex_assets_def intro!: rexl.moves_eq)

end
