(* ===== verification/RexSupply.thy ===== *)
theory RexSupply
  imports RexBooks
begin

text \<open>
  The exchange as a whole: one function that runs any of its actions, and two books that every
  sequence of actions keeps. The REX that the pool has issued is the REX of all balances; and what
  the exchange owes changes only by what \<open>eosio.rex\<close> receives and pays (\<open>RexBooks\<close>).
\<close>

section \<open>The REX issued and held\<close>

definition rex_issued :: "chain \<Rightarrow> int" where
  "rex_issued s = (case rexpool s of None \<Rightarrow> 0 | Some p \<Rightarrow> amount (total_rex p))"

definition rex_held :: "chain \<Rightarrow> int" where
  "rex_held s = table_sum (\<lambda>rb. amount (rex_amount rb)) (rexbalance s)"

definition rex_gap :: "chain \<Rightarrow> int" where
  "rex_gap s = rex_issued s - rex_held s"

lemmas rex_gaps = rex_gap_def rex_issued_def rex_held_def

interpretation gapl: ledger rex_gap
proof
  fix t s assume "without_votes t = without_votes s"
  note f = without_votes_fields [OF this]
  show "rex_gap t = rex_gap s" by (simp add: rex_gaps f)
qed

text \<open>No REX is issued or held by anyone else, and no sell order is new or changed.\<close>

definition orders_kept :: "chain \<Rightarrow> chain \<Rightarrow> bool" where
  "orders_kept s t \<longleftrightarrow> (\<forall>a o'. fmlookup (rexorders t) a = Some o' \<longrightarrow> fmlookup (rexorders s) a = Some o')"

definition same_rex :: "chain \<Rightarrow> chain \<Rightarrow> bool" where
  "same_rex s t \<longleftrightarrow> rex_issued t = rex_issued s \<and> rexbalance t = rexbalance s \<and> orders_kept s t"

lemma same_rex_refl [simp]: "same_rex s s"
  by (simp add: same_rex_def orders_kept_def)

lemma same_rex_trans: "same_rex s t \<Longrightarrow> same_rex t u \<Longrightarrow> same_rex s u"
  by (auto simp: same_rex_def orders_kept_def)

lemma same_rex_moves: "same_rex s t \<Longrightarrow> gapl.moves 0 s t"
  by (rule gapl.moves_eq) (simp add: same_rex_def rex_gap_def rex_held_def)

lemma same_rex_fields:
  "rexpool t = rexpool s \<Longrightarrow> rexbalance t = rexbalance s \<Longrightarrow> rexorders t = rexorders s \<Longrightarrow> same_rex s t"
  by (simp add: same_rex_def orders_kept_def rex_issued_def)

lemma same_rex_drop: "same_rex s (s\<lparr>rexorders := fmdrop a (rexorders s)\<rparr>)"
  by (simp add: same_rex_def orders_kept_def rex_issued_def)

section \<open>What leaves the REX alone\<close>

lemma update_rex_pool_rex: "update_rex_pool E s = Inr t \<Longrightarrow> same_rex s t"
  by (erule update_rex_pool_Inr)
    (auto simp: release_to_pool_def res_simps Let_def same_rex_def orders_kept_def rex_issued_def split: if_splits)

lemma add_to_rex_return_pool_rex: "add_to_rex_return_pool E fee s = Inr t \<Longrightarrow> same_rex s t"
  by (erule add_to_rex_return_pool_Inr)
    (auto dest!: update_rex_pool_rex simp: same_rex_def orders_kept_def rex_issued_def)

lemma channel_to_rex_rex: "channel_to_rex E a fee s = Inr t \<Longrightarrow> same_rex s t"
  by (auto simp: channel_to_rex_def res_simps same_rex_def orders_kept_def rex_issued_def dest!: add_to_rex_return_pool_rex split: if_splits)

lemma channel_namebids_rex: "channel_namebids E s = Inr t \<Longrightarrow> same_rex s t"
  by (auto simp: channel_namebids_def res_simps same_rex_def orders_kept_def rex_issued_def dest!: channel_to_rex_rex split: if_splits)

lemma remove_loan_rex: "remove_loan_from_rex_pool l s = Inr t \<Longrightarrow> same_rex s t"
  by (auto simp: remove_loan_from_rex_pool_def res_simps Let_def same_rex_def orders_kept_def rex_issued_def)

lemma add_loan_rex: "add_loan_to_rex_pool E a n b s = Inr t \<Longrightarrow> same_rex s t"
  by (auto simp: add_loan_to_rex_pool_def res_simps lend_from_pool_def Let_def same_rex_def orders_kept_def rex_issued_def
      dest!: add_to_rex_return_pool_rex)

lemma set_loans_rex [simp]: "same_rex s (set_loans k l t) = same_rex s t"
  by (cases k) (simp_all add: set_loans_def same_rex_def orders_kept_def rex_issued_def)

lemma fund_transfers_rex:
  "transfer_to_fund a q s = Inr t \<Longrightarrow> same_rex s t" "transfer_from_fund E a q s = Inr t \<Longrightarrow> same_rex s t"
proof -
  show "same_rex s t" if "transfer_to_fund a q s = Inr t"
    by (subst transfer_to_fund_same [OF that]) (simp add: same_rex_fields)
  show "same_rex s t" if "transfer_from_fund E a q s = Inr t"
    by (subst transfer_from_fund_same [OF that]) (simp add: same_rex_fields)
qed

lemma limits_delta_rex: "limits_delta E k a n s = Inr t \<Longrightarrow> same_rex s t"
  using same_but_quotas_fields [OF limits_delta_same] by (intro same_rex_fields) simp_all

lemma voting_power_rex: "update_voting_power E a n s = Inr t \<Longrightarrow> same_rex s t"
  using without_votes_fields [OF update_voting_power_without_votes] by (intro same_rex_fields) simp_all

lemma update_rex_account_rex:
  assumes "update_rex_account E a f n b s = Inr (m, t)"
  shows "same_rex s t"
proof -
  obtain core f' n' s1 s2 where
    1: "(f', s1) = (case fmlookup (rexorders s) a of None \<Rightarrow> (f, s)
      | Some o' \<Rightarrow> if is_open o' then (f, s)
        else (i64 (f + amount (ro_proceeds o')), s\<lparr>rexorders := fmdrop a (rexorders s)\<rparr>))"
    and 2: "(if 0 < f' then transfer_to_fund a \<lparr>amount = f', asym = core\<rparr> s1 else Inr s1) = Inr s2"
    and 3: "(if b \<or> n' \<noteq> 0 then update_voting_power E a n' s2 else Inr s2) = Inr t"
    using assms by (fastforce simp: update_rex_account_def core_symbol_eq_Inr bindR_eq_Inr Let_def
        split: option.splits if_splits)
  have "same_rex s s1" using 1 by (auto intro: same_rex_drop split: option.splits if_splits)
  moreover have "same_rex s1 s2" using 2 fund_transfers_rex(1) by (cases "0 < f'") auto
  moreover have "same_rex s2 t" using 3 voting_power_rex by (cases "b \<or> n' \<noteq> 0") auto
  ultimately show ?thesis using same_rex_trans by blast
qed

lemma process_expired_loan_rex:
  assumes "process_expired_loan E k n loan s = Inr (del, d, t)"
  shows "same_rex s t"
proof -
  obtain s1 n' R where s1: "remove_loan_from_rex_pool loan s = Inr s1"
    and rest: "(if R then
       bindR (add_loan_to_rex_pool E (payment loan) n' False s1) (\<lambda>s2.
       let (delta_stake, loan') = update_renewed_loan n' loan in
       Inr (False, delta_stake, set_loans k (fmupd n loan' (loans k s2)) s2))
     else
       bindR (if 0 < amount (ln_balance loan) then transfer_to_fund (ln_from loan) (ln_balance loan) s1
         else Inr s1) (\<lambda>s2.
       Inr (True, i64 (- amount (total_staked loan)), s2))) = Inr (del, d, t)"
    using assms by (auto simp: process_expired_loan_def res_simps)
  have "same_rex s1 t"
  proof (cases R)
    case True
    then show ?thesis using rest by (auto simp: res_simps update_renewed_loan_def dest: add_loan_rex)
  next
    case False
    then show ?thesis using rest fund_transfers_rex(1) by (cases "0 < amount (ln_balance loan)") (auto simp: res_simps)
  qed
  then show ?thesis using remove_loan_rex [OF s1] same_rex_trans by blast
qed

lemma process_loans_rex: "process_loans i E k s = Inr t \<Longrightarrow> same_rex s t"
proof (induction i arbitrary: s)
  case (Suc i)
  show ?case
  proof (cases "loans_by_expiration k s = [] \<or> e_now E < expiration (snd (hd (loans_by_expiration k s)))")
    case True
    then show ?thesis using Suc.prems by (auto split: list.splits prod.splits)
  next
    case False
    then obtain n loan rest where nl: "loans_by_expiration k s = (n, loan) # rest"
      by (cases "loans_by_expiration k s") auto
    then obtain del d s1 s2 where 1: "process_expired_loan E k n loan s = Inr (del, d, s1)"
      and 2: "(if d \<noteq> 0 then limits_delta E k (ln_receiver loan) d s1 else Inr s1) = Inr s2"
      and 3: "process_loans i E k (if del then set_loans k (fmdrop n (loans k s2)) s2 else s2) = Inr t"
      using Suc.prems False by (auto simp: res_simps)
    have "same_rex s1 s2" using 2 limits_delta_rex by (cases "d = 0") auto
    then have "same_rex s (if del then set_loans k (fmdrop n (loans k s2)) s2 else s2)"
      using process_expired_loan_rex [OF 1] same_rex_trans by (auto split: if_splits)
    then show ?thesis using Suc.IH [OF 3] same_rex_trans by blast
  qed
qed simp

section \<open>What keeps the REX in step\<close>

lemma i64_diffL_cong: "i64 a = i64 b \<Longrightarrow> i64 (c - a) = i64 (c - b)"
  by (metis i64_diff_i64(2))

lemma i64_gap: "i64 (i64 (a - n) - (b + i64 (c - n) - c)) = i64 (a - b)"
proof -
  have "i64 (b + i64 (c - n) - c) = i64 (b - n)"
    using i64_add_i64(2) [of "b - c" "c - n"] by (simp add: algebra_simps)
  from i64_diffL_cong [OF this, of "a - n"] show ?thesis by simp
qed

lemma row_upd_gap:
  assumes "fmlookup (rexbalance s) a = Some rb" "amount (rex_amount rb') = amount (rex_amount rb)"
  shows "gapl.moves 0 s (s\<lparr>rexbalance := fmupd a rb' (rexbalance s)\<rparr>)"
  using assms by (intro gapl.moves_eq) (simp add: rex_gaps table_sum_upd)

lemma kept_amounts [simp]:
  "rex_amount (process_rex_maturities E rb) = rex_amount rb"
  "rex_amount (snd (read_rex_savings rb)) = rex_amount rb"
  "rex_amount (put_rex_savings n rb) = rex_amount rb"
  "rex_amount (add_rex_maturity E n rb) = rex_amount rb"
  "rex_amount (receive_rex E n rb) = rex_amount rb"
  "rex_amount (consolidate_rex_balance E n rb) = rex_amount rb"
  by (auto simp: process_rex_maturities_def read_rex_savings_def put_rex_savings_def add_rex_maturity_def
      receive_rex_def consolidate_rex_balance_def Let_def split: prod.split)

lemma move_to_savings_amount: "move_to_savings n m rb = Inr rb' \<Longrightarrow> rex_amount rb' = rex_amount rb"
  by (auto simp: move_to_savings_def Let_def res_simps split: prod.splits if_splits)

lemma modify_rex_gap:
  assumes "modify_rex a f s = Inr t" "\<And>rb. rex_amount (f rb) = rex_amount rb"
  shows "gapl.moves 0 s t"
  using assms row_upd_gap by (auto simp: modify_rex_def res_simps)

lemma fill_rex_order_gap:
  assumes A: "asset_laws (e_assets E)" and ok: "fill_rex_order E a rex s = Inr (r, t)"
  shows "gapl.moves 0 s t"
  using A ok
proof (cases rule: fill_rex_order_cases)
  case (filled p q rb stake)
  have "rex_gap t = i64 (amount (total_rex p) - amount rex) -
      (rex_held s + i64 (amount (rex_amount rb) - amount rex) - amount (rex_amount rb))"
    using filled(2) sell_from_pool_Some(3) [OF filled(3)]
    by (simp add: filled(6) rex_gaps table_sum_upd sell_from_balance_def)
  moreover have "rex_gap s = amount (total_rex p) - rex_held s" using filled(1) by (simp add: rex_gap_def rex_issued_def)
  ultimately show ?thesis unfolding gapl.moves_def by (simp only: i64_gap add_0_right)
qed simp

lemma process_order_gap:
  assumes A: "asset_laws (e_assets E)" and ok: "process_order E x s = Inr t"
  shows "gapl.moves 0 s t"
proof -
  obtain k o' where x: "x = (k, o')" by (cases x)
  show ?thesis
  proof (cases "fmlookup (rexbalance s) k")
    case None
    then show ?thesis using ok by (simp add: process_order_def x)
  next
    case (Some rb)
    obtain r s1 where f: "fill_rex_order E k (rex_requested o') s = Inr (r, s1)"
      and t: "t = (if success r then emit (Order_result k (out_proceeds r))
        (s1\<lparr>rexorders := fmupd k (filled_order r o') (rexorders s1)\<rparr>) else s1)"
      using ok [unfolded x] Some by (rule process_order_Inr)
    have "gapl.moves 0 s1 t" unfolding t by (auto simp: rex_gaps intro: gapl.moves_eq)
    then show ?thesis using fill_rex_order_gap [OF A f] gapl.moves_0_trans by blast
  qed
qed

text \<open>Up to the orders at the head of the queue, \<open>runrex\<close> leaves the REX alone.\<close>

lemma runrex_orders:
  assumes "runrex E n s = Inr t"
  obtains s4 where "same_rex s s4"
    "foldR (process_order E) (takeWhile (\<lambda>(k, o'). is_open o') (take n (orders_by_time s4))) s4 = Inr t"
proof -
  obtain s1 s2 s3 s4 where
    1: "update_rex_pool E s = Inr s1" and 2: "channel_namebids E s1 = Inr s2"
    and 3: "process_loans n E Cpu s2 = Inr s3" and 4: "process_loans n E Net s3 = Inr s4"
    and 5: "foldR (process_order E) (takeWhile (\<lambda>(k, o'). is_open o') (take n (orders_by_time s4))) s4 = Inr t"
    using assms unfolding runrex_def check_eq_Inr bindR_eq_Inr by (elim exE conjE)
  have "same_rex s s4"
    using update_rex_pool_rex [OF 1] channel_namebids_rex [OF 2] process_loans_rex [OF 3] process_loans_rex [OF 4]
      same_rex_trans by blast
  then show thesis using 5 that by blast
qed

lemma runrex_gap:
  assumes A: "asset_laws (e_assets E)" and ok: "runrex E n s = Inr t"
  shows "gapl.moves 0 s t"
  using ok
proof (rule runrex_orders)
  fix s4
  assume s: "same_rex s s4"
    and "foldR (process_order E) (takeWhile (\<lambda>(k, o'). is_open o') (take n (orders_by_time s4))) s4 = Inr t"
  then have "gapl.moves 0 s4 t" using process_order_gap [OF A] gapl.foldR_moves by blast
  then show ?thesis using same_rex_moves [OF s] gapl.moves_0_trans by blast
qed

lemma add_to_rex_pool_gap:
  assumes ok: "add_to_rex_pool E a s = Inr (r, t)" and nn: "0 \<le> rex_issued s"
  shows "gapl.moves (amount r) s t"
proof -
  have h: "rex_held t = rex_held s" using ok by (cases rule: add_to_rex_pool_Inr) (simp_all add: rex_held_def)
  have "i64 (rex_issued t) = i64 (rex_issued s + amount r)"
  proof (cases "rexpool s")
    case None
    then show ?thesis using ok by (auto simp: add_to_rex_pool_def res_simps Let_def rex_issued_def)
  next
    case (Some p)
    then obtain n q where g: "grow_rex_pool (amount a) p = Inr (n, q)" and r: "amount r = n"
      and t: "t = s\<lparr>rexpool := Some q\<rparr>"
      using ok by (auto simp: add_to_rex_pool_def res_simps)
    have "i64 (amount (total_rex q)) = i64 (amount (total_rex p) + n)"
      using g nn Some by (auto simp: grow_rex_pool_def res_simps Let_def rex_issued_def split: if_splits)
    then show ?thesis using Some by (simp add: t r rex_issued_def)
  qed
  from i64_add_cong [OF this, of "- rex_held s"] show ?thesis
    by (simp add: gapl.moves_def rex_gap_def h algebra_simps)
qed

lemma add_to_rex_balance_gap:
  assumes "add_to_rex_balance E a pay r s = Inr (d, t)"
  shows "gapl.moves (- amount r) s t"
proof -
  obtain rb where t: "t = s\<lparr>rexbalance := fmupd a (receive_rex E (amount r) rb) (rexbalance s)\<rparr>"
    and rb: "i64 (amount (rex_amount rb)) = i64 (row_val (\<lambda>rb. amount (rex_amount rb)) (rexbalance s) a + amount r)"
    using assms by (cases "fmlookup (rexbalance s) a") (auto simp: add_to_rex_balance_def res_simps Let_def row_val_def)
  have "rex_gap t = rex_gap s + row_val (\<lambda>rb. amount (rex_amount rb)) (rexbalance s) a - amount (rex_amount rb)"
    by (simp add: t rex_gaps table_sum_upd)
  then show ?thesis
    using i64_diffL_cong [OF rb, of "rex_gap s + row_val (\<lambda>rb. amount (rex_amount rb)) (rexbalance s) a"]
    by (simp add: gapl.moves_def)
qed

section \<open>The actions of the exchange\<close>

datatype (plugins only: code size) exchange_action =
    Deposit name asset | Withdraw name asset | Buyrex name asset | Unstaketorex name name asset asset
  | Sellrex name asset | Cnclrexorder name | Rentcpu name name asset asset | Rentnet name name asset asset
  | Fundcpuloan name int asset | Fundnetloan name int asset | Defcpuloan name int asset | Defnetloan name int asset
  | Updaterex name | Setrex asset | Rexexec name nat | Consolidate name | Mvtosavings name asset
  | Mvfrsavings name asset | Closerex name

fun exchange :: "env \<Rightarrow> exchange_action \<Rightarrow> chain \<Rightarrow> error + chain" where
  "exchange E (Deposit a q) s = deposit E a q s"
| "exchange E (Withdraw a q) s = withdraw E a q s"
| "exchange E (Buyrex a q) s = buyrex E a q s"
| "exchange E (Unstaketorex a b n c) s = unstaketorex E a b n c s"
| "exchange E (Sellrex a q) s = sellrex E a q s"
| "exchange E (Cnclrexorder a) s = cnclrexorder E a s"
| "exchange E (Rentcpu a b q f) s = rentcpu E a b q f s"
| "exchange E (Rentnet a b q f) s = rentnet E a b q f s"
| "exchange E (Fundcpuloan a n q) s = fundcpuloan E a n q s"
| "exchange E (Fundnetloan a n q) s = fundnetloan E a n q s"
| "exchange E (Defcpuloan a n q) s = defcpuloan E a n q s"
| "exchange E (Defnetloan a n q) s = defnetloan E a n q s"
| "exchange E (Updaterex a) s = updaterex E a s"
| "exchange E (Setrex q) s = setrex E q s"
| "exchange E (Rexexec a n) s = rexexec E a n s"
| "exchange E (Consolidate a) s = consolidate E a s"
| "exchange E (Mvtosavings a q) s = mvtosavings E a q s"
| "exchange E (Mvfrsavings a q) s = mvfrsavings E a q s"
| "exchange E (Closerex a) s = closerex E a s"

section \<open>Every action keeps the REX in step\<close>

lemma emit_gap: "gapl.moves 0 s (emit m s)"
  by (rule same_rex_moves) (simp add: same_rex_fields)

lemma account_gap: "update_rex_account E a f n b s = Inr (m, t) \<Longrightarrow> gapl.moves 0 s t"
  by (rule same_rex_moves) (rule update_rex_account_rex)

lemma purchase_gap:
  assumes A: "asset_laws (e_assets E)" and nn: "0 \<le> rex_issued s"
    and 1: "add_to_rex_pool E q s = Inr (r, s1)" "add_to_rex_balance E a q' r s1 = Inr (d, s2)" "runrex E 2 s2 = Inr s3"
      "update_rex_account E a 0 n f s3 = Inr (m, s4)"
  shows "gapl.moves 0 s (emit (Buy_result r) s4)"
proof -
  have "gapl.moves 0 s s2"
    using gapl.moves_trans [OF add_to_rex_pool_gap [OF 1(1) nn] add_to_rex_balance_gap [OF 1(2)]] by simp
  then show ?thesis using runrex_gap [OF A 1(3)] account_gap [OF 1(4)] emit_gap by (meson gapl.moves_trans_0)
qed

lemma buyrex_gap:
  assumes A: "asset_laws (e_assets E)" and nn: "0 \<le> rex_issued s" and ok: "buyrex E a q s = Inr t"
  shows "gapl.moves 0 s t"
  using ok unfolding buyrex_def require_auth_eq_Inr core_symbol_eq_Inr check_eq_Inr bindR_eq_Inr
    check_voting_requirement_def split_paired_Ex prod.case sum.inject
proof (elim exE conjE)
  fix s1 r s2 d s3 s4 n s5
  assume 1: "transfer_from_fund E a q s = Inr s1" and r: "add_to_rex_pool E q s1 = Inr (r, s2)"
    "add_to_rex_balance E a q r s2 = Inr (d, s3)" "runrex E 2 s3 = Inr s4"
    "update_rex_account E a 0 (amount d) False s4 = Inr (n, s5)" and t: "emit (Buy_result r) s5 = t"
  note f = fund_transfers_rex(2) [OF 1]
  then have "0 \<le> rex_issued s1" using nn by (simp add: same_rex_def)
  from purchase_gap [OF A this r] show ?thesis using same_rex_moves [OF f] t gapl.moves_trans_0 by blast
qed

lemma unstaketorex_gap:
  assumes A: "asset_laws (e_assets E)" and nn: "0 \<le> rex_issued s"
    and ok: "unstaketorex E a b from_net from_cpu s = Inr t"
  shows "gapl.moves 0 s t"
  using ok unfolding unstaketorex_def require_auth_eq_Inr core_symbol_eq_Inr check_eq_Inr bindR_eq_Inr
    check_voting_requirement_def fetch_eq_Inr Let_def split_paired_Ex prod.case sum.inject
proof (elim exE conjE)
  fix d n c s2 pay r s3 dd s4 s5 m s6 db
  let ?t = "Transfer [stake_account] stake_account rex_account pay"
  assume 1: "update_resource_limits E b n c (s\<lparr>delband := db\<rparr>) = Inr s2"
    and r: "add_to_rex_pool E pay (emit ?t s2) = Inr (r, s3)"
    "add_to_rex_balance E a pay r s3 = Inr (dd, s4)" "runrex E 2 s4 = Inr s5"
    "update_rex_account E a 0 0 True s5 = Inr (m, s6)" and t: "emit (Buy_result r) s6 = t"
  have f: "same_rex s (emit ?t s2)"
    using same_but_quotas_fields [OF update_resource_limits_same [OF 1]] by (intro same_rex_fields) simp_all
  then have "0 \<le> rex_issued (emit ?t s2)" using nn by (simp add: same_rex_def)
  from purchase_gap [OF A this r] show ?thesis using same_rex_moves [OF f] t gapl.moves_trans_0 by blast
qed

lemma queue_order_Inr:
  assumes "queue_order E a rex core s = Inr (n, t)"
  obtains o' where "t = s\<lparr>rexorders := fmupd a o' (rexorders s)\<rparr>"
    "collectable o' = row_val collectable (rexorders s) a"
  using assms by (cases "fmlookup (rexorders s) a") (auto simp: queue_order_def res_simps Let_def collectable_def row_val_def)

lemma sellrex_Inr:
  assumes "sellrex E a rex s = Inr t"
  obtains s1 rb s2 r s3 m s4 s5 rb2 rb5 where "e_auth E a" "runrex E 2 s = Inr s1" "fmlookup (rexbalance s1) a = Some rb"
    "0 < amount rex" "modify_rex a (process_rex_maturities E) s1 = Inr s2" "fill_rex_order E a rex s2 = Inr (r, s3)"
    "update_rex_account E a (amount (out_proceeds r)) (amount (out_stake_change r)) False s3 = Inr (m, s4)"
    "success r \<and> s5 = s4 \<or> (\<exists>core n. queue_order E a rex core s4 = Inr (n, s5))"
    "t = (if success r then emit (Sell_result (out_proceeds r)) s5 else s5)"
    "fmlookup (rexbalance s2) a = Some rb2" "amount rex \<le> matured_rex rb2" "fmlookup (rexbalance s5) a = Some rb5"
    "if success r then s5 = s4 \<and> m \<le> matured_rex rb5
     else \<exists>core n. queue_order E a rex core s4 = Inr (n, s5) \<and> n \<le> matured_rex rb5"
  using assms unfolding sellrex_def require_auth_eq_Inr bindR_eq_Inr fetch_eq_Inr check_eq_Inr core_symbol_eq_Inr
      split_paired_Ex prod.case sum.inject
proof (elim exE conjE)
  fix s1 rb s2 rb2 r s3 m s4 and mk :: exchange_state and pend s5 rb5
  assume 1: "e_auth E a" "runrex E 2 s = Inr s1" "fmlookup (rexbalance s1) a = Some rb" "0 < amount rex"
      "modify_rex a (process_rex_maturities E) s1 = Inr s2" "fill_rex_order E a rex s2 = Inr (r, s3)"
      "update_rex_account E a (amount (out_proceeds r)) (amount (out_stake_change r)) False s3 = Inr (m, s4)"
    and 2: "(if success r then Inr (m, s4) else queue_order E a rex (asym (balance (quote mk))) s4) = Inr (pend, s5)"
    and 3: "(if success r then emit (Sell_result (out_proceeds r)) s5 else s5) = t"
    and 4: "fmlookup (rexbalance s2) a = Some rb2" "amount rex \<le> matured_rex rb2"
      "fmlookup (rexbalance s5) a = Some rb5" and 5: "pend \<le> matured_rex rb5"
  have q: "if success r then s5 = s4 \<and> m \<le> matured_rex rb5
     else \<exists>core n. queue_order E a rex core s4 = Inr (n, s5) \<and> n \<le> matured_rex rb5"
    using 2 5 by (cases "success r") auto
  then have "success r \<and> s5 = s4 \<or> (\<exists>core n. queue_order E a rex core s4 = Inr (n, s5))"
    by (cases "success r") auto
  then show thesis using that [OF 1 _ 3 [symmetric] 4 q] by blast
qed

lemma sellrex_gap:
  assumes A: "asset_laws (e_assets E)" and ok: "sellrex E a rex s = Inr t"
  shows "gapl.moves 0 s t"
  using ok
proof (cases rule: sellrex_Inr)
  case (1 s1 rb s2 r s3 m s4 s5 rb2 rb5)
  have "gapl.moves 0 s4 s5" using 1(8) by (auto elim!: queue_order_Inr simp: rex_gaps intro!: gapl.moves_eq)
  moreover have "gapl.moves 0 s5 t" unfolding 1(9) by (simp add: emit_gap)
  moreover have "gapl.moves 0 s1 s2" by (rule modify_rex_gap [OF 1(5)]) simp
  ultimately show ?thesis
    using runrex_gap [OF A 1(2)] fill_rex_order_gap [OF A 1(6)] account_gap [OF 1(7)] by (meson gapl.moves_trans_0)
qed

lemma rent_gap:
  assumes A: "asset_laws (e_assets E)" and ok: "rent E k a b q f s = Inr t"
  shows "gapl.moves 0 s t"
proof -
  obtain n s1 where 1: "rent_rex E k a b q f s = Inr (n, s1)" and 2: "limits_delta E k b n s1 = Inr t"
    using ok by (auto simp: rent_def res_simps)
  from 1 have "gapl.moves 0 s s1"
    unfolding rent_rex_def core_symbol_eq_Inr check_eq_Inr bindR_eq_Inr fetch_eq_Inr Let_def sum.inject prod.inject
  proof (elim exE conjE)
    fix u s2 n' s3 l j st
    assume u: "runrex E 2 s = Inr u" "transfer_from_fund E a j u = Inr s2" "add_loan_to_rex_pool E q n' True s2 = Inr s3"
      and s1: "emit (Rent_result st) (set_loans k l s3) = s1"
    have "same_rex u (set_loans k l s3)"
      using fund_transfers_rex(2) [OF u(2)] add_loan_rex [OF u(3)] same_rex_trans unfolding set_loans_rex by blast
    then show ?thesis using runrex_gap [OF A u(1)] same_rex_moves emit_gap s1 by (metis gapl.moves_trans_0)
  qed
  then show ?thesis using same_rex_moves [OF limits_delta_rex [OF 2]] by (rule gapl.moves_trans_0)
qed

lemma fund_loans_rex:
  "fund_rex_loan E k a n q s = Inr t \<Longrightarrow> same_rex s t" "defund_rex_loan E k a n q s = Inr t \<Longrightarrow> same_rex s t"
proof -
  show "same_rex s t" if "fund_rex_loan E k a n q s = Inr t"
    using that by (auto simp: fund_rex_loan_def res_simps dest: fund_transfers_rex(2))
  show "same_rex s t" if d: "defund_rex_loan E k a n q s = Inr t"
  proof -
    obtain l where "transfer_to_fund a q (set_loans k l s) = Inr t" using d by (auto simp: defund_rex_loan_def res_simps)
    moreover have "same_rex s (set_loans k l s)" unfolding set_loans_rex by simp
    ultimately show ?thesis using fund_transfers_rex(1) same_rex_trans by blast
  qed
qed

lemma deposit_gap:
  assumes "deposit E a q s = Inr t"
  shows "gapl.moves 0 s t"
proof -
  have "transfer_to_fund a q (emit (Transfer [a] a rex_account q) s) = Inr t"
    using assms by (auto simp: deposit_def res_simps)
  then show ?thesis using emit_gap fund_transfers_rex(1) same_rex_moves by (blast intro: gapl.moves_0_trans)
qed

lemma withdraw_gap:
  assumes "withdraw E a q s = Inr t"
  shows "gapl.moves 0 s t"
proof -
  obtain n s1 s2 where "update_rex_account E a 0 0 False s = Inr (n, s1)" "transfer_from_fund E a q s1 = Inr s2"
    "t = emit (Transfer [rex_account] rex_account a q) s2"
    using assms by (auto simp: withdraw_def res_simps)
  then show ?thesis using account_gap fund_transfers_rex(2) same_rex_moves emit_gap by (metis gapl.moves_trans_0)
qed

lemma updaterex_gap:
  assumes A: "asset_laws (e_assets E)" and ok: "updaterex E a s = Inr t"
  shows "gapl.moves 0 s t"
  using ok unfolding updaterex_def require_auth_eq_Inr core_symbol_eq_Inr check_eq_Inr bindR_eq_Inr
    fetch_eq_Inr Let_def split_paired_Ex prod.case
proof (elim exE conjE)
  fix s1 rb st d n s3
  assume 1: "runrex E 2 s = Inr s1" and rb: "fmlookup (rexbalance s1) a = Some rb"
    and 2: "update_rex_account E a 0 (amount d) True (s1\<lparr>rexbalance := fmupd a (rb\<lparr>vote_stake := st\<rparr>) (rexbalance s1)\<rparr>) =
      Inr (n, s3)" and 3: "modify_rex a (process_rex_maturities E) s3 = Inr t"
  have "gapl.moves 0 s1 (s1\<lparr>rexbalance := fmupd a (rb\<lparr>vote_stake := st\<rparr>) (rexbalance s1)\<rparr>)"
    using rb by (rule row_upd_gap) simp
  moreover have "gapl.moves 0 s3 t" by (rule modify_rex_gap [OF 3]) simp
  ultimately show ?thesis using runrex_gap [OF A 1] account_gap [OF 2] by (meson gapl.moves_trans_0)
qed

lemma consolidate_gap:
  assumes A: "asset_laws (e_assets E)" and ok: "consolidate E a s = Inr t"
  shows "gapl.moves 0 s t"
proof -
  obtain s1 n s2 where 1: "runrex E 2 s = Inr s1" and 2: "update_rex_account E a 0 0 False s1 = Inr (n, s2)"
    and 3: "modify_rex a (consolidate_rex_balance E n) s2 = Inr t"
    using ok by (auto simp: consolidate_def res_simps)
  have "gapl.moves 0 s2 t" by (rule modify_rex_gap [OF 3]) simp
  then show ?thesis using runrex_gap [OF A 1] account_gap [OF 2] by (meson gapl.moves_trans_0)
qed

lemma mvtosavings_gap:
  assumes A: "asset_laws (e_assets E)" and ok: "mvtosavings E a q s = Inr t"
  shows "gapl.moves 0 s t"
proof -
  obtain s1 n s2 rb rb' where 1: "runrex E 2 s = Inr s1" and 2: "update_rex_account E a 0 0 False s1 = Inr (n, s2)"
    and rb: "fmlookup (rexbalance s2) a = Some rb"
    and mv: "move_to_savings (amount q) n (process_rex_maturities E (snd (read_rex_savings rb))) = Inr rb'"
    and t: "t = s2\<lparr>rexbalance := fmupd a (put_rex_savings (i64 (fst (read_rex_savings rb) + amount q)) rb') (rexbalance s2)\<rparr>"
    using ok by (auto simp: mvtosavings_def res_simps Let_def split_beta)
  have "gapl.moves 0 s2 t" unfolding t by (rule row_upd_gap [OF rb]) (simp add: move_to_savings_amount [OF mv])
  then show ?thesis using runrex_gap [OF A 1] account_gap [OF 2] by (meson gapl.moves_trans_0)
qed

lemma mvfrsavings_gap:
  assumes A: "asset_laws (e_assets E)" and ok: "mvfrsavings E a q s = Inr t"
  shows "gapl.moves 0 s t"
proof -
  define received where "received = (\<lambda>rb. put_rex_savings (i64 (fst (read_rex_savings rb) - amount q))
    (add_rex_maturity E (amount q) (process_rex_maturities E (snd (read_rex_savings rb)))))"
  obtain s1 n rb rb' where 1: "runrex E 2 s = Inr s1" and rb: "fmlookup (rexbalance s1) a = Some rb"
    and rb'_def: "rb' = received rb"
    and 2: "update_rex_account E a 0 0 False (s1\<lparr>rexbalance := fmupd a rb' (rexbalance s1)\<rparr>) = Inr (n, t)"
    using ok by (auto simp: mvfrsavings_def res_simps Let_def split_beta received_def)
  have rb': "rex_amount rb' = rex_amount rb" by (simp add: rb'_def received_def)
  have "gapl.moves 0 s1 (s1\<lparr>rexbalance := fmupd a rb' (rexbalance s1)\<rparr>)"
    using rb by (rule row_upd_gap) (simp add: rb')
  then show ?thesis using runrex_gap [OF A 1] account_gap [OF 2] by (meson gapl.moves_trans_0)
qed

lemma if_choice: "(if b then x else y) = y \<or> (if b then x else y) = x"
  by simp

lemma closerex_gap:
  assumes A: "asset_laws (e_assets E)" and ok: "closerex E a s = Inr t"
  shows "gapl.moves 0 s t"
proof -
  obtain s1 n s2 s3 where 1: "(if rex_system_initialized s then runrex E 2 s else Inr s) = Inr s1"
    and 2: "update_rex_account E a 0 0 False s1 = Inr (n, s2)"
    and s3: "s3 = s2 \<or> s3 = s2\<lparr>rexfunds := fmdrop a (rexfunds s2)\<rparr>"
    and t: "(case fmlookup (rexbalance s3) a of None \<Rightarrow> Inr s3
      | Some rb \<Rightarrow> check (amount (rex_amount rb) = 0) (Rex Remaining_rex_balance) (
         Inr (s3\<lparr>rexbalance := fmdrop a (rexbalance s3)\<rparr>))) = Inr t"
    using ok unfolding closerex_def Let_def require_auth_eq_Inr bindR_eq_Inr split_paired_Ex prod.case
    by (elim exE conjE) (rule that, assumption, assumption, rule if_choice, assumption)
  have "gapl.moves 0 s s1" using 1 runrex_gap [OF A] by (cases "rex_system_initialized s") auto
  moreover have "same_rex s2 s3" using s3 by (elim disjE) (simp_all add: same_rex_fields)
  then have "gapl.moves 0 s2 s3" by (rule same_rex_moves)
  moreover have "gapl.moves 0 s3 t"
    using t by (cases "fmlookup (rexbalance s3) a") (auto simp: check_eq_Inr rex_gaps table_sum_drop intro!: gapl.moves_eq)
  ultimately show ?thesis using account_gap [OF 2] by (meson gapl.moves_trans_0)
qed

section \<open>Properties of all actions\<close>

lemma exchange_gap:
  assumes A: "asset_laws (e_assets E)" and nn: "0 \<le> rex_issued s" and ok: "exchange E act s = Inr t"
  shows "gapl.moves 0 s t"
proof (cases act)
  case (Deposit a q) then show ?thesis using ok deposit_gap by simp
next
  case (Withdraw a q) then show ?thesis using ok withdraw_gap by simp
next
  case (Buyrex a q) then show ?thesis using ok buyrex_gap [OF A nn] by simp
next
  case (Unstaketorex a b n c) then show ?thesis using ok unstaketorex_gap [OF A nn] by simp
next
  case (Sellrex a q) then show ?thesis using ok sellrex_gap [OF A] by simp
next
  case (Cnclrexorder a) then show ?thesis using ok by (auto simp: cnclrexorder_def res_simps intro!: same_rex_moves same_rex_drop)
next
  case (Rentcpu a b q f) then show ?thesis using ok rent_gap [OF A] by (simp add: rentcpu_def)
next
  case (Rentnet a b q f) then show ?thesis using ok rent_gap [OF A] by (simp add: rentnet_def)
next
  case (Fundcpuloan a n q) then show ?thesis using ok by (auto simp: fundcpuloan_def require_auth_eq_Inr intro!: same_rex_moves intro: fund_loans_rex)
next
  case (Fundnetloan a n q) then show ?thesis using ok by (auto simp: fundnetloan_def require_auth_eq_Inr intro!: same_rex_moves intro: fund_loans_rex)
next
  case (Defcpuloan a n q) then show ?thesis using ok by (auto simp: defcpuloan_def require_auth_eq_Inr intro!: same_rex_moves intro: fund_loans_rex)
next
  case (Defnetloan a n q) then show ?thesis using ok by (auto simp: defnetloan_def require_auth_eq_Inr intro!: same_rex_moves intro: fund_loans_rex)
next
  case (Updaterex a) then show ?thesis using ok updaterex_gap [OF A] by simp
next
  case (Setrex q) then show ?thesis using ok by (auto simp: setrex_def res_simps rex_gaps intro!: gapl.moves_eq)
next
  case (Rexexec a n) then show ?thesis using ok by (auto simp: rexexec_def require_auth_eq_Inr intro: runrex_gap [OF A])
next
  case (Consolidate a) then show ?thesis using ok consolidate_gap [OF A] by simp
next
  case (Mvtosavings a q) then show ?thesis using ok mvtosavings_gap [OF A] by simp
next
  case (Mvfrsavings a q) then show ?thesis using ok mvfrsavings_gap [OF A] by simp
next
  case (Closerex a) then show ?thesis using ok closerex_gap [OF A] by simp
qed

text \<open>A sequence of actions, each in its environment, and what has to hold before each of them.\<close>

definition exchanges :: "(env \<times> exchange_action) list \<Rightarrow> chain \<Rightarrow> error + chain" where
  "exchanges acts s = foldR (\<lambda>(E, act). exchange E act) acts s"

fun before_each :: "(env \<Rightarrow> exchange_action \<Rightarrow> chain \<Rightarrow> bool) \<Rightarrow> (env \<times> exchange_action) list \<Rightarrow> chain \<Rightarrow> bool" where
  "before_each P [] s = True"
| "before_each P ((E, act) # acts) s \<longleftrightarrow> P E act s \<and> (\<forall>t. exchange E act s = Inr t \<longrightarrow> before_each P acts t)"

lemma exchanges_invariant:
  assumes "exchanges acts s = Inr t" "before_each P acts s"
    and "\<And>E act u v. exchange E act u = Inr v \<Longrightarrow> P E act u \<Longrightarrow> ledger.moves L 0 u v" and L: "ledger L"
  shows "ledger.moves L 0 s t"
  using assms(1,2)
proof (induction acts arbitrary: s)
  case Nil
  then show ?case using ledger.moves_refl [OF L] by (simp add: exchanges_def)
next
  case (Cons x acts)
  obtain E act where x: "x = (E, act)" by (cases x)
  obtain u where u: "exchange E act s = Inr u" "exchanges acts u = Inr t"
    using Cons.prems(1) by (auto simp: exchanges_def x res_simps)
  then show ?case
    using Cons.IH [OF u(2)] Cons.prems(2) assms(3) [OF u(1)] ledger.moves_0_trans [OF L] by (auto simp: x)
qed

text \<open>
  Whatever sequence of its actions the exchange runs, the REX issued by the pool is the REX of
  all balances together, if it was before and the pool never issued a negative amount.
\<close>

theorem rex_issued_is_held:
  assumes "exchanges acts s = Inr t"
    and "before_each (\<lambda>E act u. asset_laws (e_assets E) \<and> 0 \<le> rex_issued u) acts s"
    and "rex_issued s = rex_held s"
  shows "i64 (rex_issued t) = i64 (rex_held t)"
proof -
  have "gapl.moves 0 s t"
    using assms(1,2) by (rule exchanges_invariant) (use exchange_gap in \<open>auto intro: gapl.ledger_axioms\<close>)
  then have "i64 (rex_issued t - rex_held t) = 0" using assms(3) by (simp add: gapl.moves_def rex_gap_def i64_id)
  from i64_addL_cong [of "rex_issued t - rex_held t" 0 "rex_held t"] this show ?thesis by (simp add: i64_id)
qed

section \<open>The tokens of the exchange\<close>

text \<open>A sale asks for no more REX than there is.\<close>

definition sell_range :: "env \<Rightarrow> asset \<Rightarrow> chain \<Rightarrow> bool" where
  "sell_range E rex s \<longleftrightarrow> (\<forall>t p. runrex E 2 s = Inr t \<longrightarrow> rexpool t = Some p \<longrightarrow> amount rex \<le> amount (total_rex p))"

lemma sellrex_books:
  assumes b: "books_ok E s" and rng: "sell_range E rex s" and ok: "sellrex E a rex s = Inr t"
  shows "rexl.moves 0 s t"
  using ok
proof (cases rule: sellrex_Inr)
  case (1 s1 rb s2 r s3 m s4 s5 rb2 rb5)
  have A: "asset_laws (e_assets E)" using b by (simp add: books_ok_def)
  note r1 = runrex_moves [OF b 1(2)]
  obtain bb where s2: "s2 = s1\<lparr>rexbalance := bb\<rparr>" using 1(5) by (auto simp: modify_rex_def res_simps)
  have f: "rexretpool s2 = rexretpool s1" "rexpool s2 = rexpool s1" "loans k s2 = loans k s1" "rexorders s2 = rexorders s1" for k
    by (simp_all add: s2 loans_def split: loan_kind.split)
  have f2: "running E s2" "queue_ok s2"
    using r1 running_fields [OF f(1-3), of E] queue_ok_fields [OF f(4,2)] by simp_all
  note r3 = fill_rex_order_moves [OF A 1(6) f2(1)]
  have sz: "amount rex \<le> amount (total_rex p)" if "rexpool s2 = Some p" for p
    using rng 1(2) that by (simp add: sell_range_def s2)
  have pr: "0 \<le> amount (out_proceeds r)" "amount (out_proceeds r) \<le> max_amount"
    using fill_rex_order_queue [OF A 1(6) f2(2) _ sz] 1(4) by simp_all
  have m4: "rexl.moves (amount (out_proceeds r)) s3 s4"
    using f2(2) r3 by (intro update_rex_account_moves [OF _ pr 1(7)]) (simp add: queue_ok_def)
  have m5: "rexl.moves 0 s4 s5"
    using 1(8)
  proof (elim disjE conjE exE)
    fix core n assume "queue_order E a rex core s4 = Inr (n, s5)"
    then show ?thesis
      by (rule queue_order_Inr) (auto simp: rex_net_def rex_assets_def table_sum_upd intro!: rexl.moves_eq)
  qed simp
  have "rexl.moves 0 s5 t" unfolding 1(9) by (simp add: emit_moves_0 msg_in_def)
  moreover have "rexl.moves 0 s s2" using r1 rexbalance_moves rexl.moves_trans_0 unfolding s2 by blast
  moreover have "rexl.moves 0 s2 s4" using rexl.moves_trans [OF conjunct1 [OF r3] m4] by simp
  ultimately show ?thesis using m5 by (meson rexl.moves_trans_0)
qed

text \<open>What an action needs: the exchange in order, amounts in range, and a user other than \<open>eosio.rex\<close>.\<close>

definition action_ok :: "env \<Rightarrow> exchange_action \<Rightarrow> chain \<Rightarrow> bool" where
  "action_ok E act s \<longleftrightarrow> books_ok E s \<and> (case act of
     Deposit a q \<Rightarrow> a \<noteq> rex_account
   | Withdraw a q \<Rightarrow> a \<noteq> rex_account
   | Buyrex a q \<Rightarrow> buy_range (amount q) s
   | Unstaketorex a b n c \<Rightarrow> buy_range (amount n + amount c) s
   | Sellrex a q \<Rightarrow> sell_range E q s
   | _ \<Rightarrow> True)"

text \<open>What an action takes out of the books: the tokens that a purchase overwrites.\<close>

fun written_off :: "exchange_action \<Rightarrow> chain \<Rightarrow> int" where
  "written_off (Buyrex a q) s = overwritten s"
| "written_off (Unstaketorex a b n c) s = overwritten s"
| "written_off _ s = 0"

lemma exchange_moves:
  assumes ok: "exchange E act s = Inr t" and a: "action_ok E act s"
  shows "rexl.moves (- written_off act s) s t"
proof -
  have b: "books_ok E s" "queue_ok s" using a by (simp_all add: action_ok_def books_ok_def)
  show ?thesis
  proof (cases act)
    case (Deposit x q) then show ?thesis using ok a deposit_books by (simp add: action_ok_def)
  next
    case (Withdraw x q) then show ?thesis using ok a b(2) withdraw_books by (simp add: action_ok_def)
  next
    case (Buyrex x q) then show ?thesis using buyrex_books [OF b(1)] ok a by (auto simp: action_ok_def)
  next
    case (Unstaketorex x y n c) then show ?thesis using unstaketorex_books [OF b(1)] ok a by (auto simp: action_ok_def)
  next
    case (Sellrex x q) then show ?thesis using sellrex_books [OF b(1)] ok a by (auto simp: action_ok_def)
  next
    case (Cnclrexorder x) then show ?thesis using ok cnclrexorder_books by simp
  next
    case (Rentcpu x y q f) then show ?thesis using ok rent_books [OF b(1)] by (simp add: rentcpu_def)
  next
    case (Rentnet x y q f) then show ?thesis using ok rent_books [OF b(1)] by (simp add: rentnet_def)
  next
    case (Fundcpuloan x n q) then show ?thesis using ok by (auto simp: fundcpuloan_def require_auth_eq_Inr intro: fund_rex_loan_books)
  next
    case (Fundnetloan x n q) then show ?thesis using ok by (auto simp: fundnetloan_def require_auth_eq_Inr intro: fund_rex_loan_books)
  next
    case (Defcpuloan x n q) then show ?thesis using ok by (auto simp: defcpuloan_def require_auth_eq_Inr intro: defund_rex_loan_books)
  next
    case (Defnetloan x n q) then show ?thesis using ok by (auto simp: defnetloan_def require_auth_eq_Inr intro: defund_rex_loan_books)
  next
    case (Updaterex x) then show ?thesis using ok updaterex_books [OF b(1)] by simp
  next
    case (Setrex q) then show ?thesis using ok setrex_books by simp
  next
    case (Rexexec x n) then show ?thesis using ok runrex_moves [OF b(1)] by (auto simp: rexexec_def require_auth_eq_Inr)
  next
    case (Consolidate x) then show ?thesis using ok consolidate_books [OF b(1)] by simp
  next
    case (Mvtosavings x q) then show ?thesis using ok mvtosavings_books [OF b(1)] by simp
  next
    case (Mvfrsavings x q) then show ?thesis using ok mvfrsavings_books [OF b(1)] by simp
  next
    case (Closerex x) then show ?thesis using ok closerex_books [OF b(1)] by simp
  qed
qed

section \<open>Witnesses\<close>

text \<open>A voter deposits tokens and buys REX with half of them, in a chain without a pool yet.\<close>

definition rex_story :: "(env \<times> exchange_action) list" where
  "rex_story = [(sample_env, Deposit 1 (sys 100000)), (sample_env, Buyrex 1 (sys 50000))]"

lemma rex_story:
  obtains t where "exchanges rex_story proxied_chain = Inr t" "0 < rex_issued t"
proof -
  have "case exchanges rex_story proxied_chain of Inr t \<Rightarrow> 0 < rex_issued t | Inl _ \<Rightarrow> False" by code_simp
  then show thesis by (auto split: sum.splits intro: that)
qed

lemma proxied_chain_rex:
  "rexpool proxied_chain = None" "rexretpool proxied_chain = None" "loans k proxied_chain = fmempty"
  "rexorders proxied_chain = fmempty" "rexbalance proxied_chain = fmempty"
  by (simp_all add: proxied_chain_def sample_chain_def initial_chain_def loans_def split: loan_kind.split)

lemma deposited:
  assumes "exchange E (Deposit a q) s = Inr t"
  shows "rexpool t = rexpool s" "rexretpool t = rexretpool s" "loans k t = loans k s" "rexorders t = rexorders s"
    "rexbalance t = rexbalance s"
proof -
  obtain f where "t = (emit (Transfer [a] a rex_account q) s)\<lparr>rexfunds := f\<rparr>"
    using assms by (auto simp: deposit_def transfer_to_fund_def res_simps Let_def)
  then show "rexpool t = rexpool s" "rexretpool t = rexretpool s" "loans k t = loans k s" "rexorders t = rexorders s"
    "rexbalance t = rexbalance s"
    by (simp_all add: loans_def split: loan_kind.split)
qed

lemma no_pool_books_ok:
  assumes "rexpool s = None" "rexretpool s = None" "\<And>k. loans k s = fmempty" "rexorders s = fmempty"
  shows "books_ok sample_env s"
  using assms sample_laws
  by (simp add: books_ok_def clock_ok_def pool_ok_def returns_ok_def returns_bounded_def loans_ok_def queue_ok_def
      pool_size_ok_def sample_env_def)

theorem rex_issued_is_held_witness:
  "\<exists>t. exchanges rex_story proxied_chain = Inr t \<and> 0 < rex_issued t \<and> i64 (rex_issued t) = i64 (rex_held t)"
proof (rule rex_story)
  fix t assume t: "exchanges rex_story proxied_chain = Inr t" "0 < rex_issued t"
  have "before_each (\<lambda>E act u. asset_laws (e_assets E) \<and> 0 \<le> rex_issued u) rex_story proxied_chain"
    using deposited(1) [of sample_env 1 "sys 100000" proxied_chain] sample_laws
    by (auto simp: rex_story_def rex_issued_def proxied_chain_rex simp del: exchange.simps)
  moreover have "rex_issued proxied_chain = rex_held proxied_chain"
    by (simp add: rex_issued_def rex_held_def proxied_chain_rex)
  ultimately show ?thesis using rex_issued_is_held t by blast
qed

end
