(* ===== verification/RexRows.thy ===== *)
theory RexRows
  imports RexSupply
begin

text \<open>
  The rows of REX balances as exact numbers. \<open>RexBalance\<close> shows that the operations on a row keep
  its total as a 64-bit sum; here no part of a row is negative, nothing wraps, and the operations
  never let an owner's matured REX drop below an open sell order. With that the REX issued by
  the pool is exactly the REX of all rows, and open orders are always covered.
\<close>

section \<open>One row\<close>

text \<open>The matured REX and the buckets of a row are not negative and add up to \<open>n\<close>.\<close>

definition holds :: "int \<Rightarrow> rex_balance \<Rightarrow> bool" where
  "holds n rb \<longleftrightarrow> 0 \<le> matured_rex rb \<and> (\<forall>b \<in> set (rex_maturities rb). 0 \<le> snd b) \<and>
     matured_rex rb + bucket_sum (rex_maturities rb) = n \<and> n \<le> i64_max"

definition row_ok :: "rex_balance \<Rightarrow> bool" where
  "row_ok rb \<longleftrightarrow> holds (amount (rex_amount rb)) rb"

lemma bucket_sum_nonneg': "\<forall>b \<in> set bs. 0 \<le> snd b \<Longrightarrow> 0 \<le> bucket_sum bs"
  by (induction bs) auto

lemma holds_bounds: "holds n rb \<Longrightarrow> 0 \<le> matured_rex rb \<and> matured_rex rb \<le> n \<and> n \<le> i64_max"
  using bucket_sum_nonneg' [of "rex_maturities rb"] by (auto simp: holds_def)

lemma mature_exact:
  "mature now m bs = (m', bs') \<Longrightarrow> 0 \<le> m \<Longrightarrow> \<forall>b \<in> set bs. 0 \<le> snd b \<Longrightarrow> m + bucket_sum bs \<le> i64_max \<Longrightarrow>
     m \<le> m' \<and> m' + bucket_sum bs' = m + bucket_sum bs \<and> (\<forall>b \<in> set bs'. 0 \<le> snd b)"
proof (induction now m bs rule: mature.induct)
  case (2 now m t n bs)
  show ?case
  proof (cases "t \<le> now")
    case True
    have "0 \<le> bucket_sum bs" using 2(4) by (intro bucket_sum_nonneg') simp
    then have "i64 (m + n) = m + n" using 2(3-5) by (intro i64_id) (auto simp: i64_max_def)
    then show ?thesis using 2 True by auto
  qed (use 2 in auto)
qed auto

lemma holds_mature:
  assumes "holds n rb"
  shows "holds n (process_rex_maturities E rb)" "matured_rex rb \<le> matured_rex (process_rex_maturities E rb)"
proof -
  obtain m' bs' where m: "mature (e_sec E) (matured_rex rb) (rex_maturities rb) = (m', bs')" by fastforce
  then show "holds n (process_rex_maturities E rb)" "matured_rex rb \<le> matured_rex (process_rex_maturities E rb)"
    using mature_exact [OF m] assms by (simp_all add: holds_def process_rex_maturities_def)
qed

lemma add_to_bucket_exact:
  assumes "0 \<le> n" "\<forall>b \<in> set bs. 0 \<le> snd b" "bucket_sum bs + n \<le> i64_max"
  shows "bucket_sum (add_to_bucket t n bs) = bucket_sum bs + n" "\<forall>b \<in> set (add_to_bucket t n bs). 0 \<le> snd b"
proof -
  have "bucket_sum (add_to_bucket t n bs) = bucket_sum bs + n \<and> (\<forall>b \<in> set (add_to_bucket t n bs). 0 \<le> snd b)"
  proof (cases "bs \<noteq> [] \<and> fst (last bs) = t")
    case True
    have "0 \<le> snd (last bs)" using assms(2) True by auto
    moreover have "0 \<le> bucket_sum (butlast bs)" using assms(2) by (auto intro!: bucket_sum_nonneg' dest: in_set_butlastD)
    ultimately have "i64 (snd (last bs) + n) = snd (last bs) + n"
      using assms(1,3) bucket_sum_last [of bs] True by (intro i64_id) (auto simp: i64_max_def)
    then show ?thesis
      using assms True bucket_sum_last [of bs] by (auto simp: add_to_bucket_def dest: in_set_butlastD)
  qed (use assms in \<open>auto simp: add_to_bucket_def\<close>)
  then show "bucket_sum (add_to_bucket t n bs) = bucket_sum bs + n"
    "\<forall>b \<in> set (add_to_bucket t n bs). 0 \<le> snd b" by simp_all
qed

lemma holds_add:
  assumes "holds n rb" "0 \<le> k" "n + k \<le> i64_max"
  shows "holds (n + k) (add_rex_maturity E k rb)" "holds (n + k) (put_rex_savings k rb)"
  using assms add_to_bucket_exact [of k "rex_maturities rb"]
  by (auto simp: holds_def add_rex_maturity_def put_rex_savings_def)

lemma matured_add [simp]:
  "matured_rex (add_rex_maturity E k rb) = matured_rex rb" "matured_rex (put_rex_savings k rb) = matured_rex rb"
  by (simp_all add: add_rex_maturity_def put_rex_savings_def)

lemma holds_savings:
  assumes "holds n rb" "read_rex_savings rb = (k, rb')"
  shows "0 \<le> k" "k \<le> n" "holds (n - k) rb'" "matured_rex rb' = matured_rex rb" "rex_amount rb' = rex_amount rb"
proof -
  have "0 \<le> k \<and> holds (n - k) rb' \<and> matured_rex rb' = matured_rex rb \<and> rex_amount rb' = rex_amount rb"
  proof (cases "rex_maturities rb \<noteq> [] \<and> fst (last (rex_maturities rb)) = end_of_days")
    case True
    then have e: "k = snd (last (rex_maturities rb))" "rb' = rb\<lparr>rex_maturities := butlast (rex_maturities rb)\<rparr>"
      using assms(2) by (auto simp: read_rex_savings_def Let_def)
    have k: "0 \<le> k" using assms(1) True by (auto simp: e holds_def)
    then have "n - k \<le> i64_max" using assms(1) by (simp add: holds_def)
    moreover have "matured_rex rb + bucket_sum (butlast (rex_maturities rb)) = n - k"
      using assms(1) True bucket_sum_last [of "rex_maturities rb"] by (simp add: holds_def e(1))
    moreover have "0 \<le> matured_rex rb" "\<forall>b \<in> set (butlast (rex_maturities rb)). 0 \<le> snd b"
      using assms(1) by (auto simp: holds_def dest: in_set_butlastD)
    ultimately show ?thesis using k by (simp add: holds_def e(2))
  qed (use assms in \<open>auto simp: read_rex_savings_def Let_def\<close>)
  then show "0 \<le> k" "holds (n - k) rb'" "matured_rex rb' = matured_rex rb" "rex_amount rb' = rex_amount rb" by simp_all
  then show "k \<le> n" using holds_bounds [of "n - k" rb'] by simp
qed

lemma holds_receive:
  assumes "holds n rb" "0 \<le> k" "n + k \<le> i64_max"
  shows "holds (n + k) (receive_rex E k rb)" "matured_rex rb \<le> matured_rex (receive_rex E k rb)"
proof -
  obtain m rb1 where r: "read_rex_savings rb = (m, rb1)" by fastforce
  note s = holds_savings [OF assms(1) r]
  have 1: "holds (n - m + k) (add_rex_maturity E k (process_rex_maturities E rb1))"
    using s(1,3) assms by (intro holds_add holds_mature) simp_all
  have 2: "holds (n - m + k + m) (put_rex_savings m (add_rex_maturity E k (process_rex_maturities E rb1)))"
    using s(1) assms(3) by (intro holds_add 1) simp_all
  show "holds (n + k) (receive_rex E k rb)" using 2 by (simp add: receive_rex_def r)
  show "matured_rex rb \<le> matured_rex (receive_rex E k rb)"
    using holds_mature(2) [OF s(3)] s(4) by (simp add: receive_rex_def r)
qed

lemma holds_consolidate:
  assumes "holds n rb" "0 \<le> order" "order \<le> matured_rex rb"
  shows "holds n (consolidate_rex_balance E order rb)" "matured_rex (consolidate_rex_balance E order rb) = order"
proof -
  obtain k rb1 where r: "read_rex_savings rb = (k, rb1)" by fastforce
  note s = holds_savings [OF assms(1) r]
  note b = holds_bounds [OF s(3)]
  have "rb_total rb1 = n - k" using s(3) b by (simp add: rb_total_def holds_def i64_id i64_max_def)
  then have f: "free_rex order rb = n - k - order"
    using b s(4) assms by (simp add: free_rex_def r i64_id i64_max_def)
  let ?r = "rb1\<lparr>matured_rex := order, rex_maturities := (if 0 < free_rex order rb then [(get_rex_maturity E, free_rex order rb)] else [])\<rparr>"
  have "holds (n - k) ?r" using assms(2,3) s b by (auto simp: holds_def f)
  then have "holds (n - k + k) (put_rex_savings k ?r)"
    using s(1) assms(1) by (intro holds_add) (auto simp: holds_def)
  then show "holds n (consolidate_rex_balance E order rb)" by (simp add: consolidate_eq r)
  show "matured_rex (consolidate_rex_balance E order rb) = order" by (simp add: consolidate_eq)
qed

lemma take_back_exact:
  "take_back want moved bs = (moved', bs') \<Longrightarrow> 0 \<le> moved \<Longrightarrow> moved \<le> want \<Longrightarrow> want \<le> i64_max \<Longrightarrow>
     \<forall>b \<in> set bs. 0 \<le> snd b \<Longrightarrow> bucket_sum bs \<le> i64_max \<Longrightarrow>
     0 \<le> moved' \<and> moved' \<le> want \<and> moved' + bucket_sum bs' = moved + bucket_sum bs \<and> (\<forall>b \<in> set bs'. 0 \<le> snd b)"
proof (induction want moved bs rule: take_back.induct)
  case (2 want moved t n bs)
  define d where "d = min (want - moved) n"
  have nn: "0 \<le> n" "0 \<le> bucket_sum bs" using 2(6) by (auto intro: bucket_sum_nonneg')
  have w: "i64 (want - moved) = want - moved" using 2(3-5) by (intro i64_id) (auto simp: i64_max_def)
  have x: "i64 (n - d) = n - d" "i64 (moved + d) = moved + d" "0 \<le> d" "d \<le> n" "moved + d \<le> want"
    using 2(3-7) nn by (auto intro!: i64_id simp: d_def i64_max_def)
  show ?case
  proof (cases "moved < want")
    case True
    have eq: "(moved', bs') = (if n - d = 0 then take_back want (moved + d) bs else (moved + d, (t, n - d) # bs))"
      using 2(2) True by (simp add: w x(1,2) Let_def flip: d_def split: if_splits)
    show ?thesis
    proof (cases "n - d = 0")
      case z: True
      have "take_back want (moved + d) bs = (moved', bs')" using eq z by simp
      then show ?thesis
        using 2(1) [OF True, of d "n - d" "moved + d"] x z 2(3-7) nn by (auto simp: w simp flip: d_def)
    next
      case False
      then show ?thesis using eq x nn 2(3,6) by auto
    qed
  qed (use 2 in auto)
qed auto

lemma holds_move:
  assumes "holds n rb" "0 < k" "k \<le> i64_max" "0 \<le> order" "order \<le> matured_rex rb" "move_to_savings k order rb = Inr rb'"
  shows "holds (n - k) rb' \<and> order \<le> matured_rex rb' \<and> k \<le> n"
proof -
  obtain moved bs where t: "take_back k 0 (rev (rex_maturities rb)) = (moved, bs)" by fastforce
  have "bucket_sum (rex_maturities rb) \<le> i64_max" using assms(1) by (simp add: holds_def)
  then have x: "0 \<le> moved" "moved \<le> k" "moved + bucket_sum bs = bucket_sum (rex_maturities rb)" "\<forall>b \<in> set bs. 0 \<le> snd b"
    using take_back_exact [OF t] assms by (auto simp: holds_def)
  have d: "i64 (k - moved) = k - moved" using x assms by (intro i64_id) (auto simp: i64_max_def)
  have "matured_rex rb \<le> i64_max" using holds_bounds [OF assms(1)] by simp
  then have m: "i64 (matured_rex rb - (k - moved)) = matured_rex rb - (k - moved)"
    using x assms by (intro i64_id) (auto simp: i64_max_def)
  show ?thesis
  proof (cases "moved < k")
    case True
    then have rb': "rb' = rb\<lparr>rex_maturities := rev bs, matured_rex := matured_rex rb - (k - moved)\<rparr>"
      and "order \<le> matured_rex rb - (k - moved)"
      using assms(6) t by (auto simp: move_to_savings_def Let_def res_simps d m)
    then show ?thesis using assms(1-4) x bucket_sum_nonneg' [of bs] by (auto simp: holds_def)
  next
    case False
    then show ?thesis using assms t x bucket_sum_nonneg' [of bs]
      by (auto simp: move_to_savings_def Let_def res_simps holds_def)
  qed
qed

lemma row_ok_sell:
  assumes "row_ok rb" "0 \<le> k" "k \<le> matured_rex rb"
  shows "row_ok (sell_from_balance k stake rb)"
    "matured_rex (sell_from_balance k stake rb) = matured_rex rb - k"
    "amount (rex_amount (sell_from_balance k stake rb)) = amount (rex_amount rb) - k"
proof -
  have b: "0 \<le> matured_rex rb" "matured_rex rb \<le> amount (rex_amount rb)" "amount (rex_amount rb) \<le> i64_max"
    using holds_bounds assms(1) unfolding row_ok_def by blast+
  then have "i64 (matured_rex rb - k) = matured_rex rb - k" "i64 (amount (rex_amount rb) - k) = amount (rex_amount rb) - k"
    using assms by (auto intro!: i64_id simp: i64_max_def)
  then show "row_ok (sell_from_balance k stake rb)" "matured_rex (sell_from_balance k stake rb) = matured_rex rb - k"
    "amount (rex_amount (sell_from_balance k stake rb)) = amount (rex_amount rb) - k"
    using assms b by (auto simp: row_ok_def holds_def sell_from_balance_def)
qed

end
