(* ===== verification/RexSound.thy ===== *)
theory RexSound
  imports RexRows
begin

text \<open>
  The REX of the exchange over all its actions: every row is in order, the pool has issued exactly
  the REX of all rows, and the REX of an open sell order has matured in its owner's row, so
  that the order can be filled whenever the pool has the tokens.
\<close>

section \<open>The REX is in order\<close>

definition rex_sound :: "chain \<Rightarrow> bool" where
  "rex_sound s \<longleftrightarrow> (\<forall>a rb. fmlookup (rexbalance s) a = Some rb \<longrightarrow> row_ok rb) \<and>
     rex_issued s = rex_held s \<and> rex_issued s \<le> i64_max"

text \<open>Orders are covered, except those of the owners in \<open>A\<close> within a sale.\<close>

definition covered_but :: "name set \<Rightarrow> chain \<Rightarrow> bool" where
  "covered_but A s \<longleftrightarrow> (\<forall>a o'. fmlookup (rexorders s) a = Some o' \<longrightarrow>
     0 \<le> wanted o' \<and> (a \<notin> A \<longrightarrow> wanted o' \<le> row_val matured_rex (rexbalance s) a))"

abbreviation covered :: "chain \<Rightarrow> bool" where
  "covered s \<equiv> covered_but {} s"

lemma row_bounds:
  assumes "rex_sound s" "fmlookup (rexbalance s) a = Some rb"
  shows "row_ok rb" "0 \<le> matured_rex rb" "matured_rex rb \<le> amount (rex_amount rb)"
    "amount (rex_amount rb) \<le> rex_issued s" "rex_issued s \<le> i64_max"
proof -
  have r: "\<And>k rb. fmlookup (rexbalance s) k = Some rb \<Longrightarrow> row_ok rb" using assms by (simp add: rex_sound_def)
  then show "row_ok rb" using assms by simp
  then show "0 \<le> matured_rex rb" "matured_rex rb \<le> amount (rex_amount rb)"
    unfolding row_ok_def by (simp_all add: holds_bounds)
  have nn: "0 \<le> amount (rex_amount rb)" if "fmlookup (rexbalance s) k = Some rb" for k rb
    using r [OF that] holds_bounds unfolding row_ok_def by fastforce
  have "amount (rex_amount rb) \<le> rex_held s"
    unfolding rex_held_def by (rule row_le_table_sum [where f = "\<lambda>rb. amount (rex_amount rb)", OF nn assms(2)])
  then show "amount (rex_amount rb) \<le> rex_issued s" "rex_issued s \<le> i64_max"
    using assms by (simp_all add: rex_sound_def)
qed

lemma issued_nonneg:
  assumes "rex_sound s"
  shows "0 \<le> rex_issued s"
proof -
  have "0 \<le> amount (rex_amount rb)" if "fmlookup (rexbalance s) a = Some rb" for a rb
    using row_bounds [OF assms that] by linarith
  then have "0 \<le> rex_held s" unfolding rex_held_def by (rule table_sum_nonneg)
  then show ?thesis using assms by (simp add: rex_sound_def)
qed

lemma matured_bounds:
  assumes "rex_sound s"
  shows "0 \<le> row_val matured_rex (rexbalance s) a" "row_val matured_rex (rexbalance s) a \<le> rex_issued s"
proof -
  have "0 \<le> row_val matured_rex (rexbalance s) a \<and> row_val matured_rex (rexbalance s) a \<le> rex_issued s"
  proof (cases "fmlookup (rexbalance s) a")
    case None
    then show ?thesis using issued_nonneg [OF assms] by (simp add: row_val_def)
  next
    case (Some rb)
    then show ?thesis using row_bounds [OF assms Some] by (simp add: row_val_def)
  qed
  then show "0 \<le> row_val matured_rex (rexbalance s) a" "row_val matured_rex (rexbalance s) a \<le> rex_issued s" by simp_all
qed

lemma same_rex_sound: "same_rex s t \<Longrightarrow> rex_sound s \<Longrightarrow> rex_sound t"
  by (simp add: same_rex_def rex_sound_def rex_held_def)

lemma same_rex_covered: "same_rex s t \<Longrightarrow> covered_but A s \<Longrightarrow> covered_but A t"
  by (auto simp: same_rex_def orders_kept_def covered_but_def)

lemma same_rex_issued: "same_rex s t \<Longrightarrow> rex_issued t = rex_issued s"
  by (simp add: same_rex_def)

text \<open>A row may change as long as it keeps its amount and its owner's order stays covered.\<close>

lemma row_change:
  assumes "rex_sound s" "covered_but A s" "fmlookup (rexbalance s) a = Some rb"
    and "row_ok rb'" "amount (rex_amount rb') = amount (rex_amount rb)"
    and "matured_rex rb \<le> matured_rex rb' \<or> (\<forall>o'. fmlookup (rexorders s) a = Some o' \<longrightarrow> wanted o' \<le> matured_rex rb')"
  shows "rex_sound (s\<lparr>rexbalance := fmupd a rb' (rexbalance s)\<rparr>) \<and>
    covered_but A (s\<lparr>rexbalance := fmupd a rb' (rexbalance s)\<rparr>)"
proof
  show "rex_sound (s\<lparr>rexbalance := fmupd a rb' (rexbalance s)\<rparr>)"
    using assms by (auto simp: rex_sound_def rex_issued_def rex_held_def table_sum_upd)
  have "0 \<le> wanted o' \<and> (k \<notin> A \<longrightarrow> wanted o' \<le> row_val matured_rex (fmupd a rb' (rexbalance s)) k)"
    if k: "fmlookup (rexorders s) k = Some o'" for k o'
  proof (cases "k = a")
    case True
    have "0 \<le> wanted o' \<and> (k \<notin> A \<longrightarrow> wanted o' \<le> row_val matured_rex (rexbalance s) k)"
      using assms(2) k by (simp add: covered_but_def)
    then show ?thesis using assms(3,6) k True by (auto simp: row_val_def)
  qed (use assms(2) k in \<open>simp add: covered_but_def row_val_def\<close>)
  then show "covered_but A (s\<lparr>rexbalance := fmupd a rb' (rexbalance s)\<rparr>)" by (simp add: covered_but_def)
qed

lemma modify_rex_kept:
  assumes "modify_rex a f s = Inr t" "rex_sound s" "covered_but A s"
    and f: "\<And>rb. fmlookup (rexbalance s) a = Some rb \<Longrightarrow> row_ok (f rb) \<and> amount (rex_amount (f rb)) = amount (rex_amount rb) \<and>
      (matured_rex rb \<le> matured_rex (f rb) \<or> (\<forall>o'. fmlookup (rexorders s) a = Some o' \<longrightarrow> wanted o' \<le> matured_rex (f rb)))"
  shows "rex_sound t \<and> covered_but A t"
proof -
  obtain rb where rb: "fmlookup (rexbalance s) a = Some rb" and t: "t = s\<lparr>rexbalance := fmupd a (f rb) (rexbalance s)\<rparr>"
    using assms(1) by (auto simp: modify_rex_def res_simps)
  show ?thesis unfolding t using assms(2,3) rb f [OF rb] by (intro row_change) auto
qed

section \<open>Filling orders\<close>

lemma fill_rex_order_sound:
  assumes A: "asset_laws (e_assets E)" and ok: "fill_rex_order E a rex s = Inr (r, t)"
    and s: "rex_sound s" "covered_but B s" and rex: "0 \<le> amount rex" "amount rex \<le> row_val matured_rex (rexbalance s) a"
  shows "rex_sound t \<and> covered_but (if success r then insert a B else B) t \<and> rex_issued t \<le> rex_issued s \<and>
    rexorders t = rexorders s"
  using A ok
proof (cases rule: fill_rex_order_cases)
  case (filled p q rb stake)
  note b = row_bounds [OF s(1) filled(2)]
  have k: "amount rex \<le> matured_rex rb" using rex(2) filled(2) by (simp add: row_val_def)
  note sell = row_ok_sell [OF b(1) rex(1) k, of stake]
  have i: "rex_issued s = amount (total_rex p)" using filled(1) by (simp add: rex_issued_def)
  have "i64 (amount (total_rex p) - amount rex) = amount (total_rex p) - amount rex"
    using b k rex(1) i by (intro i64_id) (auto simp: i64_max_def)
  then have t: "rex_issued t = rex_issued s - amount rex"
    using sell_from_pool_Some(3) [OF filled(3)] i by (simp add: filled(6) rex_issued_def)
  have "rex_held t = rex_held s - amount rex"
    using filled(2) sell(3) by (simp add: filled(6) rex_held_def table_sum_upd)
  then have "rex_sound t" using s(1) t rex(1) sell(1) by (auto simp: rex_sound_def filled(6))
  moreover have "covered_but (insert a B) t"
    using s(2) by (auto simp: covered_but_def filled(6) row_val_def)
  ultimately show ?thesis using t rex(1) filled(4,6) by simp
next
  case queued
  then show ?thesis using s by simp
qed

lemma process_order_sound:
  assumes A: "asset_laws (e_assets E)" and ok: "process_order E (a, o') s = Inr t"
    and s: "rex_sound s" "covered s" and row: "fmlookup (rexorders s) a = Some o'" "is_open o'"
  shows "rex_sound t \<and> covered t \<and> rex_issued t \<le> rex_issued s \<and>
    (\<forall>k. k \<noteq> a \<longrightarrow> fmlookup (rexorders t) k = fmlookup (rexorders s) k)"
proof (cases "fmlookup (rexbalance s) a")
  case None
  then show ?thesis using ok s by (simp add: process_order_def)
next
  case (Some rb)
  obtain r s1 where f: "fill_rex_order E a (rex_requested o') s = Inr (r, s1)"
    and t: "t = (if success r then emit (Order_result a (out_proceeds r))
      (s1\<lparr>rexorders := fmupd a (filled_order r o') (rexorders s1)\<rparr>) else s1)"
    using ok Some by (rule process_order_Inr)
  have "0 \<le> wanted o' \<and> wanted o' \<le> row_val matured_rex (rexbalance s) a"
    using s(2) row(1) by (simp add: covered_but_def)
  then have w: "0 \<le> amount (rex_requested o')" "amount (rex_requested o') \<le> row_val matured_rex (rexbalance s) a"
    using row(2) by (simp_all add: wanted_def)
  note r = fill_rex_order_sound [OF A f s w]
  show ?thesis
  proof (cases "success r")
    case True
    have "rex_sound t" using r by (simp add: t True rex_sound_def rex_issued_def rex_held_def)
    moreover have "wanted (filled_order r o') = 0" by (simp add: wanted_def filled_order_def)
    then have "covered t" using r matured_bounds(1) [of s1 a] by (auto simp: t True covered_but_def)
    moreover have "rex_issued t \<le> rex_issued s" using r by (simp add: t True rex_issued_def)
    ultimately show ?thesis using r by (simp add: t True)
  next
    case False
    then show ?thesis using r by (simp add: t)
  qed
qed

lemma process_orders_sound:
  assumes A: "asset_laws (e_assets E)"
  shows "foldR (process_order E) xs s = Inr t \<Longrightarrow> rex_sound s \<Longrightarrow> covered s \<Longrightarrow> distinct (map fst xs) \<Longrightarrow>
    (\<And>k o'. (k, o') \<in> set xs \<Longrightarrow> fmlookup (rexorders s) k = Some o' \<and> is_open o') \<Longrightarrow>
    rex_sound t \<and> covered t \<and> rex_issued t \<le> rex_issued s"
proof (induction xs arbitrary: s)
  case (Cons x xs)
  obtain k o' where x: "x = (k, o')" by (cases x)
  obtain u where 1: "process_order E (k, o') s = Inr u" and 2: "foldR (process_order E) xs u = Inr t"
    using Cons.prems(1) by (auto simp: x res_simps)
  have row: "fmlookup (rexorders s) k = Some o'" "is_open o'" using Cons.prems(5) [of k o'] by (simp_all add: x)
  note r = process_order_sound [OF A 1 Cons.prems(2,3) row]
  have "rex_sound t \<and> covered t \<and> rex_issued t \<le> rex_issued u"
  proof (rule Cons.IH [OF 2])
    show "rex_sound u" "covered u" using r by simp_all
    show "distinct (map fst xs)" using Cons.prems(4) by simp
    fix j p assume j: "(j, p) \<in> set xs"
    then have "j \<noteq> k" using Cons.prems(4) by (force simp: x)
    then show "fmlookup (rexorders u) j = Some p \<and> is_open p" using r j Cons.prems(5) [of j p] by simp
  qed
  then show ?case using r by simp
qed simp

lemma runrex_sound:
  assumes A: "asset_laws (e_assets E)" and ok: "runrex E n s = Inr t" and s: "rex_sound s" "covered s"
  shows "rex_sound t \<and> covered t \<and> rex_issued t \<le> rex_issued s"
  using ok
proof (rule runrex_orders)
  fix s4
  assume 4: "same_rex s s4"
    and 5: "foldR (process_order E) (takeWhile (\<lambda>(k, o'). is_open o') (take n (orders_by_time s4))) s4 = Inr t"
  have "rex_sound t \<and> covered t \<and> rex_issued t \<le> rex_issued s4"
    using A 5 same_rex_sound [OF 4 s(1)] same_rex_covered [OF 4 s(2)] open_orders(1)
    by (rule process_orders_sound) (rule open_orders(2))
  then show ?thesis using same_rex_issued [OF 4] by simp
qed

section \<open>Purchases\<close>

lemma add_to_rex_pool_issued:
  assumes ok: "add_to_rex_pool E a s = Inr (r, t)" and rng: "buy_range (amount a) s" and nn: "0 \<le> rex_issued s"
  shows "rex_issued t = rex_issued s + amount r" "0 \<le> amount r" "rex_issued t \<le> i64_max"
    "rexbalance t = rexbalance s" "rexorders t = rexorders s"
proof -
  have ia: "i64 (amount a * rex_ratio) = amount a * 10000" "0 < amount a" "amount a * 10000 \<le> i64_max"
    using rng by (simp_all add: buy_range_def i64_id rex_ratio_def i64_max_def)
  have "rex_issued t = rex_issued s + amount r \<and> 0 \<le> amount r \<and> rex_issued t \<le> i64_max"
  proof (cases "rexpool s")
    case None
    then show ?thesis using ok ia by (auto simp: add_to_rex_pool_def res_simps Let_def rex_issued_def)
  next
    case (Some p)
    then obtain q where g: "grow_rex_pool (amount a) p = Inr (amount r, q)" and t: "t = s\<lparr>rexpool := Some q\<rparr>"
      using ok by (auto simp: add_to_rex_pool_def res_simps)
    have i: "rex_issued s = amount (total_rex p)" "rex_issued t = amount (total_rex q)" by (simp_all add: t Some rex_issued_def)
    show ?thesis
    proof (cases "amount (total_rex p) \<le> 0")
      case True
      then show ?thesis using g nn i ia by (auto simp: grow_rex_pool_def Let_def)
    next
      case False
      then have "pool_range (amount a) p" using rng Some by (simp add: buy_range_def)
      then show ?thesis using grow_rex_pool_range [OF g] i by (simp add: pool_range_def)
    qed
  qed
  then show "rex_issued t = rex_issued s + amount r" "0 \<le> amount r" "rex_issued t \<le> i64_max" by simp_all
  show "rexbalance t = rexbalance s" "rexorders t = rexorders s"
    using ok by (cases rule: add_to_rex_pool_Inr; simp)+
qed

lemma purchase_sound:
  assumes s: "rex_sound s" "covered s" and rng: "buy_range (amount q) s"
    and 1: "add_to_rex_pool E q s = Inr (r, s1)" and 2: "add_to_rex_balance E a q' r s1 = Inr (d, t)"
  shows "rex_sound t \<and> covered t"
proof -
  note p = add_to_rex_pool_issued [OF 1 rng issued_nonneg [OF s(1)]]
  let ?old = "row_val (\<lambda>rb. amount (rex_amount rb)) (rexbalance s) a"
  obtain rb n where t: "t = s1\<lparr>rexbalance := fmupd a (receive_rex E (amount r) rb) (rexbalance s1)\<rparr>"
    and rb: "holds ?old rb" "row_val matured_rex (rexbalance s) a = matured_rex rb" "amount (rex_amount rb) = ?old + amount r"
  proof (cases "fmlookup (rexbalance s) a")
    case None
    then show ?thesis
      using 2 p(4) that [of "\<lparr>rb_owner = a, vote_stake = q', rex_amount = r, matured_rex = 0, rex_maturities = []\<rparr>"]
      by (auto simp: add_to_rex_balance_def res_simps row_val_def holds_def i64_max_def)
  next
    case (Some rb)
    note b = row_bounds [OF s(1) Some]
    have n: "i64 (amount (rex_amount rb) + amount r) = amount (rex_amount rb) + amount r"
      using b p(1-3) by (intro i64_id) (auto simp: i64_max_def)
    obtain stake where "t = s1\<lparr>rexbalance := fmupd a (receive_rex E (amount r) (rb\<lparr>rex_amount := set_amount
        (amount (rex_amount rb) + amount r) (rex_amount rb), vote_stake := stake\<rparr>)) (rexbalance s1)\<rparr>"
      using 2 p(4) Some by (auto simp: add_to_rex_balance_def res_simps Let_def n)
    then show ?thesis using that b(1) Some by (simp add: row_val_def row_ok_def holds_def)
  qed
  have old: "?old + amount r \<le> i64_max"
  proof (cases "fmlookup (rexbalance s) a")
    case None
    then show ?thesis using p(1-3) issued_nonneg [OF s(1)] by (simp add: row_val_def)
  next
    case (Some rb)
    then show ?thesis using row_bounds [OF s(1) Some] p(1,3) by (simp add: row_val_def)
  qed
  note h = holds_receive [OF rb(1) p(2) old, of E]
  let ?rb = "receive_rex E (amount r) rb"
  have row: "row_ok ?rb" "amount (rex_amount ?rb) = ?old + amount r" using h(1) rb(3) by (simp_all add: row_ok_def)
  have "rex_held t = rex_held s + amount r"
    using row(2) by (simp add: t rex_held_def p(4) table_sum_upd)
  moreover have "rex_issued t = rex_issued s1" by (simp add: t rex_issued_def)
  ultimately have "rex_sound t" using s(1) p(1,3) row(1) by (auto simp: rex_sound_def t p(4))
  moreover have "covered t"
    using s(2) h(2) rb(2) by (fastforce simp: covered_but_def t p(4,5) row_val_def)
  ultimately show ?thesis ..
qed

section \<open>The actions\<close>

definition rex_inv :: "chain \<Rightarrow> bool" where
  "rex_inv s \<longleftrightarrow> rex_sound s \<and> covered s"

lemma same_rex_inv: "same_rex s t \<Longrightarrow> rex_inv s \<Longrightarrow> rex_inv t"
  by (simp add: rex_inv_def same_rex_sound same_rex_covered)

lemma runrex_inv: "asset_laws (e_assets E) \<Longrightarrow> runrex E n s = Inr t \<Longrightarrow> rex_inv s \<Longrightarrow> rex_inv t"
  by (simp add: rex_inv_def runrex_sound)

lemma emit_inv [simp]: "rex_inv (emit m s) = rex_inv s"
  by (simp add: rex_inv_def rex_sound_def covered_but_def rex_issued_def rex_held_def)

lemma account_inv: "update_rex_account E a f n b s = Inr (m, t) \<Longrightarrow> rex_inv s \<Longrightarrow> rex_inv t"
  using update_rex_account_rex same_rex_inv by blast

text \<open>\<open>update_rex_account\<close> answers with the open order, and drops one that is filled.\<close>

lemma account_order:
  assumes "update_rex_account E a f n b s = Inr (m, t)"
  shows "case fmlookup (rexorders t) a of None \<Rightarrow> m = 0 | Some o' \<Rightarrow> is_open o' \<and> m = wanted o'"
proof -
  obtain core m' f' n' s1 s2 where
    1: "(m, f', n', s1) = (case fmlookup (rexorders s) a of None \<Rightarrow> (0, f, n, s)
      | Some o' \<Rightarrow> if is_open o' then (amount (rex_requested o'), f, n, s)
        else (0, i64 (f + amount (ro_proceeds o')), i64 (n + amount (stake_change o')),
          s\<lparr>rexorders := fmdrop a (rexorders s)\<rparr>))"
    and 2: "(if 0 < f' then transfer_to_fund a \<lparr>amount = f', asym = core\<rparr> s1 else Inr s1) = Inr s2"
    and 3: "(if b \<or> n' \<noteq> 0 then update_voting_power E a n' s2 else Inr s2) = Inr t"
    using assms by (fastforce simp: update_rex_account_def core_symbol_eq_Inr bindR_eq_Inr Let_def
        split: option.splits if_splits)
  have "rexorders s2 = rexorders s1"
    using 2 by (cases "0 < f'") (auto simp: transfer_to_fund_def res_simps Let_def)
  moreover have "rexorders t = rexorders s2"
    using 3 without_votes_fields [OF update_voting_power_without_votes] by (cases "b \<or> n' \<noteq> 0") auto
  ultimately show ?thesis using 1 by (auto simp: wanted_def split: option.splits if_splits)
qed

lemma account_covers:
  assumes "update_rex_account E a f n b s = Inr (m, t)" "rex_inv t"
  shows "0 \<le> m" "m \<le> row_val matured_rex (rexbalance t) a"
    "fmlookup (rexorders t) a = Some o' \<Longrightarrow> wanted o' = m"
proof -
  note o = account_order [OF assms(1)]
  have c: "covered t" and s: "rex_sound t" using assms(2) by (simp_all add: rex_inv_def)
  have "0 \<le> m \<and> m \<le> row_val matured_rex (rexbalance t) a"
  proof (cases "fmlookup (rexorders t) a")
    case None
    then show ?thesis using o matured_bounds [OF s] by simp
  next
    case (Some o')
    then show ?thesis using o c by (auto simp: covered_but_def)
  qed
  then show "0 \<le> m" "m \<le> row_val matured_rex (rexbalance t) a" by simp_all
  show "fmlookup (rexorders t) a = Some o' \<Longrightarrow> wanted o' = m" using o by simp
qed

lemma modify_rex_inv:
  assumes "modify_rex a f s = Inr t" "rex_inv s"
    and "\<And>rb. row_ok rb \<Longrightarrow> row_ok (f rb) \<and> amount (rex_amount (f rb)) = amount (rex_amount rb) \<and> matured_rex rb \<le> matured_rex (f rb)"
  shows "rex_inv t"
  using modify_rex_kept [OF assms(1), of "{}"] assms(2,3) row_bounds(1) by (simp add: rex_inv_def)

lemma row_ok_process: "row_ok rb \<Longrightarrow> row_ok (process_rex_maturities E rb)"
  by (simp add: row_ok_def holds_mature)

lemma mature_inv: "modify_rex a (process_rex_maturities E) s = Inr t \<Longrightarrow> rex_inv s \<Longrightarrow> rex_inv t"
  by (erule modify_rex_inv) (simp_all add: row_ok_def holds_mature)

lemma buyrex_inv:
  assumes A: "asset_laws (e_assets E)" and ok: "buyrex E a q s = Inr t" and s: "rex_inv s" and rng: "buy_range (amount q) s"
  shows "rex_inv t"
  using ok unfolding buyrex_def require_auth_eq_Inr core_symbol_eq_Inr check_eq_Inr bindR_eq_Inr
    check_voting_requirement_def split_paired_Ex prod.case sum.inject
proof (elim exE conjE)
  fix s1 r s2 d s3 s4 n s5
  assume 1: "transfer_from_fund E a q s = Inr s1" and r: "add_to_rex_pool E q s1 = Inr (r, s2)"
    "add_to_rex_balance E a q r s2 = Inr (d, s3)" and 2: "runrex E 2 s3 = Inr s4"
    "update_rex_account E a 0 (amount d) False s4 = Inr (n, s5)" and t: "emit (Buy_result r) s5 = t"
  obtain f where s1: "s1 = s\<lparr>rexfunds := f\<rparr>" using transfer_from_fund_same [OF 1] by blast
  have "buy_range (amount q) s1" using rng buy_range_fields [of s1 s] by (simp add: s1)
  moreover have "rex_inv s1" using same_rex_inv [OF fund_transfers_rex(2) [OF 1] s] .
  ultimately have "rex_inv s3" using purchase_sound [OF _ _ _ r] by (simp add: rex_inv_def)
  then have "rex_inv s5" using runrex_inv [OF A 2(1)] account_inv [OF 2(2)] by blast
  then show ?thesis using t by auto
qed

lemma unstaketorex_inv:
  assumes A: "asset_laws (e_assets E)" and ok: "unstaketorex E a b net cpu s = Inr t" and s: "rex_inv s"
    and rng: "buy_range (amount net + amount cpu) s"
  shows "rex_inv t"
  using ok unfolding unstaketorex_def require_auth_eq_Inr core_symbol_eq_Inr check_eq_Inr bindR_eq_Inr
    check_voting_requirement_def fetch_eq_Inr Let_def split_paired_Ex prod.case sum.inject
proof (elim exE conjE)
  fix d n c s2 pay r s3 dd s4 s5 m s6 db
  let ?s = "emit (Transfer [stake_account] stake_account rex_account pay) s2"
  assume 1: "update_resource_limits E b n c (s\<lparr>delband := db\<rparr>) = Inr s2"
    and p: "aa_plus (e_assets E) net cpu = Inr pay"
    and r: "add_to_rex_pool E pay ?s = Inr (r, s3)" "add_to_rex_balance E a pay r s3 = Inr (dd, s4)"
    and 2: "runrex E 2 s4 = Inr s5" "update_rex_account E a 0 0 True s5 = Inr (m, s6)" and t: "emit (Buy_result r) s6 = t"
  note f = same_but_quotas_fields [OF update_resource_limits_same [OF 1]]
  have "same_rex s ?s" using f by (intro same_rex_fields) simp_all
  then have "rex_inv ?s" using same_rex_inv s by blast
  moreover have "amount pay = amount net + amount cpu" using asset_laws.plus_amount [OF A p] .
  then have "buy_range (amount pay) ?s" using rng f buy_range_fields [of ?s s] by simp
  ultimately have "rex_inv s4" using purchase_sound [OF _ _ _ r] by (simp add: rex_inv_def)
  then have "rex_inv s6" using runrex_inv [OF A 2(1)] account_inv [OF 2(2)] by blast
  then show ?thesis using t by auto
qed

lemma queue_order_adds:
  assumes "queue_order E a rex core s = Inr (n, t)" "\<And>o'. fmlookup (rexorders s) a = Some o' \<Longrightarrow> is_open o'"
  obtains o' where "t = s\<lparr>rexorders := fmupd a o' (rexorders s)\<rparr>" "wanted o' = n"
    "n = (case fmlookup (rexorders s) a of None \<Rightarrow> amount rex | Some w \<Rightarrow> i64 (wanted w + amount rex))"
proof (cases "fmlookup (rexorders s) a")
  case None
  let ?o = "\<lparr>ro_owner = a, rex_requested = rex, ro_proceeds = asset0 core, stake_change = asset0 core,
    order_time = e_now E, is_open = True\<rparr>"
  have "n = amount rex" "t = s\<lparr>rexorders := fmupd a ?o (rexorders s)\<rparr>"
    using assms(1) None by (auto simp: queue_order_def check_eq_Inr Let_def)
  then show ?thesis using None by (intro that [of ?o]) (simp_all add: wanted_def)
next
  case (Some w)
  let ?o = "w\<lparr>rex_requested := set_amount (i64 (amount (rex_requested w) + amount rex)) (rex_requested w)\<rparr>"
  have "n = i64 (amount (rex_requested w) + amount rex)" "t = s\<lparr>rexorders := fmupd a ?o (rexorders s)\<rparr>"
    using assms(1) Some by (auto simp: queue_order_def check_eq_Inr Let_def)
  then show ?thesis using assms(2) [OF Some] Some by (intro that [of ?o]) (simp_all add: wanted_def)
qed

lemma sellrex_inv:
  assumes A: "asset_laws (e_assets E)" and ok: "sellrex E a rex s = Inr t" and s: "rex_inv s"
    and rng: "rex_issued s \<le> max_amount"
  shows "rex_inv t"
  using ok
proof (cases rule: sellrex_Inr)
  case (1 s1 rb s2 r s3 m s4 s5 rb2 rb5)
  have i1: "rex_inv s1" "rex_issued s1 \<le> rex_issued s" using runrex_sound [OF A 1(2)] s by (simp_all add: rex_inv_def)
  have i2: "rex_inv s2" using mature_inv [OF 1(5) i1(1)] .
  obtain bb where s2: "s2 = s1\<lparr>rexbalance := bb\<rparr>" using 1(5) by (auto simp: modify_rex_def res_simps)
  then have small: "rex_issued s2 \<le> max_amount" using i1 rng by (simp add: rex_issued_def)
  have le: "amount rex \<le> row_val matured_rex (rexbalance s2) a" using 1(10,11) by (simp add: row_val_def)
  have r3: "rex_sound s3 \<and> covered_but (if success r then {a} else {}) s3 \<and> rexorders s3 = rexorders s2"
    using fill_rex_order_sound [OF A 1(6), of "{}"] i2 1(4) le by (simp add: rex_inv_def)
  have f4: "same_rex s3 s4" using update_rex_account_rex [OF 1(7)] .
  have r4: "rex_sound s4" "covered_but (if success r then {a} else {}) s4"
    using same_rex_sound [OF f4] same_rex_covered [OF f4] r3 by simp_all
  note o4 = account_order [OF 1(7)]
  have "rex_inv s5"
  proof (cases "success r")
    case True
    then have 5: "s5 = s4" "m \<le> matured_rex rb5" using 1(13) by simp_all
    have "wanted w \<le> row_val matured_rex (rexbalance s4) a" if "fmlookup (rexorders s4) a = Some w" for w
      using o4 that 5 1(12) by (simp add: row_val_def)
    then show ?thesis using r4 True unfolding 5 rex_inv_def covered_but_def by auto
  next
    case False
    then obtain core n where q: "queue_order E a rex core s4 = Inr (n, s5)" and n: "n \<le> matured_rex rb5" using 1(13) by auto
    have op: "is_open w" if "fmlookup (rexorders s4) a = Some w" for w using o4 that by simp
    from q op obtain o' where s5: "s5 = s4\<lparr>rexorders := fmupd a o' (rexorders s4)\<rparr>" and w: "wanted o' = n"
      and n_eq: "n = (case fmlookup (rexorders s4) a of None \<Rightarrow> amount rex | Some w \<Rightarrow> i64 (wanted w + amount rex))"
      by (rule queue_order_adds)
    have "0 \<le> n"
    proof (cases "fmlookup (rexorders s4) a")
      case None
      then show ?thesis using n_eq 1(4) by simp
    next
      case (Some w)
      have "fmlookup (rexorders s2) a = Some w"
        using f4 r3 Some by (auto simp: same_rex_def orders_kept_def)
      then have "0 \<le> wanted w" "wanted w \<le> row_val matured_rex (rexbalance s2) a"
        using i2 by (auto simp: rex_inv_def covered_but_def)
      then have "i64 (wanted w + amount rex) = wanted w + amount rex"
        using matured_bounds(2) [of s2 a] i2 le 1(4) small by (intro i64_id) (auto simp: rex_inv_def max_amount_def)
      then show ?thesis using n_eq Some \<open>0 \<le> wanted w\<close> 1(4) by simp
    qed
    moreover have "rexbalance s5 = rexbalance s4" by (simp add: s5)
    ultimately have "covered s5" using r4(2) False n 1(12) w by (auto simp: covered_but_def s5 row_val_def)
    moreover have "rex_sound s5" using r4(1) by (simp add: s5 rex_sound_def rex_issued_def rex_held_def)
    ultimately show ?thesis by (simp add: rex_inv_def)
  qed
  then show ?thesis using 1(9) by simp
qed

lemma consolidate_inv:
  assumes A: "asset_laws (e_assets E)" and ok: "consolidate E a s = Inr t" and s: "rex_inv s"
  shows "rex_inv t"
proof -
  obtain s1 n s2 where 1: "runrex E 2 s = Inr s1" and 2: "update_rex_account E a 0 0 False s1 = Inr (n, s2)"
    and 3: "modify_rex a (consolidate_rex_balance E n) s2 = Inr t"
    using ok by (auto simp: consolidate_def res_simps)
  have i: "rex_inv s2" using runrex_inv [OF A 1 s] account_inv [OF 2] by blast
  note c = account_covers [OF 2 i]
  have "rex_sound t \<and> covered t"
  proof (rule modify_rex_kept [OF 3])
    show "rex_sound s2" "covered s2" using i by (simp_all add: rex_inv_def)
    fix rb assume rb: "fmlookup (rexbalance s2) a = Some rb"
    have h: "holds (amount (rex_amount rb)) rb" using row_bounds(1) i rb unfolding rex_inv_def row_ok_def by blast
    have n: "0 \<le> n" "n \<le> matured_rex rb" using c(1,2) rb by (simp_all add: row_val_def)
    show "row_ok (consolidate_rex_balance E n rb) \<and>
      amount (rex_amount (consolidate_rex_balance E n rb)) = amount (rex_amount rb) \<and>
      (matured_rex rb \<le> matured_rex (consolidate_rex_balance E n rb) \<or>
        (\<forall>o'. fmlookup (rexorders s2) a = Some o' \<longrightarrow> wanted o' \<le> matured_rex (consolidate_rex_balance E n rb)))"
      using holds_consolidate [OF h n] c(3) by (simp add: row_ok_def)
  qed
  then show ?thesis by (simp add: rex_inv_def)
qed

lemma mvtosavings_inv:
  assumes A: "asset_laws (e_assets E)" and ok: "mvtosavings E a q s = Inr t" and s: "rex_inv s"
    and q': "amount q \<le> i64_max"
  shows "rex_inv t"
proof -
  obtain s1 n s2 rb k rb1 rb' where 1: "runrex E 2 s = Inr s1" and 2: "update_rex_account E a 0 0 False s1 = Inr (n, s2)"
    and rb: "fmlookup (rexbalance s2) a = Some rb" and q: "0 < amount q"
    and k: "read_rex_savings rb = (k, rb1)"
    and mv: "move_to_savings (amount q) n (process_rex_maturities E rb1) = Inr rb'"
    and t: "t = s2\<lparr>rexbalance := fmupd a (put_rex_savings (i64 (k + amount q)) rb') (rexbalance s2)\<rparr>"
    using ok unfolding mvtosavings_def require_auth_eq_Inr bindR_eq_Inr fetch_eq_Inr check_eq_Inr Let_def split_beta
      split_paired_Ex prod.sel sum.inject
    by (elim exE conjE) (rule that, assumption, assumption, assumption, assumption, rule prod.collapse [symmetric], assumption, erule sym)
  have i: "rex_inv s2" using runrex_inv [OF A 1 s] account_inv [OF 2] by blast
  note c = account_covers [OF 2 i]
  let ?N = "amount (rex_amount rb)"
  have h: "holds ?N rb" using row_bounds(1) i rb unfolding rex_inv_def row_ok_def by blast
  note sv = holds_savings [OF h k]
  have n: "0 \<le> n" "n \<le> matured_rex (process_rex_maturities E rb1)"
    using c(1,2) rb sv(4) holds_mature(2) [OF sv(3)] by (simp_all add: row_val_def) (meson order_trans)
  note m = holds_move [OF holds_mature(1) [OF sv(3)] q q' n mv]
  have i64: "i64 (k + amount q) = k + amount q"
    using m sv(1) h q by (intro i64_id) (auto simp: holds_def i64_max_def)
  have p: "holds ?N (put_rex_savings (k + amount q) rb')"
    using holds_add(2) [of "?N - k - amount q" rb' "k + amount q"] m sv(1) q h by (simp add: holds_def)
  have amt: "rex_amount rb' = rex_amount rb" using move_to_savings_amount [OF mv] sv(5) by simp
  have "rex_sound t \<and> covered t"
    unfolding t i64 using i rb p amt m c(3) by (intro row_change) (auto simp: rex_inv_def row_ok_def)
  then show ?thesis by (simp add: rex_inv_def)
qed

lemma mvfrsavings_inv:
  assumes A: "asset_laws (e_assets E)" and ok: "mvfrsavings E a q s = Inr t" and s: "rex_inv s"
  shows "rex_inv t"
proof -
  define received where "received = (\<lambda>rb. put_rex_savings (i64 (fst (read_rex_savings rb) - amount q))
    (add_rex_maturity E (amount q) (process_rex_maturities E (snd (read_rex_savings rb)))))"
  obtain s1 n rb where 1: "runrex E 2 s = Inr s1" and rb: "fmlookup (rexbalance s1) a = Some rb"
    and q: "0 < amount q" "amount q \<le> fst (read_rex_savings rb)"
    and 2: "update_rex_account E a 0 0 False (s1\<lparr>rexbalance := fmupd a (received rb) (rexbalance s1)\<rparr>) = Inr (n, t)"
    using ok by (auto simp: mvfrsavings_def res_simps Let_def split_beta received_def)
  have i: "rex_inv s1" using runrex_inv [OF A 1 s] .
  obtain k rb1 where k: "read_rex_savings rb = (k, rb1)" by fastforce
  let ?N = "amount (rex_amount rb)"
  have h: "holds ?N rb" using row_bounds(1) i rb unfolding rex_inv_def row_ok_def by blast
  note sv = holds_savings [OF h k]
  have b: "?N \<le> i64_max" "amount q \<le> k" using h q(2) k by (simp_all add: holds_def)
  have kq: "i64 (k - amount q) = k - amount q" using sv(1,2) b q(1) by (intro i64_id) (auto simp: i64_max_def)
  have "holds (?N - k + amount q) (add_rex_maturity E (amount q) (process_rex_maturities E rb1))"
    using b q(1) sv(1,3) by (intro holds_add holds_mature) simp_all
  then have "holds (?N - k + amount q + (k - amount q)) (received rb)"
    unfolding received_def k fst_conv snd_conv kq using b by (intro holds_add(2)) simp_all
  then have row: "row_ok (received rb)" "rex_amount (received rb) = rex_amount rb"
    using sv(5) by (simp_all add: row_ok_def received_def k)
  have "matured_rex rb \<le> matured_rex (received rb)"
    using holds_mature(2) [OF sv(3)] sv(4) by (simp add: received_def k)
  then have "rex_inv (s1\<lparr>rexbalance := fmupd a (received rb) (rexbalance s1)\<rparr>)"
    using row_change [of s1 "{}" a rb "received rb"] i rb row by (simp add: rex_inv_def)
  then show ?thesis using account_inv [OF 2] by blast
qed

lemma updaterex_inv:
  assumes A: "asset_laws (e_assets E)" and ok: "updaterex E a s = Inr t" and s: "rex_inv s"
  shows "rex_inv t"
  using ok unfolding updaterex_def require_auth_eq_Inr core_symbol_eq_Inr check_eq_Inr bindR_eq_Inr
    fetch_eq_Inr Let_def split_paired_Ex prod.case
proof (elim exE conjE)
  fix s1 rb st d n s3
  assume 1: "runrex E 2 s = Inr s1" and rb: "fmlookup (rexbalance s1) a = Some rb"
    and 2: "update_rex_account E a 0 (amount d) True (s1\<lparr>rexbalance := fmupd a (rb\<lparr>vote_stake := st\<rparr>) (rexbalance s1)\<rparr>) =
      Inr (n, s3)" and 3: "modify_rex a (process_rex_maturities E) s3 = Inr t"
  have i: "rex_inv s1" using runrex_inv [OF A 1 s] .
  then have "row_ok (rb\<lparr>vote_stake := st\<rparr>)"
    using row_bounds(1) rb by (fastforce simp: rex_inv_def row_ok_def holds_def)
  then have "rex_inv (s1\<lparr>rexbalance := fmupd a (rb\<lparr>vote_stake := st\<rparr>) (rexbalance s1)\<rparr>)"
    using row_change [of s1 "{}" a rb "rb\<lparr>vote_stake := st\<rparr>"] i rb by (simp add: rex_inv_def)
  then show ?thesis using account_inv [OF 2] mature_inv [OF 3] by blast
qed

lemma closerex_inv:
  assumes A: "asset_laws (e_assets E)" and ok: "closerex E a s = Inr t" and s: "rex_inv s"
  shows "rex_inv t"
proof -
  obtain s1 n s2 s3 where 1: "(if rex_system_initialized s then runrex E 2 s else Inr s) = Inr s1"
    and 2: "update_rex_account E a 0 0 False s1 = Inr (n, s2)"
    and s3: "s3 = s2 \<or> s3 = s2\<lparr>rexfunds := fmdrop a (rexfunds s2)\<rparr>"
    and t: "(case fmlookup (rexbalance s3) a of None \<Rightarrow> Inr s3
      | Some rb \<Rightarrow> check (amount (rex_amount rb) = 0) (Rex Remaining_rex_balance) (
         Inr (s3\<lparr>rexbalance := fmdrop a (rexbalance s3)\<rparr>))) = Inr t"
    using ok unfolding closerex_def Let_def require_auth_eq_Inr bindR_eq_Inr split_paired_Ex prod.case
    by (elim exE conjE) (rule that, assumption, assumption, rule if_choice, assumption)
  have "rex_inv s1" using 1 runrex_inv [OF A] s by (cases "rex_system_initialized s") auto
  then have "rex_inv s2" using account_inv [OF 2] by blast
  moreover have "same_rex s2 s3" using s3 by (elim disjE) (simp_all add: same_rex_fields)
  ultimately have i: "rex_inv s3" using same_rex_inv by blast
  show ?thesis
  proof (cases "fmlookup (rexbalance s3) a")
    case None
    then show ?thesis using t i by simp
  next
    case (Some rb)
    then have z: "amount (rex_amount rb) = 0" and t': "t = s3\<lparr>rexbalance := fmdrop a (rexbalance s3)\<rparr>"
      using t by (auto simp: check_eq_Inr)
    then have m: "matured_rex rb = 0" using row_bounds [OF _ Some] i by (fastforce simp: rex_inv_def)
    have "rex_held t = rex_held s3" using Some z by (simp add: t' rex_held_def table_sum_drop row_val_def)
    then have "rex_sound t" using i by (auto simp: t' rex_inv_def rex_sound_def rex_issued_def split: if_splits)
    moreover have v: "row_val matured_rex (fmdrop a (rexbalance s3)) k = row_val matured_rex (rexbalance s3) k" for k
      using Some m by (simp add: row_val_def)
    have "covered t" using i by (simp add: t' rex_inv_def covered_but_def v)
    ultimately show ?thesis by (simp add: rex_inv_def)
  qed
qed

lemma rent_inv:
  assumes A: "asset_laws (e_assets E)" and ok: "rent E k a b q f s = Inr t" and s: "rex_inv s"
  shows "rex_inv t"
proof -
  obtain n s1 where 1: "rent_rex E k a b q f s = Inr (n, s1)" and 2: "limits_delta E k b n s1 = Inr t"
    using ok by (auto simp: rent_def res_simps)
  from 1 have "rex_inv s1"
    unfolding rent_rex_def core_symbol_eq_Inr check_eq_Inr bindR_eq_Inr fetch_eq_Inr Let_def sum.inject prod.inject
  proof (elim exE conjE)
    fix u s2 n' s3 l j st
    assume u: "runrex E 2 s = Inr u" "transfer_from_fund E a j u = Inr s2" "add_loan_to_rex_pool E q n' True s2 = Inr s3"
      and s1: "emit (Rent_result st) (set_loans k l s3) = s1"
    have "same_rex u (set_loans k l s3)"
      using fund_transfers_rex(2) [OF u(2)] add_loan_rex [OF u(3)] same_rex_trans unfolding set_loans_rex by blast
    then show ?thesis using runrex_inv [OF A u(1) s] same_rex_inv s1 by auto
  qed
  then show ?thesis using same_rex_inv [OF limits_delta_rex [OF 2]] by blast
qed

lemma funds_inv:
  "deposit E a q s = Inr t \<Longrightarrow> rex_inv s \<Longrightarrow> rex_inv t" "withdraw E a q s = Inr t \<Longrightarrow> rex_inv s \<Longrightarrow> rex_inv t"
proof -
  show "rex_inv t" if "deposit E a q s = Inr t" "rex_inv s"
    using that fund_transfers_rex(1) same_rex_inv by (fastforce simp: deposit_def res_simps)
  show "rex_inv t" if "withdraw E a q s = Inr t" "rex_inv s"
    using that account_inv fund_transfers_rex(2) same_rex_inv by (fastforce simp: withdraw_def res_simps)
qed

section \<open>Any sequence of actions\<close>

text \<open>The open orders together ask for no more REX than was issued.\<close>

lemma table_sum_le_rows:
  assumes "\<And>k v. fmlookup A k = Some v \<Longrightarrow> f v \<le> row_val g B k" and nn: "\<And>k w. fmlookup B k = Some w \<Longrightarrow> 0 \<le> g w"
  shows "table_sum f A \<le> table_sum g B"
proof -
  let ?A = "fset (fmdom A)" and ?B = "fset (fmdom B)"
  have v: "0 \<le> row_val g B k" for k using nn by (auto simp: row_val_def split: option.split)
  have "table_sum f A \<le> (\<Sum>k \<in> ?A. row_val g B k)"
    unfolding table_sum_def using assms(1) by (intro sum_mono) (auto elim!: fmdomE)
  also have "\<dots> = (\<Sum>k \<in> ?A \<inter> ?B. row_val g B k)"
    by (rule sum.mono_neutral_right) (auto simp: row_val_def fmdom_notD split: option.split)
  also have "\<dots> \<le> (\<Sum>k \<in> ?B. row_val g B k)" using v by (intro sum_mono2) auto
  also have "\<dots> = table_sum g B"
    unfolding table_sum_def by (rule sum.cong) (auto simp: row_val_def elim!: fmdomE)
  finally show ?thesis .
qed

lemma orders_fit:
  assumes "rex_inv s"
  shows "table_sum wanted (rexorders s) \<le> rex_issued s"
proof -
  have s: "rex_sound s" "covered s" using assms by (simp_all add: rex_inv_def)
  have "table_sum wanted (rexorders s) \<le> table_sum (\<lambda>rb. amount (rex_amount rb)) (rexbalance s)"
  proof (rule table_sum_le_rows)
    fix k o' assume "fmlookup (rexorders s) k = Some o'"
    then have "wanted o' \<le> row_val matured_rex (rexbalance s) k" using s(2) by (simp add: covered_but_def)
    also have "\<dots> \<le> row_val (\<lambda>rb. amount (rex_amount rb)) (rexbalance s) k"
      using row_bounds(3) [OF s(1)] by (auto simp: row_val_def split: option.split)
    finally show "wanted o' \<le> row_val (\<lambda>rb. amount (rex_amount rb)) (rexbalance s) k" .
  next
    fix k rb assume "fmlookup (rexbalance s) k = Some rb"
    from row_bounds(2,3) [OF s(1) this] show "0 \<le> amount (rex_amount rb)" by linarith
  qed
  then show ?thesis using s(1) by (simp add: rex_sound_def rex_held_def)
qed

text \<open>The range of the amounts: a payment as in \<open>buy_range\<close>, and not more REX than an asset can have.\<close>

definition payment_range :: "int \<Rightarrow> chain \<Rightarrow> bool" where
  "payment_range n s \<longleftrightarrow> 0 < n \<and> n * 10000 \<le> i64_max \<and>
     (\<forall>p. rexpool s = Some p \<longrightarrow> 0 < amount (total_rex p) \<longrightarrow>
        pool_range n p \<and> amount (total_lendable p) + n \<le> max_amount)"

lemma payment_buy_range: "rex_inv s \<Longrightarrow> payment_range n s \<Longrightarrow> buy_range n s"
  using orders_fit [of s] by (auto simp: payment_range_def buy_range_def rex_issued_def)

definition amounts_ok :: "exchange_action \<Rightarrow> chain \<Rightarrow> bool" where
  "amounts_ok act s \<longleftrightarrow> (case act of
     Buyrex a q \<Rightarrow> payment_range (amount q) s
   | Unstaketorex a b n c \<Rightarrow> payment_range (amount n + amount c) s
   | Sellrex a q \<Rightarrow> rex_issued s \<le> max_amount
   | Mvtosavings a q \<Rightarrow> amount q \<le> i64_max
   | _ \<Rightarrow> True)"

lemma exchange_inv:
  assumes A: "asset_laws (e_assets E)" and rng: "amounts_ok act s" and ok: "exchange E act s = Inr t" and s: "rex_inv s"
  shows "rex_inv t"
proof (cases act)
  case (Deposit a q) then show ?thesis using ok s funds_inv(1) by simp
next
  case (Withdraw a q) then show ?thesis using ok s funds_inv(2) by simp
next
  case (Buyrex a q)
  then show ?thesis using ok rng buyrex_inv [OF A _ s payment_buy_range [OF s]] by (simp add: amounts_ok_def)
next
  case (Unstaketorex a b n c)
  then show ?thesis using ok rng unstaketorex_inv [OF A _ s payment_buy_range [OF s]] by (simp add: amounts_ok_def)
next
  case (Sellrex a q) then show ?thesis using ok rng sellrex_inv [OF A _ s] by (simp add: amounts_ok_def)
next
  case (Cnclrexorder a)
  then show ?thesis using ok by (auto simp: cnclrexorder_def res_simps intro!: same_rex_inv [OF same_rex_drop s])
next
  case (Rentcpu a b q f) then show ?thesis using ok rent_inv [OF A _ s] by (simp add: rentcpu_def)
next
  case (Rentnet a b q f) then show ?thesis using ok rent_inv [OF A _ s] by (simp add: rentnet_def)
next
  case (Fundcpuloan a n q)
  then show ?thesis using ok same_rex_inv [OF fund_loans_rex(1) s] by (auto simp: fundcpuloan_def require_auth_eq_Inr)
next
  case (Fundnetloan a n q)
  then show ?thesis using ok same_rex_inv [OF fund_loans_rex(1) s] by (auto simp: fundnetloan_def require_auth_eq_Inr)
next
  case (Defcpuloan a n q)
  then show ?thesis using ok same_rex_inv [OF fund_loans_rex(2) s] by (auto simp: defcpuloan_def require_auth_eq_Inr)
next
  case (Defnetloan a n q)
  then show ?thesis using ok same_rex_inv [OF fund_loans_rex(2) s] by (auto simp: defnetloan_def require_auth_eq_Inr)
next
  case (Updaterex a) then show ?thesis using ok updaterex_inv [OF A _ s] by simp
next
  case (Setrex q)
  then have "same_rex s t" using ok by (auto simp: setrex_def res_simps same_rex_def orders_kept_def rex_issued_def)
  then show ?thesis using same_rex_inv s by blast
next
  case (Rexexec a n)
  then show ?thesis using ok runrex_inv [OF A _ s] by (auto simp: rexexec_def require_auth_eq_Inr)
next
  case (Consolidate a) then show ?thesis using ok consolidate_inv [OF A _ s] by simp
next
  case (Mvtosavings a q) then show ?thesis using ok rng mvtosavings_inv [OF A _ s] by (simp add: amounts_ok_def)
next
  case (Mvfrsavings a q) then show ?thesis using ok mvfrsavings_inv [OF A _ s] by simp
next
  case (Closerex a) then show ?thesis using ok closerex_inv [OF A _ s] by simp
qed

end
