(* ===== verification/RexTokens.thy ===== *)
theory RexTokens
  imports RexSound
begin

text \<open>
  The state of the exchange between actions, beside the REX of \<open>RexSound\<close>: the pool is balanced and
  of the size of an asset, loans have positive payments, the buckets of the return pool are in
  order, and proceeds of orders are token amounts. The maintenance loop \<open>runrex\<close> keeps it.
\<close>

section \<open>The shape of the return pool\<close>

definition return_shape :: "rex_return_pool \<Rightarrow> return_buckets \<Rightarrow> bool" where
  "return_shape rp bs \<longleftrightarrow> 0 \<le> last_dist_time rp \<and> 0 \<le> pending_bucket_time rp \<and>
     current_rate_of_increase rp = bucket_sum bs \<and>
     (\<forall>(t, r) \<in> set bs. 0 \<le> r \<and> 0 \<le> t \<and> t \<le> last_dist_time rp \<and> t < pending_bucket_time rp \<and>
       last_dist_time rp < t + return_period \<and> oldest_bucket_time rp \<le> t) \<and>
     sorted_wrt (<) (map fst bs)"

lemma return_ok_shape:
  "return_ok rp bs \<longleftrightarrow> return_shape rp bs \<and> 0 \<le> pending_bucket_proceeds rp \<and> 0 \<le> proceeds rp"
  by (auto simp: return_ok_def return_shape_def)

text \<open>No bucket is younger than the time of the last action.\<close>

definition returns_shape :: "int \<Rightarrow> chain \<Rightarrow> bool" where
  "returns_shape now s \<longleftrightarrow> (case rexretpool s of None \<Rightarrow> True
     | Some rp \<Rightarrow> (\<exists>bs. rexretbuckets s = Some bs \<and> return_shape rp bs \<and> (\<forall>(t, r) \<in> set bs. t \<le> now)))"

lemma returns_shape_fields:
  "rexretpool t = rexretpool s \<Longrightarrow> rexretbuckets t = rexretbuckets s \<Longrightarrow> returns_shape now t = returns_shape now s"
  by (simp add: returns_shape_def split: option.split)

lemma returns_shape_later: "returns_shape now s \<Longrightarrow> now \<le> now' \<Longrightarrow> returns_shape now' s"
  by (fastforce simp: returns_shape_def split: option.splits)

lemma next_bucket:
  assumes "clock_ok E"
  shows "e_sec E < u32 (e_sec E - e_sec E mod (hours_per_bucket * seconds_per_hour) + hours_per_bucket * seconds_per_hour)"
proof -
  define m where "m = e_sec E mod 43200"
  have m: "0 \<le> m" "m < 43200" "m \<le> e_sec E" and e: "e_sec E < 4294900000"
    using assms by (simp_all add: m_def clock_ok_def zmod_le_nonneg_dividend)
  have "u32 (e_sec E - m + 43200) = e_sec E - m + 43200"
    by (rule u32_id) (use m e in linarith)+
  then show ?thesis using m by (simp add: hours_per_bucket_def seconds_per_hour_def m_def)
qed

lemma update_rex_pool_shape:
  assumes A: "asset_laws (e_assets E)" and clk: "clock_ok E" and s: "pool_ok s" "returns_ok s" "returns_bounded E s"
    "returns_shape (e_sec E) s" and ok: "update_rex_pool E s = Inr t"
  shows "returns_shape (e_sec E) t"
proof -
  have r: "returns_ok t" using update_rex_pool_spec [OF A s(1-3) ok] by simp
  from ok show ?thesis
  proof (cases rule: update_rex_pool_Inr)
    case 1
    then show ?thesis using s(4) by simp
  next
    case (2 rp bs rp' bs' n)
    have "rexretpool t = Some rp'" using release_to_pool_ret [OF 2(5)] by simp
    moreover have "last_dist_time rp' \<le> e_sec E"
      using distribute_last [OF 2(4)] clk by (simp add: clock_ok_def dist_interval_def)
    ultimately show ?thesis using r
      by (fastforce simp: returns_shape_def returns_ok_def return_ok_shape return_shape_def)
  qed
qed

lemma add_to_rex_return_pool_shape:
  assumes up: "updated E s" and clk: "clock_ok E" and s: "returns_shape (e_sec E) s"
    and ok: "add_to_rex_return_pool E fee s = Inr t"
  shows "returns_shape (e_sec E) t"
proof (cases "amount fee \<le> 0")
  case True
  then show ?thesis using ok s by (simp add: add_to_rex_return_pool_def update_rex_pool_idle [OF up])
next
  case False
  note nb = next_bucket [OF clk]
  have e0: "0 \<le> e_sec E" using clk by (simp add: clock_ok_def)
  note eq = ok [unfolded add_to_rex_return_pool_def update_rex_pool_idle [OF up] bindR_Inr Let_def]
  show ?thesis
  proof (cases "rexretpool s")
    case None
    then show ?thesis using eq False nb e0
      by (auto simp: check_eq_Inr returns_shape_def return_shape_def)
  next
    case (Some rp)
    obtain bs where bs: "rexretbuckets s = Some bs" "return_shape rp bs" "\<forall>(t, r) \<in> set bs. t \<le> e_sec E"
      using s Some by (auto simp: returns_shape_def)
    then show ?thesis using eq False Some nb e0
      by (fastforce simp: returns_shape_def return_shape_def)
  qed
qed

lemma channel_namebids_shape:
  assumes clk: "clock_ok E" and ok: "channel_namebids E s = Inr t" and up: "updated E s" and s: "returns_shape (e_sec E) s"
  shows "returns_shape (e_sec E) t"
proof -
  obtain p where p: "rexpool s = Some p" using ok by (auto simp: channel_namebids_def res_simps)
  show ?thesis
  proof (cases "0 < amount (namebid_proceeds p)")
    case True
    then obtain s1 p1 where 1: "channel_to_rex E names_account (namebid_proceeds p) s = Inr s1"
      and t: "t = s1\<lparr>rexpool := Some p1\<rparr>"
      using ok p by (auto simp: channel_namebids_def res_simps)
    have "returns_shape (e_sec E) s1"
    proof (cases "rex_available s")
      case True
      then obtain u where u: "add_to_rex_return_pool E (namebid_proceeds p) s = Inr u"
        and s1: "s1 = emit (Transfer [names_account] names_account rex_account (namebid_proceeds p)) u"
        using 1 by (auto simp: channel_to_rex_def res_simps)
      show ?thesis using add_to_rex_return_pool_shape [OF up clk s u] returns_shape_fields [of s1 u] by (simp add: s1)
    qed (use 1 s in \<open>simp add: channel_to_rex_def\<close>)
    then show ?thesis using returns_shape_fields [of t s1] by (simp add: t)
  qed (use ok p s in \<open>auto simp: channel_namebids_def res_simps\<close>)
qed

lemma add_loan_shape:
  assumes clk: "clock_ok E" and ok: "add_loan_to_rex_pool E pay n b s = Inr t" and up: "updated E s"
    and s: "returns_shape (e_sec E) s"
  shows "returns_shape (e_sec E) t"
proof -
  obtain u p where u: "add_to_rex_return_pool E pay s = Inr u" and t: "t = u\<lparr>rexpool := Some p\<rparr>"
    using ok by (auto simp: add_loan_to_rex_pool_def res_simps)
  show ?thesis using add_to_rex_return_pool_shape [OF up clk s u] returns_shape_fields [of t u] by (simp add: t)
qed

lemma set_loans_returns [simp]: "rexretbuckets (set_loans k l s) = rexretbuckets s"
  by (cases k) (simp_all add: set_loans_def)

lemma set_loans_shape [simp]: "returns_shape now (set_loans k l s) = returns_shape now s"
  by (rule returns_shape_fields) simp_all

lemma fund_returns:
  assumes "t = s\<lparr>rexfunds := rexfunds t\<rparr>"
  shows "returns_shape now t = returns_shape now s"
proof -
  obtain f where "t = s\<lparr>rexfunds := f\<rparr>" using assms by blast
  then show ?thesis by (intro returns_shape_fields) simp_all
qed

lemma quotas_shape: "same_but_quotas s t \<Longrightarrow> returns_shape now t = returns_shape now s"
  using same_but_quotas_fields [of s t] by (intro returns_shape_fields) simp_all

lemma process_expired_loan_shape:
  assumes clk: "clock_ok E" and ok: "process_expired_loan E k n loan s = Inr (del, d, t)" and run: "running E s"
    and s: "returns_shape (e_sec E) s"
  shows "returns_shape (e_sec E) t"
proof -
  obtain s1 n' R where s1: "remove_loan_from_rex_pool loan s = Inr s1"
    and rest: "(if R then
       bindR (add_loan_to_rex_pool E (payment loan) n' False s1) (\<lambda>s2.
       let (delta_stake, loan') = update_renewed_loan n' loan in
       Inr (False, delta_stake, set_loans k (fmupd n loan' (loans k s2)) s2))
     else
       bindR (if 0 < amount (ln_balance loan) then transfer_to_fund (ln_from loan) (ln_balance loan) s1
         else Inr s1) (\<lambda>s2.
       Inr (True, i64 (- amount (total_staked loan)), s2))) = Inr (del, d, t)"
    using ok by (auto simp: process_expired_loan_def res_simps)
  obtain p where "s1 = s\<lparr>rexpool := p\<rparr>" using s1 by (auto simp: remove_loan_from_rex_pool_def res_simps Let_def)
  then have q1: "returns_shape (e_sec E) s1" using s returns_shape_fields [of s1 s] by simp
  have up: "updated E s1" using remove_loan_moves [OF s1 run] by (simp add: running_def)
  show ?thesis
  proof (cases R)
    case True
    then show ?thesis using rest add_loan_shape [OF clk _ up q1] by (auto simp: res_simps update_renewed_loan_def)
  next
    case False
    then show ?thesis using rest q1 fund_returns [OF transfer_to_fund_same]
      by (cases "0 < amount (ln_balance loan)") (auto simp: res_simps)
  qed
qed

lemma process_loans_shape:
  assumes A: "asset_laws (e_assets E)" and clk: "clock_ok E"
  shows "process_loans i E k s = Inr t \<Longrightarrow> running E s \<Longrightarrow> returns_shape (e_sec E) s \<Longrightarrow> returns_shape (e_sec E) t"
proof (induction i arbitrary: s)
  case (Suc i)
  show ?case
  proof (cases "loans_by_expiration k s = [] \<or> e_now E < expiration (snd (hd (loans_by_expiration k s)))")
    case True
    then show ?thesis using Suc.prems by (auto split: list.splits prod.splits)
  next
    case False
    then obtain n loan rest where nl: "loans_by_expiration k s = (n, loan) # rest"
      by (cases "loans_by_expiration k s") auto
    then obtain del d s1 s2 where 1: "process_expired_loan E k n loan s = Inr (del, d, s1)"
      and 2: "(if d \<noteq> 0 then limits_delta E k (ln_receiver loan) d s1 else Inr s1) = Inr s2"
      and 3: "process_loans i E k (if del then set_loans k (fmdrop n (loans k s2)) s2 else s2) = Inr t"
      using Suc.prems False by (auto simp: res_simps)
    let ?u = "if del then set_loans k (fmdrop n (loans k s2)) s2 else s2"
    have "process_loans 1 E k s = Inr ?u" using nl False 1 2 by (simp add: res_simps)
    then have "running E ?u" using process_loans_moves [OF A clk _ Suc.prems(2)] by blast
    moreover have "returns_shape (e_sec E) s1" by (rule process_expired_loan_shape [OF clk 1 Suc.prems(2,3)])
    then have "returns_shape (e_sec E) s2"
      using 2 quotas_shape [OF limits_delta_same] by (cases "d = 0") auto
    then have "returns_shape (e_sec E) ?u" by simp
    ultimately show ?thesis using Suc.IH [OF 3] by blast
  qed
qed simp

lemma process_order_shape:
  assumes "asset_laws (e_assets E)" "process_order E x s = Inr t"
  shows "returns_shape now t = returns_shape now s"
proof -
  obtain k o' where x: "x = (k, o')" by (cases x)
  show ?thesis
  proof (cases "fmlookup (rexbalance s) k")
    case None
    then show ?thesis using assms(2) by (simp add: process_order_def x)
  next
    case (Some rb)
    obtain r s1 where f: "fill_rex_order E k (rex_requested o') s = Inr (r, s1)"
      and t: "t = (if success r then emit (Order_result k (out_proceeds r))
        (s1\<lparr>rexorders := fmupd k (filled_order r o') (rexorders s1)\<rparr>) else s1)"
      using assms(2) [unfolded x] Some by (rule process_order_Inr)
    from assms(1) f have "returns_shape now s1 = returns_shape now s"
      by (cases rule: fill_rex_order_cases) (intro returns_shape_fields; simp)+
    then show ?thesis using returns_shape_fields [of t s1] by (simp add: t)
  qed
qed

lemma process_orders_shape:
  assumes "asset_laws (e_assets E)"
  shows "foldR (process_order E) xs s = Inr t \<Longrightarrow> returns_shape now t = returns_shape now s"
  by (induction xs arbitrary: s) (auto simp: res_simps dest: process_order_shape [OF assms])

section \<open>The invariant of the exchange\<close>

definition proceeds_ok :: "chain \<Rightarrow> bool" where
  "proceeds_ok s \<longleftrightarrow> (\<forall>a o'. fmlookup (rexorders s) a = Some o' \<longrightarrow> 0 \<le> collectable o' \<and> collectable o' \<le> max_amount)"

definition tokens_inv :: "int \<Rightarrow> chain \<Rightarrow> bool" where
  "tokens_inv now s \<longleftrightarrow> pool_ok s \<and> loans_ok s \<and> returns_shape now s \<and>
     (\<forall>p. rexpool s = Some p \<longrightarrow> 0 \<le> amount (total_lendable p) \<and> amount (total_lendable p) \<le> max_amount) \<and>
     proceeds_ok s"

definition exchange_ok :: "int \<Rightarrow> chain \<Rightarrow> bool" where
  "exchange_ok now s \<longleftrightarrow> rex_inv s \<and> tokens_inv now s"

text \<open>
  The sizes that are assumed at each step: the return pool's amounts are far from overflow
  (\<open>returns_bounded\<close>) and have not become negative.
\<close>

definition sizes_ok :: "env \<Rightarrow> chain \<Rightarrow> bool" where
  "sizes_ok E s \<longleftrightarrow> asset_laws (e_assets E) \<and> clock_ok E \<and> returns_bounded E s \<and>
     (\<forall>rp. rexretpool s = Some rp \<longrightarrow> 0 \<le> pending_bucket_proceeds rp \<and> 0 \<le> proceeds rp)"

lemma sizes_ok_fields: "rexretpool t = rexretpool s \<Longrightarrow> sizes_ok E t = sizes_ok E s"
  by (simp add: sizes_ok_def returns_bounded_def)

lemma exchange_queue_ok: "exchange_ok now s \<Longrightarrow> queue_ok s"
  using orders_fit [of s]
  by (auto simp: exchange_ok_def tokens_inv_def proceeds_ok_def queue_ok_def pool_size_ok_def order_ok_def rex_inv_def rex_sound_def
      covered_but_def rex_issued_def)

lemma exchange_books_ok: "exchange_ok now s \<Longrightarrow> sizes_ok E s \<Longrightarrow> books_ok E s"
  using exchange_queue_ok [of now s]
  by (auto simp: books_ok_def exchange_ok_def tokens_inv_def sizes_ok_def returns_ok_def returns_shape_def return_ok_shape
      split: option.splits)

text \<open>What leaves everything but funds, balances and quotas as it is, and at most drops orders.\<close>

definition same_tokens :: "chain \<Rightarrow> chain \<Rightarrow> bool" where
  "same_tokens s t \<longleftrightarrow> rexpool t = rexpool s \<and> rexretpool t = rexretpool s \<and> rexretbuckets t = rexretbuckets s \<and>
     (\<forall>k. loans k t = loans k s) \<and> orders_kept s t"

lemma same_tokens_refl [simp]: "same_tokens s s"
  by (simp add: same_tokens_def orders_kept_def)

lemma same_tokens_trans: "same_tokens s t \<Longrightarrow> same_tokens t u \<Longrightarrow> same_tokens s u"
  by (auto simp: same_tokens_def orders_kept_def)

lemma same_tokens_emit [simp]: "same_tokens s (emit m t) = same_tokens s t"
  by (simp add: same_tokens_def orders_kept_def)

lemma same_tokens_upd [simp]:
  "same_tokens s (t\<lparr>rexbalance := b\<rparr>) = same_tokens s t" "same_tokens s (t\<lparr>rexfunds := f\<rparr>) = same_tokens s t"
  "same_tokens s (s\<lparr>rexorders := fmdrop a (rexorders s)\<rparr>)"
  by (simp_all add: same_tokens_def orders_kept_def)

lemma same_tokens_inv: "same_tokens s t \<Longrightarrow> tokens_inv now s \<Longrightarrow> tokens_inv now t"
proof -
  assume *: "same_tokens s t" "tokens_inv now s"
  then have "proceeds_ok t" unfolding same_tokens_def orders_kept_def tokens_inv_def proceeds_ok_def by blast
  moreover have "returns_shape now t"
    using * returns_shape_fields [of t s now] by (simp add: same_tokens_def tokens_inv_def)
  ultimately show ?thesis using * by (simp add: same_tokens_def tokens_inv_def pool_ok_def loans_ok_def)
qed

lemma same_tokens_sizes: "same_tokens s t \<Longrightarrow> sizes_ok E t = sizes_ok E s"
  using sizes_ok_fields [of t s E] by (simp add: same_tokens_def)

lemma same_tokens_fields:
  assumes "rexpool t = rexpool s" "rexretpool t = rexretpool s" "rexretbuckets t = rexretbuckets s"
    "cpu_loans t = cpu_loans s" "net_loans t = net_loans s" "rexorders t = rexorders s"
  shows "same_tokens s t"
  using assms loans_fields [of t s] by (simp add: same_tokens_def orders_kept_def)

lemma fund_tokens:
  "transfer_to_fund a q s = Inr t \<Longrightarrow> same_tokens s t" "transfer_from_fund E a q s = Inr t \<Longrightarrow> same_tokens s t"
proof -
  show "same_tokens s t" if e: "transfer_to_fund a q s = Inr t"
  proof -
    obtain f where "t = s\<lparr>rexfunds := f\<rparr>" using transfer_to_fund_same [OF e] by blast
    then show ?thesis by simp
  qed
  show "same_tokens s t" if e: "transfer_from_fund E a q s = Inr t"
  proof -
    obtain f where "t = s\<lparr>rexfunds := f\<rparr>" using transfer_from_fund_same [OF e] by blast
    then show ?thesis by simp
  qed
qed

lemma voting_power_tokens: "update_voting_power E a n s = Inr t \<Longrightarrow> same_tokens s t"
  using without_votes_fields [OF update_voting_power_without_votes] by (intro same_tokens_fields) simp_all

lemma quotas_tokens: "same_but_quotas s t \<Longrightarrow> same_tokens s t"
  using same_but_quotas_fields [of s t] by (intro same_tokens_fields) simp_all

lemma account_tokens:
  assumes "update_rex_account E a f n b s = Inr (m, t)"
  shows "same_tokens s t"
proof -
  obtain core f' n' s1 s2 where
    1: "(f', s1) = (case fmlookup (rexorders s) a of None \<Rightarrow> (f, s)
      | Some o' \<Rightarrow> if is_open o' then (f, s)
        else (i64 (f + amount (ro_proceeds o')), s\<lparr>rexorders := fmdrop a (rexorders s)\<rparr>))"
    and 2: "(if 0 < f' then transfer_to_fund a \<lparr>amount = f', asym = core\<rparr> s1 else Inr s1) = Inr s2"
    and 3: "(if b \<or> n' \<noteq> 0 then update_voting_power E a n' s2 else Inr s2) = Inr t"
    using assms by (fastforce simp: update_rex_account_def core_symbol_eq_Inr bindR_eq_Inr Let_def
        split: option.splits if_splits)
  have "same_tokens s s1" using 1 by (auto split: option.splits if_splits)
  moreover have "same_tokens s1 s2" using 2 fund_tokens(1) by (cases "0 < f'") auto
  moreover have "same_tokens s2 t" using 3 voting_power_tokens by (cases "b \<or> n' \<noteq> 0") auto
  ultimately show ?thesis using same_tokens_trans by blast
qed

lemma modify_rex_tokens: "modify_rex a f s = Inr t \<Longrightarrow> same_tokens s t"
  by (auto simp: modify_rex_def res_simps)

section \<open>The maintenance loop keeps it\<close>

lemma runrex_tokens:
  assumes e: "exchange_ok (e_sec E) s" and z: "sizes_ok E s" and ok: "runrex E n s = Inr t"
  shows "exchange_ok (e_sec E) t" "running E t"
proof -
  note b = exchange_books_ok [OF e z]
  have A: "asset_laws (e_assets E)" and clk: "clock_ok E" using z by (simp_all add: sizes_ok_def)
  have s: "pool_ok s" "returns_ok s" "returns_bounded E s" "loans_ok s" "returns_shape (e_sec E) s"
    using b e by (simp_all add: books_ok_def exchange_ok_def tokens_inv_def)
  note r = runrex_moves [OF b ok]
  then show "running E t" by simp
  obtain s1 s2 s3 s4 where
    1: "update_rex_pool E s = Inr s1" and 2: "channel_namebids E s1 = Inr s2"
    and 3: "process_loans n E Cpu s2 = Inr s3" and 4: "process_loans n E Net s3 = Inr s4"
    and 5: "foldR (process_order E) (takeWhile (\<lambda>(k, o'). is_open o') (take n (orders_by_time s4))) s4 = Inr t"
    using ok unfolding runrex_def check_eq_Inr bindR_eq_Inr by (elim exE conjE)
  have "loans k s1 = loans k s" for k
    by (rule same_but_pool_fields(9) [OF update_rex_pool_same [OF 1]])
  then have "loans_ok s1" using s(4) loans_ok_same by blast
  then have r1: "running E s1"
    using update_rex_pool_updated [OF 1] update_rex_pool_ok [OF A 1 s(1)] by (simp add: running_def)
  have up1: "updated E s1" using r1 by (simp add: running_def)
  have h1: "returns_shape (e_sec E) s1" by (rule update_rex_pool_shape [OF A clk s(1-3,5) 1])
  note h2 = channel_namebids_shape [OF clk 2 up1 h1] and r2 = channel_namebids_moves [OF clk 2 r1]
  note h3 = process_loans_shape [OF A clk 3 conjunct2 [OF r2] h2]
    and r3 = process_loans_moves [OF A clk 3 conjunct2 [OF r2]]
  note h4 = process_loans_shape [OF A clk 4 conjunct2 [OF r3] h3]
  have "returns_shape (e_sec E) t" using h4 process_orders_shape [OF A 5] by simp
  then have "tokens_inv (e_sec E) t"
    using r by (auto simp: tokens_inv_def proceeds_ok_def running_def queue_ok_def pool_size_ok_def order_ok_def)
  then show "exchange_ok (e_sec E) t" using runrex_inv [OF A ok] e by (simp add: exchange_ok_def)
qed

end
