(* ===== verification/Exchange.thy ===== *)
theory Exchange
  imports RexTokens
begin

text \<open>
  The exchange as a machine: every action keeps the invariant \<open>exchange_ok\<close>, so that the books of
  \<open>RexSupply\<close> balance along every sequence of actions from a state that satisfies it. What is left
  to assume at each step (\<open>step_ok\<close>) are sizes of amounts, and that the clock does not run backwards.
\<close>

section \<open>The actions keep it\<close>

lemma exchange_ok_step: "exchange_ok now s \<Longrightarrow> same_tokens s t \<Longrightarrow> rex_inv t \<Longrightarrow> exchange_ok now t"
  by (simp add: exchange_ok_def same_tokens_inv)

lemma after_runrex:
  assumes "exchange_ok (e_sec E) s" "sizes_ok E s" "runrex E n s = Inr u" "same_tokens u t"
  shows "tokens_inv (e_sec E) t"
  using runrex_tokens(1) [OF assms(1-3)] same_tokens_inv [OF assms(4)] by (simp add: exchange_ok_def)

lemma purchase_tokens:
  assumes e: "exchange_ok (e_sec E) s" and z: "sizes_ok E s" and rng: "buy_range (amount q) s"
    and 1: "add_to_rex_pool E q s = Inr (r, s1)" "add_to_rex_balance E a q' r s1 = Inr (d, s2)"
    and 2: "runrex E 2 s2 = Inr s3" "update_rex_account E a 0 n f s3 = Inr (m, s4)"
  shows "tokens_inv (e_sec E) s4"
proof -
  have A: "asset_laws (e_assets E)" using z by (simp add: sizes_ok_def)
  obtain p where s1: "s1 = s\<lparr>rexpool := p\<rparr>" using 1(1) by (rule add_to_rex_pool_Inr) blast+
  obtain bb where s2: "s2 = s1\<lparr>rexbalance := bb\<rparr>" using add_to_rex_balance_same [OF 1(2)] by blast
  have "pool_ok s1" using add_to_rex_pool_ok [OF A 1(1)] rng by (simp add: buy_range_def in_i64_def i64_max_def)
  moreover have "queue_ok s1"
    using add_to_rex_pool_moves [OF A 1(1) rng exchange_queue_ok [OF e]] by simp
  moreover have "returns_shape (e_sec E) s1" "loans_ok s1" "proceeds_ok s1"
    using e returns_shape_fields [of s1 s] by (simp_all add: s1 exchange_ok_def tokens_inv_def loans_ok_def proceeds_ok_def)
  ultimately have "tokens_inv (e_sec E) s1" by (simp add: tokens_inv_def queue_ok_def pool_size_ok_def)
  then have "tokens_inv (e_sec E) s2" using same_tokens_inv [of s1 s2] by (simp add: s2)
  moreover have "rex_inv s2" using purchase_sound [OF _ _ rng 1] e by (simp add: exchange_ok_def rex_inv_def)
  moreover have "sizes_ok E s2" using z sizes_ok_fields [of s2 s] by (simp add: s1 s2)
  ultimately show ?thesis using after_runrex [OF _ _ 2(1) account_tokens [OF 2(2)]] by (simp add: exchange_ok_def)
qed

lemma buyrex_tokens:
  assumes e: "exchange_ok (e_sec E) s" and z: "sizes_ok E s" and ok: "buyrex E a q s = Inr t"
    and rng: "buy_range (amount q) s"
  shows "tokens_inv (e_sec E) t"
  using ok unfolding buyrex_def require_auth_eq_Inr core_symbol_eq_Inr check_eq_Inr bindR_eq_Inr
    check_voting_requirement_def split_paired_Ex prod.case sum.inject
proof (elim exE conjE)
  fix s1 r s2 d s3 s4 n s5
  assume 1: "transfer_from_fund E a q s = Inr s1" and r: "add_to_rex_pool E q s1 = Inr (r, s2)"
    "add_to_rex_balance E a q r s2 = Inr (d, s3)" "runrex E 2 s3 = Inr s4"
    "update_rex_account E a 0 (amount d) False s4 = Inr (n, s5)" and t: "emit (Buy_result r) s5 = t"
  obtain f where s1: "s1 = s\<lparr>rexfunds := f\<rparr>" using transfer_from_fund_same [OF 1] by blast
  have "rex_inv s1" using fund_transfers_rex(2) [OF 1] same_rex_inv e by (auto simp: exchange_ok_def)
  then have "exchange_ok (e_sec E) s1" using exchange_ok_step [OF e fund_tokens(2) [OF 1]] by simp
  moreover have "buy_range (amount q) s1" using rng buy_range_fields [of s1 s] by (simp add: s1)
  moreover have "sizes_ok E s1" using z same_tokens_sizes [OF fund_tokens(2) [OF 1]] by simp
  ultimately have "tokens_inv (e_sec E) s5" using purchase_tokens r by blast
  then show ?thesis using same_tokens_inv [of s5 t] t by auto
qed

lemma unstaketorex_tokens:
  assumes e: "exchange_ok (e_sec E) s" and z: "sizes_ok E s" and ok: "unstaketorex E a b net cpu s = Inr t"
    and rng: "buy_range (amount net + amount cpu) s"
  shows "tokens_inv (e_sec E) t"
  using ok unfolding unstaketorex_def require_auth_eq_Inr core_symbol_eq_Inr check_eq_Inr bindR_eq_Inr
    check_voting_requirement_def fetch_eq_Inr Let_def split_paired_Ex prod.case sum.inject
proof (elim exE conjE)
  fix d n c s2 pay r s3 dd s4 s5 m s6 db
  let ?s = "emit (Transfer [stake_account] stake_account rex_account pay) s2"
  assume 1: "update_resource_limits E b n c (s\<lparr>delband := db\<rparr>) = Inr s2"
    and p: "aa_plus (e_assets E) net cpu = Inr pay"
    and r: "add_to_rex_pool E pay ?s = Inr (r, s3)" "add_to_rex_balance E a pay r s3 = Inr (dd, s4)"
    "runrex E 2 s4 = Inr s5" "update_rex_account E a 0 0 True s5 = Inr (m, s6)" and t: "emit (Buy_result r) s6 = t"
  have A: "asset_laws (e_assets E)" using z by (simp add: sizes_ok_def)
  note f = same_but_quotas_fields [OF update_resource_limits_same [OF 1]]
  have st: "same_tokens s ?s" using f by (intro same_tokens_fields) simp_all
  have "rex_inv ?s" using f same_rex_inv [OF same_rex_fields [of ?s s]] e by (simp add: exchange_ok_def)
  then have "exchange_ok (e_sec E) ?s" using exchange_ok_step [OF e st] by simp
  moreover have "amount pay = amount net + amount cpu" using asset_laws.plus_amount [OF A p] .
  then have "buy_range (amount pay) ?s" using rng f buy_range_fields [of ?s s] by simp
  moreover have "sizes_ok E ?s" using z same_tokens_sizes [OF st] by simp
  ultimately have "tokens_inv (e_sec E) s6" using purchase_tokens r by blast
  then show ?thesis using same_tokens_inv [of s6 t] t by auto
qed

lemma sellrex_tokens:
  assumes e: "exchange_ok (e_sec E) s" and z: "sizes_ok E s" and ok: "sellrex E a rex s = Inr t"
  shows "tokens_inv (e_sec E) t" "sell_range E rex s"
proof -
  have A: "asset_laws (e_assets E)" using z by (simp add: sizes_ok_def)
  from ok have "tokens_inv (e_sec E) t \<and> sell_range E rex s"
  proof (cases rule: sellrex_Inr)
    case (1 s1 rb s2 r s3 m s4 s5 rb2 rb5)
    note r1 = runrex_tokens [OF e z 1(2)]
    note m2 = modify_rex_tokens [OF 1(5)]
    have i2: "rex_inv s2" using mature_inv [OF 1(5)] r1(1) by (simp add: exchange_ok_def)
    have e2: "exchange_ok (e_sec E) s2" using exchange_ok_step [OF r1(1) m2 i2] .
    have le: "amount rex \<le> rex_issued s2" using row_bounds [OF _ 1(10)] i2 1(11) by (fastforce simp: rex_inv_def)
    have run2: "running E s2" using r1(2) running_fields [of s2 s1] m2 by (simp add: same_tokens_def)
    note r3 = fill_rex_order_moves [OF A 1(6) run2]
    have sz: "amount rex \<le> amount (total_rex p)" if "rexpool s2 = Some p" for p
      using le that by (simp add: rex_issued_def)
    note q3 = fill_rex_order_queue [OF A 1(6) exchange_queue_ok [OF e2] less_imp_le [OF 1(4)] sz]
    have "tokens_inv (e_sec E) s3"
      using A 1(6)
    proof (cases rule: fill_rex_order_cases)
      case (filled p q rb stake)
      have "returns_shape (e_sec E) s3" using e2 returns_shape_fields [of s3 s2] by (simp add: filled(6) exchange_ok_def tokens_inv_def)
      then show ?thesis using r3 q3 e2 filled(1,4,6) by (simp add: tokens_inv_def exchange_ok_def running_def proceeds_ok_def)
    next
      case queued
      then show ?thesis using e2 by (simp add: exchange_ok_def)
    qed
    then have t4: "tokens_inv (e_sec E) s4" using same_tokens_inv [OF account_tokens [OF 1(7)]] by blast
    have "tokens_inv (e_sec E) s5"
      using 1(8)
    proof (elim disjE conjE exE)
      fix core n assume "queue_order E a rex core s4 = Inr (n, s5)"
      then obtain o' where s5: "s5 = s4\<lparr>rexorders := fmupd a o' (rexorders s4)\<rparr>"
        and c: "collectable o' = row_val collectable (rexorders s4) a" by (rule queue_order_Inr)
      have "0 \<le> collectable o' \<and> collectable o' \<le> max_amount"
        using t4 unfolding c by (simp add: tokens_inv_def proceeds_ok_def row_val_def max_amount_def split: option.split)
      then show ?thesis using t4 returns_shape_fields [of s5 s4]
        by (simp add: s5 tokens_inv_def proceeds_ok_def pool_ok_def loans_ok_def)
    qed (use t4 in simp)
    then have "tokens_inv (e_sec E) t" using same_tokens_inv [of s5 t] 1(9) by simp
    moreover have "sell_range E rex s" using 1(2) sz m2 by (auto simp: sell_range_def same_tokens_def)
    ultimately show ?thesis ..
  qed
  then show "tokens_inv (e_sec E) t" "sell_range E rex s" by simp_all
qed

lemma set_loans_tokens:
  assumes "tokens_inv now s"
    and "\<And>n l. fmlookup t n = Some l \<Longrightarrow> fmlookup (loans k s) n = Some l \<or>
      (0 < amount (payment l) \<and> 0 \<le> amount (ln_balance l) \<and> amount (ln_balance l) \<le> i64_max)"
  shows "tokens_inv now (set_loans k t s)"
proof -
  have "loans_ok (set_loans k t s)"
    using assms unfolding tokens_inv_def loans_ok_def set_loans_lookup by metis
  then show ?thesis using assms(1) by (simp add: tokens_inv_def pool_ok_def proceeds_ok_def)
qed

lemma rent_tokens:
  assumes e: "exchange_ok (e_sec E) s" and z: "sizes_ok E s" and ok: "rent E k a b q f s = Inr t"
  shows "tokens_inv (e_sec E) t"
proof -
  have A: "asset_laws (e_assets E)" and clk: "clock_ok E" using z by (simp_all add: sizes_ok_def)
  obtain n s1 where 1: "rent_rex E k a b q f s = Inr (n, s1)" and 2: "limits_delta E k b n s1 = Inr t"
    using ok by (auto simp: rent_def res_simps)
  from 1 have "tokens_inv (e_sec E) s1"
    unfolding rent_rex_def core_symbol_eq_Inr check_eq_Inr bindR_eq_Inr fetch_eq_Inr Let_def sum.inject prod.inject
  proof (elim exE conjE)
    fix u s2 n' s3 p3 both st
    let ?l = "\<lparr>ln_from = a, ln_receiver = b, payment = q, ln_balance = f, total_staked = st, ln_num = loan_num p3,
      expiration = i64 (e_now E + thirty_days)\<rparr>"
    assume u: "runrex E 2 s = Inr u" and pos: "0 < amount q" "0 \<le> amount f"
      and both: "aa_plus (e_assets E) q f = Inr both" and fr: "transfer_from_fund E a both u = Inr s2"
      and ln: "add_loan_to_rex_pool E q n' True s2 = Inr s3"
      and s1: "emit (Rent_result st) (set_loans k (fmupd (loan_num p3) ?l (loans k s3)) s3) = s1"
    note ru = runrex_tokens [OF e z u]
    note f2 = fund_tokens(2) [OF fr]
    have run2: "running E s2" using ru(2) running_fields [of s2 u] f2 by (simp add: same_tokens_def)
    have t2: "tokens_inv (e_sec E) s2" using ru(1) same_tokens_inv [OF f2] by (simp add: exchange_ok_def)
    have q2: "queue_ok s2"
      using exchange_queue_ok exchange_ok_step [OF ru(1) f2] fund_transfers_rex(2) [OF fr] same_rex_inv ru(1)
      by (auto simp: exchange_ok_def)
    note m3 = add_loan_moves [OF A clk ln pos(1) run2]
    have up2: "updated E s2" using run2 by (simp add: running_def)
    have "returns_shape (e_sec E) s3" using add_loan_shape [OF clk ln up2] t2 by (simp add: tokens_inv_def)
    moreover have "queue_ok s3" by (rule add_loan_queue [OF ln up2 q2])
    moreover have "rexorders s3 = rexorders s2" using m3 same_but_pool_fields(4) by blast
    ultimately have t3: "tokens_inv (e_sec E) s3"
      using m3 t2 by (simp add: tokens_inv_def running_def queue_ok_def pool_size_ok_def proceeds_ok_def)
    have "\<bar>amount q + amount f\<bar> \<le> max_amount" using asset_laws.plus_ok [OF A both] by simp
    then have "amount f \<le> i64_max" using pos by (simp add: max_amount_def i64_max_def)
    then have "tokens_inv (e_sec E) (set_loans k (fmupd (loan_num p3) ?l (loans k s3)) s3)"
      using t3 pos by (intro set_loans_tokens) (auto split: if_splits)
    then show ?thesis using same_tokens_inv [of _ s1] s1 by (metis same_tokens_emit same_tokens_refl)
  qed
  then show ?thesis using same_tokens_inv [OF quotas_tokens [OF limits_delta_same [OF 2]]] by blast
qed

text \<open>What a loan may be funded with.\<close>

definition loan_range :: "loan_kind \<Rightarrow> int \<Rightarrow> asset \<Rightarrow> chain \<Rightarrow> bool" where
  "loan_range k n a s \<longleftrightarrow> (\<forall>l. fmlookup (loans k s) n = Some l \<longrightarrow> amount (ln_balance l) + amount a \<le> i64_max)"

lemma fund_loan_tokens:
  assumes s: "tokens_inv now s" and ok: "fund_rex_loan E k a n q s = Inr t" and rng: "loan_range k n q s"
  shows "tokens_inv now t"
proof -
  obtain s1 l where 1: "transfer_from_fund E a q s = Inr s1" and l: "fmlookup (loans k s1) n = Some l"
    and t: "t = set_loans k (fmupd n (l\<lparr>ln_balance :=
      set_amount (i64 (amount (ln_balance l) + amount q)) (ln_balance l)\<rparr>) (loans k s1)) s1"
    using ok by (auto simp: fund_rex_loan_def res_simps)
  have q: "0 < amount q" using 1 by (auto simp: transfer_from_fund_def res_simps)
  note f = fund_tokens(2) [OF 1]
  have t1: "tokens_inv now s1" using same_tokens_inv [OF f s] .
  have b: "0 < amount (payment l)" "0 \<le> amount (ln_balance l)" "amount (ln_balance l) + amount q \<le> i64_max"
    using t1 l rng f by (auto simp: tokens_inv_def loans_ok_def loan_range_def same_tokens_def)
  then have "i64 (amount (ln_balance l) + amount q) = amount (ln_balance l) + amount q"
    using q by (intro i64_id) (auto simp: i64_max_def)
  then show ?thesis unfolding t using b q by (intro set_loans_tokens [OF t1]) (auto split: if_splits)
qed

lemma defund_loan_tokens:
  assumes A: "asset_laws (e_assets E)" and s: "tokens_inv now s" and ok: "defund_rex_loan E k a n q s = Inr t"
  shows "tokens_inv now t"
proof -
  let ?u = "\<lambda>l. set_loans k (fmupd n (l\<lparr>ln_balance := set_amount (i64 (amount (ln_balance l) - amount q)) (ln_balance l)\<rparr>) (loans k s)) s"
  obtain l where l: "fmlookup (loans k s) n = Some l" and le: "aa_leq (e_assets E) q (ln_balance l) = Inr True"
    and 1: "transfer_to_fund a q (?u l) = Inr t"
    using ok by (auto simp: defund_rex_loan_def res_simps)
  have q: "0 < amount q" using 1 by (auto simp: transfer_to_fund_def res_simps)
  have b: "0 < amount (payment l)" "amount q \<le> amount (ln_balance l)" "amount (ln_balance l) \<le> i64_max"
    using s l asset_laws.leq_ok [OF A le] by (auto simp: tokens_inv_def loans_ok_def)
  then have "i64 (amount (ln_balance l) - amount q) = amount (ln_balance l) - amount q"
    using q by (intro i64_id) (auto simp: i64_max_def)
  then have "tokens_inv now (?u l)" using b q by (intro set_loans_tokens [OF s]) (auto split: if_splits)
  then show ?thesis using same_tokens_inv [OF fund_tokens(1) [OF 1]] by blast
qed

lemma funds_tokens:
  "deposit E a q s = Inr t \<Longrightarrow> same_tokens s t" "withdraw E a q s = Inr t \<Longrightarrow> same_tokens s t"
proof -
  show "same_tokens s t" if d: "deposit E a q s = Inr t"
  proof -
    have "transfer_to_fund a q (emit (Transfer [a] a rex_account q) s) = Inr t" using d by (auto simp: deposit_def res_simps)
    then show ?thesis using same_tokens_trans [OF _ fund_tokens(1)] same_tokens_emit same_tokens_refl by blast
  qed
  show "same_tokens s t" if w: "withdraw E a q s = Inr t"
  proof -
    obtain n s1 s2 where 1: "update_rex_account E a 0 0 False s = Inr (n, s1)" and 2: "transfer_from_fund E a q s1 = Inr s2"
      and t: "t = emit (Transfer [rex_account] rex_account a q) s2"
      using w by (auto simp: withdraw_def res_simps)
    show ?thesis using same_tokens_trans [OF account_tokens [OF 1] fund_tokens(2) [OF 2]] by (simp add: t)
  qed
qed

text \<open>The actions that run the maintenance and then change only balances.\<close>

lemma balances_tokens:
  assumes e: "exchange_ok (e_sec E) s" and z: "sizes_ok E s"
  shows "updaterex E a s = Inr t \<Longrightarrow> tokens_inv (e_sec E) t" "consolidate E a s = Inr t \<Longrightarrow> tokens_inv (e_sec E) t"
    "mvtosavings E a q s = Inr t \<Longrightarrow> tokens_inv (e_sec E) t" "mvfrsavings E a q s = Inr t \<Longrightarrow> tokens_inv (e_sec E) t"
proof -
  show "tokens_inv (e_sec E) t" if ok: "updaterex E a s = Inr t"
    using ok unfolding updaterex_def require_auth_eq_Inr core_symbol_eq_Inr check_eq_Inr bindR_eq_Inr
      fetch_eq_Inr Let_def split_paired_Ex prod.case
  proof (elim exE conjE)
    fix s1 rb st d n s3
    assume 1: "runrex E 2 s = Inr s1"
      and 2: "update_rex_account E a 0 (amount d) True (s1\<lparr>rexbalance := fmupd a (rb\<lparr>vote_stake := st\<rparr>) (rexbalance s1)\<rparr>) =
        Inr (n, s3)" and 3: "modify_rex a (process_rex_maturities E) s3 = Inr t"
    have "same_tokens s1 s3" using account_tokens [OF 2] same_tokens_trans same_tokens_upd(1) same_tokens_refl by blast
    then show ?thesis using after_runrex [OF e z 1] modify_rex_tokens [OF 3] same_tokens_trans by blast
  qed
  show "tokens_inv (e_sec E) t" if ok: "consolidate E a s = Inr t"
  proof -
    obtain s1 n s2 where 1: "runrex E 2 s = Inr s1" and 2: "update_rex_account E a 0 0 False s1 = Inr (n, s2)"
      and 3: "modify_rex a (consolidate_rex_balance E n) s2 = Inr t"
      using ok by (auto simp: consolidate_def res_simps)
    show ?thesis using after_runrex [OF e z 1] account_tokens [OF 2] modify_rex_tokens [OF 3] same_tokens_trans by blast
  qed
  show "tokens_inv (e_sec E) t" if ok: "mvtosavings E a q s = Inr t"
  proof -
    obtain s1 n s2 b where 1: "runrex E 2 s = Inr s1" and 2: "update_rex_account E a 0 0 False s1 = Inr (n, s2)"
      and t: "t = s2\<lparr>rexbalance := b\<rparr>"
      using ok by (auto simp: mvtosavings_def res_simps Let_def split_beta)
    have "same_tokens s1 t" using account_tokens [OF 2] by (simp add: t)
    then show ?thesis using after_runrex [OF e z 1] by blast
  qed
  show "tokens_inv (e_sec E) t" if ok: "mvfrsavings E a q s = Inr t"
  proof -
    obtain s1 n b where 1: "runrex E 2 s = Inr s1"
      and 2: "update_rex_account E a 0 0 False (s1\<lparr>rexbalance := b\<rparr>) = Inr (n, t)"
      using ok by (auto simp: mvfrsavings_def res_simps Let_def split_beta)
    have "same_tokens s1 (s1\<lparr>rexbalance := b\<rparr>)" by simp
    then show ?thesis using after_runrex [OF e z 1] account_tokens [OF 2] same_tokens_trans by blast
  qed
qed

lemma closerex_tokens:
  assumes e: "exchange_ok (e_sec E) s" and z: "sizes_ok E s" and ok: "closerex E a s = Inr t"
  shows "tokens_inv (e_sec E) t"
proof -
  obtain s1 n s2 s3 where 1: "(if rex_system_initialized s then runrex E 2 s else Inr s) = Inr s1"
    and 2: "update_rex_account E a 0 0 False s1 = Inr (n, s2)"
    and s3: "s3 = s2 \<or> s3 = s2\<lparr>rexfunds := fmdrop a (rexfunds s2)\<rparr>"
    and t: "(case fmlookup (rexbalance s3) a of None \<Rightarrow> Inr s3
      | Some rb \<Rightarrow> check (amount (rex_amount rb) = 0) (Rex Remaining_rex_balance) (
         Inr (s3\<lparr>rexbalance := fmdrop a (rexbalance s3)\<rparr>))) = Inr t"
    using ok unfolding closerex_def Let_def require_auth_eq_Inr bindR_eq_Inr split_paired_Ex prod.case
    by (elim exE conjE) (rule that, assumption, assumption, rule if_choice, assumption)
  have "tokens_inv (e_sec E) s1"
    using 1 after_runrex [OF e z] e by (cases "rex_system_initialized s") (auto simp: exchange_ok_def)
  moreover have "same_tokens s1 s3" using account_tokens [OF 2] s3 by auto
  moreover have "same_tokens s3 t" using t by (cases "fmlookup (rexbalance s3) a") (auto simp: check_eq_Inr)
  ultimately show ?thesis using same_tokens_trans same_tokens_inv by blast
qed

section \<open>Any sequence of actions\<close>

definition step_ok :: "env \<Rightarrow> exchange_action \<Rightarrow> chain \<Rightarrow> bool" where
  "step_ok E act s \<longleftrightarrow> sizes_ok E s \<and> amounts_ok act s \<and> (case act of
     Deposit a q \<Rightarrow> a \<noteq> rex_account
   | Withdraw a q \<Rightarrow> a \<noteq> rex_account
   | Fundcpuloan a n q \<Rightarrow> loan_range Cpu n q s
   | Fundnetloan a n q \<Rightarrow> loan_range Net n q s
   | _ \<Rightarrow> True)"

lemma exchange_tokens:
  assumes e: "exchange_ok (e_sec E) s" and st: "step_ok E act s" and ok: "exchange E act s = Inr t"
  shows "tokens_inv (e_sec E) t"
proof -
  have z: "sizes_ok E s" and am: "amounts_ok act s" using st by (simp_all add: step_ok_def)
  have A: "asset_laws (e_assets E)" using z by (simp add: sizes_ok_def)
  have r: "rex_inv s" and ti: "tokens_inv (e_sec E) s" using e by (simp_all add: exchange_ok_def)
  show ?thesis
  proof (cases act)
    case (Deposit a q) then show ?thesis using ok same_tokens_inv [OF funds_tokens(1) ti] by simp
  next
    case (Withdraw a q) then show ?thesis using ok same_tokens_inv [OF funds_tokens(2) ti] by simp
  next
    case (Buyrex a q)
    then show ?thesis using ok am buyrex_tokens [OF e z _ payment_buy_range [OF r]] by (simp add: amounts_ok_def)
  next
    case (Unstaketorex a b n c)
    then show ?thesis using ok am unstaketorex_tokens [OF e z _ payment_buy_range [OF r]] by (simp add: amounts_ok_def)
  next
    case (Sellrex a q) then show ?thesis using ok sellrex_tokens(1) [OF e z] by simp
  next
    case (Cnclrexorder a)
    then show ?thesis using ok by (auto simp: cnclrexorder_def res_simps intro!: same_tokens_inv [OF _ ti])
  next
    case (Rentcpu a b q f) then show ?thesis using ok rent_tokens [OF e z] by (simp add: rentcpu_def)
  next
    case (Rentnet a b q f) then show ?thesis using ok rent_tokens [OF e z] by (simp add: rentnet_def)
  next
    case (Fundcpuloan a n q)
    then show ?thesis using ok st fund_loan_tokens [OF ti] by (auto simp: fundcpuloan_def require_auth_eq_Inr step_ok_def)
  next
    case (Fundnetloan a n q)
    then show ?thesis using ok st fund_loan_tokens [OF ti] by (auto simp: fundnetloan_def require_auth_eq_Inr step_ok_def)
  next
    case (Defcpuloan a n q)
    then show ?thesis using ok defund_loan_tokens [OF A ti] by (auto simp: defcpuloan_def require_auth_eq_Inr)
  next
    case (Defnetloan a n q)
    then show ?thesis using ok defund_loan_tokens [OF A ti] by (auto simp: defnetloan_def require_auth_eq_Inr)
  next
    case (Updaterex a) then show ?thesis using ok balances_tokens(1) [OF e z] by simp
  next
    case (Setrex q)
    then obtain p where p: "rexpool s = Some p" and t: "t = s\<lparr>rexpool := Some (p\<lparr>total_rent := q\<rparr>)\<rparr>"
      using ok by (auto simp: setrex_def res_simps)
    then show ?thesis using ti returns_shape_fields [of t s]
      by (simp add: tokens_inv_def pool_ok_def pool_balanced_def loans_ok_def proceeds_ok_def)
  next
    case (Rexexec a n)
    then show ?thesis using ok after_runrex [OF e z _ same_tokens_refl] by (auto simp: rexexec_def require_auth_eq_Inr)
  next
    case (Consolidate a) then show ?thesis using ok balances_tokens(2) [OF e z] by simp
  next
    case (Mvtosavings a q) then show ?thesis using ok balances_tokens(3) [OF e z] by simp
  next
    case (Mvfrsavings a q) then show ?thesis using ok balances_tokens(4) [OF e z] by simp
  next
    case (Closerex a) then show ?thesis using ok closerex_tokens [OF e z] by simp
  qed
qed

lemma exchange_step:
  assumes e: "exchange_ok (e_sec E) s" and st: "step_ok E act s" and ok: "exchange E act s = Inr t"
  shows "exchange_ok (e_sec E) t \<and> rexl.moves (- written_off act s) s t"
proof
  have z: "sizes_ok E s" and am: "amounts_ok act s" using st by (simp_all add: step_ok_def)
  have A: "asset_laws (e_assets E)" using z by (simp add: sizes_ok_def)
  have r: "rex_inv s" using e by (simp add: exchange_ok_def)
  show "exchange_ok (e_sec E) t"
    using exchange_tokens [OF assms] exchange_inv [OF A am ok r] by (simp add: exchange_ok_def)
  have "action_ok E act s"
    using exchange_books_ok [OF e z] am st payment_buy_range [OF r] ok sellrex_tokens(2) [OF e z]
    by (auto simp: action_ok_def amounts_ok_def step_ok_def split: exchange_action.splits)
  then show "rexl.moves (- written_off act s) s t" by (rule exchange_moves [OF ok])
qed

text \<open>What a sequence of actions writes off: the overwritten tokens of its purchases.\<close>

fun all_written_off :: "(env \<times> exchange_action) list \<Rightarrow> chain \<Rightarrow> int" where
  "all_written_off [] s = 0"
| "all_written_off ((E, act) # acts) s =
     written_off act s + (case exchange E act s of Inl e \<Rightarrow> 0 | Inr t \<Rightarrow> all_written_off acts t)"

lemma exchanges_ok:
  "exchanges acts s = Inr t \<Longrightarrow> before_each step_ok acts s \<Longrightarrow> sorted (map (\<lambda>(E, act). e_sec E) acts) \<Longrightarrow>
     \<forall>(E, act) \<in> set acts. now \<le> e_sec E \<Longrightarrow> exchange_ok now s \<Longrightarrow> (\<exists>now'. exchange_ok now' t) \<and> rexl.moves (- all_written_off acts s) s t"
proof (induction acts arbitrary: s now)
  case Nil
  then show ?case by (auto simp: exchanges_def)
next
  case (Cons x acts)
  obtain E act where x: "x = (E, act)" by (cases x)
  obtain u where u: "exchange E act s = Inr u" "exchanges acts u = Inr t"
    using Cons.prems(1) by (auto simp: exchanges_def x res_simps)
  have "now \<le> e_sec E" using Cons.prems(4) by (simp add: x)
  then have "exchange_ok (e_sec E) s"
    using Cons.prems(5) returns_shape_later by (auto simp: exchange_ok_def tokens_inv_def)
  then have r: "exchange_ok (e_sec E) u \<and> rexl.moves (- written_off act s) s u"
    using exchange_step u(1) Cons.prems(2) by (auto simp: x)
  have "(\<exists>now'. exchange_ok now' t) \<and> rexl.moves (- all_written_off acts u) u t"
    using Cons.prems(2,3) u r by (intro Cons.IH [of u "e_sec E"]) (auto simp: x)
  then show ?case using r u(1) rexl.moves_trans [of "- written_off act s" s u "- all_written_off acts u" t]
    by (simp add: x)
qed

text \<open>
  C2: Whatever sequence of its actions the exchange runs from a state in order, the tokens it owes
  (funds, balances of loans, the lendable pool, returns not yet released and proceeds of filled
  orders) change by exactly what \<open>eosio.rex\<close> receives less what it pays, and less the lendable
  tokens that a purchase overwrites when all REX had been sold; and the exchange is in order again.
  Assumed are the sizes of amounts at each step and that time does not go back.
\<close>

theorem exchange_always_balances:
  assumes "exchanges acts s = Inr t" "before_each step_ok acts s"
    and "sorted (map (\<lambda>(E, act). e_sec E) acts)" "\<forall>(E, act) \<in> set acts. now \<le> e_sec E" "exchange_ok now s"
  shows "i64 (rex_net t) = i64 (rex_net s - all_written_off acts s) \<and> (\<exists>now'. exchange_ok now' t)"
  using exchanges_ok [OF assms] by (auto simp: rexl.moves_def)

text \<open>
  C3: After any such sequence the REX issued is exactly the REX of all rows, no part of a row is
  negative and its parts add up, and every open sell order asks for REX that has matured in its
  owner's row, so that it can be filled as soon as the pool has the tokens.
\<close>

theorem orders_are_covered:
  assumes "exchanges acts s = Inr t" "before_each step_ok acts s"
    and "sorted (map (\<lambda>(E, act). e_sec E) acts)" "\<forall>(E, act) \<in> set acts. now \<le> e_sec E" "exchange_ok now s"
  shows "rex_issued t = rex_held t \<and>
    (\<forall>a rb. fmlookup (rexbalance t) a = Some rb \<longrightarrow> 0 \<le> matured_rex rb \<and> (\<forall>b \<in> set (rex_maturities rb). 0 \<le> snd b) \<and>
       matured_rex rb + bucket_sum (rex_maturities rb) = amount (rex_amount rb)) \<and>
    (\<forall>a o'. fmlookup (rexorders t) a = Some o' \<longrightarrow> is_open o' \<longrightarrow>
       0 \<le> amount (rex_requested o') \<and> amount (rex_requested o') \<le> row_val matured_rex (rexbalance t) a)"
proof -
  have r: "rex_sound t" "covered t" using exchanges_ok [OF assms] by (auto simp: exchange_ok_def rex_inv_def)
  have "0 \<le> amount (rex_requested o') \<and> amount (rex_requested o') \<le> row_val matured_rex (rexbalance t) a"
    if "fmlookup (rexorders t) a = Some o'" "is_open o'" for a o'
    using r(2) that(1) that(2) unfolding covered_but_def wanted_def by fastforce
  moreover have "0 \<le> matured_rex rb \<and> (\<forall>b \<in> set (rex_maturities rb). 0 \<le> snd b) \<and>
      matured_rex rb + bucket_sum (rex_maturities rb) = amount (rex_amount rb)"
    if "fmlookup (rexbalance t) a = Some rb" for a rb
    using row_bounds(1) [OF r(1) that] by (simp add: row_ok_def holds_def)
  ultimately show ?thesis using r(1) by (simp add: rex_sound_def)
qed

section \<open>Witnesses\<close>

text \<open>A voter deposits tokens, buys REX with half of them, and six days later moves a fifth to savings.\<close>

definition later_rex_env :: env where
  "later_rex_env = sample_env\<lparr>e_now := 1600600000000000, e_sec := 1600600000\<rparr>"

definition to_savings :: exchange_action where
  "to_savings = Mvtosavings 1 \<lparr>amount = 100000000, asym = rex_symbol\<rparr>"

definition savings_story :: "(env \<times> exchange_action) list" where
  "savings_story = rex_story @ [(later_rex_env, to_savings)]"

lemma savings_story:
  obtains u t where "exchanges rex_story proxied_chain = Inr u" "exchange later_rex_env to_savings u = Inr t"
    "rexretpool u = None" "rex_issued t = 500000000" "row_val matured_rex (rexbalance t) 1 = 400000000"
proof -
  have "case exchanges rex_story proxied_chain of Inl e \<Rightarrow> False | Inr u \<Rightarrow> rexretpool u = None \<and>
    (case exchange later_rex_env to_savings u of Inl e \<Rightarrow> False | Inr t \<Rightarrow>
      rex_issued t = 500000000 \<and> row_val matured_rex (rexbalance t) 1 = 400000000)" by code_simp
  then show thesis by (auto split: sum.splits intro: that)
qed

lemma sizes_before_returns:
  "rexretpool s = None \<Longrightarrow> sizes_ok sample_env s" "rexretpool s = None \<Longrightarrow> sizes_ok later_rex_env s"
  using sample_laws by (simp_all add: sizes_ok_def returns_bounded_def clock_ok_def later_rex_env_def sample_env_def)

lemma savings_steps:
  assumes "exchanges rex_story proxied_chain = Inr u" "rexretpool u = None"
  shows "before_each step_ok savings_story proxied_chain"
proof -
  have 1: "step_ok sample_env (Deposit 1 (sys 100000)) proxied_chain"
    by (simp add: step_ok_def sizes_before_returns proxied_chain_rex amounts_ok_def account_defs)
  have 2: "step_ok sample_env (Buyrex 1 (sys 50000)) v"
    if "exchange sample_env (Deposit 1 (sys 100000)) proxied_chain = Inr v" for v
    using deposited [OF that]
    by (simp add: step_ok_def sizes_before_returns proxied_chain_rex amounts_ok_def payment_range_def i64_max_def)
  have "step_ok later_rex_env to_savings w"
    if "exchange sample_env (Deposit 1 (sys 100000)) proxied_chain = Inr v"
      "exchange sample_env (Buyrex 1 (sys 50000)) v = Inr w" for v w
  proof -
    have "w = u" using assms(1) that by (simp add: rex_story_def exchanges_def res_simps del: exchange.simps)
    then show ?thesis using assms(2)
      by (simp add: step_ok_def sizes_before_returns amounts_ok_def to_savings_def i64_max_def)
  qed
  then show ?thesis using 1 2 by (simp add: savings_story_def rex_story_def del: exchange.simps)
qed

lemma proxied_chain_exchange_ok: "exchange_ok 1600000000 proxied_chain"
  by (simp add: exchange_ok_def rex_inv_def rex_sound_def covered_but_def tokens_inv_def proceeds_ok_def pool_ok_def
      loans_ok_def returns_shape_def rex_issued_def rex_held_def proxied_chain_rex i64_max_def)

lemma savings_times:
  "sorted (map (\<lambda>(E, act). e_sec E) savings_story)" "\<forall>(E, act) \<in> set savings_story. 1600000000 \<le> e_sec E"
  by (simp_all add: savings_story_def rex_story_def later_rex_env_def sample_env_def)

lemma savings_story_run:
  assumes "exchanges rex_story proxied_chain = Inr u" "exchange later_rex_env to_savings u = Inr t"
  shows "exchanges savings_story proxied_chain = Inr t"
proof -
  obtain v where "exchange sample_env (Deposit 1 (sys 100000)) proxied_chain = Inr v"
    "exchange sample_env (Buyrex 1 (sys 50000)) v = Inr u"
    using assms(1) by (auto simp: rex_story_def exchanges_def res_simps simp del: exchange.simps)
  then show ?thesis using assms(2) by (simp add: savings_story_def rex_story_def exchanges_def del: exchange.simps)
qed

lemma savings_write_off:
  assumes "exchanges rex_story proxied_chain = Inr u" "exchange later_rex_env to_savings u = Inr t"
  shows "all_written_off savings_story proxied_chain = 0"
proof -
  obtain v where v: "exchange sample_env (Deposit 1 (sys 100000)) proxied_chain = Inr v"
    "exchange sample_env (Buyrex 1 (sys 50000)) v = Inr u"
    using assms(1) by (auto simp: rex_story_def exchanges_def res_simps simp del: exchange.simps)
  have "overwritten v = 0" using deposited(1) [OF v(1)] by (simp add: overwritten_def proxied_chain_rex)
  then show ?thesis using v assms(2)
    by (simp add: savings_story_def rex_story_def to_savings_def del: exchange.simps)
qed

theorem exchange_always_balances_witness:
  "\<exists>t. exchanges savings_story proxied_chain = Inr t \<and> rex_issued t = 500000000 \<and>
     i64 (rex_net t) = i64 (rex_net proxied_chain)"
proof (rule savings_story)
  fix u t
  assume 1: "exchanges rex_story proxied_chain = Inr u" "exchange later_rex_env to_savings u = Inr t"
    and 2: "rexretpool u = None" "rex_issued t = 500000000"
  note r = savings_story_run [OF 1]
  have "i64 (rex_net t) = i64 (rex_net proxied_chain - all_written_off savings_story proxied_chain) \<and>
      (\<exists>now'. exchange_ok now' t)"
    by (rule exchange_always_balances [OF r savings_steps [OF 1(1) 2(1)] savings_times proxied_chain_exchange_ok])
  then show ?thesis using r 2 savings_write_off [OF 1] by auto
qed

theorem orders_are_covered_witness:
  "\<exists>t. exchanges savings_story proxied_chain = Inr t \<and> row_val matured_rex (rexbalance t) 1 = 400000000 \<and>
     rex_held t = 500000000"
proof (rule savings_story)
  fix u t
  assume 1: "exchanges rex_story proxied_chain = Inr u" "exchange later_rex_env to_savings u = Inr t"
    and 2: "rexretpool u = None" "rex_issued t = 500000000" "row_val matured_rex (rexbalance t) 1 = 400000000"
  note r = savings_story_run [OF 1]
  have "rex_issued t = rex_held t"
    using orders_are_covered [OF r savings_steps [OF 1(1) 2(1)] savings_times proxied_chain_exchange_ok] by blast
  then show ?thesis using r 2 by auto
qed

end
