(* ===== verification/Savings.thy ===== *)
theory Savings
  imports Exchange
begin

text \<open>
  The savings of a REX owner (\<open>mvtosavings\<close>, \<open>mvfrsavings\<close> and \<open>consolidate\<close> of \<open>rex.cpp\<close>): a bucket
  at the end of the row whose time is the end of days. The lemmas show that no other bucket gets
  that time, and what each of the three actions does to the savings of the row.
\<close>

section \<open>The savings of a row\<close>

definition savings :: "rex_balance \<Rightarrow> int" where
  "savings rb = fst (read_rex_savings rb)"

definition plain :: "(int \<times> int) list \<Rightarrow> bool" where
  "plain bs \<longleftrightarrow> (\<forall>b \<in> set bs. fst b \<noteq> end_of_days)"

text \<open>At most the last bucket of a row is at the end of days.\<close>

definition savings_last :: "rex_balance \<Rightarrow> bool" where
  "savings_last rb \<longleftrightarrow> plain (butlast (rex_maturities rb))"

lemma plain_simps [simp]:
  "plain []" "plain (b # bs) \<longleftrightarrow> fst b \<noteq> end_of_days \<and> plain bs" "plain (bs @ cs) \<longleftrightarrow> plain bs \<and> plain cs"
  "plain (rev bs) \<longleftrightarrow> plain bs"
  by (auto simp: plain_def)

lemma plain_butlast: "plain bs \<Longrightarrow> plain (butlast bs)"
  by (auto simp: plain_def dest: in_set_butlastD)

lemma read_savings:
  assumes "savings_last rb" "read_rex_savings rb = (k, rb1)"
  shows "plain (rex_maturities rb1)" "savings rb = k" "rex_amount rb1 = rex_amount rb"
proof -
  have l: "plain bs" if "plain (butlast bs)" "bs \<noteq> [] \<longrightarrow> fst (last bs) \<noteq> end_of_days" for bs
    using that by (cases bs rule: rev_cases) auto
  show "plain (rex_maturities rb1)" "savings rb = k" "rex_amount rb1 = rex_amount rb"
    using assms l by (auto simp: savings_def read_rex_savings_def savings_last_def Let_def split: if_splits)
qed

lemma put_savings:
  assumes "plain (rex_maturities rb)"
  shows "savings (put_rex_savings k rb) = k" "savings_last (put_rex_savings k rb)"
    "rex_amount (put_rex_savings k rb) = rex_amount rb"
proof -
  have l: "bs \<noteq> [] \<Longrightarrow> fst (last bs) \<noteq> end_of_days" if "plain bs" for bs
    using that by (cases bs rule: rev_cases) auto
  show "savings (put_rex_savings k rb) = k" "savings_last (put_rex_savings k rb)"
    "rex_amount (put_rex_savings k rb) = rex_amount rb"
    using assms l [OF assms] plain_butlast [OF assms]
    by (auto simp: savings_def put_rex_savings_def read_rex_savings_def savings_last_def add_to_bucket_def Let_def)
qed

lemma mature_plain: "mature now m bs = (m', bs') \<Longrightarrow> plain bs \<Longrightarrow> plain bs'"
  by (induction now m bs rule: mature.induct) (auto split: if_splits)

lemma process_plain: "plain (rex_maturities rb) \<Longrightarrow> plain (rex_maturities (process_rex_maturities E rb))"
  by (auto simp: process_rex_maturities_def split: prod.split dest: mature_plain)

lemma take_back_plain: "take_back want moved bs = (moved', bs') \<Longrightarrow> plain bs \<Longrightarrow> plain bs'"
  by (induction want moved bs rule: take_back.induct) (auto simp: Let_def split: if_splits)

lemma move_plain:
  assumes "move_to_savings n order rb = Inr rb'" "plain (rex_maturities rb)"
  shows "plain (rex_maturities rb')"
proof -
  obtain moved bs where t: "take_back n 0 (rev (rex_maturities rb)) = (moved, bs)" by fastforce
  then have "plain bs" using take_back_plain assms(2) by fastforce
  then show ?thesis using assms(1) t by (auto simp: move_to_savings_def Let_def res_simps split: if_splits)
qed

text \<open>A maturity is a whole day, and the end of days is not.\<close>

lemma maturity_ends:
  assumes "0 \<le> e_sec E" "e_sec E < 4294967296"
  shows "get_rex_maturity E \<noteq> end_of_days"
proof -
  define d where "d = e_sec E div 86400 + 5"
  have m: "get_rex_maturity E = u32 (d * 86400)"
    by (simp add: get_rex_maturity_def seconds_per_day_def d_def minus_mod_eq_div_mult algebra_simps)
  have d: "0 \<le> d * 86400" "d * 86400 < 4294967296 + 432000" using assms unfolding d_def by simp_all
  show ?thesis
  proof (cases "d * 86400 < 4294967296")
    case True
    then have "u32 (d * 86400) = d * 86400" using d by (intro u32_id) auto
    moreover have "d * 86400 \<noteq> 4294967295"
    proof
      assume "d * 86400 = 4294967295"
      then have "even (4294967295 :: int)" by (metis even_mult_iff even_numeral)
      then show False by simp
    qed
    ultimately show ?thesis unfolding m end_of_days_def time_point_sec_max_def by simp
  next
    case False
    then have "u32 (d * 86400) = d * 86400 - 4294967296"
      using d mod_pos_pos_trivial [of "d * 86400 - 4294967296" 4294967296] by (simp add: u32_def)
    then show ?thesis using d unfolding m end_of_days_def time_point_sec_max_def by linarith
  qed
qed

lemma add_maturity_plain:
  assumes "0 \<le> e_sec E" "e_sec E < 4294967296" "plain (rex_maturities rb)"
  shows "plain (rex_maturities (add_rex_maturity E n rb))"
  using maturity_ends [OF assms(1,2)] assms(3) plain_butlast [OF assms(3)]
  by (auto simp: add_rex_maturity_def add_to_bucket_def)

lemma consolidate_savings:
  assumes "0 \<le> e_sec E" "e_sec E < 4294967296" "savings_last rb"
  shows "savings (consolidate_rex_balance E order rb) = savings rb" "savings_last (consolidate_rex_balance E order rb)"
proof -
  obtain k rb1 where r: "read_rex_savings rb = (k, rb1)" by fastforce
  have p: "plain (rex_maturities (rb1\<lparr>matured_rex := order, rex_maturities :=
      (if 0 < free_rex order rb then [(get_rex_maturity E, free_rex order rb)] else [])\<rparr>))"
    using maturity_ends [OF assms(1,2)] by simp
  show "savings (consolidate_rex_balance E order rb) = savings rb" "savings_last (consolidate_rex_balance E order rb)"
    using put_savings [OF p, of k] read_savings [OF assms(3) r] by (simp_all add: consolidate_eq r)
qed

section \<open>The actions\<close>

text \<open>
  Between \<open>s\<close> and \<open>t\<close> only the row of \<open>a\<close> changes: its savings by \<open>n\<close>, and its total not at all.
\<close>

definition savings_moved :: "name \<Rightarrow> int \<Rightarrow> chain \<Rightarrow> chain \<Rightarrow> bool" where
  "savings_moved a n s t \<longleftrightarrow> (\<exists>rb rb'. fmlookup (rexbalance s) a = Some rb \<and>
     rexbalance t = fmupd a rb' (rexbalance s) \<and> rex_amount rb' = rex_amount rb \<and>
     0 \<le> matured_rex rb' \<and> (\<forall>b \<in> set (rex_maturities rb'). 0 \<le> snd b) \<and>
     matured_rex rb' + bucket_sum (rex_maturities rb') = amount (rex_amount rb) \<and>
     savings_last rb' \<and> savings rb' = savings rb + n)"

lemma savings_movedI:
  assumes "fmlookup (rexbalance s) a = Some rb" "rexbalance t = fmupd a rb' (rexbalance s)"
    "rex_amount rb' = rex_amount rb" "rex_inv t" "savings_last rb'" "savings rb' = savings rb + n"
  shows "savings_moved a n s t"
proof -
  have "fmlookup (rexbalance t) a = Some rb'" using assms(2) by simp
  then have "row_ok rb'" using row_bounds(1) assms(4) unfolding rex_inv_def by blast
  then show ?thesis using assms unfolding savings_moved_def row_ok_def holds_def by (metis (no_types, lifting))
qed

text \<open>Maintenance fills orders, but it leaves the buckets alone.\<close>

definition buckets :: "chain \<Rightarrow> name \<Rightarrow> (int \<times> int) list option" where
  "buckets s a = map_option rex_maturities (fmlookup (rexbalance s) a)"

lemma process_order_buckets:
  assumes A: "asset_laws (e_assets E)" and ok: "process_order E (b, o') s = Inr t"
  shows "buckets t a = buckets s a"
proof (cases "fmlookup (rexbalance s) b")
  case None
  then show ?thesis using ok by (simp add: process_order_def)
next
  case (Some rb)
  obtain r s1 where f: "fill_rex_order E b (rex_requested o') s = Inr (r, s1)"
    and t: "t = (if success r then emit (Order_result b (out_proceeds r))
      (s1\<lparr>rexorders := fmupd b (filled_order r o') (rexorders s1)\<rparr>) else s1)"
    using ok Some by (rule process_order_Inr)
  have "buckets s1 a = buckets s a"
    using A f by (cases rule: fill_rex_order_cases) (auto simp: buckets_def sell_from_balance_def)
  then show ?thesis by (simp add: t buckets_def)
qed

lemma process_orders_buckets:
  assumes A: "asset_laws (e_assets E)"
  shows "foldR (process_order E) xs s = Inr t \<Longrightarrow> buckets t a = buckets s a"
proof (induction xs arbitrary: s)
  case (Cons x xs)
  then obtain u where "process_order E x s = Inr u" "foldR (process_order E) xs u = Inr t" by (auto simp: res_simps)
  then show ?case using Cons.IH [of u] process_order_buckets [OF A] by (cases x) metis
qed simp

lemma runrex_buckets:
  assumes "asset_laws (e_assets E)" "runrex E n s = Inr t"
  shows "buckets t a = buckets s a"
  using assms(2)
proof (rule runrex_orders)
  fix s4 assume 4: "same_rex s s4"
    and 5: "foldR (process_order E) (takeWhile (\<lambda>(k, o'). is_open o') (take n (orders_by_time s4))) s4 = Inr t"
  show ?thesis using process_orders_buckets [OF assms(1) 5] 4 by (simp add: buckets_def same_rex_def)
qed

lemma savings_last_kept:
  assumes "asset_laws (e_assets E)" "runrex E n s = Inr t" and "\<And>rb. fmlookup (rexbalance s) a = Some rb \<Longrightarrow> savings_last rb"
    and "fmlookup (rexbalance t) a = Some rb"
  shows "savings_last rb"
  using runrex_buckets [OF assms(1,2), of a] assms(3,4)
  by (cases "fmlookup (rexbalance s) a") (auto simp: buckets_def savings_last_def)

lemma update_account_balances: "update_rex_account E a f n b s = Inr (m, t) \<Longrightarrow> rexbalance t = rexbalance s"
  using update_rex_account_rex by (auto simp: same_rex_def)

lemma mvtosavings_moves:
  assumes A: "asset_laws (e_assets E)" and s: "rex_inv s" and run: "runrex E 2 s = Inr s1"
    and row: "\<And>rb. fmlookup (rexbalance s1) a = Some rb \<Longrightarrow> savings_last rb" and q: "amount q \<le> i64_max"
    and ok: "mvtosavings E a q s = Inr t"
  shows "savings_moved a (amount q) s1 t"
proof -
  obtain n s2 rb k rb1 rb' where 2: "update_rex_account E a 0 0 False s1 = Inr (n, s2)"
    and rb: "fmlookup (rexbalance s2) a = Some rb" and pos: "0 < amount q" and k: "read_rex_savings rb = (k, rb1)"
    and fits: "i64 (i64 (amount q + n) + k) \<le> amount (rex_amount rb1)"
    and mv: "move_to_savings (amount q) n (process_rex_maturities E rb1) = Inr rb'"
    and t: "t = s2\<lparr>rexbalance := fmupd a (put_rex_savings (i64 (k + amount q)) rb') (rexbalance s2)\<rparr>"
    using ok run unfolding mvtosavings_def require_auth_eq_Inr bindR_eq_Inr fetch_eq_Inr check_eq_Inr Let_def split_beta
      split_paired_Ex prod.sel sum.inject
    by (elim exE conjE) (rule that, simp, assumption, assumption, rule prod.collapse [symmetric], assumption, assumption, erule sym)
  have eq: "rexbalance s2 = rexbalance s1" using update_account_balances [OF 2] .
  note r = read_savings [OF row [OF rb [unfolded eq]] k]
  have i: "rex_inv s2" using runrex_inv [OF A run s] account_inv [OF 2] by blast
  have h: "holds (amount (rex_amount rb)) rb" using row_bounds(1) i rb unfolding rex_inv_def row_ok_def by blast
  note sv = holds_savings [OF h k]
  have o: "0 \<le> n" "n \<le> matured_rex (process_rex_maturities E rb1)"
    using account_covers(1,2) [OF 2 i] rb sv(4) holds_mature(2) [OF sv(3)]
    by (simp_all add: row_val_def) (meson order_trans)
  have "i64 (k + amount q) = k + amount q"
    using holds_move [OF holds_mature(1) [OF sv(3)] pos q o mv] sv(1) h pos by (intro i64_id) (auto simp: holds_def i64_max_def)
  then show ?thesis
    using rb t put_savings [OF move_plain [OF mv process_plain [OF r(1)]], of "k + amount q"]
      move_to_savings_amount [OF mv] r mvtosavings_inv [OF A ok s q]
    by (intro savings_movedI [where rb = rb]) (auto simp: eq)
qed

lemma mvfrsavings_moves:
  assumes A: "asset_laws (e_assets E)" and clock: "0 \<le> e_sec E" "e_sec E < 4294967296"
    and s: "rex_inv s" and run: "runrex E 2 s = Inr s1"
    and row: "\<And>rb. fmlookup (rexbalance s1) a = Some rb \<Longrightarrow> savings_last rb" and ok: "mvfrsavings E a q s = Inr t"
  shows "savings_moved a (- amount q) s1 t \<and> (\<exists>rb. fmlookup (rexbalance s1) a = Some rb \<and> amount q \<le> savings rb)"
proof -
  obtain n rb k rb1 where rb: "fmlookup (rexbalance s1) a = Some rb" and k: "read_rex_savings rb = (k, rb1)"
    and q: "0 < amount q" "amount q \<le> k"
    and 2: "update_rex_account E a 0 0 False (s1\<lparr>rexbalance := fmupd a (put_rex_savings (i64 (k - amount q))
      (add_rex_maturity E (amount q) (process_rex_maturities E rb1))) (rexbalance s1)\<rparr>) = Inr (n, t)"
    using ok run unfolding mvfrsavings_def require_auth_eq_Inr bindR_eq_Inr fetch_eq_Inr check_eq_Inr Let_def split_beta
      split_paired_Ex prod.sel sum.inject
    by (elim exE conjE) (rule that, simp, rule prod.collapse [symmetric], assumption, assumption, simp)
  note r = read_savings [OF row [OF rb] k]
  have h: "holds (amount (rex_amount rb)) rb"
    using row_bounds(1) runrex_inv [OF A run s] rb unfolding rex_inv_def row_ok_def by blast
  let ?rb = "add_rex_maturity E (amount q) (process_rex_maturities E rb1)"
  have i: "i64 (k - amount q) = k - amount q"
    using holds_savings [OF h k] h q by (intro i64_id) (auto simp: holds_def i64_max_def)
  have t: "rexbalance t = fmupd a (put_rex_savings (k - amount q) ?rb) (rexbalance s1)"
    using update_account_balances [OF 2] by (simp add: i)
  note p = put_savings [OF add_maturity_plain [OF clock process_plain [OF r(1)]], where k = "k - amount q"]
  have "rex_amount ?rb = rex_amount rb" using r(3) by (simp add: add_rex_maturity_def)
  then have "savings_moved a (- amount q) s1 t"
    using p r(2) mvfrsavings_inv [OF A ok s] by (intro savings_movedI [OF rb t]) simp_all
  then show ?thesis using rb q(2) r(2) by blast
qed

lemma consolidate_moves:
  assumes A: "asset_laws (e_assets E)" and clock: "0 \<le> e_sec E" "e_sec E < 4294967296"
    and s: "rex_inv s" and run: "runrex E 2 s = Inr s1"
    and row: "\<And>rb. fmlookup (rexbalance s1) a = Some rb \<Longrightarrow> savings_last rb" and ok: "consolidate E a s = Inr t"
  shows "savings_moved a 0 s1 t"
proof -
  obtain n s2 where 2: "update_rex_account E a 0 0 False s1 = Inr (n, s2)"
    and 3: "modify_rex a (consolidate_rex_balance E n) s2 = Inr t"
    using ok run by (auto simp: consolidate_def res_simps)
  have eq: "rexbalance s2 = rexbalance s1" using update_account_balances [OF 2] .
  obtain rb where rb: "fmlookup (rexbalance s1) a = Some rb"
    and t: "rexbalance t = fmupd a (consolidate_rex_balance E n rb) (rexbalance s1)"
    using 3 by (auto simp: modify_rex_def res_simps eq)
  show ?thesis
    using consolidate_savings [OF clock row [OF rb], of n] consolidate_inv [OF A ok s]
    by (intro savings_movedI [OF rb t]) auto
qed

text \<open>
  C25: Moving REX to savings adds exactly what is moved to the savings already there, moving it
  back takes exactly that from them, and is refused beyond them; consolidating leaves them as they
  are. Each of the three actions keeps the owner's REX balance as maintenance leaves it; the parts
  of the new row, none of them negative, make up that balance exactly; and no other row changes.
  It is assumed that the owner's row has no bucket but the last at the end of days, and each of the
  actions keeps it so.
\<close>

theorem savings_actions_conserve:
  assumes "asset_laws (e_assets E)" "0 \<le> e_sec E" "e_sec E < 4294967296" "rex_inv s" "amount q \<le> i64_max"
    and "\<And>rb. fmlookup (rexbalance s) a = Some rb \<Longrightarrow> savings_last rb" "runrex E 2 s = Inr s1"
  shows "(mvtosavings E a q s = Inr t \<longrightarrow> savings_moved a (amount q) s1 t) \<and>
    (mvfrsavings E a q s = Inr t \<longrightarrow> savings_moved a (- amount q) s1 t \<and>
      (\<exists>rb. fmlookup (rexbalance s1) a = Some rb \<and> amount q \<le> savings rb)) \<and>
    (consolidate E a s = Inr t \<longrightarrow> savings_moved a 0 s1 t)"
proof -
  have r: "savings_last rb" if "fmlookup (rexbalance s1) a = Some rb" for rb
    using savings_last_kept [OF assms(1,7,6) that] by blast
  show ?thesis
    using mvtosavings_moves [OF assms(1,4,7) r assms(5)] mvfrsavings_moves [OF assms(1-4,7) r]
      consolidate_moves [OF assms(1-4,7) r] by blast
qed

theorem savings_actions_conserve_witness:
  "\<exists>s s1 t. runrex later_rex_env 2 s = Inr s1 \<and> mvtosavings later_rex_env 1 \<lparr>amount = 100000000, asym = rex_symbol\<rparr> s = Inr t \<and>
     row_val matured_rex (rexbalance t) 1 = 400000000 \<and> savings_moved 1 100000000 s1 t"
proof (rule savings_story)
  fix u t
  assume 1: "exchanges rex_story proxied_chain = Inr u" "exchange later_rex_env to_savings u = Inr t"
    and 2: "rexretpool u = None" "row_val matured_rex (rexbalance t) 1 = 400000000"
  have m: "mvtosavings later_rex_env 1 \<lparr>amount = 100000000, asym = rex_symbol\<rparr> u = Inr t"
    using 1(2) by (simp add: to_savings_def)
  then obtain s1 where r: "runrex later_rex_env 2 u = Inr s1" by (auto simp: mvtosavings_def res_simps)
  have "before_each step_ok rex_story proxied_chain" using savings_steps [OF 1(1) 2(1)] by (simp add: savings_story_def rex_story_def)
  then have "\<exists>now. exchange_ok now u"
    using exchanges_ok [OF 1(1) _ _ _ proxied_chain_exchange_ok]
    by (auto simp: rex_story_def sample_env_def)
  then have i: "rex_inv u" by (auto simp: exchange_ok_def)
  have "case exchanges rex_story proxied_chain of Inl e \<Rightarrow> False
    | Inr u \<Rightarrow> buckets u 1 = Some [(1600387200, 500000000)]" by code_simp
  then have "buckets u 1 = Some [(1600387200, 500000000)]" using 1(1) by simp
  then have l: "savings_last rb" if "fmlookup (rexbalance u) 1 = Some rb" for rb
    using that by (auto simp: buckets_def savings_last_def)
  have "savings_moved 1 (amount \<lparr>amount = 100000000, asym = rex_symbol\<rparr>) s1 t"
    using savings_actions_conserve [OF _ _ _ i _ l r, where q = "\<lparr>amount = 100000000, asym = rex_symbol\<rparr>" and t = t] m sample_laws
    by (simp add: later_rex_env_def sample_env_def i64_max_def)
  then show ?thesis using m r 2(2) by auto
qed

end
