(* ===== verification/PoolChannel.thy ===== *)
theory PoolChannel
  imports RexBooks
begin

text \<open>
  The token pools of staking and the channelling of fees (\<open>staking_pool.hpp\<close> and the first part of
  \<open>staking_pool.cpp\<close>). A pool hands out shares for tokens; fees paid to the system move over a
  transition period from the REX pool to the staking pools. The lemmas show that a fee is split
  fairly and completely, and that the pools hold what is transferred to \<open>eosio.srpool\<close>.
\<close>

section \<open>The class \<open>pool\<close>\<close>

definition has_shares :: "pool \<Rightarrow> bool" where
  "has_shares p \<longleftrightarrow> \<not> f64_eq (total_shares p) 0"

definition simulate_buy :: "asset \<Rightarrow> pool \<Rightarrow> f64" where
  "simulate_buy b p =
     (if amount b = 0 then 0
      else if \<not> has_shares p then of_i (amount b)
      else of_i (amount b) * total_shares p / of_i (amount (pl_balance p)))"

definition simulate_sell :: "env \<Rightarrow> f64 \<Rightarrow> pool \<Rightarrow> error + asset" where
  "simulate_sell E sh p =
     (if f64_eq sh 0 then Inr (asset0 (asym (pl_balance p)))
      else if total_shares p \<le> sh then Inr (pl_balance p)
      else check (0 < total_shares p) (Pool No_shares_in_pool) (
        bindR (to_i64 Bad_conversion (sh * of_i (amount (pl_balance p)) / total_shares p)) (\<lambda>n.
        aa_make (e_assets E) n (asym (pl_balance p)))))"

text \<open>The shares to sell for a given amount.\<close>

definition shares_for :: "env \<Rightarrow> asset \<Rightarrow> pool \<Rightarrow> error + f64" where
  "shares_for E d p =
     bindR (aa_eq (e_assets E) d (pl_balance p)) (\<lambda>all.
     Inr (if all then total_shares p
       else if amount d = 0 then 0
       else of_i (amount d) * total_shares p / of_i (amount (pl_balance p))))"

definition pool_adjust :: "env \<Rightarrow> asset \<Rightarrow> pool \<Rightarrow> error + pool" where
  "pool_adjust E d p =
     bindR (aa_plus (e_assets E) (pl_balance p) d) (\<lambda>b. Inr (p\<lparr>pl_balance := b\<rparr>))"

definition pool_buy :: "env \<Rightarrow> asset \<Rightarrow> pool \<Rightarrow> error + (f64 \<times> pool)" where
  "pool_buy E b p =
     (let out = simulate_buy b p in
      bindR (aa_plus (e_assets E) (pl_balance p) b) (\<lambda>bal.
      Inr (out, p\<lparr>pl_balance := bal, total_shares := total_shares p + out\<rparr>)))"

definition pool_sell :: "env \<Rightarrow> f64 \<Rightarrow> pool \<Rightarrow> error + (asset \<times> pool)" where
  "pool_sell E sh p =
     bindR (simulate_sell E sh p) (\<lambda>out.
     bindR (aa_minus (e_assets E) (pl_balance p) out) (\<lambda>bal.
     Inr (out, p\<lparr>pl_balance := bal, total_shares := total_shares p - sh\<rparr>)))"

section \<open>The transition period\<close>

text \<open>\<open>staking_pool_state::transition\<close> at its two types, \<open>int128_t\<close> and \<open>double\<close>.\<close>

definition transition_int :: "int \<Rightarrow> staking_pool_state \<Rightarrow> int \<Rightarrow> int" where
  "transition_int slot st v =
     (if end_transition st \<le> slot then v
      else if slot \<le> begin_transition st then 0
      else tdiv (v * (slot - begin_transition st)) (end_transition st - begin_transition st))"

definition transition_f64 :: "int \<Rightarrow> staking_pool_state \<Rightarrow> f64 \<Rightarrow> f64" where
  "transition_f64 slot st v =
     (if end_transition st \<le> slot then v
      else if slot \<le> begin_transition st then 0
      else v * of_i (slot - begin_transition st) / of_i (end_transition st - begin_transition st))"

definition claimrewards_transition :: "int \<Rightarrow> chain \<Rightarrow> f64" where
  "claimrewards_transition slot s =
     (case poolstate s of None \<Rightarrow> 1 | Some st \<Rightarrow> 1 - transition_f64 slot st 1)"

definition onblock_update_pool :: "int \<Rightarrow> chain \<Rightarrow> chain" where
  "onblock_update_pool slot s =
     (case poolstate s of
        None \<Rightarrow> s
      | Some st \<Rightarrow>
          let st1 = (if u32 (interval_start st + blocks_per_round) \<le> slot
                then st\<lparr>sp_unpaid_blocks := blocks st, blocks := 0,
                  interval_start := u32 (slot div blocks_per_round * blocks_per_round)\<rparr>
                else st) in
          s\<lparr>poolstate := Some (st1\<lparr>blocks := u32 (blocks st1 + 1)\<rparr>)\<rparr>)"

section \<open>Channelling fees\<close>

text \<open>The loop over the active pools: pool \<open>i\<close> of \<open>n\<close> gets what brings the sum to its share.\<close>

fun distribute_to_pools ::
  "env \<Rightarrow> symbol \<Rightarrow> int \<Rightarrow> int \<Rightarrow> int \<Rightarrow> int \<Rightarrow> staking_pool list \<Rightarrow> error + staking_pool list" where
  "distribute_to_pools E core tot n i distributed [] = Inr []"
| "distribute_to_pools E core tot n i distributed (p # ps) =
     (if has_shares (token_pool p) then
        let amt = i64 (tdiv (tot * (i + 1)) n - distributed) in
        bindR (if amt \<noteq> 0 then
            bindR (aa_make (e_assets E) amt core) (\<lambda>d.
            bindR (pool_adjust E d (token_pool p)) (\<lambda>q. Inr (p\<lparr>token_pool := q\<rparr>)))
          else Inr p) (\<lambda>p'.
        bindR (distribute_to_pools E core tot n (i + 1) (u64 (distributed + amt)) ps) (\<lambda>ps'.
        Inr (p' # ps')))
      else
        bindR (distribute_to_pools E core tot n i distributed ps) (\<lambda>ps'. Inr (p # ps')))"

definition active_pools :: "staking_pool list \<Rightarrow> staking_pool list" where
  "active_pools ps = filter (\<lambda>p. has_shares (token_pool p)) ps"

definition transition_channel_to_pools ::
  "env \<Rightarrow> name \<Rightarrow> asset \<Rightarrow> bool \<Rightarrow> chain \<Rightarrow> error + (asset \<times> chain)" where
  "transition_channel_to_pools E from a partial s =
     core_symbol s (\<lambda>core.
     check (asym a = core) (Pool Incorrect_symbol) (
     case poolstate s of
       None \<Rightarrow> Inr (a, s)
     | Some st \<Rightarrow>
         if active_pools (pools st) = [] then Inr (a, s)
         else
           bindR (if partial then aa_make (e_assets E) (i64 (transition_int (e_slot E) st (amount a))) (asym a)
             else Inr a) (\<lambda>to_pools.
           bindR (if amount to_pools \<noteq> 0 then
               bindR (distribute_to_pools E core (amount to_pools) (int (length (active_pools (pools st))))
                 0 0 (pools st)) (\<lambda>ps.
               Inr (emit (Transfer [from] from srpool_account to_pools)
                 (s\<lparr>poolstate := Some (st\<lparr>pools := ps\<rparr>)\<rparr>)))
             else Inr s) (\<lambda>s1.
           bindR (aa_minus (e_assets E) a to_pools) (\<lambda>remaining. Inr (remaining, s1))))))"

definition channel_to_rex_or_pools :: "env \<Rightarrow> name \<Rightarrow> asset \<Rightarrow> bool \<Rightarrow> chain \<Rightarrow> error + chain" where
  "channel_to_rex_or_pools E from a require_all s =
     bindR (transition_channel_to_pools E from a (\<not> require_all \<or> rex_available s) s) (\<lambda>(remaining, s1).
     if amount remaining \<noteq> 0 then
       check (\<not> require_all \<or> rex_available s1) (Pool Cannot_channel_fees) (
       channel_to_rex E from remaining s1)
     else Inr s1)"

definition channel_namebid_to_rex_or_pools :: "env \<Rightarrow> int \<Rightarrow> chain \<Rightarrow> chain" where
  "channel_namebid_to_rex_or_pools E highest_bid s =
     (case poolstate s of
        None \<Rightarrow> channel_namebid_to_rex highest_bid s
      | Some st \<Rightarrow>
          if active_pools (pools st) = [] then channel_namebid_to_rex highest_bid s
          else
            let to_pools = i64 (transition_int (e_slot E) st highest_bid);
                to_rex = i64 (highest_bid - to_pools);
                s1 = s\<lparr>poolstate := Some (st\<lparr>sp_namebid_proceeds :=
                  set_amount (i64 (amount (sp_namebid_proceeds st) + to_pools)) (sp_namebid_proceeds st)\<rparr>)\<rparr> in
            if to_rex \<noteq> 0 then channel_namebid_to_rex to_rex s1 else s1)"

definition distribute_namebid_to_pools :: "env \<Rightarrow> chain \<Rightarrow> error + chain" where
  "distribute_namebid_to_pools E s =
     fetch (poolstate s) (Pool Pools_not_configured) (\<lambda>st.
     if 0 < amount (sp_namebid_proceeds st) then
       bindR (transition_channel_to_pools E names_account (sp_namebid_proceeds st) False s) (\<lambda>(left, s1).
       fetch (poolstate s1) (Pool Pools_not_configured) (\<lambda>st1.
       Inr (s1\<lparr>poolstate := Some (st1\<lparr>sp_namebid_proceeds := left\<rparr>)\<rparr>)))
     else Inr s)"

section \<open>What a fee becomes\<close>

lemma transition_int_bounds:
  assumes "0 \<le> v"
  shows "0 \<le> transition_int slot st v \<and> transition_int slot st v \<le> v"
proof (cases "begin_transition st < slot \<and> slot < end_transition st")
  case True
  then have "v * (slot - begin_transition st) \<le> v * (end_transition st - begin_transition st)"
    using assms by (intro mult_left_mono) auto
  then show ?thesis using True assms tdiv_bound [of "end_transition st - begin_transition st"
      "v * (slot - begin_transition st)" v] by (simp add: transition_int_def)
next
  case False
  then show ?thesis using assms by (auto simp: transition_int_def)
qed

lemma transition_int_mono:
  assumes "0 \<le> v" "t \<le> u"
  shows "transition_int t st v \<le> transition_int u st v"
proof (cases "begin_transition st < t \<and> u < end_transition st")
  case True
  then have "v * (t - begin_transition st) \<le> v * (u - begin_transition st)"
    using assms by (intro mult_left_mono) auto
  then show ?thesis using True assms zdiv_mono1 [of "v * (t - begin_transition st)"
      "v * (u - begin_transition st)" "end_transition st - begin_transition st"]
    by (simp add: transition_int_def)
next
  case False
  note b = transition_int_bounds [OF assms(1)]
  show ?thesis
  proof (cases "end_transition st \<le> u")
    case True
    then have "transition_int u st v = v" by (simp add: transition_int_def)
    then show ?thesis using b [of t st] by simp
  next
    case le: False
    then have "transition_int t st v = 0" using False assms(2) by (simp add: transition_int_def)
    then show ?thesis using b [of u st] by simp
  qed
qed

definition pool_tokens :: "staking_pool list \<Rightarrow> int" where
  "pool_tokens ps = (\<Sum>p\<leftarrow>ps. amount (pl_balance (token_pool p)))"

lemma pool_tokens_simps [simp]:
  "pool_tokens [] = 0" "pool_tokens (p # ps) = amount (pl_balance (token_pool p)) + pool_tokens ps"
  by (simp_all add: pool_tokens_def)

lemma active_pools_simps [simp]:
  "active_pools [] = []"
  "active_pools (p # ps) = (if has_shares (token_pool p) then p # active_pools ps else active_pools ps)"
  by (simp_all add: active_pools_def)

lemma pool_adjust_amount:
  assumes "asset_laws (e_assets E)" "aa_make (e_assets E) n sy = Inr d" "pool_adjust E d p = Inr q"
  shows "amount (pl_balance q) = amount (pl_balance p) + n" "total_shares q = total_shares p"
  using assms by (auto simp: pool_adjust_def res_simps asset_laws.plus_amount asset_laws.make_amount)

text \<open>The amounts a distribution adds to the active pools, in their order.\<close>

fun gains :: "staking_pool list \<Rightarrow> staking_pool list \<Rightarrow> int list" where
  "gains (p # ps) (q # qs) =
     (if has_shares (token_pool p) then
        (amount (pl_balance (token_pool q)) - amount (pl_balance (token_pool p))) # gains ps qs
      else gains ps qs)"
| "gains _ _ = []"

text \<open>Whatever the numbers, modulo \<open>2 ^ 64\<close> nothing is lost: the last active pool gets the rest.\<close>

lemma distribute_total:
  assumes A: "asset_laws (e_assets E)"
  shows "distribute_to_pools E core tot n i d ps = Inr qs \<Longrightarrow>
    i + int (length (active_pools ps)) = n \<Longrightarrow> 0 \<le> i \<Longrightarrow> 0 < n \<Longrightarrow> i64 d = i64 (tdiv (tot * i) n) \<Longrightarrow>
    i64 (pool_tokens qs) = i64 (pool_tokens ps + (tot - d))"
proof (induction ps arbitrary: i d qs)
  case Nil
  then have "i64 d = i64 tot" by (simp add: tdiv_def abs_mult sgn_mult mult_sgn_abs)
  then have "i64 (tot - d) = i64 (tot - tot)" using i64_diff_i64 by metis
  then show ?case using Nil by simp
next
  case (Cons p ps)
  show ?case
  proof (cases "has_shares (token_pool p)")
    case True
    define amt where "amt = i64 (tdiv (tot * (i + 1)) n - d)"
    obtain p' qs' where 1: "(if amt \<noteq> 0 then bindR (aa_make (e_assets E) amt core) (\<lambda>d.
            bindR (pool_adjust E d (token_pool p)) (\<lambda>q. Inr (p\<lparr>token_pool := q\<rparr>))) else Inr p) = Inr p'"
      and 2: "distribute_to_pools E core tot n (i + 1) (u64 (d + amt)) ps = Inr qs'"
      and qs: "qs = p' # qs'"
      using Cons.prems(1) True unfolding distribute_to_pools.simps amt_def Let_def by (auto simp: bindR_eq_Inr)
    have p': "amount (pl_balance (token_pool p')) = amount (pl_balance (token_pool p)) + amt"
      using 1 pool_adjust_amount(1) [OF A] by (auto simp: res_simps split: if_splits)
    have d: "i64 (u64 (d + amt)) = i64 (tdiv (tot * (i + 1)) n)"
      by (simp add: amt_def i64_u64)
    have "i64 (pool_tokens qs') = i64 (pool_tokens ps + (tot - u64 (d + amt)))"
      by (rule Cons.IH [OF 2]) (use Cons.prems True d in simp_all)
    also have "\<dots> = i64 (pool_tokens ps + (tot - (d + amt)))"
      by (rule i64_minus_u64)
    finally have "i64 (amount (pl_balance (token_pool p')) + pool_tokens qs') =
        i64 (amount (pl_balance (token_pool p')) + (pool_tokens ps + (tot - (d + amt))))"
      by (rule i64_addL_cong)
    then show ?thesis using qs p' by (simp add: algebra_simps)
  next
    case False
    then obtain qs' where 2: "distribute_to_pools E core tot n i d ps = Inr qs'" and qs: "qs = p # qs'"
      using Cons.prems(1) by (auto simp: bindR_eq_Inr)
    have "i64 (pool_tokens qs') = i64 (pool_tokens ps + (tot - d))"
      by (rule Cons.IH [OF 2]) (use Cons.prems False in simp_all)
    from i64_addL_cong [OF this, of "amount (pl_balance (token_pool p))"]
    show ?thesis by (simp add: qs add.assoc)
  qed
qed

section \<open>The tokens of the pools\<close>

text \<open>What the pools hold, less what was transferred to \<open>eosio.srpool\<close>.\<close>

definition pools_net :: "chain \<Rightarrow> int" where
  "pools_net s = (case poolstate s of None \<Rightarrow> 0 | Some st \<Rightarrow> pool_tokens (pools st)) -
     net_in srpool_account (outbox s)"

interpretation pooll: ledger pools_net
proof
  fix t s assume "without_votes t = without_votes s"
  note f = without_votes_fields [OF this]
  show "pools_net t = pools_net s" by (simp add: pools_net_def f)
qed

lemma transition_channel_Inr:
  assumes ok: "transition_channel_to_pools E from a b s = Inr (rest, t)"
  obtains (kept) "t = s" "rest = a"
    | (none) to_pools where "t = s" "amount to_pools = 0" "aa_minus (e_assets E) a to_pools = Inr rest"
    | (paid) st to_pools core ps where "poolstate s = Some st" "amount to_pools \<noteq> 0"
      "active_pools (pools st) \<noteq> []" "aa_minus (e_assets E) a to_pools = Inr rest"
      "b \<longrightarrow> aa_make (e_assets E) (i64 (transition_int (e_slot E) st (amount a))) (asym a) = Inr to_pools"
      "\<not> b \<longrightarrow> to_pools = a"
      "distribute_to_pools E core (amount to_pools) (int (length (active_pools (pools st)))) 0 0 (pools st) = Inr ps"
      "t = emit (Transfer [from] from srpool_account to_pools) (s\<lparr>poolstate := Some (st\<lparr>pools := ps\<rparr>)\<rparr>)"
proof (cases "poolstate s")
  case None
  then show ?thesis using ok kept by (auto simp: transition_channel_to_pools_def res_simps)
next
  case (Some st)
  show ?thesis
  proof (cases "active_pools (pools st) = []")
    case True
    then show ?thesis using ok Some kept by (auto simp: transition_channel_to_pools_def res_simps)
  next
    case False
    from ok obtain core to_pools where
      1: "(if b then aa_make (e_assets E) (i64 (transition_int (e_slot E) st (amount a))) (asym a)
           else Inr a) = Inr to_pools"
      and 2: "(if amount to_pools \<noteq> 0 then
               bindR (distribute_to_pools E core (amount to_pools) (int (length (active_pools (pools st))))
                 0 0 (pools st)) (\<lambda>ps.
               Inr (emit (Transfer [from] from srpool_account to_pools)
                 (s\<lparr>poolstate := Some (st\<lparr>pools := ps\<rparr>)\<rparr>))) else Inr s) = Inr t"
      and 3: "aa_minus (e_assets E) a to_pools = Inr rest"
      using Some False unfolding transition_channel_to_pools_def core_symbol_eq_Inr
      by (auto simp: res_simps simp del: distribute_to_pools.simps)
    show ?thesis
    proof (cases "amount to_pools = 0")
      case True
      then show ?thesis using 2 3 by (intro none) simp_all
    next
      case nz: False
      then obtain ps where "distribute_to_pools E core (amount to_pools)
          (int (length (active_pools (pools st)))) 0 0 (pools st) = Inr ps"
        "t = emit (Transfer [from] from srpool_account to_pools) (s\<lparr>poolstate := Some (st\<lparr>pools := ps\<rparr>)\<rparr>)"
        using 2 by (auto simp: bindR_eq_Inr)
      then show ?thesis using Some False nz 1 3 by (intro paid) (auto split: if_splits)
    qed
  qed
qed

lemma transition_channel_moves:
  assumes A: "asset_laws (e_assets E)" and ok: "transition_channel_to_pools E frm a b s = Inr (rest, t)"
    and frm: "frm \<noteq> srpool_account"
  shows "pooll.moves 0 s t"
  using ok
proof (cases rule: transition_channel_Inr)
  case (paid st to_pools core ps)
  have "i64 (pool_tokens ps) = i64 (pool_tokens (pools st) + (amount to_pools - 0))"
    by (rule distribute_total [OF A paid(7)]) (use paid(3) in \<open>simp_all add: tdiv_def\<close>)
  then have "i64 (pool_tokens ps + (- net_in srpool_account (outbox s) - amount to_pools)) =
      i64 (pool_tokens (pools st) + amount to_pools + (- net_in srpool_account (outbox s) - amount to_pools))"
    by (intro i64_add_cong) simp
  then show ?thesis using paid(1,8) frm by (simp add: pooll.moves_def pools_net_def algebra_simps)
qed simp_all

text \<open>A fee that is channelled in part leaves the rest, and neither is negative.\<close>

lemma transition_channel_split:
  assumes A: "asset_laws (e_assets E)" and ok: "transition_channel_to_pools E frm a b s = Inr (rest, t)"
    and a: "0 \<le> amount a" "amount a \<le> i64_max"
  shows "0 \<le> amount rest \<and> amount rest \<le> amount a \<and>
    net_in srpool_account (outbox t) = net_in srpool_account (outbox s) +
      (if frm = srpool_account then 0 else amount a - amount rest)"
  using ok
proof (cases rule: transition_channel_Inr)
  case (paid st to_pools core ps)
  have r: "amount rest = amount a - amount to_pools" using asset_laws.minus_amount [OF A paid(4)] .
  have "0 \<le> amount to_pools \<and> amount to_pools \<le> amount a"
  proof (cases b)
    case True
    then have "amount to_pools = i64 (transition_int (e_slot E) st (amount a))"
      using paid(5) asset_laws.make_amount [OF A] by simp
    then show ?thesis using transition_int_bounds [OF a(1), of "e_slot E" st] a
      by (simp add: i64_id i64_max_def)
  qed (use paid(6) a in simp)
  then show ?thesis using r paid(8) by simp
next
  case (none to_pools)
  then show ?thesis using a asset_laws.minus_amount [OF A none(3)] by simp
qed (use a in simp_all)

lemma transition_channel_fields:
  assumes "transition_channel_to_pools E frm a b s = Inr (rest, t)"
  obtains ps ms where "t = s\<lparr>poolstate := ps, outbox := outbox s @ ms\<rparr>"
    "\<And>x. x \<in> set ms \<Longrightarrow> \<exists>q. x = Transfer [frm] frm srpool_account q"
  using assms
proof (cases rule: transition_channel_Inr)
  case (paid st to_pools core ps)
  then show ?thesis using that [where ps = "Some (st\<lparr>pools := ps\<rparr>)" and ms = "[Transfer [frm] frm srpool_account to_pools]"]
    by (simp add: emit_def)
qed (use that [where ps = "poolstate s" and ms = "[]"] in simp_all)

section \<open>Fairness\<close>

lemma share_bounds:
  assumes n: "0 < (n :: int)"
  shows "T div n \<le> T * (j + 1) div n - T * j div n \<and> T * (j + 1) div n - T * j div n \<le> T div n + 1"
proof -
  define r where "r = T * j mod n + T mod n"
  have e: "T * (j + 1) div n = T * j div n + T div n + r div n"
    unfolding r_def by (simp only: div_add1_eq [symmetric]) (simp add: algebra_simps)
  have "0 \<le> r" using n by (simp add: r_def)
  moreover have "r < 2 * n"
    using pos_mod_bound [OF n, of "T * j"] pos_mod_bound [OF n, of T] unfolding r_def by linarith
  ultimately have "0 \<le> r div n" "r div n * n < 2 * n"
    using n div_mult_le [OF n, of r] by (simp add: pos_imp_zdiv_nonneg_iff, linarith)
  then have "0 \<le> r div n" "r div n < 2" using n mult_less_cancel_right_pos [OF n, of "r div n" 2] by blast+
  with e show ?thesis by linarith
qed

lemma distribute_gains:
  assumes A: "asset_laws (e_assets E)" and tot: "0 \<le> tot" "tot \<le> i64_max"
  shows "distribute_to_pools E core tot n i d ps = Inr qs \<Longrightarrow>
    i + int (length (active_pools ps)) = n \<Longrightarrow> 0 \<le> i \<Longrightarrow> 0 < n \<Longrightarrow> d = tot * i div n \<Longrightarrow>
    gains ps qs = map (\<lambda>j. tot * (j + 1) div n - tot * j div n) [i..n - 1]"
proof (induction ps arbitrary: i d qs)
  case (Cons p ps)
  show ?case
  proof (cases "has_shares (token_pool p)")
    case True
    have n: "i < n" using Cons.prems(2) True by simp
    have le: "tot * (i + 1) \<le> tot * n" using tot n by (intro mult_left_mono) auto
    have r: "0 \<le> tot * (i + 1) div n" "tot * (i + 1) div n \<le> tot" "0 \<le> tot * i div n"
      using tot Cons.prems(3,4) zdiv_mono1 [OF le, of n] by (simp_all add: pos_imp_zdiv_nonneg_iff)
    have mono: "tot * i div n \<le> tot * (i + 1) div n"
      using Cons.prems(4) tot by (intro zdiv_mono1 mult_left_mono) auto
    let ?amt = "tot * (i + 1) div n - tot * i div n"
    have amt: "i64 (tdiv (tot * (i + 1)) n - d) = ?amt"
      using Cons.prems(3,4,5) tot r mono by (simp add: i64_id i64_max_def)
    have d: "u64 (d + ?amt) = tot * (i + 1) div n"
      using Cons.prems(5) r tot by (simp add: u64_id i64_max_def)
    obtain p' qs' where 1: "(if ?amt \<noteq> 0 then bindR (aa_make (e_assets E) ?amt core) (\<lambda>d.
            bindR (pool_adjust E d (token_pool p)) (\<lambda>q. Inr (p\<lparr>token_pool := q\<rparr>))) else Inr p) = Inr p'"
      and 2: "distribute_to_pools E core tot n (i + 1) (tot * (i + 1) div n) ps = Inr qs'"
      and qs: "qs = p' # qs'"
      using Cons.prems(1) True unfolding distribute_to_pools.simps Let_def amt d by (auto simp: bindR_eq_Inr)
    have p': "amount (pl_balance (token_pool p')) = amount (pl_balance (token_pool p)) + ?amt"
      using 1 pool_adjust_amount(1) [OF A] by (auto simp: res_simps split: if_splits)
    have "gains ps qs' = map (\<lambda>j. tot * (j + 1) div n - tot * j div n) [i + 1..n - 1]"
      by (rule Cons.IH [OF 2]) (use Cons.prems True in simp_all)
    then show ?thesis using qs p' True n by (simp add: upto_rec1)
  next
    case False
    then obtain qs' where 2: "distribute_to_pools E core tot n i d ps = Inr qs'" and qs: "qs = p # qs'"
      using Cons.prems(1) by (auto simp: bindR_eq_Inr)
    have "gains ps qs' = map (\<lambda>j. tot * (j + 1) div n - tot * j div n) [i..n - 1]"
      by (rule Cons.IH [OF 2]) (use Cons.prems False in simp_all)
    then show ?thesis using qs False by simp
  qed
qed simp

lemma telescope: "i \<le> n \<Longrightarrow> (\<Sum>j\<leftarrow>[i..n - 1]. f (j + 1) - f j) = f n - f i" for f :: "int \<Rightarrow> int"
proof (induction "nat (n - i)" arbitrary: i)
  case (Suc k)
  then have "i < n" by linarith
  moreover have "(\<Sum>j\<leftarrow>[i + 1..n - 1]. f (j + 1) - f j) = f n - f (i + 1)"
    by (rule Suc.hyps(1)) (use Suc.hyps(2) \<open>i < n\<close> in linarith)+
  ultimately show ?case by (simp add: upto_rec1)
qed simp

text \<open>
  C28: A fee channelled to the staking pools is split evenly and completely: every pool with shares
  gains the same whole amount or one unit more, pools without shares gain nothing, and the gains
  add up to the fee.
\<close>

theorem fee_split_evenly:
  assumes "asset_laws (e_assets E)" "0 \<le> tot" "tot \<le> i64_max" "active_pools ps \<noteq> []"
    and "distribute_to_pools E core tot (int (length (active_pools ps))) 0 0 ps = Inr qs"
  shows "sum_list (gains ps qs) = tot \<and> length (gains ps qs) = length (active_pools ps) \<and>
    (\<forall>g \<in> set (gains ps qs). tot div int (length (active_pools ps)) \<le> g \<and>
      g \<le> tot div int (length (active_pools ps)) + 1)"
proof -
  let ?n = "int (length (active_pools ps))"
  have n: "0 < ?n" using assms(4) by simp
  have g: "gains ps qs = map (\<lambda>j. tot * (j + 1) div ?n - tot * j div ?n) [0..?n - 1]"
    using n by (intro distribute_gains [OF assms(1-3,5)]) simp_all
  have "sum_list (gains ps qs) = tot"
    unfolding g using n telescope [of 0 ?n "\<lambda>j. tot * j div ?n"] by simp
  moreover have "length (gains ps qs) = length (active_pools ps)" by (simp add: g)
  moreover have "\<forall>x \<in> set (gains ps qs). tot div ?n \<le> x \<and> x \<le> tot div ?n + 1"
    using share_bounds [OF n] unfolding g by auto
  ultimately show ?thesis by blast
qed

definition sample_staking_pool :: staking_pool where
  "sample_staking_pool = \<lparr>duration = 300, claim_period = 30, vote_weight = 1,
     token_pool = \<lparr>pl_balance = sys 500, total_shares = of_i 500\<rparr>\<rparr>"

theorem fee_split_evenly_witness:
  "\<exists>qs. distribute_to_pools sample_env sys_symbol 100 3 0 0 (replicate 3 sample_staking_pool) = Inr qs \<and>
    sum_list (gains (replicate 3 sample_staking_pool) qs) = 100"
proof -
  let ?ps = "replicate 3 sample_staking_pool"
  have "succeeds (distribute_to_pools sample_env sys_symbol 100 3 0 0 ?ps)" by code_simp
  then obtain qs where q: "distribute_to_pools sample_env sys_symbol 100 3 0 0 ?ps = Inr qs"
    by (rule succeedsE)
  have l: "int (length (active_pools ?ps)) = 3" by code_simp
  have "active_pools ?ps \<noteq> []" using l by auto
  then have "sum_list (gains ?ps qs) = 100"
    using fee_split_evenly [OF sample_laws, of 100 ?ps sys_symbol qs] q l by (simp add: i64_max_def)
  with q show ?thesis by blast
qed

section \<open>Where fees go\<close>

lemma add_to_rex_return_pool_same:
  assumes "add_to_rex_return_pool E fee s = Inr t"
  shows "same_but_pool s t"
  using assms
  by (cases rule: add_to_rex_return_pool_Inr)
    (blast intro: update_rex_pool_same same_but_pool_trans same_but_pool_upd)+

lemma channel_to_rex_outbox:
  assumes "channel_to_rex E frm fee s = Inr t"
  shows "outbox t = outbox s @ (if rex_available s then [Transfer [frm] frm rex_account fee] else [])"
  using assms same_but_pool_fields(6) [OF add_to_rex_return_pool_same]
  by (auto simp: channel_to_rex_def res_simps split: if_splits)

lemma rex_available_poolstate [simp]:
  "rex_available (s\<lparr>poolstate := x\<rparr>) = rex_available s" "rex_available (emit m s) = rex_available s"
  by (simp_all add: rex_available_def rex_system_initialized_def)

lemma transition_channel_rex_available:
  assumes "transition_channel_to_pools E frm a b s = Inr (rest, t)"
  shows "rex_available t = rex_available s"
  using assms by (cases rule: transition_channel_Inr) simp_all

text \<open>
  Channelling a fee changes the two pools and sends transfers from its payer to their accounts;
  everything else stays.
\<close>

definition same_but_fees :: "name \<Rightarrow> chain \<Rightarrow> chain \<Rightarrow> bool" where
  "same_but_fees frm s t \<longleftrightarrow>
     t = s\<lparr>rexpool := rexpool t, rexretpool := rexretpool t, rexretbuckets := rexretbuckets t,
       poolstate := poolstate t, outbox := outbox t\<rparr> \<and>
     (\<forall>a. a \<noteq> frm \<longrightarrow> a \<noteq> rex_account \<longrightarrow> a \<noteq> srpool_account \<longrightarrow>
       net_in a (outbox t) = net_in a (outbox s))"

lemma same_but_fees_refl [simp]: "same_but_fees frm s s"
  by (simp add: same_but_fees_def)

lemma same_but_fees_trans: "same_but_fees frm s t \<Longrightarrow> same_but_fees frm t u \<Longrightarrow> same_but_fees frm s u"
  unfolding same_but_fees_def by (cases s, cases t, cases u) simp

lemma same_but_fees_fields:
  assumes "same_but_fees frm s t"
  shows "rammarket t = rammarket s" "userres t = userres s" "gstate t = gstate s" "gstate2 t = gstate2 s"
    "gstate3 t = gstate3 s" "gstate4 t = gstate4 s" "voters t = voters s" "producers t = producers s"
    "producers2 t = producers2 s" "delband t = delband s" "refunds t = refunds s" "namebids t = namebids s"
    "bidrefunds t = bidrefunds s" "rexfunds t = rexfunds s" "rexbalance t = rexbalance s"
    "rexorders t = rexorders s" "cpu_loans t = cpu_loans s" "net_loans t = net_loans s"
    "powerstate t = powerstate s" "powerorders t = powerorders s" "poolvoters t = poolvoters s"
    "totpoolvotes t = totpoolvotes s" "limits t = limits s"
  using assms unfolding same_but_fees_def by (cases s, cases t, simp)+

lemma same_but_fees_net:
  "same_but_fees frm s t \<Longrightarrow> a \<noteq> frm \<Longrightarrow> a \<noteq> rex_account \<Longrightarrow> a \<noteq> srpool_account \<Longrightarrow>
     net_in a (outbox t) = net_in a (outbox s)"
  by (simp add: same_but_fees_def)

lemma same_but_pool_fees: "same_but_pool s t \<Longrightarrow> same_but_fees frm s t"
  unfolding same_but_pool_def same_but_fees_def by (cases s, cases t) simp

lemma transition_channel_fees:
  "transition_channel_to_pools E frm a b s = Inr (rest, t) \<Longrightarrow> same_but_fees frm s t"
  by (erule transition_channel_Inr) (auto simp: same_but_fees_def emit_def)

lemma channel_to_rex_fees:
  assumes "channel_to_rex E frm a s = Inr t"
  shows "same_but_fees frm s t"
proof (cases "rex_available s")
  case True
  then obtain u where u: "add_to_rex_return_pool E a s = Inr u" "t = emit (Transfer [frm] frm rex_account a) u"
    using assms by (auto simp: channel_to_rex_def res_simps)
  have "same_but_fees frm u t" by (simp add: u same_but_fees_def emit_def)
  then show ?thesis
    using same_but_pool_fees [OF add_to_rex_return_pool_same [OF u(1)]] same_but_fees_trans by blast
qed (use assms in \<open>simp add: channel_to_rex_def\<close>)

lemma channel_fees: "channel_to_rex_or_pools E frm a b s = Inr t \<Longrightarrow> same_but_fees frm s t"
  by (auto simp: channel_to_rex_or_pools_def res_simps split: if_splits
      dest!: transition_channel_fees channel_to_rex_fees elim: same_but_fees_trans)

lemma channel_required_net:
  assumes "asset_laws (e_assets E)" "0 \<le> amount a" "amount a \<le> i64_max"
    and "frm \<noteq> srpool_account" "frm \<noteq> rex_account"
    and ok: "channel_to_rex_or_pools E frm a True s = Inr t"
  shows "net_in srpool_account (outbox t) + net_in rex_account (outbox t) =
    net_in srpool_account (outbox s) + net_in rex_account (outbox s) + amount a"
proof -
  obtain rest s1 where 1: "transition_channel_to_pools E frm a (rex_available s) s = Inr (rest, s1)"
    and 2: "if amount rest \<noteq> 0 then rex_available s1 \<and> channel_to_rex E frm rest s1 = Inr t else t = s1"
    using ok by (auto simp: channel_to_rex_or_pools_def res_simps split: if_splits)
  note r = transition_channel_split [OF assms(1) 1 assms(2,3)]
  have n: "srpool_account \<noteq> rex_account" by (simp add: srpool_account_def rex_account_def)
  have "net_in rex_account (outbox s1) = net_in rex_account (outbox s)"
    using 1 by (cases rule: transition_channel_Inr) (use assms(5) n in simp_all)
  then show ?thesis using r 2 n assms(4,5) channel_to_rex_outbox [of E frm rest s1 t]
    by (cases "amount rest = 0") auto
qed

text \<open>
  C27: A fee for which a destination is required reaches one in full: what \<open>eosio.srpool\<close> and
  \<open>eosio.rex\<close> receive together is the fee; otherwise the operation fails.
\<close>

theorem required_fee_is_transferred:
  assumes "asset_laws (e_assets E)" "0 \<le> amount a" "amount a \<le> i64_max"
    and "frm \<noteq> srpool_account" "frm \<noteq> rex_account"
    and ok: "channel_to_rex_or_pools E frm a True s = Inr t"
  shows "net_in srpool_account (outbox t) + net_in rex_account (outbox t) =
    net_in srpool_account (outbox s) + net_in rex_account (outbox s) + amount a"
  using assms by (rule channel_required_net)

theorem required_fee_is_transferred_witness:
  "\<exists>t. channel_to_rex_or_pools sample_env 5 (sys 700) True sample_rex_chain = Inr t \<and>
    net_in srpool_account (outbox t) + net_in rex_account (outbox t) = 700"
proof -
  have "succeeds (channel_to_rex_or_pools sample_env 5 (sys 700) True sample_rex_chain)" by code_simp
  then obtain t where t: "channel_to_rex_or_pools sample_env 5 (sys 700) True sample_rex_chain = Inr t"
    by (rule succeedsE)
  have "outbox sample_rex_chain = []" by (simp add: sample_rex_chain_def sample_chain_def initial_chain_def)
  then show ?thesis using required_fee_is_transferred [OF sample_laws, of "sys 700" 5 sample_rex_chain t] t
    by (auto simp: srpool_account_def rex_account_def i64_max_def)
qed

end
