(* ===== verification/Pools.thy ===== *)
theory Pools
  imports PoolChannel
begin

text \<open>
  Staking pools (\<open>staking_pool.cpp\<close>): deposits and withdrawals, votes weighted by pool shares and
  their proxies, the configuration, and pay by pool votes. The lemmas show that the pools' tokens
  are what \<open>eosio.srpool\<close> received, that the recursion along proxies ends, and how a ballot changes
  the votes of the producers.
\<close>

section \<open>Vectors of shares\<close>

text \<open>The loops \<open>for (i = 0; i < deltas.size(); ++i) xs[i] op= deltas[i]\<close>.\<close>

fun vec_op :: "(f64 \<Rightarrow> f64 \<Rightarrow> f64) \<Rightarrow> f64 list \<Rightarrow> f64 list \<Rightarrow> f64 list" where
  "vec_op f (x # xs) (d # ds) = f x d # vec_op f xs ds"
| "vec_op f xs [] = xs"
| "vec_op f [] (d # ds) = []"

lemma length_vec_op [simp]: "length (vec_op f xs ds) = length xs"
  by (induction f xs ds rule: vec_op.induct) auto

section \<open>Configuration\<close>

definition check_pool_requirements :: "name \<Rightarrow> name list \<Rightarrow> (error + 'a) \<Rightarrow> error + 'a" where
  "check_pool_requirements proxy prods k =
     check (proxy \<noteq> 0 \<or> 21 \<le> length prods) (Pool Need_proxy_or_21) k"

fun increasing :: "(int \<times> int \<times> f64) list \<Rightarrow> (error + 'a) \<Rightarrow> error + 'a" where
  "increasing ((d, c, w) # (d', c', w') # xs) k =
     check (d < d') (Pool Durations_not_increasing) (
     check (c \<le> c') (Pool Claim_periods_decreasing) (
     check (w \<le> w') (Pool Vote_weights_decreasing) (increasing ((d', c', w') # xs) k)))"
| "increasing _ k = k"

fun pool_configs_ok :: "(int \<times> int \<times> f64) list \<Rightarrow> (error + 'a) \<Rightarrow> error + 'a" where
  "pool_configs_ok [] k = k"
| "pool_configs_ok ((d, c, w) # xs) k =
     check (0 < d) (Pool Duration_not_positive) (
     check (0 < c) (Pool Claim_period_not_positive) (
     check (0 < w) (Pool Vote_weight_not_positive) (
     check (c < d) (Pool Claim_period_too_long) (pool_configs_ok xs k))))"

definition first_pools ::
  "env \<Rightarrow> int list option \<Rightarrow> int list option \<Rightarrow> f64 list option \<Rightarrow> int option \<Rightarrow> int option \<Rightarrow>
     chain \<Rightarrow> error + (staking_pool_state \<times> chain)" where
  "first_pools E durations claim_periods vote_weights begin_tr end_tr s =
     fetch durations (Pool Config_missing) (\<lambda>ds.
     fetch claim_periods (Pool Config_missing) (\<lambda>cs.
     fetch vote_weights (Pool Config_missing) (\<lambda>ws.
     check (begin_tr \<noteq> None) (Pool Config_missing) (
     check (end_tr \<noteq> None) (Pool Config_missing) (
     check (ds \<noteq> []) (Pool Durations_empty) (
     check (length cs = length ds) (Pool Mismatched_sizes) (
     check (length ws = length ds) (Pool Mismatched_sizes) (
     let s1 = (if thresh_activated_stake_time (gstate s) = 0
           then s\<lparr>gstate := (gstate s)\<lparr>thresh_activated_stake_time := e_now E\<rparr>\<rparr> else s);
         xs = zip ds (zip cs ws) in
     pool_configs_ok xs (
     increasing xs (
     core_symbol s1 (\<lambda>sym.
     bindR (aa_make (e_assets E) 10000 sym) (\<lambda>min_create.
     Inr (new_pool_state\<lparr>interval_start := e_slot E div blocks_per_round * blocks_per_round,
       pools := map (\<lambda>(d, c, w). \<lparr>duration = d, claim_period = c, vote_weight = w,
         token_pool = \<lparr>pl_balance = asset0 sym, total_shares = 0\<rparr>\<rparr>) xs,
       min_transfer_create := min_create, sp_total_votes := replicate (length ds) 0,
       sp_namebid_proceeds := asset0 sym\<rparr>, s1)))))))))))))"

definition opt_set :: "'a option \<Rightarrow> ('a \<Rightarrow> bool) \<Rightarrow> error \<Rightarrow> ('a \<Rightarrow> 's \<Rightarrow> 's) \<Rightarrow> 's \<Rightarrow> error + 's" where
  "opt_set x ok e f st = (case x of None \<Rightarrow> Inr st | Some v \<Rightarrow> check (ok v) e (Inr (f v st)))"

definition cfgsrpool ::
  "env \<Rightarrow> int list option \<Rightarrow> int list option \<Rightarrow> f64 list option \<Rightarrow> int option \<Rightarrow> int option \<Rightarrow>
     f64 option \<Rightarrow> f64 option \<Rightarrow> int option \<Rightarrow> f64 option \<Rightarrow> asset option \<Rightarrow> chain \<Rightarrow> error + chain" where
  "cfgsrpool E durations claim_periods vote_weights begin_tr end_tr prod_r voter_r max_num max_ratio min_create s =
     require_auth E (e_self E) (
     bindR (case poolstate s of
         None \<Rightarrow> first_pools E durations claim_periods vote_weights begin_tr end_tr s
       | Some st \<Rightarrow> check (durations = None) (Pool Config_cannot_change) (
           check (claim_periods = None) (Pool Config_cannot_change) (
           check (vote_weights = None) (Pool Config_cannot_change) (Inr (st, s))))) (\<lambda>(st0, s1).
     let st1 = (case begin_tr of None \<Rightarrow> st0 | Some t \<Rightarrow> st0\<lparr>begin_transition := t\<rparr>);
         st2 = (case end_tr of None \<Rightarrow> st1 | Some t \<Rightarrow> st1\<lparr>end_transition := t\<rparr>) in
     check (begin_transition st2 \<le> end_transition st2) (Pool Begin_after_end) (
     bindR (opt_set prod_r (\<lambda>r. 0 \<le> r \<and> r < 1) (Pool Prod_rate_out_of_range)
       (\<lambda>r st. st\<lparr>prod_rate := r\<rparr>) st2) (\<lambda>st3.
     bindR (opt_set voter_r (\<lambda>r. 0 \<le> r \<and> r < 1) (Pool Voter_rate_out_of_range)
       (\<lambda>r st. st\<lparr>voter_rate := r\<rparr>) st3) (\<lambda>st4.
     let st5 = (case max_num of None \<Rightarrow> st4 | Some n \<Rightarrow> st4\<lparr>max_num_pay := n\<rparr>) in
     bindR (opt_set max_ratio (\<lambda>r. 0 \<le> r \<and> r \<le> 1) (Pool Max_vote_ratio_out_of_range)
       (\<lambda>r st. st\<lparr>max_vote_ratio := r\<rparr>) st5) (\<lambda>st6.
     bindR (case min_create of
         None \<Rightarrow> Inr st6
       | Some a \<Rightarrow> core_symbol s1 (\<lambda>core.
           check (asym a = core \<and> 0 \<le> amount a) (Pool Min_transfer_out_of_range) (
           Inr (st6\<lparr>min_transfer_create := a\<rparr>)))) (\<lambda>st7.
     Inr (s1\<lparr>poolstate := Some st7\<rparr>))))))))"

section \<open>Producers and pool votes\<close>

definition get_prod_pool_votes :: "producer_info \<Rightarrow> f64 list option" where
  "get_prod_pool_votes info = (case pool_votes info of Some (Some v) \<Rightarrow> Some v | _ \<Rightarrow> None)"

definition enable_prod_pool_votes :: "producer_info \<Rightarrow> chain \<Rightarrow> error + (producer_info \<times> chain)" where
  "enable_prod_pool_votes info s =
     (case poolstate s of
        None \<Rightarrow> Inr (info, s)
      | Some st \<Rightarrow>
          if get_prod_pool_votes info \<noteq> None then
            fetch (fmlookup (totpoolvotes s) (p_owner info)) No_row (\<lambda>tot.
            Inr (info, s\<lparr>totpoolvotes := fmupd (p_owner info) (tot\<lparr>active := True\<rparr>) (totpoolvotes s)\<rparr>))
          else
            check (fmlookup (totpoolvotes s) (p_owner info) = None) Duplicate_row (
            core_symbol s (\<lambda>core.
            Inr (info\<lparr>pool_votes := Some (Some (replicate (length (pools st)) 0))\<rparr>,
              s\<lparr>totpoolvotes := fmupd (p_owner info) \<lparr>tv_owner = p_owner info, active = True, votes = 0,
                vote_pay = asset0 core\<rparr> (totpoolvotes s)\<rparr>))))"

definition deactivate :: "producer_info \<Rightarrow> producer_info" where
  "deactivate p = p\<lparr>producer_key := 0, producer_authority := None, is_active := False\<rparr>"

definition deactivate_producer :: "name \<Rightarrow> chain \<Rightarrow> error + chain" where
  "deactivate_producer producer s =
     fetch (fmlookup (producers s) producer) (Vote Producer_not_found) (\<lambda>p.
     let s1 = s\<lparr>producers := fmupd producer (deactivate p) (producers s)\<rparr> in
     case fmlookup (totpoolvotes s1) producer of
       None \<Rightarrow> Inr s1
     | Some tot \<Rightarrow> Inr (s1\<lparr>totpoolvotes := fmupd producer (tot\<lparr>active := False\<rparr>) (totpoolvotes s1)\<rparr>))"

section \<open>Voters and proxies\<close>

definition create_pool_voter :: "name \<Rightarrow> chain \<Rightarrow> error + chain" where
  "create_pool_voter voter_name s =
     fetch (poolstate s) (Pool Pools_not_configured) (\<lambda>st.
     check (fmlookup (poolvoters s) voter_name = None) Duplicate_row (
     let n = length (pools st) in
     Inr (s\<lparr>poolvoters := fmupd voter_name \<lparr>pv_owner = voter_name, next_claim = replicate n 0,
       owned_shares = replicate n 0, proxied_shares = replicate n 0, last_votes = replicate n 0,
       pv_proxy = 0, pv_producers = [], pv_is_proxy = False, xfer_out_notif = False,
       xfer_in_notif = False\<rparr> (poolvoters s)\<rparr>)))"

definition get_or_create_pool_voter :: "name \<Rightarrow> chain \<Rightarrow> error + (bool \<times> chain)" where
  "get_or_create_pool_voter voter_name s =
     (if fmlookup (poolvoters s) voter_name \<noteq> None then Inr (False, s)
      else bindR (create_pool_voter voter_name s) (\<lambda>s1. Inr (True, s1)))"

definition change_proxied_shares ::
  "(f64 \<Rightarrow> f64 \<Rightarrow> f64) \<Rightarrow> f64 list \<Rightarrow> pool_voter \<Rightarrow> error + pool_voter" where
  "change_proxied_shares f deltas proxy =
     check (length (proxied_shares proxy) = length deltas) (Pool Proxy_lost_pool) (
     Inr (proxy\<lparr>proxied_shares := vec_op f (proxied_shares proxy) deltas\<rparr>))"

definition add_proxied_shares :: "f64 list \<Rightarrow> pool_voter \<Rightarrow> error + pool_voter" where
  "add_proxied_shares = change_proxied_shares (+)"

definition sub_proxied_shares :: "f64 list \<Rightarrow> pool_voter \<Rightarrow> error + pool_voter" where
  "sub_proxied_shares = change_proxied_shares (-)"

text \<open>The change of a pool voter's row by a function that may fail.\<close>

definition modify_pool_voter ::
  "name \<Rightarrow> error \<Rightarrow> (pool_voter \<Rightarrow> error + pool_voter) \<Rightarrow> chain \<Rightarrow> error + chain" where
  "modify_pool_voter v e f s =
     fetch (fmlookup (poolvoters s) v) e (\<lambda>pv.
     bindR (f pv) (\<lambda>pv'. Inr (s\<lparr>poolvoters := fmupd v pv' (poolvoters s)\<rparr>)))"

definition change_pool_votes ::
  "(f64 \<Rightarrow> f64 \<Rightarrow> f64) \<Rightarrow> error \<Rightarrow> f64 list \<Rightarrow> producer_info \<times> staking_pool_state \<Rightarrow>
     error + (producer_info \<times> staking_pool_state)" where
  "change_pool_votes f e deltas ps =
     (case ps of (p, st) \<Rightarrow>
      fetch (get_prod_pool_votes p) e (\<lambda>v.
      check (length v = length deltas) e (
      Inr (p\<lparr>pool_votes := Some (Some (vec_op f v deltas))\<rparr>,
        st\<lparr>sp_total_votes := vec_op f (sp_total_votes st) deltas\<rparr>))))"

definition add_pool_votes ::
  "f64 list \<Rightarrow> producer_info \<times> staking_pool_state \<Rightarrow> error + (producer_info \<times> staking_pool_state)" where
  "add_pool_votes = change_pool_votes (+) (Pool Producer_not_upgraded)"

definition sub_pool_votes ::
  "f64 list \<Rightarrow> producer_info \<times> staking_pool_state \<Rightarrow> error + (producer_info \<times> staking_pool_state)" where
  "sub_pool_votes = change_pool_votes (-) (Pool Producer_lost_pool)"

definition pool_weights :: "pool_voter \<Rightarrow> f64 list" where
  "pool_weights pv = (if pv_is_proxy pv then vec_op (+) (owned_shares pv) (proxied_shares pv)
     else owned_shares pv)"

text \<open>A producer loses the votes \<open>old\<close> and gains \<open>new\<close>, each if given.\<close>

definition revote_producer ::
  "f64 list option \<Rightarrow> f64 list option \<Rightarrow> name \<Rightarrow> producer_info \<Rightarrow> chain \<Rightarrow> error + chain" where
  "revote_producer old new acnt p s =
     fetch (poolstate s) (Pool Pools_not_configured) (\<lambda>st.
     bindR (case old of None \<Rightarrow> Inr (p, st) | Some d \<Rightarrow> sub_pool_votes d (p, st)) (\<lambda>r.
     bindR (case new of None \<Rightarrow> Inr r | Some d \<Rightarrow> add_pool_votes d r) (\<lambda>(p', st').
     Inr (s\<lparr>producers := fmupd acnt p' (producers s), poolstate := Some st'\<rparr>))))"

definition propagate_pool_producer :: "f64 list \<Rightarrow> f64 list \<Rightarrow> name \<Rightarrow> chain \<Rightarrow> error + chain" where
  "propagate_pool_producer old new acnt s =
     fetch (fmlookup (producers s) acnt) (Vote Producer_not_found) (\<lambda>p.
     revote_producer (Some old) (Some new) acnt p s)"

fun update_pool_proxy :: "nat \<Rightarrow> name \<Rightarrow> chain \<Rightarrow> error + chain" where
  "update_pool_proxy 0 v s = Inl Out_of_fuel"
| "update_pool_proxy (Suc n) v s =
     fetch (fmlookup (poolvoters s) v) No_row (\<lambda>voter.
     check (pv_proxy voter = 0 \<or> \<not> pv_is_proxy voter) (Vote Proxy_uses_proxy) (
     let w = pool_weights voter in
     bindR (if pv_proxy voter \<noteq> 0 then
         bindR (modify_pool_voter (pv_proxy voter) (Vote Proxy_not_found) (\<lambda>p.
           bindR (sub_proxied_shares (last_votes voter) p) (add_proxied_shares w)) s)
           (update_pool_proxy n (pv_proxy voter))
       else foldR (propagate_pool_producer (last_votes voter) w) (pv_producers voter) s)
     (modify_pool_voter v No_row (\<lambda>pv. Inr (pv\<lparr>last_votes := w\<rparr>)))))"

definition pool_fuel :: "chain \<Rightarrow> nat" where
  "pool_fuel s = Suc (fcard (fmdom (poolvoters s)))"

section \<open>Casting a vote\<close>

text \<open>\<open>producer_change\<close>: whether a producer is in the old ballot and in the new one.\<close>

definition change_of :: "name \<Rightarrow> (name, bool \<times> bool) fmap \<Rightarrow> bool \<times> bool" where
  "change_of p m = (case fmlookup m p of None \<Rightarrow> (False, False) | Some d \<Rightarrow> d)"

definition mark_old :: "name list \<Rightarrow> (name, bool \<times> bool) fmap \<Rightarrow> (name, bool \<times> bool) fmap" where
  "mark_old ps m = fold (\<lambda>p m. fmupd p (True, snd (change_of p m)) m) ps m"

definition mark_new :: "name list \<Rightarrow> (name, bool \<times> bool) fmap \<Rightarrow> (name, bool \<times> bool) fmap" where
  "mark_new ps m = fold (\<lambda>p m. fmupd p (fst (change_of p m), True) m) ps m"

definition update_pool_votes_producer ::
  "bool \<Rightarrow> f64 list \<Rightarrow> f64 list \<Rightarrow> name \<times> bool \<times> bool \<Rightarrow> chain \<Rightarrow> error + chain" where
  "update_pool_votes_producer voting old new pc s =
     (case pc of (acnt, old_vote, new_vote) \<Rightarrow>
      case fmlookup (producers s) acnt of
        Some p \<Rightarrow>
          check (\<not> (voting \<and> \<not> is_active p \<and> new_vote)) (Vote Producer_not_active) (
          revote_producer (if old_vote then Some old else None) (if new_vote then Some new else None) acnt p s)
      | None \<Rightarrow> check (\<not> new_vote) (Vote Producer_not_registered) (Inr s))"

definition update_pool_votes :: "name \<Rightarrow> name \<Rightarrow> name list \<Rightarrow> bool \<Rightarrow> chain \<Rightarrow> error + chain" where
  "update_pool_votes voter_name proxy prods voting s =
     valid_ballot voter_name proxy prods (
     bindR (get_or_create_pool_voter voter_name s) (\<lambda>(created, s0).
     fetch (fmlookup (poolvoters s0) voter_name) No_row (\<lambda>voter.
     check (proxy = 0 \<or> \<not> pv_is_proxy voter) (Vote Proxy_uses_proxy) (
     let w = pool_weights voter in
     bindR (if pv_proxy voter \<noteq> 0 then
         bindR (modify_pool_voter (pv_proxy voter) (Vote Old_proxy_not_found)
           (sub_proxied_shares (last_votes voter)) s0) (\<lambda>s1.
         bindR (update_pool_proxy (pool_fuel s1) (pv_proxy voter) s1) (\<lambda>s2. Inr (fmempty, s2)))
       else Inr (mark_old (pv_producers voter) fmempty, s0)) (\<lambda>(m, s1).
     bindR (if proxy \<noteq> 0 then
         fetch (fmlookup (poolvoters s1) proxy) (Vote Proxy_not_found) (\<lambda>new_proxy.
         check (\<not> voting \<or> pv_is_proxy new_proxy) (Vote Proxy_not_found) (
         bindR (modify_pool_voter proxy (Vote Proxy_not_found) (add_proxied_shares w) s1) (\<lambda>s2.
         bindR (update_pool_proxy (pool_fuel s2) proxy s2) (\<lambda>s3. Inr (m, s3)))))
       else Inr (mark_new prods m, s1)) (\<lambda>(m', s3).
     fetch (fmlookup (poolvoters s3) voter_name) No_row (\<lambda>voter3.
     bindR (foldR (update_pool_votes_producer voting (last_votes voter3) w) (rows m') s3)
       (modify_pool_voter voter_name No_row (\<lambda>pv. Inr (pv\<lparr>pv_producers := prods, pv_proxy := proxy,
         last_votes := w\<rparr>))))))))))"

text \<open>The ballot repeated after a change of shares, with the row's own proxy and producers.\<close>

definition repeat_pool_vote :: "name \<Rightarrow> chain \<Rightarrow> error + chain" where
  "repeat_pool_vote v s =
     fetch (fmlookup (poolvoters s) v) No_row (\<lambda>pv.
     update_pool_votes v (pv_proxy pv) (pv_producers pv) False s)"

section \<open>Deposits and withdrawals\<close>

definition deposit_pool ::
  "env \<Rightarrow> staking_pool \<Rightarrow> f64 \<Rightarrow> int \<Rightarrow> asset \<Rightarrow> error + (staking_pool \<times> f64 \<times> int)" where
  "deposit_pool E pool owned next new_amount =
     (let max_next_claim = u32 (e_slot E + claim_period pool * 2) in
      bindR (simulate_sell E owned (token_pool pool)) (\<lambda>current_balance.
      bindR (pool_buy E new_amount (token_pool pool)) (\<lambda>(new_shares, tp).
      check (0 < new_shares) (Pool New_shares_not_positive) (
      let next1 = max next (e_slot E);
          denominator = i64 (amount current_balance + amount new_amount) in
      check (denominator \<noteq> 0) Division_trap (
      let new_next_claim = u32 (tdiv (next1 * amount current_balance + max_next_claim * amount new_amount)
            denominator) in
      Inr (pool\<lparr>token_pool := tp\<rparr>, owned + new_shares, new_next_claim))))))"

definition withdraw_pool ::
  "env \<Rightarrow> staking_pool \<Rightarrow> f64 \<Rightarrow> asset \<Rightarrow> bool \<Rightarrow> error + (asset \<times> staking_pool \<times> f64)" where
  "withdraw_pool E pool owned max_requested claiming =
     bindR (simulate_sell E owned (token_pool pool)) (\<lambda>bal.
     bindR (if claiming then Inr False else aa_leq (e_assets E) bal max_requested) (\<lambda>all.
     if all then
       bindR (pool_sell E owned (token_pool pool)) (\<lambda>(sold, tp).
       Inr (sold, pool\<lparr>token_pool := tp\<rparr>, 0))
     else
       check (claiming \<longrightarrow> duration pool \<noteq> 0) Division_trap (
       let available = (if claiming
             then set_amount (i64 (tdiv (amount bal * claim_period pool) (duration pool))) bal else bal) in
       bindR (aa_less (e_assets E) max_requested available) (\<lambda>less.
       let sell_amount = (if less then max_requested else available) in
       check (0 < amount sell_amount) (Pool Withdrawing_zero) (
       bindR (shares_for E sell_amount (token_pool pool)) (\<lambda>sh.
       let sell_shares = f64_min sh owned in
       bindR (pool_sell E sell_shares (token_pool pool)) (\<lambda>(sold, tp).
       check (0 < sell_shares \<and> 0 < amount sold) (Pool Withdrawing_zero) (
       Inr (sold, pool\<lparr>token_pool := tp\<rparr>, owned - sell_shares)))))))))"

text \<open>Both on pool \<open>i\<close> of the state and of a voter's row.\<close>

definition deposit_at :: "env \<Rightarrow> nat \<Rightarrow> name \<Rightarrow> asset \<Rightarrow> chain \<Rightarrow> error + chain" where
  "deposit_at E i v a s =
     fetch (poolstate s) (Pool Pools_not_configured) (\<lambda>st.
     fetch (fmlookup (poolvoters s) v) No_row (\<lambda>pv.
     check (i < length (pools st) \<and> i < length (owned_shares pv) \<and> i < length (next_claim pv)) Out_of_range (
     bindR (deposit_pool E (pools st ! i) (owned_shares pv ! i) (next_claim pv ! i) a) (\<lambda>(p, sh, n).
     Inr (s\<lparr>poolstate := Some (st\<lparr>pools := (pools st)[i := p]\<rparr>),
       poolvoters := fmupd v (pv\<lparr>owned_shares := (owned_shares pv)[i := sh],
         next_claim := (next_claim pv)[i := n]\<rparr>) (poolvoters s)\<rparr>)))))"

definition withdraw_at ::
  "env \<Rightarrow> nat \<Rightarrow> name \<Rightarrow> asset \<Rightarrow> bool \<Rightarrow> chain \<Rightarrow> error + (asset \<times> chain)" where
  "withdraw_at E i v a claiming s =
     fetch (poolstate s) (Pool Pools_not_configured) (\<lambda>st.
     fetch (fmlookup (poolvoters s) v) No_row (\<lambda>pv.
     check (i < length (pools st) \<and> i < length (owned_shares pv)) Out_of_range (
     bindR (withdraw_pool E (pools st ! i) (owned_shares pv ! i) a claiming) (\<lambda>(sold, p, sh).
     Inr (sold, s\<lparr>poolstate := Some (st\<lparr>pools := (pools st)[i := p]\<rparr>),
       poolvoters := fmupd v (pv\<lparr>owned_shares := (owned_shares pv)[i := sh]\<rparr>) (poolvoters s)\<rparr>)))))"

definition pool_not_negative :: "nat \<Rightarrow> chain \<Rightarrow> (error + 'a) \<Rightarrow> error + 'a" where
  "pool_not_negative i s k =
     fetch (poolstate s) (Pool Pools_not_configured) (\<lambda>st.
     check (i < length (pools st)) Out_of_range (
     check (0 \<le> total_shares (token_pool (pools st ! i))) (Pool Pool_shares_negative) (
     check (0 \<le> amount (pl_balance (token_pool (pools st ! i)))) (Pool Pool_amount_negative) k)))"

definition check_pool_args :: "nat \<Rightarrow> asset \<Rightarrow> chain \<Rightarrow> (error + 'a) \<Rightarrow> error + 'a" where
  "check_pool_args i a s k =
     fetch (poolstate s) (Pool Pools_not_configured) (\<lambda>st.
     core_symbol s (\<lambda>core.
     check (i < length (pools st)) (Pool Invalid_pool) (
     check (asym a = core) (Pool Pool_symbol_mismatch) (
     check (0 < amount a) (Pool Pool_amount_not_positive) k))))"

section \<open>Actions\<close>

text \<open>A message sent under a condition.\<close>

definition emit_if :: "bool \<Rightarrow> message \<Rightarrow> chain \<Rightarrow> chain" where
  "emit_if b m s = (if b then emit m s else s)"

definition stake2pool :: "env \<Rightarrow> name \<Rightarrow> nat \<Rightarrow> asset \<Rightarrow> chain \<Rightarrow> error + chain" where
  "stake2pool E owner i a s =
     require_auth E owner (
     check_pool_args i a s (
     bindR (get_or_create_pool_voter owner s) (\<lambda>(created, s1).
     bindR (deposit_at E i owner a s1) (\<lambda>s2.
     repeat_pool_vote owner (emit (Transfer [owner] owner srpool_account a) s2)))))"

definition setpoolnotif :: "env \<Rightarrow> name \<Rightarrow> bool option \<Rightarrow> bool option \<Rightarrow> chain \<Rightarrow> error + chain" where
  "setpoolnotif E owner out_notif in_notif s =
     require_auth E owner (
     fetch (poolstate s) (Pool Pools_not_configured) (\<lambda>st.
     bindR (get_or_create_pool_voter owner s) (\<lambda>(created, s1).
     modify_pool_voter owner No_row (\<lambda>pv. Inr (pv\<lparr>
       xfer_out_notif := (case out_notif of None \<Rightarrow> xfer_out_notif pv | Some b \<Rightarrow> b),
       xfer_in_notif := (case in_notif of None \<Rightarrow> xfer_in_notif pv | Some b \<Rightarrow> b)\<rparr>)) s1)))"

definition claimstake :: "env \<Rightarrow> name \<Rightarrow> nat \<Rightarrow> asset \<Rightarrow> chain \<Rightarrow> error + chain" where
  "claimstake E owner i requested s =
     require_auth E owner (
     fetch (poolstate s) (Pool Pools_not_configured) (\<lambda>st.
     bindR (get_or_create_pool_voter owner s) (\<lambda>(created, s1).
     check_pool_args i requested s1 (
     fetch (fmlookup (poolvoters s1) owner) No_row (\<lambda>voter.
     check_pool_requirements (pv_proxy voter) (pv_producers voter) (
     bindR (distribute_namebid_to_pools E s1) (\<lambda>s2.
     check (i < length (next_claim voter)) Out_of_range (
     check (next_claim voter ! i \<le> e_slot E) (Pool Claim_too_soon) (
     bindR (withdraw_at E i owner requested True s2) (\<lambda>(claimed, s3).
     bindR (modify_pool_voter owner No_row (\<lambda>pv. Inr (pv\<lparr>next_claim :=
       (next_claim pv)[i := u32 (e_slot E + claim_period (pools st ! i) * 2)]\<rparr>)) s3) (\<lambda>s4.
     pool_not_negative i s4 (
     repeat_pool_vote owner
       (emit_if (amount claimed \<noteq> 0) (Transfer [srpool_account] srpool_account owner claimed) s4)))))))))))))"

definition transferstake ::
  "env \<Rightarrow> name \<Rightarrow> name \<Rightarrow> nat \<Rightarrow> asset \<Rightarrow> string \<Rightarrow> chain \<Rightarrow> error + chain" where
  "transferstake E frm to i requested memo s =
     require_auth E frm (
     check (length memo \<le> 256) (Pool Memo_too_long) (
     check (frm \<noteq> to) (Pool From_equals_to) (
     check (e_is_account E to) (Pool Invalid_account) (
     check_pool_args i requested s (
     check (fmlookup (poolvoters s) frm \<noteq> None) (Pool No_pool_voter) (
     bindR (get_or_create_pool_voter to s) (\<lambda>(created, s1).
     fetch (poolstate s1) (Pool Pools_not_configured) (\<lambda>st.
     bindR (if created then aa_leq (e_assets E) (min_transfer_create st) requested else Inr True) (\<lambda>enough.
     check enough (Pool Too_small_to_create) (
     bindR (withdraw_at E i frm requested False s1) (\<lambda>(moved, s2).
     check (0 < amount moved) (Pool Transferred_zero) (
     bindR (deposit_at E i to moved s2) (\<lambda>s3.
     pool_not_negative i s3 (
     bindR (repeat_pool_vote frm s3) (\<lambda>s4.
     bindR (repeat_pool_vote to s4) (\<lambda>s5.
     fetch (fmlookup (poolvoters s5) frm) No_row (\<lambda>f.
     fetch (fmlookup (poolvoters s5) to) No_row (\<lambda>t.
     Inr (emit_if (xfer_in_notif t) (Tstake_notif to frm to (of_nat i) requested moved)
       (emit_if (xfer_out_notif f) (Tstake_notif frm frm to (of_nat i) requested moved) s5))))))))))))))))))))"

definition upgradestake :: "env \<Rightarrow> name \<Rightarrow> nat \<Rightarrow> nat \<Rightarrow> asset \<Rightarrow> chain \<Rightarrow> error + chain" where
  "upgradestake E owner i j requested s =
     require_auth E owner (
     fetch (poolstate s) (Pool Pools_not_configured) (\<lambda>st.
     core_symbol s (\<lambda>core.
     check (i < length (pools st)) (Pool Invalid_pool) (
     check (j < length (pools st)) (Pool Invalid_pool) (
     check (i < j) (Pool Not_longer_term) (
     check (asym requested = core) (Pool Pool_symbol_mismatch) (
     check (0 < amount requested) (Pool Pool_amount_not_positive) (
     check (fmlookup (poolvoters s) owner \<noteq> None) (Pool No_pool_voter) (
     bindR (withdraw_at E i owner requested False s) (\<lambda>(moved, s1).
     check (0 < amount moved) (Pool Transferred_zero) (
     bindR (deposit_at E j owner moved s1) (\<lambda>s2.
     pool_not_negative i s2 (
     repeat_pool_vote owner s2)))))))))))))"

definition votewithpool :: "env \<Rightarrow> name \<Rightarrow> name \<Rightarrow> name list \<Rightarrow> chain \<Rightarrow> error + chain" where
  "votewithpool E voter proxy prods s =
     require_auth E voter (
     fetch (poolstate s) (Pool Pools_not_configured) (\<lambda>st.
     check_pool_requirements proxy prods (
     update_pool_votes voter proxy prods True s)))"

definition regpoolproxy :: "env \<Rightarrow> name \<Rightarrow> bool \<Rightarrow> chain \<Rightarrow> error + chain" where
  "regpoolproxy E proxy isproxy s =
     require_auth E proxy (
     fetch (poolstate s) (Pool Pools_not_configured) (\<lambda>st.
     bindR (get_or_create_pool_voter proxy s) (\<lambda>(created, s1).
     fetch (fmlookup (poolvoters s1) proxy) No_row (\<lambda>pv.
     check (\<not> isproxy \<or> pv_proxy pv = 0) (Vote Proxied_account_as_proxy) (
     let s2 = s1\<lparr>poolvoters := fmupd proxy (pv\<lparr>pv_is_proxy := isproxy\<rparr>) (poolvoters s1)\<rparr> in
     update_pool_proxy (pool_fuel s2) proxy s2)))))"

section \<open>What votes leave alone\<close>

text \<open>
  \<open>plinks\<close> is the part of a pool voter's row that a change of weight never touches. A change of
  votes touches votes and shares only; the tokens of the pools stay.
\<close>

definition plinks :: "pool_voter \<Rightarrow> pool_voter" where
  "plinks pv = pv\<lparr>last_votes := [], proxied_shares := []\<rparr>"

definition pool_frame :: "chain \<Rightarrow> chain \<Rightarrow> bool" where
  "pool_frame s t \<longleftrightarrow>
     t = s\<lparr>producers := producers t, poolvoters := poolvoters t, poolstate := poolstate t\<rparr> \<and>
     map_option pools (poolstate t) = map_option pools (poolstate s)"

definition same_plinks :: "chain \<Rightarrow> chain \<Rightarrow> bool" where
  "same_plinks s t \<longleftrightarrow>
     (\<forall>v. map_option plinks (fmlookup (poolvoters t) v) = map_option plinks (fmlookup (poolvoters s) v))"

lemma pool_frame_refl [simp]: "pool_frame s s"
  by (simp add: pool_frame_def)

lemma pool_frame_trans: "pool_frame s t \<Longrightarrow> pool_frame t u \<Longrightarrow> pool_frame s u"
  unfolding pool_frame_def by (cases s, cases t, cases u) simp

lemma same_plinks_refl [simp]: "same_plinks s s"
  by (simp add: same_plinks_def)

lemma same_plinks_trans: "same_plinks s t \<Longrightarrow> same_plinks t u \<Longrightarrow> same_plinks s u"
  by (simp add: same_plinks_def)

lemma pool_frame_moves: "pool_frame s t \<Longrightarrow> pooll.moves 0 s t"
proof (rule pooll.moves_eq)
  assume f: "pool_frame s t"
  then have o': "outbox t = outbox s" unfolding pool_frame_def by (cases s, cases t) simp
  have "map_option pools (poolstate t) = map_option pools (poolstate s)" using f by (simp add: pool_frame_def)
  then show "pools_net t = pools_net s + 0"
    using o' by (auto simp: pools_net_def split: option.splits)
qed

lemma change_pool_votes_pools:
  "change_pool_votes f e d (p, st) = Inr (p', st') \<Longrightarrow> pools st' = pools st"
  by (auto simp: change_pool_votes_def res_simps)

lemma revote_producer_frame:
  "revote_producer old new a p s = Inr t \<Longrightarrow> pool_frame s t \<and> poolvoters t = poolvoters s"
  unfolding revote_producer_def add_pool_votes_def sub_pool_votes_def
  by (cases old; cases new) (auto simp: res_simps pool_frame_def dest!: change_pool_votes_pools)

lemma propagate_pool_producer_frame:
  "propagate_pool_producer old new a s = Inr t \<Longrightarrow> pool_frame s t \<and> poolvoters t = poolvoters s"
  by (auto simp: propagate_pool_producer_def res_simps dest: revote_producer_frame)

lemma foldR_pool_frame:
  assumes "\<And>x u v. f x u = Inr v \<Longrightarrow> pool_frame u v \<and> poolvoters v = poolvoters u" "foldR f xs s = Inr t"
  shows "pool_frame s t \<and> poolvoters t = poolvoters s"
  by (rule foldR_invariant [OF assms(2), of "\<lambda>u. pool_frame s u \<and> poolvoters u = poolvoters s"])
    (auto dest: assms(1) intro: pool_frame_trans)

lemma modify_pool_voter_frame: "modify_pool_voter v e f s = Inr t \<Longrightarrow> pool_frame s t"
  by (auto simp: modify_pool_voter_def res_simps pool_frame_def)

lemma modify_pool_voter_plinks:
  assumes "modify_pool_voter v e f s = Inr t" "\<And>pv pv'. f pv = Inr pv' \<Longrightarrow> plinks pv' = plinks pv"
  shows "same_plinks s t"
  using assms by (auto simp: modify_pool_voter_def res_simps same_plinks_def)

lemma change_proxied_shares_plinks: "change_proxied_shares f d pv = Inr pv' \<Longrightarrow> plinks pv' = plinks pv"
  by (auto simp: change_proxied_shares_def res_simps plinks_def)

lemma shift_proxied_plinks:
  "bindR (sub_proxied_shares a pv) (add_proxied_shares b) = Inr pv' \<Longrightarrow> plinks pv' = plinks pv"
  unfolding sub_proxied_shares_def add_proxied_shares_def
  by (auto simp: res_simps dest!: change_proxied_shares_plinks)

lemma update_pool_proxy_frame:
  "update_pool_proxy n v s = Inr t \<Longrightarrow> pool_frame s t \<and> same_plinks s t"
proof (induction n arbitrary: v s t)
  case (Suc n)
  then obtain voter u where w: "fmlookup (poolvoters s) v = Some voter"
    and u: "(if pv_proxy voter \<noteq> 0 then
         bindR (modify_pool_voter (pv_proxy voter) (Vote Proxy_not_found) (\<lambda>p.
           bindR (sub_proxied_shares (last_votes voter) p) (add_proxied_shares (pool_weights voter))) s)
           (update_pool_proxy n (pv_proxy voter))
       else foldR (propagate_pool_producer (last_votes voter) (pool_weights voter)) (pv_producers voter) s) = Inr u"
    and t: "modify_pool_voter v No_row (\<lambda>pv. Inr (pv\<lparr>last_votes := pool_weights voter\<rparr>)) u = Inr t"
    by (auto simp: res_simps Let_def)
  have "same_plinks u t" by (rule modify_pool_voter_plinks [OF t]) (auto simp: plinks_def)
  moreover have "pool_frame s u \<and> same_plinks s u"
  proof (cases "pv_proxy voter = 0")
    case True
    then have "foldR (propagate_pool_producer (last_votes voter) (pool_weights voter)) (pv_producers voter) s = Inr u"
      using u by simp
    from foldR_pool_frame [OF propagate_pool_producer_frame this] show ?thesis by (simp add: same_plinks_def)
  next
    case False
    then obtain s1 where 1: "modify_pool_voter (pv_proxy voter) (Vote Proxy_not_found) (\<lambda>p.
           bindR (sub_proxied_shares (last_votes voter) p) (add_proxied_shares (pool_weights voter))) s = Inr s1"
      and 2: "update_pool_proxy n (pv_proxy voter) s1 = Inr u"
      using u by (auto simp: bindR_eq_Inr)
    have "same_plinks s s1" by (rule modify_pool_voter_plinks [OF 1]) (rule shift_proxied_plinks)
    then show ?thesis
      using Suc.IH [OF 2] modify_pool_voter_frame [OF 1] pool_frame_trans same_plinks_trans by blast
  qed
  ultimately show ?case
    using modify_pool_voter_frame [OF t] pool_frame_trans same_plinks_trans by blast
qed simp

lemma get_or_create_frame: "get_or_create_pool_voter v s = Inr (b, t) \<Longrightarrow> pool_frame s t"
  by (auto simp: get_or_create_pool_voter_def create_pool_voter_def res_simps Let_def pool_frame_def
      split: if_splits)

lemma update_pool_votes_producer_frame:
  "update_pool_votes_producer voting old new pc s = Inr t \<Longrightarrow> pool_frame s t \<and> poolvoters t = poolvoters s"
  by (auto simp: update_pool_votes_producer_def res_simps split: prod.splits option.splits
      dest: revote_producer_frame)

lemma update_pool_votes_Inr:
  assumes "update_pool_votes v proxy prods voting s = Inr t"
  obtains b s0 voter m s1 m' s3 voter3 s4 where
    "get_or_create_pool_voter v s = Inr (b, s0)" "fmlookup (poolvoters s0) v = Some voter"
    "proxy = 0 \<or> \<not> pv_is_proxy voter"
    "(if pv_proxy voter \<noteq> 0 then
         bindR (modify_pool_voter (pv_proxy voter) (Vote Old_proxy_not_found)
           (sub_proxied_shares (last_votes voter)) s0) (\<lambda>s1.
         bindR (update_pool_proxy (pool_fuel s1) (pv_proxy voter) s1) (\<lambda>s2. Inr (fmempty, s2)))
       else Inr (mark_old (pv_producers voter) fmempty, s0)) = Inr (m, s1)"
    "(if proxy \<noteq> 0 then
         fetch (fmlookup (poolvoters s1) proxy) (Vote Proxy_not_found) (\<lambda>new_proxy.
         check (\<not> voting \<or> pv_is_proxy new_proxy) (Vote Proxy_not_found) (
         bindR (modify_pool_voter proxy (Vote Proxy_not_found) (add_proxied_shares (pool_weights voter)) s1) (\<lambda>s2.
         bindR (update_pool_proxy (pool_fuel s2) proxy s2) (\<lambda>s3. Inr (m, s3)))))
       else Inr (mark_new prods m, s1)) = Inr (m', s3)"
    "fmlookup (poolvoters s3) v = Some voter3"
    "foldR (update_pool_votes_producer voting (last_votes voter3) (pool_weights voter)) (rows m') s3 = Inr s4"
    "modify_pool_voter v No_row (\<lambda>pv. Inr (pv\<lparr>pv_producers := prods, pv_proxy := proxy,
         last_votes := pool_weights voter\<rparr>)) s4 = Inr t"
proof -
  have "valid_ballot v proxy prods k = Inr t \<Longrightarrow> k = Inr t" for k :: "error + chain"
    by (auto simp: valid_ballot_def res_simps split: if_splits)
  from this [OF assms [unfolded update_pool_votes_def]] show thesis
    unfolding bindR_eq_Inr fetch_eq_Inr check_eq_Inr Let_def split_paired_Ex prod.case
    by (elim exE conjE) (rule that)
qed

lemma update_pool_votes_frame:
  assumes "update_pool_votes v proxy prods voting s = Inr t"
  shows "pool_frame s t"
  using assms
proof (rule update_pool_votes_Inr)
  fix b s0 voter m s1 m' s3 voter3 s4
  assume 0: "get_or_create_pool_voter v s = Inr (b, s0)"
    and 1: "(if pv_proxy voter \<noteq> 0 then
         bindR (modify_pool_voter (pv_proxy voter) (Vote Old_proxy_not_found)
           (sub_proxied_shares (last_votes voter)) s0) (\<lambda>s1.
         bindR (update_pool_proxy (pool_fuel s1) (pv_proxy voter) s1) (\<lambda>s2. Inr (fmempty, s2)))
       else Inr (mark_old (pv_producers voter) fmempty, s0)) = Inr (m, s1)"
    and 2: "(if proxy \<noteq> 0 then
         fetch (fmlookup (poolvoters s1) proxy) (Vote Proxy_not_found) (\<lambda>new_proxy.
         check (\<not> voting \<or> pv_is_proxy new_proxy) (Vote Proxy_not_found) (
         bindR (modify_pool_voter proxy (Vote Proxy_not_found) (add_proxied_shares (pool_weights voter)) s1) (\<lambda>s2.
         bindR (update_pool_proxy (pool_fuel s2) proxy s2) (\<lambda>s3. Inr (m, s3)))))
       else Inr (mark_new prods m, s1)) = Inr (m', s3)"
    and 3: "foldR (update_pool_votes_producer voting (last_votes voter3) (pool_weights voter)) (rows m') s3 = Inr s4"
    and 4: "modify_pool_voter v No_row (\<lambda>pv. Inr (pv\<lparr>pv_producers := prods, pv_proxy := proxy,
         last_votes := pool_weights voter\<rparr>)) s4 = Inr t"
  have f1: "pool_frame s0 s1"
  proof (cases "pv_proxy voter = 0")
    case False
    then obtain u where "modify_pool_voter (pv_proxy voter) (Vote Old_proxy_not_found)
        (sub_proxied_shares (last_votes voter)) s0 = Inr u" "update_pool_proxy (pool_fuel u) (pv_proxy voter) u = Inr s1"
      using 1 by (auto simp: bindR_eq_Inr)
    then show ?thesis using modify_pool_voter_frame update_pool_proxy_frame pool_frame_trans by blast
  qed (use 1 in simp)
  have f2: "pool_frame s1 s3"
  proof (cases "proxy = 0")
    case False
    then obtain u where "modify_pool_voter proxy (Vote Proxy_not_found) (add_proxied_shares (pool_weights voter)) s1 = Inr u"
      "update_pool_proxy (pool_fuel u) proxy u = Inr s3"
      using 2 by (auto simp: res_simps)
    then show ?thesis using modify_pool_voter_frame update_pool_proxy_frame pool_frame_trans by blast
  qed (use 2 in simp)
  have "pool_frame s3 s4" using foldR_pool_frame [OF update_pool_votes_producer_frame 3] by simp
  then show ?thesis
    using get_or_create_frame [OF 0] f1 f2 modify_pool_voter_frame [OF 4] pool_frame_trans by blast
qed

lemma repeat_pool_vote_moves: "repeat_pool_vote v s = Inr t \<Longrightarrow> pooll.moves 0 s t"
  by (auto simp: repeat_pool_vote_def res_simps dest!: update_pool_votes_frame intro: pool_frame_moves)

section \<open>The recursion along proxies ends\<close>

definition pool_edges :: "chain \<Rightarrow> (name \<times> name) set" where
  "pool_edges s = {(a, b). b \<noteq> 0 \<and> map_option pv_proxy (fmlookup (poolvoters s) a) = Some b}"

lemma pool_edges_plinks: "same_plinks s t \<Longrightarrow> pool_edges t = pool_edges s"
proof -
  assume l: "same_plinks s t"
  have e: "map_option pv_proxy x = map_option pv_proxy (map_option plinks x)" for x
    by (cases x) (simp_all add: plinks_def)
  have "map_option pv_proxy (fmlookup (poolvoters t) a) = map_option pv_proxy (fmlookup (poolvoters s) a)" for a
    using l unfolding same_plinks_def
    by (simp only: e [of "fmlookup (poolvoters t) a"] e [of "fmlookup (poolvoters s) a"])
  then show ?thesis by (simp add: pool_edges_def)
qed

lemma same_plinks_dom: "same_plinks s t \<Longrightarrow> fmdom (poolvoters t) = fmdom (poolvoters s)"
  unfolding same_plinks_def by (intro fset_eqI) (metis fmdom_notD fmdom_notI map_option_is_None)

definition pool_chain :: "chain \<Rightarrow> name \<Rightarrow> name set" where
  "pool_chain s v = fset (fmdom (poolvoters s)) \<inter> (pool_edges s)\<^sup>* `` {v}"

lemma pool_chain_step:
  assumes "acyclic (pool_edges s)" "(v, p) \<in> pool_edges s" "v |\<in>| fmdom (poolvoters s)"
  shows "card (pool_chain s p) < card (pool_chain s v)"
proof (rule psubset_card_mono)
  show "finite (pool_chain s v)" by (simp add: pool_chain_def)
  have "(p, v) \<notin> (pool_edges s)\<^sup>*"
    using assms by (metis acyclic_def rtrancl_into_trancl2)
  then have "v \<notin> pool_chain s p" "v \<in> pool_chain s v" using assms(3) by (simp_all add: pool_chain_def)
  moreover have "pool_chain s p \<subseteq> pool_chain s v"
    using assms(2) by (auto simp: pool_chain_def intro: converse_rtrancl_into_rtrancl)
  ultimately show "pool_chain s p \<subset> pool_chain s v" by blast
qed

lemma foldR_Inl: "foldR f xs s = Inl e \<Longrightarrow> \<exists>x u. f x u = Inl e"
  by (induction xs arbitrary: s) (auto simp: bindR_eq_Inl)

lemma bindR_avoids:
  "m \<noteq> Inl e \<Longrightarrow> (\<And>x. f x \<noteq> Inl e) \<Longrightarrow> bindR m f \<noteq> Inl e"
  by (cases m) auto

lemma fetch_avoids: "d \<noteq> e \<Longrightarrow> (\<And>x. f x \<noteq> Inl e) \<Longrightarrow> fetch m d f \<noteq> Inl e"
  by (cases m) auto

lemma check_avoids: "d \<noteq> e \<Longrightarrow> k \<noteq> Inl e \<Longrightarrow> check b d k \<noteq> Inl e"
  by (simp add: check_def)

lemmas avoids = bindR_avoids fetch_avoids check_avoids

lemma change_pool_votes_fuel: "change_pool_votes f (Pool d) x ps \<noteq> Inl Out_of_fuel"
  by (cases ps) (simp add: change_pool_votes_def avoids)

lemma not_out_of_fuel:
  "propagate_pool_producer old new a s \<noteq> Inl Out_of_fuel"
  "bindR (sub_proxied_shares d pv) (add_proxied_shares d') \<noteq> Inl Out_of_fuel"
  unfolding propagate_pool_producer_def revote_producer_def sub_pool_votes_def add_pool_votes_def
    sub_proxied_shares_def add_proxied_shares_def change_proxied_shares_def option.case
  by (intro avoids change_pool_votes_fuel; simp split: prod.split)+

lemma modify_pool_voter_fuel:
  assumes "\<And>pv. f pv \<noteq> Inl Out_of_fuel" "e \<noteq> Out_of_fuel"
  shows "modify_pool_voter v e f s \<noteq> Inl Out_of_fuel"
  using assms by (cases "fmlookup (poolvoters s) v") (auto simp: modify_pool_voter_def bindR_eq_Inl)

lemma update_pool_proxy_fuel:
  "acyclic (pool_edges s) \<Longrightarrow> card (pool_chain s v) < n \<Longrightarrow> update_pool_proxy n v s \<noteq> Inl Out_of_fuel"
proof (induction n arbitrary: v s)
  case (Suc n)
  show ?case
  proof (cases "fmlookup (poolvoters s) v")
    case (Some voter)
    let ?w = "pool_weights voter"
    let ?f = "\<lambda>p. bindR (sub_proxied_shares (last_votes voter) p) (add_proxied_shares ?w)"
    have m: "modify_pool_voter (pv_proxy voter) (Vote Proxy_not_found) ?f s \<noteq> Inl Out_of_fuel"
      by (rule modify_pool_voter_fuel) (simp_all add: not_out_of_fuel(2))
    have rec: "update_pool_proxy n (pv_proxy voter) s1 \<noteq> Inl Out_of_fuel"
      if 1: "modify_pool_voter (pv_proxy voter) (Vote Proxy_not_found) ?f s = Inr s1" and p: "pv_proxy voter \<noteq> 0" for s1
    proof (rule Suc.IH)
      have l: "same_plinks s s1" by (rule modify_pool_voter_plinks [OF 1]) (rule shift_proxied_plinks)
      have e: "pool_edges s1 = pool_edges s" by (rule pool_edges_plinks [OF l])
      show "acyclic (pool_edges s1)" using Suc.prems(1) by (simp add: e)
      have "(v, pv_proxy voter) \<in> pool_edges s" using Some p by (simp add: pool_edges_def)
      moreover have "v |\<in>| fmdom (poolvoters s)" using Some by (rule fmdomI)
      ultimately have "card (pool_chain s (pv_proxy voter)) < card (pool_chain s v)"
        using Suc.prems(1) by (intro pool_chain_step)
      moreover have "pool_chain s1 (pv_proxy voter) = pool_chain s (pv_proxy voter)"
        by (simp add: pool_chain_def e same_plinks_dom [OF l])
      ultimately show "card (pool_chain s1 (pv_proxy voter)) < n" using Suc.prems(2) by simp
    qed
    have "foldR (propagate_pool_producer (last_votes voter) ?w) (pv_producers voter) s \<noteq> Inl Out_of_fuel"
    proof
      assume "foldR (propagate_pool_producer (last_votes voter) ?w) (pv_producers voter) s = Inl Out_of_fuel"
      from foldR_Inl [OF this] show False using not_out_of_fuel(1) by blast
    qed
    moreover have "modify_pool_voter v No_row (\<lambda>pv. Inr (pv\<lparr>last_votes := ?w\<rparr>)) u \<noteq> Inl Out_of_fuel" for u
      by (rule modify_pool_voter_fuel) simp_all
    ultimately show ?thesis using Some m rec by (auto simp: Let_def check_def bindR_eq_Inl split: if_splits)
  qed simp
qed simp

text \<open>
  The recursion that carries a change of pool shares along proxies ends: if the proxies have no
  cycle, one step more than there are pool voters is enough fuel.
\<close>

lemma update_pool_proxy_ends:
  assumes "acyclic (pool_edges s)"
  shows "update_pool_proxy (pool_fuel s) v s \<noteq> Inl Out_of_fuel"
proof (rule update_pool_proxy_fuel [OF assms])
  have "card (pool_chain s v) \<le> card (fset (fmdom (poolvoters s)))"
    by (rule card_mono) (auto simp: pool_chain_def)
  then show "card (pool_chain s v) < pool_fuel s" by (simp add: pool_fuel_def fcard.rep_eq)
qed

section \<open>When a deposit may be claimed\<close>

lemma weighted_average:
  assumes "0 \<le> (c :: int)" "0 < a" "lo \<le> hi" "0 \<le> lo"
  shows "lo \<le> (lo * c + hi * a) div (c + a) \<and> (lo * c + hi * a) div (c + a) \<le> hi"
proof -
  have pos: "0 < c + a" using assms by simp
  have "lo * a \<le> hi * a" "lo * c \<le> hi * c" using assms by (simp_all add: mult_right_mono)
  then have "lo * (c + a) \<le> lo * c + hi * a" "lo * c + hi * a \<le> hi * (c + a)"
    by (simp_all add: algebra_simps)
  then have "lo * (c + a) div (c + a) \<le> (lo * c + hi * a) div (c + a)"
    "(lo * c + hi * a) div (c + a) \<le> hi * (c + a) div (c + a)"
    using zdiv_mono1 [OF _ pos] by blast+
  moreover have "lo * (c + a) div (c + a) = lo" "hi * (c + a) div (c + a) = hi" using pos by simp_all
  ultimately show ?thesis by simp
qed

text \<open>
  C30: A deposit moves the time of the next claim to a weighted average: never before now or before
  the claim already agreed, and never later than two claim periods (in half seconds) from now.
\<close>

theorem deposit_claim_time:
  assumes "deposit_pool E p owned next a = Inr (p', sh, n)"
    and "simulate_sell E owned (token_pool p) = Inr cur" "0 \<le> amount cur" "0 < amount a"
    and "amount cur + amount a \<le> i64_max" "0 \<le> e_slot E" "0 \<le> claim_period p"
    and "e_slot E + claim_period p * 2 < 4294967296" "next \<le> e_slot E + claim_period p * 2"
  shows "max next (e_slot E) \<le> n \<and> n \<le> e_slot E + claim_period p * 2"
proof -
  let ?hi = "e_slot E + claim_period p * 2"
  have u: "u32 ?hi = ?hi" using assms by (intro u32_id) simp_all
  have d: "i64 (amount cur + amount a) = amount cur + amount a"
    using assms by (simp add: i64_id i64_max_def)
  have w: "max next (e_slot E) \<le> (max next (e_slot E) * amount cur + ?hi * amount a) div (amount cur + amount a)"
    "(max next (e_slot E) * amount cur + ?hi * amount a) div (amount cur + amount a) \<le> ?hi"
    using weighted_average [of "amount cur" "amount a" "max next (e_slot E)" ?hi] assms by auto
  have "0 \<le> max next (e_slot E) * amount cur + ?hi * amount a" using assms by simp
  then have "n = u32 ((max next (e_slot E) * amount cur + ?hi * amount a) div (amount cur + amount a))"
    using assms(1-4) d u by (auto simp: deposit_pool_def res_simps Let_def)
  also have "\<dots> = (max next (e_slot E) * amount cur + ?hi * amount a) div (amount cur + amount a)"
    using w assms by (intro u32_id) simp_all
  finally show ?thesis using w by simp
qed

theorem deposit_claim_time_witness:
  "\<exists>p' sh n. deposit_pool sample_env sample_staking_pool (of_i 500) 0 (sys 100) = Inr (p', sh, n) \<and>
    1306630400 \<le> n \<and> n \<le> 1306630460"
proof -
  have "succeeds (deposit_pool sample_env sample_staking_pool (of_i 500) 0 (sys 100))" by code_simp
  then obtain y where "deposit_pool sample_env sample_staking_pool (of_i 500) 0 (sys 100) = Inr y"
    by (rule succeedsE)
  then obtain p' sh n where d: "deposit_pool sample_env sample_staking_pool (of_i 500) 0 (sys 100) = Inr (p', sh, n)"
    by (cases y) auto
  have "(case simulate_sell sample_env (of_i 500) (token_pool sample_staking_pool) of
      Inr c \<Rightarrow> amount c = 500 | Inl _ \<Rightarrow> False)" by code_simp
  then obtain cur where s: "simulate_sell sample_env (of_i 500) (token_pool sample_staking_pool) = Inr cur"
    "amount cur = 500" by (cases "simulate_sell sample_env (of_i 500) (token_pool sample_staking_pool)") auto
  show ?thesis
    using deposit_claim_time [OF d s(1)] s(2) d
    by (simp add: i64_max_def sample_env_def sample_staking_pool_def)
qed

end
