(* ===== verification/PoolPay.thy ===== *)
theory PoolPay
  imports Pools
begin

text \<open>
  Pay by pool votes (\<open>staking_pool.cpp\<close>, from \<open>top_active_producers\<close> and \<open>updatevotes\<close> on): the
  ranking of producers by weighted pool votes, the issue of pay for producers and pools once per
  round, and its collection. The lemmas show that every action of the staking pools keeps two books
  in balance: the tokens of the pools are those of \<open>eosio.srpool\<close>, and the producers' unclaimed pay
  is what \<open>eosio.bpspay\<close> holds.
\<close>

section \<open>Ranking\<close>

text \<open>The rows in the order of the index \<open>byvotes\<close>, ties by primary key.\<close>

definition by_votes_index :: "chain \<Rightarrow> (name \<times> total_pool_votes) list" where
  "by_votes_index s = sort_key (\<lambda>(k, r). (f64_rank (by_votes r), k)) (rows (totpoolvotes s))"

definition top_active_producers :: "nat \<Rightarrow> chain \<Rightarrow> name list" where
  "top_active_producers n s =
     take n (map fst (takeWhile (\<lambda>(k, r). 0 < votes r \<and> active r) (by_votes_index s)))"

definition calc_votes :: "f64 list \<Rightarrow> chain \<Rightarrow> error + f64" where
  "calc_votes pool_vs s =
     fetch (poolstate s) (Pool Pools_not_configured) (\<lambda>st.
     check (length pool_vs = length (pools st)) (Pool Pool_corruption) (
     Inr (fold (\<lambda>(v, p) result. result + v * vote_weight p) (zip pool_vs (pools st)) 0)))"

definition refresh_total_votes :: "name \<Rightarrow> chain \<Rightarrow> error + chain" where
  "refresh_total_votes owner s =
     fetch (fmlookup (producers s) owner) No_row (\<lambda>p.
     fetch (get_prod_pool_votes p) No_row (\<lambda>v.
     bindR (calc_votes v s) (\<lambda>x.
     fetch (fmlookup (totpoolvotes s) owner) No_row (\<lambda>tot.
     Inr (s\<lparr>totpoolvotes := fmupd owner (tot\<lparr>votes := x\<rparr>) (totpoolvotes s)\<rparr>)))))"

definition update_total_pool_votes :: "nat \<Rightarrow> chain \<Rightarrow> error + chain" where
  "update_total_pool_votes n s = foldR refresh_total_votes (top_active_producers n s) s"

definition updatevotes :: "env \<Rightarrow> name \<Rightarrow> name \<Rightarrow> chain \<Rightarrow> error + chain" where
  "updatevotes E user producer s =
     require_auth E user (
     fetch (fmlookup (producers s) producer) (Pool Unknown_producer) (\<lambda>p.
     check (is_active p) (Pool Pool_producer_inactive) (
     fetch (fmlookup (producers s) (p_owner p)) No_row (\<lambda>p'.
     fetch (get_prod_pool_votes p') (Pool Producer_not_upgraded) (\<lambda>v.
     fetch (fmlookup (totpoolvotes s) (p_owner p)) No_row (\<lambda>tot.
     bindR (calc_votes v s) (\<lambda>x.
     Inr (s\<lparr>totpoolvotes := fmupd (p_owner p) (tot\<lparr>votes := x\<rparr>) (totpoolvotes s)\<rparr>))))))))"

section \<open>Pay\<close>

text \<open>The loop over the ranked producers, until the share of votes to be paid is reached.\<close>

fun pay_producers ::
  "int \<Rightarrow> f64 \<Rightarrow> f64 \<Rightarrow> name list \<Rightarrow> f64 \<Rightarrow> int \<Rightarrow> chain \<Rightarrow> error + (int \<times> chain)" where
  "pay_producers target tot ratio [] paid sum_pay s = Inr (sum_pay, s)"
| "pay_producers target tot ratio (k # ks) paid sum_pay s =
     (if tot * ratio \<le> paid then Inr (sum_pay, s)
      else
        fetch (fmlookup (totpoolvotes s) k) No_row (\<lambda>r.
        bindR (to_i64 Bad_conversion (of_i target * votes r / tot)) (\<lambda>pay.
        pay_producers target tot ratio ks (paid + votes r) (i64 (sum_pay + pay))
          (s\<lparr>totpoolvotes := fmupd k (r\<lparr>vote_pay := set_amount (i64 (amount (vote_pay r) + pay)) (vote_pay r)\<rparr>)
            (totpoolvotes s)\<rparr>))))"

text \<open>The loop over the pools: each pool with shares receives the same amount.\<close>

fun pay_pools :: "env \<Rightarrow> symbol \<Rightarrow> int \<Rightarrow> staking_pool list \<Rightarrow> int \<Rightarrow> error + (int \<times> staking_pool list)" where
  "pay_pools E core pay [] sum_pay = Inr (sum_pay, [])"
| "pay_pools E core pay (p # ps) sum_pay =
     (if has_shares (token_pool p) then
        bindR (aa_make (e_assets E) pay core) (\<lambda>d.
        bindR (pool_adjust E d (token_pool p)) (\<lambda>q.
        bindR (pay_pools E core pay ps (i64 (sum_pay + pay))) (\<lambda>(n, ps').
        Inr (n, p\<lparr>token_pool := q\<rparr> # ps'))))
      else bindR (pay_pools E core pay ps sum_pay) (\<lambda>(n, ps'). Inr (n, p # ps')))"

text \<open>\<open>transfer_action\<close> from the contract's own account, if there is something to transfer.\<close>

definition fund_from_self :: "env \<Rightarrow> name \<Rightarrow> int \<Rightarrow> symbol \<Rightarrow> chain \<Rightarrow> error + chain" where
  "fund_from_self E to n core s =
     (if 0 < n then bindR (aa_make (e_assets E) n core) (\<lambda>q.
        Inr (emit (Transfer [e_self E] (e_self E) to q) s))
      else Inr s)"

definition issue_pay :: "env \<Rightarrow> symbol \<Rightarrow> int \<Rightarrow> int \<Rightarrow> chain \<Rightarrow> error + chain" where
  "issue_pay E core total_prod_pay total_voter_pay s =
     (let new_tokens = i64 (total_prod_pay + total_voter_pay) in
      if 0 < new_tokens then
        bindR (aa_make (e_assets E) new_tokens core) (\<lambda>q.
        bindR (fund_from_self E bpspay_account total_prod_pay core (emit (Issue (e_self E) q) s))
          (fund_from_self E srpool_account total_voter_pay core))
      else Inr s)"

definition pay_scale :: "env \<Rightarrow> staking_pool_state \<Rightarrow> f64" where
  "pay_scale E st =
     e_pow E (of_i (sp_unpaid_blocks st) / of_i blocks_per_round) (of_i 10) *
     transition_f64 (interval_start st) st 1"

text \<open>The round's pay: the totals for producers and for pools, with the tables they are added to.\<close>

definition pay_round :: "env \<Rightarrow> chain \<Rightarrow> error + (symbol \<times> int \<times> int \<times> chain)" where
  "pay_round E s =
     fetch (poolstate s) (Pool Pools_not_configured) (\<lambda>st.
     check (0 < sp_unpaid_blocks st) (Pool Pay_already_processed) (
     bindR (update_total_pool_votes (nat (max_num_pay st)) s) (\<lambda>s1.
     bindR (calc_votes (sp_total_votes st) s1) (\<lambda>tot.
     core_symbol s1 (\<lambda>core.
     bindR (e_supply E (sym_code core)) (\<lambda>supply.
     bindR (to_i64 Bad_conversion (pay_scale E st * prod_rate st / rounds_per_year * of_i (amount supply)))
       (\<lambda>target.
     bindR (if 0 < target \<and> 0 < tot then
         pay_producers target tot (max_vote_ratio st) (top_active_producers (nat (max_num_pay st)) s1) 0 0 s1
       else Inr (0, s1)) (\<lambda>(prod_pay, s2).
     bindR (to_i64 Bad_conversion (pay_scale E st * voter_rate st / rounds_per_year * of_i (amount supply) /
       of_i (int (length (pools st))))) (\<lambda>per_pool_pay.
     bindR (pay_pools E core per_pool_pay (pools st) 0) (\<lambda>(voter_pay, ps).
     Inr (core, prod_pay, voter_pay,
       s2\<lparr>poolstate := Some (st\<lparr>pools := ps, sp_unpaid_blocks := 0\<rparr>)\<rparr>)))))))))))"

definition updatepay :: "env \<Rightarrow> name \<Rightarrow> chain \<Rightarrow> error + chain" where
  "updatepay E user s =
     require_auth E user (
     bindR (pay_round E s) (\<lambda>(core, prod_pay, voter_pay, s1).
     issue_pay E core prod_pay voter_pay s1))"

definition claimvotepay :: "env \<Rightarrow> name \<Rightarrow> chain \<Rightarrow> error + chain" where
  "claimvotepay E producer s =
     require_auth E producer (
     fetch (fmlookup (totpoolvotes s) producer) (Pool Unknown_producer) (\<lambda>r.
     check (0 < amount (vote_pay r)) (Pool No_pay_available) (
     Inr (emit (Transfer [bpspay_account] bpspay_account producer (vote_pay r))
       (s\<lparr>totpoolvotes := fmupd producer (r\<lparr>vote_pay := set_amount 0 (vote_pay r)\<rparr>) (totpoolvotes s)\<rparr>)))))"

section \<open>Two books\<close>

text \<open>The producers' unclaimed pay, less what was transferred to \<open>eosio.bpspay\<close>.\<close>

definition unclaimed_pay :: "chain \<Rightarrow> int" where
  "unclaimed_pay s = table_sum (\<lambda>r. amount (vote_pay r)) (totpoolvotes s)"

definition pay_net :: "chain \<Rightarrow> int" where
  "pay_net s = unclaimed_pay s - net_in bpspay_account (outbox s)"

interpretation payl: ledger pay_net
proof
  fix t s assume w: "without_votes t = without_votes s"
  have "totpoolvotes t = totpoolvotes s"
    using arg_cong [OF w, of totpoolvotes] by (simp add: without_votes_def)
  then show "pay_net t = pay_net s" by (simp add: pay_net_def unclaimed_pay_def without_votes_fields [OF w])
qed

text \<open>A step of both books at once.\<close>

definition books :: "int \<Rightarrow> chain \<Rightarrow> chain \<Rightarrow> bool" where
  "books d s t \<longleftrightarrow> pooll.moves d s t \<and> payl.moves 0 s t"

lemma books_trans: "books 0 s t \<Longrightarrow> books d t u \<Longrightarrow> books d s u"
  using pooll.moves_0_trans payl.moves_0_trans by (auto simp: books_def)

lemma books_add: "books d s t \<Longrightarrow> books e t u \<Longrightarrow> books (d + e) s u"
  using pooll.moves_trans payl.moves_0_trans by (auto simp: books_def)

lemma pool_frame_books: "pool_frame s t \<Longrightarrow> books 0 s t"
proof -
  assume f: "pool_frame s t"
  have "totpoolvotes t = totpoolvotes s" "outbox t = outbox s"
    using f unfolding pool_frame_def by (cases s, cases t, simp)+
  then show ?thesis using pool_frame_moves [OF f]
    by (simp add: books_def payl.moves_def pay_net_def unclaimed_pay_def)
qed

lemma repeat_pool_vote_books: "repeat_pool_vote v s = Inr t \<Longrightarrow> books 0 s t"
  by (auto simp: repeat_pool_vote_def res_simps dest!: update_pool_votes_frame intro: pool_frame_books)

lemma pool_tokens_update:
  "i < length ps \<Longrightarrow> pool_tokens (ps[i := p]) =
     pool_tokens ps + amount (pl_balance (token_pool p)) - amount (pl_balance (token_pool (ps ! i)))"
proof (induction ps arbitrary: i)
  case (Cons q ps)
  then show ?case by (cases i) auto
qed simp

lemma deposit_pool_tokens:
  assumes "asset_laws (e_assets E)" "deposit_pool E p owned next a = Inr (p', sh, n)"
  shows "amount (pl_balance (token_pool p')) = amount (pl_balance (token_pool p)) + amount a"
  using assms by (auto simp: deposit_pool_def pool_buy_def Let_def res_simps asset_laws.plus_amount)

lemma pool_sell_tokens:
  assumes "asset_laws (e_assets E)" "pool_sell E sh p = Inr (out, q)"
  shows "amount (pl_balance q) = amount (pl_balance p) - amount out"
  using assms by (auto simp: pool_sell_def res_simps asset_laws.minus_amount)

lemma withdraw_pool_tokens:
  assumes "asset_laws (e_assets E)" "withdraw_pool E p owned a claiming = Inr (out, p', sh)"
  shows "amount (pl_balance (token_pool p')) = amount (pl_balance (token_pool p)) - amount out"
  using assms by (auto simp: withdraw_pool_def Let_def res_simps split: if_splits dest: pool_sell_tokens)

lemma books_pools:
  assumes "poolstate s = Some st" "i < length (pools st)"
    and "amount (pl_balance (token_pool p)) = amount (pl_balance (token_pool (pools st ! i))) + d"
  shows "books d s (s\<lparr>poolstate := Some (st\<lparr>pools := (pools st)[i := p]\<rparr>), poolvoters := pv\<rparr>)"
  using assms unfolding books_def
  by (intro conjI pooll.moves_eq payl.moves_eq)
    (simp_all add: pools_net_def pay_net_def unclaimed_pay_def pool_tokens_update)

lemma deposit_at_books:
  assumes A: "asset_laws (e_assets E)" and ok: "deposit_at E i v a s = Inr t"
  shows "books (amount a) s t"
  using ok unfolding deposit_at_def bindR_eq_Inr fetch_eq_Inr check_eq_Inr split_paired_Ex prod.case
  by (auto intro!: books_pools dest: deposit_pool_tokens [OF A])

lemma withdraw_at_books:
  assumes A: "asset_laws (e_assets E)" and ok: "withdraw_at E i v a b s = Inr (out, t)"
  shows "books (- amount out) s t"
  using ok unfolding withdraw_at_def bindR_eq_Inr fetch_eq_Inr check_eq_Inr split_paired_Ex prod.case
  by (auto intro!: books_pools dest: withdraw_pool_tokens [OF A])

lemma books_emit: "msg_in bpspay_account m = 0 \<Longrightarrow> books (- msg_in srpool_account m) s (emit m s)"
  unfolding books_def
  by (intro conjI pooll.moves_eq payl.moves_eq) (simp_all add: pools_net_def pay_net_def unclaimed_pay_def)

lemma books_emit_other: "msg_in bpspay_account m = 0 \<Longrightarrow> msg_in srpool_account m = 0 \<Longrightarrow> books 0 s (emit m s)"
  using books_emit [of m s] by simp

lemma emit_if_books:
  "msg_in bpspay_account m = 0 \<Longrightarrow> msg_in srpool_account m = 0 \<Longrightarrow> books 0 s (emit_if b m s)"
  using books_emit_other [of m s] by (cases b) (simp_all add: emit_if_def books_def)

lemma books_refl [simp]: "books 0 s s"
  by (simp add: books_def)

text \<open>The two accounts never act for themselves, and neither is the system account.\<close>

definition pool_env :: "env \<Rightarrow> bool" where
  "pool_env E \<longleftrightarrow> asset_laws (e_assets E) \<and> \<not> e_auth E srpool_account \<and> \<not> e_auth E bpspay_account \<and>
     e_self E \<noteq> srpool_account \<and> e_self E \<noteq> bpspay_account"

lemma srpool_bpspay: "srpool_account \<noteq> bpspay_account" "bpspay_account \<noteq> srpool_account"
  by (simp_all add: account_defs)

text \<open>The guards, for the destruction of a computation that has succeeded.\<close>

lemma pool_guards [res_simps]:
  "check_pool_args i a s k = Inr t \<longleftrightarrow> succeeds (check_pool_args i a s (Inr ())) \<and> k = Inr t"
  "pool_not_negative i s k = Inr t \<longleftrightarrow> succeeds (pool_not_negative i s (Inr ())) \<and> k = Inr t"
  "check_pool_requirements p ps k = Inr t \<longleftrightarrow>
     succeeds (check_pool_requirements p ps (Inr ())) \<and> k = Inr t"
  by (auto simp: check_pool_args_def pool_not_negative_def check_pool_requirements_def core_symbol_def
      fetch_def check_def succeeds_def split: option.splits)

lemma auth_other:
  assumes "pool_env E" "e_auth E a"
  shows "a \<noteq> srpool_account" "a \<noteq> bpspay_account"
  using assms by (auto simp: pool_env_def)

lemma stake2pool_books:
  assumes E: "pool_env E" and ok: "stake2pool E owner i a s = Inr t"
  shows "books 0 s t"
proof -
  have A: "asset_laws (e_assets E)" using E by (simp add: pool_env_def)
  obtain b s1 s2 where au: "e_auth E owner"
    and 1: "get_or_create_pool_voter owner s = Inr (b, s1)" "deposit_at E i owner a s1 = Inr s2"
    "repeat_pool_vote owner (emit (Transfer [owner] owner srpool_account a) s2) = Inr t"
    using ok by (auto simp: stake2pool_def res_simps)
  note o' = auth_other [OF E au]
  have "books (- amount a) s2 (emit (Transfer [owner] owner srpool_account a) s2)"
    using books_emit [of "Transfer [owner] owner srpool_account a" s2] o' srpool_bpspay by simp
  from books_add [OF deposit_at_books [OF A 1(2)] this] have "books 0 s1 (emit (Transfer [owner] owner srpool_account a) s2)"
    by simp
  then show ?thesis
    using books_trans [OF pool_frame_books [OF get_or_create_frame [OF 1(1)]]]
      books_trans [OF _ repeat_pool_vote_books [OF 1(3)]] by blast
qed

lemma transition_channel_books:
  assumes A: "asset_laws (e_assets E)" and ok: "transition_channel_to_pools E frm a b s = Inr (rest, t)"
    and frm: "frm \<noteq> srpool_account" "frm \<noteq> bpspay_account"
  shows "books 0 s t"
proof -
  have "payl.moves 0 s t"
    using ok by (cases rule: transition_channel_Inr)
      (use frm srpool_bpspay in \<open>auto intro!: payl.moves_eq simp: pay_net_def unclaimed_pay_def\<close>)
  then show ?thesis using transition_channel_moves [OF A ok frm(1)] by (simp add: books_def)
qed

lemma same_pools_books:
  "map_option pools (poolstate t) = map_option pools (poolstate s) \<Longrightarrow> outbox t = outbox s \<Longrightarrow>
   totpoolvotes t = totpoolvotes s \<Longrightarrow> books 0 s t"
  unfolding books_def
  by (intro conjI pooll.moves_eq payl.moves_eq)
    (auto simp: pools_net_def pay_net_def unclaimed_pay_def split: option.splits)

lemma distribute_namebid_books:
  assumes A: "asset_laws (e_assets E)" and ok: "distribute_namebid_to_pools E s = Inr t"
  shows "books 0 s t"
proof -
  obtain st where st: "poolstate s = Some st" using ok by (auto simp: distribute_namebid_to_pools_def res_simps)
  show ?thesis
  proof (cases "0 < amount (sp_namebid_proceeds st)")
    case True
    obtain r s1 st1 where 1: "transition_channel_to_pools E names_account (sp_namebid_proceeds st) False s = Inr (r, s1)"
      and 2: "poolstate s1 = Some st1" "t = s1\<lparr>poolstate := Some (st1\<lparr>sp_namebid_proceeds := r\<rparr>)\<rparr>"
      using ok st True by (auto simp: distribute_namebid_to_pools_def res_simps)
    have "books 0 s s1" by (rule transition_channel_books [OF A 1]) (simp_all add: account_defs)
    moreover have "books 0 s1 t" by (rule same_pools_books) (simp_all add: 2)
    ultimately show ?thesis by (rule books_trans)
  qed (use ok st in \<open>simp add: distribute_namebid_to_pools_def\<close>)
qed

lemma claimstake_books:
  assumes E: "pool_env E" and ok: "claimstake E owner i requested s = Inr t"
  shows "books 0 s t"
proof -
  have A: "asset_laws (e_assets E)" using E by (simp add: pool_env_def)
  obtain b s1 s2 s3 s4 f claimed where au: "e_auth E owner"
    and 1: "get_or_create_pool_voter owner s = Inr (b, s1)" "distribute_namebid_to_pools E s1 = Inr s2"
    "withdraw_at E i owner requested True s2 = Inr (claimed, s3)"
    "modify_pool_voter owner No_row f s3 = Inr s4"
    and 2: "repeat_pool_vote owner (emit_if (amount claimed \<noteq> 0) (Transfer [srpool_account] srpool_account owner claimed) s4) = Inr t"
    using ok unfolding claimstake_def require_auth_eq_Inr fetch_eq_Inr bindR_eq_Inr check_eq_Inr pool_guards
      Let_def split_paired_Ex prod.case
    by (elim exE conjE) (rule that, assumption+)
  note o' = auth_other [OF E au]
  let ?s5 = "emit_if (amount claimed \<noteq> 0) (Transfer [srpool_account] srpool_account owner claimed) s4"
  have e: "books (amount claimed) s4 ?s5"
    using books_emit [of "Transfer [srpool_account] srpool_account owner claimed" s4] o' srpool_bpspay
    by (cases "amount claimed = 0") (simp_all add: emit_if_def)
  have "books 0 s s2"
    using pool_frame_books [OF get_or_create_frame [OF 1(1)]] distribute_namebid_books [OF A 1(2)]
    by (rule books_trans)
  moreover have "books (- amount claimed) s2 s4"
    using books_add [OF withdraw_at_books [OF A 1(3)] pool_frame_books [OF modify_pool_voter_frame [OF 1(4)]]]
    by simp
  ultimately have "books (- amount claimed) s s4" by (rule books_trans)
  from books_add [OF this e] have "books 0 s ?s5" by simp
  then show ?thesis using repeat_pool_vote_books [OF 2] by (rule books_trans)
qed

lemma moved_books:
  assumes A: "asset_laws (e_assets E)" and "withdraw_at E i v a b s = Inr (moved, s1)"
    and "deposit_at E j w moved s1 = Inr s2"
  shows "books 0 s s2"
  using books_add [OF withdraw_at_books [OF A assms(2)] deposit_at_books [OF A assms(3)]] by simp

lemma transferstake_books:
  assumes E: "pool_env E" and ok: "transferstake E frm to i requested memo s = Inr t"
  shows "books 0 s t"
proof -
  have A: "asset_laws (e_assets E)" using E by (simp add: pool_env_def)
  obtain b s1 s2 s3 s4 s5 moved x y where
    1: "get_or_create_pool_voter to s = Inr (b, s1)" "withdraw_at E i frm requested False s1 = Inr (moved, s2)"
    "deposit_at E i to moved s2 = Inr s3" "repeat_pool_vote frm s3 = Inr s4" "repeat_pool_vote to s4 = Inr s5"
    and t: "(Inr (emit_if y (Tstake_notif to frm to (of_nat i) requested moved)
      (emit_if x (Tstake_notif frm frm to (of_nat i) requested moved) s5)) :: error + chain) = Inr t"
    using ok unfolding transferstake_def require_auth_eq_Inr fetch_eq_Inr bindR_eq_Inr check_eq_Inr pool_guards
      Let_def split_paired_Ex prod.case
    by (elim exE conjE) (rule that, assumption+)
  have "books 0 s5 t"
    using t by (auto simp: msg_in_def intro!: books_trans [OF emit_if_books emit_if_books])
  then show ?thesis
    using pool_frame_books [OF get_or_create_frame [OF 1(1)]] moved_books [OF A 1(2,3)]
      repeat_pool_vote_books [OF 1(4)] repeat_pool_vote_books [OF 1(5)] books_trans by meson
qed

lemma upgradestake_books:
  assumes E: "pool_env E" and ok: "upgradestake E owner i j requested s = Inr t"
  shows "books 0 s t"
proof -
  have A: "asset_laws (e_assets E)" using E by (simp add: pool_env_def)
  obtain moved s1 s2 where 1: "withdraw_at E i owner requested False s = Inr (moved, s1)"
    "deposit_at E j owner moved s1 = Inr s2" "repeat_pool_vote owner s2 = Inr t"
    using ok by (auto simp: upgradestake_def res_simps)
  then show ?thesis using moved_books [OF A 1(1,2)] repeat_pool_vote_books [OF 1(3)] books_trans by blast
qed

lemma opt_set_pools:
  assumes "opt_set x ok e f st = Inr st'" "\<And>v st. pools (f v st) = pools st"
  shows "pools st' = pools st"
  using assms by (auto simp: opt_set_def check_eq_Inr split: option.splits)

lemma opt_pools:
  "opt_set x ok e (\<lambda>r st. st\<lparr>prod_rate := r\<rparr>) st = Inr st' \<Longrightarrow> pools st' = pools st"
  "opt_set x ok e (\<lambda>r st. st\<lparr>voter_rate := r\<rparr>) st = Inr st' \<Longrightarrow> pools st' = pools st"
  "opt_set x ok e (\<lambda>r st. st\<lparr>max_vote_ratio := r\<rparr>) st = Inr st' \<Longrightarrow> pools st' = pools st"
  by (erule opt_set_pools, simp)+

lemma min_create_pools:
  "(case mc of None \<Rightarrow> Inr st | Some a \<Rightarrow> core_symbol s (\<lambda>core. check (P core a) e
     (Inr (st\<lparr>min_transfer_create := a\<rparr>)))) = Inr st' \<Longrightarrow> pools st' = pools st"
  by (auto simp: res_simps split: option.splits)

lemma pool_configs_ok_Inr: "pool_configs_ok xs k = Inr t \<Longrightarrow> k = Inr t"
  by (induction xs k rule: pool_configs_ok.induct) (auto simp: check_eq_Inr)

lemma increasing_Inr: "increasing xs k = Inr t \<Longrightarrow> k = Inr t"
  by (induction xs k rule: increasing.induct) (auto simp: check_eq_Inr)

lemma new_pool_tokens:
  "pool_tokens (map (\<lambda>(d, c, w). \<lparr>duration = d, claim_period = c, vote_weight = w,
     token_pool = \<lparr>pl_balance = asset0 core, total_shares = 0\<rparr>\<rparr>) xs) = 0"
  by (induction xs) auto

lemma first_pools_tokens:
  "first_pools E ds cs ws b e s = Inr (st, t) \<Longrightarrow>
     pool_tokens (pools st) = 0 \<and> poolstate t = poolstate s \<and> outbox t = outbox s \<and> totpoolvotes t = totpoolvotes s"
  unfolding first_pools_def bindR_eq_Inr fetch_eq_Inr check_eq_Inr Let_def
  by (elim exE conjE, drule pool_configs_ok_Inr, drule increasing_Inr) (auto simp: res_simps new_pool_tokens)

lemma cfgsrpool_books:
  assumes "cfgsrpool E ds cs ws b e pr vr mx mr mc s = Inr t"
  shows "books 0 s t"
proof -
  obtain st0 s1 st7 where
    0: "(case poolstate s of None \<Rightarrow> first_pools E ds cs ws b e s
       | Some st \<Rightarrow> check (ds = None) (Pool Config_cannot_change) (
           check (cs = None) (Pool Config_cannot_change) (
           check (ws = None) (Pool Config_cannot_change) (Inr (st, s))))) = Inr (st0, s1)"
    and 7: "pools st7 = pools st0" "t = s1\<lparr>poolstate := Some st7\<rparr>"
    using assms unfolding cfgsrpool_def require_auth_eq_Inr bindR_eq_Inr check_eq_Inr split_paired_Ex prod.case Let_def
  proof (elim exE conjE)
    fix st0 s1 x xa xb xc
    assume 1: "(case poolstate s of None \<Rightarrow> first_pools E ds cs ws b e s
       | Some st \<Rightarrow> check (ds = None) (Pool Config_cannot_change) (
           check (cs = None) (Pool Config_cannot_change) (
           check (ws = None) (Pool Config_cannot_change) (Inr (st, s))))) = Inr (st0, s1)"
      and 2: "opt_set pr (\<lambda>r. 0 \<le> r \<and> r < 1) (Pool Prod_rate_out_of_range) (\<lambda>r st. st\<lparr>prod_rate := r\<rparr>)
        (case e of None \<Rightarrow> case b of None \<Rightarrow> st0 | Some t \<Rightarrow> st0\<lparr>begin_transition := t\<rparr>
          | Some t \<Rightarrow> (case b of None \<Rightarrow> st0 | Some t \<Rightarrow> st0\<lparr>begin_transition := t\<rparr>)\<lparr>end_transition := t\<rparr>) = Inr x"
      "opt_set vr (\<lambda>r. 0 \<le> r \<and> r < 1) (Pool Voter_rate_out_of_range) (\<lambda>r st. st\<lparr>voter_rate := r\<rparr>) x = Inr xa"
      "opt_set mr (\<lambda>r. 0 \<le> r \<and> r \<le> 1) (Pool Max_vote_ratio_out_of_range) (\<lambda>r st. st\<lparr>max_vote_ratio := r\<rparr>)
        (case mx of None \<Rightarrow> xa | Some n \<Rightarrow> xa\<lparr>max_num_pay := n\<rparr>) = Inr xb"
      "(case mc of None \<Rightarrow> Inr xb | Some a \<Rightarrow> core_symbol s1 (\<lambda>core.
           check (asym a = core \<and> 0 \<le> amount a) (Pool Min_transfer_out_of_range) (
           Inr (xb\<lparr>min_transfer_create := a\<rparr>)))) = Inr xc"
      and 3: "Inr (s1\<lparr>poolstate := Some xc\<rparr>) = (Inr t :: error + chain)"
    have "pools xc = pools st0"
      using opt_pools(1) [OF 2(1)] opt_pools(2) [OF 2(2)] opt_pools(3) [OF 2(3)] min_create_pools [OF 2(4)]
      by (simp split: option.splits)
    then show thesis using that [OF 1] 3 by simp
  qed
  show ?thesis
  proof (cases "poolstate s")
    case None
    then have "first_pools E ds cs ws b e s = Inr (st0, s1)" using 0 by simp
    from first_pools_tokens [OF this] show ?thesis using None 7 unfolding books_def
      by (intro conjI pooll.moves_eq payl.moves_eq) (simp_all add: pools_net_def pay_net_def unclaimed_pay_def)
  next
    case (Some st)
    then show ?thesis using 0 7 by (intro same_pools_books) (auto simp: check_eq_Inr)
  qed
qed

lemma setpoolnotif_books: "setpoolnotif E v a b s = Inr t \<Longrightarrow> books 0 s t"
  by (auto simp: setpoolnotif_def res_simps dest!: get_or_create_frame modify_pool_voter_frame
      intro: pool_frame_books pool_frame_trans)

lemma votewithpool_books: "votewithpool E v p ps s = Inr t \<Longrightarrow> books 0 s t"
  by (auto simp: votewithpool_def res_simps dest!: update_pool_votes_frame intro: pool_frame_books)

lemma regpoolproxy_books:
  assumes "regpoolproxy E v b s = Inr t"
  shows "books 0 s t"
proof -
  obtain c s1 pv where 1: "get_or_create_pool_voter v s = Inr (c, s1)"
    "update_pool_proxy (pool_fuel (s1\<lparr>poolvoters := fmupd v (pv\<lparr>pv_is_proxy := b\<rparr>) (poolvoters s1)\<rparr>)) v
      (s1\<lparr>poolvoters := fmupd v (pv\<lparr>pv_is_proxy := b\<rparr>) (poolvoters s1)\<rparr>) = Inr t"
    using assms by (auto simp: regpoolproxy_def res_simps Let_def)
  have "pool_frame s1 (s1\<lparr>poolvoters := fmupd v (pv\<lparr>pv_is_proxy := b\<rparr>) (poolvoters s1)\<rparr>)"
    by (simp add: pool_frame_def)
  then show ?thesis using get_or_create_frame [OF 1(1)] update_pool_proxy_frame [OF 1(2)]
    by (blast intro: pool_frame_books pool_frame_trans)
qed

lemma votes_books:
  "fmlookup (totpoolvotes s) k = Some r \<Longrightarrow>
     books 0 s (s\<lparr>totpoolvotes := fmupd k (r\<lparr>votes := x\<rparr>) (totpoolvotes s)\<rparr>)"
  unfolding books_def
  by (intro conjI pooll.moves_eq payl.moves_eq)
    (simp_all add: pools_net_def pay_net_def unclaimed_pay_def table_sum_upd)

lemma updatevotes_books: "updatevotes E user p s = Inr t \<Longrightarrow> books 0 s t"
  by (auto simp: updatevotes_def res_simps intro: votes_books)

lemma claimvotepay_books:
  assumes E: "pool_env E" and ok: "claimvotepay E producer s = Inr t"
  shows "books 0 s t"
proof -
  obtain r where r: "e_auth E producer" "fmlookup (totpoolvotes s) producer = Some r"
    "t = emit (Transfer [bpspay_account] bpspay_account producer (vote_pay r))
       (s\<lparr>totpoolvotes := fmupd producer (r\<lparr>vote_pay := set_amount 0 (vote_pay r)\<rparr>) (totpoolvotes s)\<rparr>)"
    using ok by (auto simp: claimvotepay_def res_simps)
  then show ?thesis using auth_other [OF E r(1)] srpool_bpspay unfolding books_def
    by (intro conjI pooll.moves_eq payl.moves_eq)
      (simp_all add: pools_net_def pay_net_def unclaimed_pay_def table_sum_upd)
qed

lemma same_but_pool_tables:
  "same_but_pool s t \<Longrightarrow> poolstate t = poolstate s" "same_but_pool s t \<Longrightarrow> totpoolvotes t = totpoolvotes s"
  unfolding same_but_pool_def by (cases s, cases t, simp)+

lemma channel_books:
  assumes E: "pool_env E" and frm: "frm \<noteq> srpool_account" "frm \<noteq> bpspay_account"
    and ok: "channel_to_rex_or_pools E frm a b s = Inr t"
  shows "books 0 s t"
proof -
  have A: "asset_laws (e_assets E)" using E by (simp add: pool_env_def)
  obtain r s1 where 1: "transition_channel_to_pools E frm a (\<not> b \<or> rex_available s) s = Inr (r, s1)"
    and 2: "if amount r \<noteq> 0 then channel_to_rex E frm r s1 = Inr t else t = s1"
    using ok by (auto simp: channel_to_rex_or_pools_def res_simps split: if_splits)
  have "books 0 s1 t"
  proof (cases "amount r = 0")
    case False
    then have c: "channel_to_rex E frm r s1 = Inr t" using 2 by simp
    have "poolstate t = poolstate s1 \<and> totpoolvotes t = totpoolvotes s1"
      using c by (auto simp: channel_to_rex_def res_simps same_but_pool_tables
          dest!: add_to_rex_return_pool_same split: if_splits)
    moreover have n: "rex_account \<noteq> srpool_account" "rex_account \<noteq> bpspay_account" by (simp_all add: account_defs)
    ultimately show ?thesis using channel_to_rex_outbox [OF c] frm n unfolding books_def
      by (intro conjI pooll.moves_eq payl.moves_eq) (auto simp: pools_net_def pay_net_def unclaimed_pay_def)
  qed (use 2 in simp)
  then show ?thesis using books_trans [OF transition_channel_books [OF A 1 frm]] by blast
qed

section \<open>The pay of a round\<close>

lemma i64_minus_i64: "i64 (x + (y - i64 z)) = i64 (x + (y - z))"
proof -
  have "i64 ((x + y) - i64 z) = i64 ((x + y) - z)" by simp
  then show ?thesis by (simp add: algebra_simps)
qed

lemma pay_producers_sum:
  "pay_producers target tot ratio ks paid n s = Inr (m, t) \<Longrightarrow>
     i64 (unclaimed_pay t) = i64 (unclaimed_pay s + (m - n)) \<and> t = s\<lparr>totpoolvotes := totpoolvotes t\<rparr>"
proof (induction ks arbitrary: paid n s)
  case (Cons k ks)
  show ?case
  proof (cases "tot * ratio \<le> paid")
    case False
    obtain r pay where r: "fmlookup (totpoolvotes s) k = Some r"
      and 1: "pay_producers target tot ratio ks (paid + votes r) (i64 (n + pay))
        (s\<lparr>totpoolvotes := fmupd k (r\<lparr>vote_pay := set_amount (i64 (amount (vote_pay r) + pay)) (vote_pay r)\<rparr>)
            (totpoolvotes s)\<rparr>) = Inr (m, t)" (is "pay_producers _ _ _ _ _ _ ?u = _")
      using Cons.prems False by (auto simp: fetch_eq_Inr bindR_eq_Inr)
    have u: "i64 (unclaimed_pay ?u) = i64 (unclaimed_pay s + pay)"
    proof -
      have "unclaimed_pay ?u = unclaimed_pay s - amount (vote_pay r) + i64 (amount (vote_pay r) + pay)"
        using r by (simp add: unclaimed_pay_def table_sum_upd)
      then have "i64 (unclaimed_pay ?u) = i64 (unclaimed_pay s - amount (vote_pay r) + (amount (vote_pay r) + pay))"
        by (simp only: i64_add_i64)
      then show ?thesis by simp
    qed
    note ih = Cons.IH [OF 1]
    have "i64 (unclaimed_pay t) = i64 (unclaimed_pay ?u + (m - (n + pay)))"
      using ih i64_minus_i64 by simp
    also have "\<dots> = i64 (unclaimed_pay s + pay + (m - (n + pay)))" by (rule i64_add_cong [OF u])
    finally have "i64 (unclaimed_pay t) = i64 (unclaimed_pay s + (m - n))" by (simp add: algebra_simps)
    moreover have "t = s\<lparr>totpoolvotes := totpoolvotes t\<rparr>" using ih by (cases s, cases t) simp
    ultimately show ?thesis by blast
  qed (use Cons.prems in simp)
qed simp

lemma pay_pools_sum:
  assumes A: "asset_laws (e_assets E)"
  shows "pay_pools E core pay ps n = Inr (m, qs) \<Longrightarrow> i64 (pool_tokens qs) = i64 (pool_tokens ps + (m - n))"
proof (induction ps arbitrary: n m qs)
  case (Cons p ps)
  show ?case
  proof (cases "has_shares (token_pool p)")
    case True
    then obtain d q qs' where 1: "aa_make (e_assets E) pay core = Inr d" "pool_adjust E d (token_pool p) = Inr q"
      "pay_pools E core pay ps (i64 (n + pay)) = Inr (m, qs')" "qs = p\<lparr>token_pool := q\<rparr> # qs'"
      using Cons.prems by (auto simp: bindR_eq_Inr)
    have q: "amount (pl_balance q) = amount (pl_balance (token_pool p)) + pay"
      using pool_adjust_amount(1) [OF A 1(1,2)] .
    have "i64 (pool_tokens qs') = i64 (pool_tokens ps + (m - (n + pay)))"
      using Cons.IH [OF 1(3)] i64_minus_i64 by simp
    from i64_addL_cong [OF this, of "amount (pl_balance q)"]
    show ?thesis using 1(4) q by (simp add: algebra_simps)
  next
    case False
    then obtain qs' where "pay_pools E core pay ps n = Inr (m, qs')" "qs = p # qs'"
      using Cons.prems by (auto simp: bindR_eq_Inr)
    from i64_addL_cong [OF Cons.IH [OF this(1)], of "amount (pl_balance (token_pool p))"] this(2)
    show ?thesis by (simp add: add.assoc)
  qed
qed simp

lemma refresh_total_votes_books:
  "refresh_total_votes k s = Inr t \<Longrightarrow> books 0 s t \<and> poolstate t = poolstate s"
  by (auto simp: refresh_total_votes_def res_simps intro: votes_books)

lemma update_total_pool_votes_books:
  assumes "update_total_pool_votes n s = Inr t"
  shows "books 0 s t \<and> poolstate t = poolstate s"
  by (rule foldR_invariant [OF assms [unfolded update_total_pool_votes_def],
        of "\<lambda>u. books 0 s u \<and> poolstate u = poolstate s"])
    (auto dest!: refresh_total_votes_books intro: books_trans)

text \<open>The pay of the round is a whole number of tokens that the integer types hold.\<close>

definition pay_ok :: "env \<Rightarrow> chain \<Rightarrow> bool" where
  "pay_ok E s = (case pay_round E s of
     Inl _ \<Rightarrow> True
   | Inr (core, a, b, t) \<Rightarrow> 0 \<le> a \<and> 0 \<le> b \<and> a + b \<le> i64_max)"

lemma fund_from_self_Inr:
  assumes "asset_laws (e_assets E)" "fund_from_self E to n core s = Inr t" "0 \<le> n"
  obtains q where "amount q = n" "t = emit_if (0 < n) (Transfer [e_self E] (e_self E) to q) s"
  using assms by (cases "0 < n")
    (auto simp: fund_from_self_def bindR_eq_Inr emit_if_def dest: asset_laws.make_amount intro: that [of "sys 0"])

lemma pay_round_books:
  assumes A: "asset_laws (e_assets E)" and ok: "pay_round E s = Inr (core, a, b, t)"
  shows "pooll.moves b s t \<and> payl.moves a s t"
proof -
  obtain st s1 tot target per ps s2 where st: "poolstate s = Some st"
    and 1: "update_total_pool_votes (nat (max_num_pay st)) s = Inr s1"
    and 2: "(if 0 < target \<and> 0 < tot then
         pay_producers target tot (max_vote_ratio st) (top_active_producers (nat (max_num_pay st)) s1) 0 0 s1
       else Inr (0, s1)) = Inr (a, s2)"
    and 3: "pay_pools E core per (pools st) 0 = Inr (b, ps)"
    and t: "t = s2\<lparr>poolstate := Some (st\<lparr>pools := ps, sp_unpaid_blocks := 0\<rparr>)\<rparr>"
    using ok unfolding pay_round_def bindR_eq_Inr fetch_eq_Inr check_eq_Inr core_symbol_eq_Inr Let_def
      split_paired_Ex prod.case by (elim exE conjE) (rule that, assumption+, auto)
  note b1 = update_total_pool_votes_books [OF 1]
  have s2: "i64 (unclaimed_pay s2) = i64 (unclaimed_pay s1 + a) \<and> s2 = s1\<lparr>totpoolvotes := totpoolvotes s2\<rparr>"
  proof (cases "0 < target \<and> 0 < tot")
    case True
    from 2 [unfolded if_P [OF True]] show ?thesis using pay_producers_sum by fastforce
  next
    case False
    from 2 [unfolded if_not_P [OF False]] show ?thesis by simp
  qed
  then have o2: "outbox s2 = outbox s1" by (cases s1, cases s2) simp
  have "i64 (pool_tokens ps) = i64 (pool_tokens (pools st) + b)"
    using pay_pools_sum [OF A 3] by simp
  from i64_add_cong [OF this, of "- net_in srpool_account (outbox s1)"]
  have "pooll.moves b s1 t" using t o2 b1 st by (simp add: pooll.moves_def pools_net_def algebra_simps)
  moreover have "payl.moves a s1 t"
    using i64_add_cong [OF conjunct1 [OF s2], of "- net_in bpspay_account (outbox s1)"] o2
    by (simp add: t payl.moves_def pay_net_def unclaimed_pay_def algebra_simps)
  ultimately show ?thesis
    using b1 pooll.moves_0_trans payl.moves_0_trans by (auto simp: books_def)
qed

lemma books_emit_transfer:
  "frm \<noteq> srpool_account \<Longrightarrow> frm \<noteq> bpspay_account \<Longrightarrow>
     pooll.moves (if to = srpool_account then - amount q else 0) s (emit (Transfer au frm to q) s) \<and>
     payl.moves (if to = bpspay_account then - amount q else 0) s (emit (Transfer au frm to q) s)"
  by (intro conjI pooll.moves_eq payl.moves_eq) (auto simp: pools_net_def pay_net_def unclaimed_pay_def)

lemma fund_from_self_books:
  assumes E: "pool_env E" and ok: "fund_from_self E to n core s = Inr t" and n: "0 \<le> n"
  shows "pooll.moves (if to = srpool_account then - n else 0) s t \<and>
    payl.moves (if to = bpspay_account then - n else 0) s t"
proof -
  have A: "asset_laws (e_assets E)" using E by (simp add: pool_env_def)
  obtain q where q: "amount q = n" "t = emit_if (0 < n) (Transfer [e_self E] (e_self E) to q) s"
    by (rule fund_from_self_Inr [OF A ok n])
  show ?thesis
  proof (cases "n = 0")
    case False
    then have t: "t = emit (Transfer [e_self E] (e_self E) to q) s" using q n by (simp add: emit_if_def)
    show ?thesis unfolding t q(1) [symmetric]
      by (rule books_emit_transfer) (use E in \<open>simp_all add: pool_env_def\<close>)
  qed (use q in \<open>simp add: emit_if_def\<close>)
qed

lemma updatepay_books:
  assumes E: "pool_env E" and p: "pay_ok E s" and ok: "updatepay E user s = Inr t"
  shows "books 0 s t"
proof -
  have A: "asset_laws (e_assets E)" using E by (simp add: pool_env_def)
  obtain core a b s1 where r: "pay_round E s = Inr (core, a, b, s1)" and i: "issue_pay E core a b s1 = Inr t"
    using ok by (auto simp: updatepay_def res_simps)
  have ab: "0 \<le> a" "0 \<le> b" "a + b \<le> i64_max" using p r by (simp_all add: pay_ok_def)
  then have n: "i64 (a + b) = a + b" by (simp add: i64_id i64_max_def)
  note m = pay_round_books [OF A r]
  show ?thesis
  proof (cases "0 < a + b")
    case True
    then obtain q s2 where 2: "fund_from_self E bpspay_account a core (emit (Issue (e_self E) q) s1) = Inr s2"
      "fund_from_self E srpool_account b core s2 = Inr t"
      using i n by (auto simp: issue_pay_def bindR_eq_Inr)
    have "books 0 s1 (emit (Issue (e_self E) q) s1)" by (rule books_emit_other) (simp_all add: msg_in_def)
    then have e: "pooll.moves b s (emit (Issue (e_self E) q) s1)" "payl.moves a s (emit (Issue (e_self E) q) s1)"
      using m pooll.moves_trans_0 payl.moves_trans_0 by (auto simp: books_def)
    from fund_from_self_books [OF E 2(1) ab(1)] have f: "pooll.moves b s s2" "payl.moves 0 s s2"
      using pooll.moves_trans_0 [OF e(1)] payl.moves_trans [OF e(2), of "- a" s2] srpool_bpspay by auto
    from fund_from_self_books [OF E 2(2) ab(2)] show ?thesis
      using pooll.moves_trans [OF f(1), of "- b" t] payl.moves_trans_0 [OF f(2)] srpool_bpspay by (auto simp: books_def)
  next
    case False
    then have "a = 0" "b = 0" using ab by linarith+
    then show ?thesis using i n m by (simp add: issue_pay_def books_def)
  qed
qed

section \<open>All actions of the staking pools\<close>

inductive pool_step :: "env \<Rightarrow> chain \<Rightarrow> chain \<Rightarrow> bool" for E where
  Config: "cfgsrpool E ds cs ws b e pr vr mx mr mc s = Inr t \<Longrightarrow> pool_step E s t"
| Stake: "stake2pool E owner i a s = Inr t \<Longrightarrow> pool_step E s t"
| Notify: "setpoolnotif E owner x y s = Inr t \<Longrightarrow> pool_step E s t"
| Claim: "claimstake E owner i a s = Inr t \<Longrightarrow> pool_step E s t"
| Transfer_stake: "transferstake E frm to i a memo s = Inr t \<Longrightarrow> pool_step E s t"
| Upgrade: "upgradestake E owner i j a s = Inr t \<Longrightarrow> pool_step E s t"
| Vote: "votewithpool E owner proxy ps s = Inr t \<Longrightarrow> pool_step E s t"
| Proxy: "regpoolproxy E owner x s = Inr t \<Longrightarrow> pool_step E s t"
| Votes: "updatevotes E user p s = Inr t \<Longrightarrow> pool_step E s t"
| Pay: "updatepay E user s = Inr t \<Longrightarrow> pay_ok E s \<Longrightarrow> pool_step E s t"
| Collect: "claimvotepay E p s = Inr t \<Longrightarrow> pool_step E s t"
| Fee: "channel_to_rex_or_pools E frm a req s = Inr t \<Longrightarrow>
    frm \<noteq> srpool_account \<Longrightarrow> frm \<noteq> bpspay_account \<Longrightarrow> pool_step E s t"

inductive_cases pool_stepE: "pool_step E s t"

lemma pool_step_books:
  assumes "pool_step E s t" "pool_env E"
  shows "books 0 s t"
  using assms(1)
  by (rule pool_stepE)
    (blast intro: cfgsrpool_books stake2pool_books [OF assms(2)] setpoolnotif_books
      claimstake_books [OF assms(2)] transferstake_books [OF assms(2)] upgradestake_books [OF assms(2)]
      votewithpool_books regpoolproxy_books updatevotes_books updatepay_books [OF assms(2)]
      claimvotepay_books [OF assms(2)] channel_books [OF assms(2)])+

text \<open>A run of any such actions, each in an environment of its own.\<close>

inductive pool_run :: "chain \<Rightarrow> chain \<Rightarrow> bool" where
  Stop: "pool_run s s"
| Next: "pool_run s t \<Longrightarrow> pool_env E \<Longrightarrow> pool_step E t u \<Longrightarrow> pool_run s u"

text \<open>
  C1: Whatever the actions of the staking pools, the tokens of the pools are those transferred to
  \<open>eosio.srpool\<close> and not transferred back, and the producers' unclaimed pay is what \<open>eosio.bpspay\<close>
  was sent and has not paid out (as 64-bit integers, starting from a state where both hold).
\<close>

theorem pool_books_balance:
  assumes "pool_run s t"
    and "i64 (pools_net s) = 0" "i64 (pay_net s) = 0"
  shows "i64 (pools_net t) = 0 \<and> i64 (pay_net t) = 0"
  using assms
proof induction
  case (Next s t E u)
  then show ?case using pool_step_books [OF Next.hyps(3,2)]
    by (simp add: books_def pooll.moves_def payl.moves_def)
qed simp

text \<open>The system configures two pools, then account 7 stakes into the first.\<close>

definition pool_sample_env :: env where
  "pool_sample_env = sample_env\<lparr>e_auth := (\<lambda>a. a = eosio_account \<or> a = 7)\<rparr>"

theorem pool_books_balance_witness:
  "\<exists>s t. cfgsrpool pool_sample_env (Some [300, 900]) (Some [30, 60]) (Some [1, of_i 2]) (Some 0) (Some 10)
      None None None None None sample_chain = Inr s \<and>
    stake2pool pool_sample_env 7 0 (sys 100) s = Inr t \<and> i64 (pools_net t) = 0"
proof -
  let ?c = "cfgsrpool pool_sample_env (Some [300, 900]) (Some [30, 60]) (Some [1, of_i 2]) (Some 0) (Some 10)
      None None None None None"
  have "succeeds (bindR (?c sample_chain) (stake2pool pool_sample_env 7 0 (sys 100)))" by code_simp
  then obtain t where "bindR (?c sample_chain) (stake2pool pool_sample_env 7 0 (sys 100)) = Inr t"
    by (rule succeedsE)
  then obtain s where s: "?c sample_chain = Inr s" "stake2pool pool_sample_env 7 0 (sys 100) s = Inr t"
    by (auto simp: bindR_eq_Inr)
  have E: "pool_env pool_sample_env"
    using sample_laws by (simp add: pool_env_def pool_sample_env_def sample_env_def account_defs)
  have "pool_run sample_chain t"
    using s by (blast intro: Stop Next [OF _ E] Config Stake)
  moreover have "i64 (pools_net sample_chain) = 0" "i64 (pay_net sample_chain) = 0"
    by (simp_all add: sample_chain_def initial_chain_def pools_net_def pay_net_def unclaimed_pay_def i64_id)
  ultimately have "i64 (pools_net t) = 0" using pool_books_balance by blast
  with s show ?thesis by blast
qed

end
