(* ===== verification/PoolProxies.thy ===== *)
theory PoolProxies
  imports PoolPay
begin

text \<open>
  The proxies of the staking pools. A ballot or a registration changes who votes through whom;
  deposits, claims, transfers and upgrades repeat the ballot on record. Along every run of the
  pools' actions the proxies form no cycle, so that the recursion along them ends.
\<close>

section \<open>Ballots\<close>

definition pool_ballot :: "pool_voter \<Rightarrow> name \<times> bool \<times> name list" where
  "pool_ballot pv = (pv_proxy pv, pv_is_proxy pv, pv_producers pv)"

definition same_ballots :: "chain \<Rightarrow> chain \<Rightarrow> bool" where
  "same_ballots s t \<longleftrightarrow>
     (\<forall>v. map_option pool_ballot (fmlookup (poolvoters t) v) = map_option pool_ballot (fmlookup (poolvoters s) v))"

lemma same_ballots_refl [simp]: "same_ballots s s"
  by (simp add: same_ballots_def)

lemma same_ballots_trans: "same_ballots s t \<Longrightarrow> same_ballots t u \<Longrightarrow> same_ballots s u"
  by (simp add: same_ballots_def)

lemma same_ballots_eq: "poolvoters t = poolvoters s \<Longrightarrow> same_ballots s t"
  by (simp add: same_ballots_def)

lemma same_ballots_row:
  assumes "fmlookup (poolvoters s) v = Some pv" "poolvoters t = fmupd v pv' (poolvoters s)" "pool_ballot pv' = pool_ballot pv"
  shows "same_ballots s t"
  using assms by (simp add: same_ballots_def)

lemma plinks_ballots: "same_plinks s t \<Longrightarrow> same_ballots s t"
proof -
  assume l: "same_plinks s t"
  have e: "map_option pool_ballot x = map_option pool_ballot (map_option plinks x)" for x
    by (cases x) (simp_all add: plinks_def pool_ballot_def)
  show ?thesis
    using l unfolding same_plinks_def same_ballots_def
    by (metis e)
qed

lemma same_ballots_lookup:
  assumes "same_ballots s t" "fmlookup (poolvoters t) v = Some pv"
  obtains pv0 where "fmlookup (poolvoters s) v = Some pv0" "pool_ballot pv0 = pool_ballot pv"
  using assms unfolding same_ballots_def by (metis map_option_eq_Some)

lemma same_ballots_sym: "same_ballots s t \<Longrightarrow> same_ballots t s"
  by (simp add: same_ballots_def)

lemma same_ballots_edges: "same_ballots s t \<Longrightarrow> pool_edges t = pool_edges s"
proof -
  assume l: "same_ballots s t"
  have e: "map_option pv_proxy x = map_option fst (map_option pool_ballot x)" for x
    by (cases x) (simp_all add: pool_ballot_def)
  then show ?thesis using l unfolding same_ballots_def pool_edges_def e by simp
qed

lemma same_ballots_dom: "same_ballots s t \<Longrightarrow> fmdom (poolvoters t) = fmdom (poolvoters s)"
  unfolding same_ballots_def by (intro fset_eqI) (metis fmdom_notD fmdom_notI map_option_is_None)

section \<open>The invariant\<close>

definition pool_voter_ok :: "chain \<Rightarrow> pool_voter \<Rightarrow> bool" where
  "pool_voter_ok s pv \<longleftrightarrow> (pv_is_proxy pv \<longrightarrow> pv_proxy pv = 0) \<and>
     (pv_proxy pv \<noteq> 0 \<longrightarrow> pv_proxy pv |\<in>| fmdom (poolvoters s) \<and> pv_producers pv = []) \<and>
     length (pv_producers pv) \<le> 30 \<and> sorted_wrt (<) (pv_producers pv)"

definition pool_voters_inv :: "chain \<Rightarrow> bool" where
  "pool_voters_inv s \<longleftrightarrow> acyclic (pool_edges s) \<and>
     (\<forall>v pv. fmlookup (poolvoters s) v = Some pv \<longrightarrow> pool_voter_ok s pv)"

lemma same_ballots_inv:
  assumes "same_ballots s t" "pool_voters_inv s"
  shows "pool_voters_inv t"
  unfolding pool_voters_inv_def
proof (intro conjI allI impI)
  show "acyclic (pool_edges t)" using assms same_ballots_edges by (simp add: pool_voters_inv_def)
  fix v pv assume "fmlookup (poolvoters t) v = Some pv"
  with assms(1) obtain pv0 where pv0: "fmlookup (poolvoters s) v = Some pv0" and b: "pool_ballot pv0 = pool_ballot pv"
    by (rule same_ballots_lookup)
  have "pool_voter_ok s pv0" using assms(2) pv0 by (simp add: pool_voters_inv_def)
  then show "pool_voter_ok t pv"
    using b same_ballots_dom [OF assms(1)] by (simp add: pool_voter_ok_def pool_ballot_def)
qed

lemma pool_edges_upd:
  assumes "poolvoters t = fmupd v pv (poolvoters s)"
  shows "pool_edges t = {(a, b) \<in> pool_edges s. a \<noteq> v} \<union> (if pv_proxy pv \<noteq> 0 then {(v, pv_proxy pv)} else {})"
  using assms by (auto simp: pool_edges_def split: if_splits)

text \<open>A row may be added or changed if its proxy is none, unchanged, or votes through no one.\<close>

lemma pool_voters_inv_row:
  assumes inv: "pool_voters_inv s" and t: "poolvoters t = fmupd v pv (poolvoters s)" and ok: "pool_voter_ok s pv"
    and "pv_proxy pv \<noteq> 0 \<Longrightarrow> pv_proxy pv \<noteq> v \<and> ((v, pv_proxy pv) \<in> pool_edges s \<or> (\<forall>b. (pv_proxy pv, b) \<notin> pool_edges s))"
  shows "pool_voters_inv t"
proof -
  have ac: "acyclic (pool_edges s)" using inv by (simp add: pool_voters_inv_def)
  have "acyclic (pool_edges t)"
  proof (cases "pv_proxy pv = 0 \<or> (v, pv_proxy pv) \<in> pool_edges s")
    case True
    then show ?thesis by (intro acyclic_mono [OF ac]) (auto simp: pool_edges_upd [OF t])
  next
    case False
    then have "acyclic (insert (v, pv_proxy pv) (pool_edges s))"
      using assms(4) by (intro acyclic_redirect [OF ac]) auto
    then show ?thesis by (rule acyclic_mono) (auto simp: pool_edges_upd [OF t])
  qed
  moreover have "pool_voter_ok t q" if "pool_voter_ok s q" for q
    using that by (auto simp: pool_voter_ok_def t)
  ultimately show ?thesis using inv ok by (auto simp: pool_voters_inv_def t)
qed

lemma get_or_create_inv: "get_or_create_pool_voter v s = Inr (b, t) \<Longrightarrow> pool_voters_inv s \<Longrightarrow> pool_voters_inv t"
proof -
  assume g: "get_or_create_pool_voter v s = Inr (b, t)" and inv: "pool_voters_inv s"
  show ?thesis
  proof (cases "fmlookup (poolvoters s) v = None")
    case True
    then obtain pv where t: "poolvoters t = fmupd v pv (poolvoters s)"
      and pv: "pv_proxy pv = 0" "pv_producers pv = []" "\<not> pv_is_proxy pv"
      using g by (auto simp: get_or_create_pool_voter_def create_pool_voter_def res_simps Let_def)
    show ?thesis by (rule pool_voters_inv_row [OF inv t]) (simp_all add: pv pool_voter_ok_def)
  next
    case False
    then show ?thesis using g inv by (simp add: get_or_create_pool_voter_def)
  qed
qed

section \<open>A ballot\<close>

lemma update_pool_votes_ballots:
  assumes "update_pool_votes v proxy prods voting s = Inr t"
  obtains b s0 voter u pv where "get_or_create_pool_voter v s = Inr (b, s0)" "fmlookup (poolvoters s0) v = Some voter"
    "same_ballots s0 u" "fmlookup (poolvoters u) v = Some pv" "proxy = 0 \<or> \<not> pv_is_proxy voter"
    "proxy \<noteq> 0 \<longrightarrow> (\<exists>q. fmlookup (poolvoters s0) proxy = Some q \<and> (voting \<longrightarrow> pv_is_proxy q))"
    "poolvoters t = fmupd v (pv\<lparr>pv_producers := prods, pv_proxy := proxy, last_votes := pool_weights voter\<rparr>) (poolvoters u)"
  using assms
proof (rule update_pool_votes_Inr)
  fix b s0 voter m s1 m' s3 voter3 s4
  assume 0: "get_or_create_pool_voter v s = Inr (b, s0)" and w: "fmlookup (poolvoters s0) v = Some voter"
    and np: "proxy = 0 \<or> \<not> pv_is_proxy voter"
    and 1: "(if pv_proxy voter \<noteq> 0 then
         bindR (modify_pool_voter (pv_proxy voter) (Vote Old_proxy_not_found)
           (sub_proxied_shares (last_votes voter)) s0) (\<lambda>s1.
         bindR (update_pool_proxy (pool_fuel s1) (pv_proxy voter) s1) (\<lambda>s2. Inr (fmempty, s2)))
       else Inr (mark_old (pv_producers voter) fmempty, s0)) = Inr (m, s1)"
    and 2: "(if proxy \<noteq> 0 then
         fetch (fmlookup (poolvoters s1) proxy) (Vote Proxy_not_found) (\<lambda>new_proxy.
         check (\<not> voting \<or> pv_is_proxy new_proxy) (Vote Proxy_not_found) (
         bindR (modify_pool_voter proxy (Vote Proxy_not_found) (add_proxied_shares (pool_weights voter)) s1) (\<lambda>s2.
         bindR (update_pool_proxy (pool_fuel s2) proxy s2) (\<lambda>s3. Inr (m, s3)))))
       else Inr (mark_new prods m, s1)) = Inr (m', s3)"
    and 3: "foldR (update_pool_votes_producer voting (last_votes voter3) (pool_weights voter)) (rows m') s3 = Inr s4"
    and 4: "modify_pool_voter v No_row (\<lambda>pv. Inr (pv\<lparr>pv_producers := prods, pv_proxy := proxy,
         last_votes := pool_weights voter\<rparr>)) s4 = Inr t"
  have shares: "plinks pv' = plinks pv" if "add_proxied_shares d pv = Inr pv' \<or> sub_proxied_shares d pv = Inr pv'" for d pv pv'
    using that change_proxied_shares_plinks by (auto simp: add_proxied_shares_def sub_proxied_shares_def)
  have b1: "same_ballots s0 s1"
  proof (cases "pv_proxy voter = 0")
    case False
    then obtain u where u: "modify_pool_voter (pv_proxy voter) (Vote Old_proxy_not_found)
        (sub_proxied_shares (last_votes voter)) s0 = Inr u" "update_pool_proxy (pool_fuel u) (pv_proxy voter) u = Inr s1"
      using 1 by (auto simp: bindR_eq_Inr)
    have "same_plinks s0 u" by (rule modify_pool_voter_plinks [OF u(1)]) (rule shares [of "last_votes voter"], simp)
    then show ?thesis using update_pool_proxy_frame [OF u(2)] same_plinks_trans plinks_ballots by blast
  qed (use 1 in simp)
  have b3: "same_ballots s1 s3 \<and> (proxy \<noteq> 0 \<longrightarrow> (\<exists>q. fmlookup (poolvoters s1) proxy = Some q \<and> (voting \<longrightarrow> pv_is_proxy q)))"
  proof (cases "proxy = 0")
    case False
    then obtain u q where q: "fmlookup (poolvoters s1) proxy = Some q" "voting \<longrightarrow> pv_is_proxy q"
      and u: "modify_pool_voter proxy (Vote Proxy_not_found) (add_proxied_shares (pool_weights voter)) s1 = Inr u"
      "update_pool_proxy (pool_fuel u) proxy u = Inr s3"
      using 2 by (auto simp: res_simps)
    have "same_plinks s1 u" by (rule modify_pool_voter_plinks [OF u(1)]) (rule shares [of "pool_weights voter"], simp)
    then show ?thesis using update_pool_proxy_frame [OF u(2)] same_plinks_trans plinks_ballots q by blast
  qed (use 2 in simp)
  have "same_ballots s3 s4" using foldR_pool_frame [OF update_pool_votes_producer_frame 3] same_ballots_eq by simp
  then have b4: "same_ballots s0 s4" using b1 b3 same_ballots_trans by blast
  have q0: "proxy \<noteq> 0 \<longrightarrow> (\<exists>q. fmlookup (poolvoters s0) proxy = Some q \<and> (voting \<longrightarrow> pv_is_proxy q))"
    using b3 same_ballots_lookup [OF b1] by (metis pool_ballot_def prod.inject)
  obtain pv where pv: "fmlookup (poolvoters s4) v = Some pv"
    and t: "t = s4\<lparr>poolvoters := fmupd v (pv\<lparr>pv_producers := prods, pv_proxy := proxy, last_votes := pool_weights voter\<rparr>) (poolvoters s4)\<rparr>"
    using 4 by (auto simp: modify_pool_voter_def res_simps)
  show thesis by (rule that [OF 0 w b4 pv np q0]) (simp add: t)
qed

lemma update_pool_votes_inv:
  assumes inv: "pool_voters_inv s" and ok: "update_pool_votes v proxy prods voting s = Inr t"
    and again: "\<not> voting \<Longrightarrow> \<exists>pv. fmlookup (poolvoters s) v = Some pv \<and> pv_proxy pv = proxy \<and> pv_producers pv = prods"
  shows "pool_voters_inv t"
  using ok
proof (rule update_pool_votes_ballots)
  fix b s0 voter u pv
  assume 0: "get_or_create_pool_voter v s = Inr (b, s0)" and w: "fmlookup (poolvoters s0) v = Some voter"
    and l: "same_ballots s0 u" and pv: "fmlookup (poolvoters u) v = Some pv" and np: "proxy = 0 \<or> \<not> pv_is_proxy voter"
    and pr: "proxy \<noteq> 0 \<longrightarrow> (\<exists>q. fmlookup (poolvoters s0) proxy = Some q \<and> (voting \<longrightarrow> pv_is_proxy q))"
    and t: "poolvoters t = fmupd v (pv\<lparr>pv_producers := prods, pv_proxy := proxy, last_votes := pool_weights voter\<rparr>) (poolvoters u)"
  have i0: "pool_voters_inv s0" using get_or_create_inv [OF 0 inv] .
  have iu: "pool_voters_inv u" using same_ballots_inv [OF l i0] .
  have vb: "valid_ballot v proxy prods (Inr ()) = Inr ()"
    using ok by (auto simp: update_pool_votes_def valid_ballot_def check_def split: if_splits)
  have eu: "pool_edges u = pool_edges s0" using same_ballots_edges [OF l] .
  obtain pv0 where "fmlookup (poolvoters s0) v = Some pv0" "pool_ballot pv0 = pool_ballot pv"
    using l pv by (rule same_ballots_lookup)
  then have b: "pv_is_proxy pv = pv_is_proxy voter" "pv_proxy pv = pv_proxy voter"
    using w by (simp_all add: pool_ballot_def)
  have sink: "(v, proxy) \<in> pool_edges u \<or> (\<forall>b. (proxy, b) \<notin> pool_edges u)" if pnz: "proxy \<noteq> 0"
  proof (cases voting)
    case True
    then obtain q where q: "fmlookup (poolvoters s0) proxy = Some q" "pv_is_proxy q" using pr pnz by blast
    then have "pv_proxy q = 0" using i0 by (auto simp: pool_voters_inv_def pool_voter_ok_def)
    then show ?thesis using q unfolding eu by (simp add: pool_edges_def)
  next
    case False
    then obtain pv0 where pv0: "fmlookup (poolvoters s) v = Some pv0" "pv_proxy pv0 = proxy" using again by blast
    then have "s0 = s" using 0 by (simp add: get_or_create_pool_voter_def)
    then show ?thesis using pv0 pnz unfolding eu by (simp add: pool_edges_def)
  qed
  let ?r = "pv\<lparr>pv_producers := prods, pv_proxy := proxy, last_votes := pool_weights voter\<rparr>"
  have "pool_voter_ok u ?r"
    using vb np pr b same_ballots_dom [OF l]
    by (auto simp: pool_voter_ok_def valid_ballot_iff fmlookup_dom_iff split: if_splits)
  moreover have "proxy \<noteq> v" if "proxy \<noteq> 0" using vb that by (auto simp: valid_ballot_iff)
  ultimately show ?thesis using sink by (intro pool_voters_inv_row [OF iu t]) auto
qed

lemma repeat_pool_vote_inv: "repeat_pool_vote v s = Inr t \<Longrightarrow> pool_voters_inv s \<Longrightarrow> pool_voters_inv t"
  by (auto simp: repeat_pool_vote_def res_simps intro: update_pool_votes_inv)

section \<open>Each action\<close>

lemma pool_row:
  assumes "pool_voters_inv s" "poolvoters t = fmupd v pv' (poolvoters s)"
    and "fmlookup (poolvoters s) v = Some pv" "pool_ballot pv' = pool_ballot pv"
  shows "pool_voters_inv t"
  using same_ballots_inv same_ballots_row [OF assms(3,2,4)] assms(1) by blast

lemma pool_voters_eq: "poolvoters t = poolvoters s \<Longrightarrow> pool_voters_inv s \<Longrightarrow> pool_voters_inv t"
  using same_ballots_inv same_ballots_eq by blast

lemma deposit_at_inv: "deposit_at E i v a s = Inr t \<Longrightarrow> pool_voters_inv s \<Longrightarrow> pool_voters_inv t"
  unfolding deposit_at_def bindR_eq_Inr fetch_eq_Inr check_eq_Inr split_paired_Ex prod.case
  by (auto elim!: pool_row simp: pool_ballot_def)

lemma withdraw_at_inv: "withdraw_at E i v a b s = Inr (out, t) \<Longrightarrow> pool_voters_inv s \<Longrightarrow> pool_voters_inv t"
  unfolding withdraw_at_def bindR_eq_Inr fetch_eq_Inr check_eq_Inr split_paired_Ex prod.case
  by (auto elim!: pool_row simp: pool_ballot_def)

lemma modify_pool_voter_inv:
  assumes "modify_pool_voter v e f s = Inr t" "pool_voters_inv s"
    and "\<And>pv pv'. f pv = Inr pv' \<Longrightarrow> pool_ballot pv' = pool_ballot pv"
  shows "pool_voters_inv t"
  using assms by (auto simp: modify_pool_voter_def res_simps elim!: pool_row)

lemma emit_pool_voters [simp]: "pool_voters_inv (emit m s) = pool_voters_inv s"
  "pool_voters_inv (emit_if b m s) = pool_voters_inv s"
  using pool_voters_eq [of "emit m s" s] pool_voters_eq [of s "emit m s"]
  by (auto simp: emit_if_def)

lemma transition_channel_voters: "transition_channel_to_pools E frm a b s = Inr (r, t) \<Longrightarrow> poolvoters t = poolvoters s"
  by (erule transition_channel_Inr) auto

lemma distribute_namebid_voters: "distribute_namebid_to_pools E s = Inr t \<Longrightarrow> poolvoters t = poolvoters s"
  by (auto simp: distribute_namebid_to_pools_def res_simps split: if_splits dest: transition_channel_voters)

lemma stake2pool_inv: "stake2pool E owner i a s = Inr t \<Longrightarrow> pool_voters_inv s \<Longrightarrow> pool_voters_inv t"
  by (auto simp: stake2pool_def res_simps dest!: get_or_create_inv deposit_at_inv repeat_pool_vote_inv)

lemma setpoolnotif_inv: "setpoolnotif E v a b s = Inr t \<Longrightarrow> pool_voters_inv s \<Longrightarrow> pool_voters_inv t"
  by (auto simp: setpoolnotif_def res_simps)
    (erule modify_pool_voter_inv, auto simp: pool_ballot_def dest: get_or_create_inv)

lemma claimstake_inv:
  assumes ok: "claimstake E owner i requested s = Inr t" and inv: "pool_voters_inv s"
  shows "pool_voters_inv t"
proof -
  obtain b s1 s2 s3 s4 claimed per where
    1: "get_or_create_pool_voter owner s = Inr (b, s1)" "distribute_namebid_to_pools E s1 = Inr s2"
    "withdraw_at E i owner requested True s2 = Inr (claimed, s3)"
    "modify_pool_voter owner No_row (\<lambda>pv. Inr (pv\<lparr>next_claim := (next_claim pv)[i := per]\<rparr>)) s3 = Inr s4"
    and 2: "repeat_pool_vote owner (emit_if (amount claimed \<noteq> 0) (Transfer [srpool_account] srpool_account owner claimed) s4) = Inr t"
    using ok unfolding claimstake_def require_auth_eq_Inr fetch_eq_Inr bindR_eq_Inr check_eq_Inr pool_guards
      Let_def split_paired_Ex prod.case
    by (elim exE conjE) (rule that, assumption+)
  have "pool_voters_inv s3"
    using inv withdraw_at_inv [OF 1(3)] get_or_create_inv [OF 1(1)] pool_voters_eq [OF distribute_namebid_voters [OF 1(2)]]
    by blast
  then have "pool_voters_inv s4" by (rule modify_pool_voter_inv [OF 1(4)]) (auto simp: pool_ballot_def)
  then show ?thesis using repeat_pool_vote_inv [OF 2] by simp
qed

lemma transferstake_inv:
  assumes ok: "transferstake E frm to i requested memo s = Inr t" and inv: "pool_voters_inv s"
  shows "pool_voters_inv t"
proof -
  obtain b s1 s2 s3 s4 s5 moved x y where
    1: "get_or_create_pool_voter to s = Inr (b, s1)" "withdraw_at E i frm requested False s1 = Inr (moved, s2)"
    "deposit_at E i to moved s2 = Inr s3" "repeat_pool_vote frm s3 = Inr s4" "repeat_pool_vote to s4 = Inr s5"
    and t: "(Inr (emit_if y (Tstake_notif to frm to (of_nat i) requested moved)
      (emit_if x (Tstake_notif frm frm to (of_nat i) requested moved) s5)) :: error + chain) = Inr t"
    using ok unfolding transferstake_def require_auth_eq_Inr fetch_eq_Inr bindR_eq_Inr check_eq_Inr pool_guards
      Let_def split_paired_Ex prod.case
    by (elim exE conjE) (rule that, assumption+)
  have "pool_voters_inv s5"
    using repeat_pool_vote_inv [OF 1(5)] repeat_pool_vote_inv [OF 1(4)] deposit_at_inv [OF 1(3)]
      withdraw_at_inv [OF 1(2)] get_or_create_inv [OF 1(1) inv] by blast
  then show ?thesis using t by auto
qed

lemma upgradestake_inv: "upgradestake E owner i j a s = Inr t \<Longrightarrow> pool_voters_inv s \<Longrightarrow> pool_voters_inv t"
  by (auto simp: upgradestake_def res_simps dest!: withdraw_at_inv deposit_at_inv repeat_pool_vote_inv)

lemma first_pools_voters: "first_pools E ds cs ws b e s = Inr (st, t) \<Longrightarrow> poolvoters t = poolvoters s"
  unfolding first_pools_def bindR_eq_Inr fetch_eq_Inr check_eq_Inr Let_def
  by (elim exE conjE, drule pool_configs_ok_Inr, drule increasing_Inr) (auto simp: res_simps)

lemma cfgsrpool_voters:
  assumes "cfgsrpool E ds cs ws b e pr vr mx mr mc s = Inr t"
  shows "poolvoters t = poolvoters s"
proof -
  obtain st0 s1 st where
    0: "(case poolstate s of None \<Rightarrow> first_pools E ds cs ws b e s
       | Some st \<Rightarrow> check (ds = None) (Pool Config_cannot_change) (
           check (cs = None) (Pool Config_cannot_change) (
           check (ws = None) (Pool Config_cannot_change) (Inr (st, s))))) = Inr (st0, s1)"
    and t: "(Inr (s1\<lparr>poolstate := Some st\<rparr>) :: error + chain) = Inr t"
    using assms unfolding cfgsrpool_def require_auth_eq_Inr bindR_eq_Inr check_eq_Inr split_paired_Ex prod.case Let_def
    by (elim exE conjE) (rule that, assumption+)
  have "poolvoters s1 = poolvoters s"
    using 0 first_pools_voters by (cases "poolstate s") (auto simp: check_eq_Inr)
  then show ?thesis using t by auto
qed

lemma votewithpool_inv: "votewithpool E v p ps s = Inr t \<Longrightarrow> pool_voters_inv s \<Longrightarrow> pool_voters_inv t"
  by (auto simp: votewithpool_def res_simps intro: update_pool_votes_inv)

lemma regpoolproxy_inv:
  assumes ok: "regpoolproxy E v b s = Inr t" and inv: "pool_voters_inv s"
  shows "pool_voters_inv t"
proof -
  obtain c s1 pv where 1: "get_or_create_pool_voter v s = Inr (c, s1)" "fmlookup (poolvoters s1) v = Some pv"
    "b \<longrightarrow> pv_proxy pv = 0"
    "update_pool_proxy (pool_fuel (s1\<lparr>poolvoters := fmupd v (pv\<lparr>pv_is_proxy := b\<rparr>) (poolvoters s1)\<rparr>)) v
      (s1\<lparr>poolvoters := fmupd v (pv\<lparr>pv_is_proxy := b\<rparr>) (poolvoters s1)\<rparr>) = Inr t"
    using ok by (auto simp: regpoolproxy_def res_simps Let_def)
  let ?s2 = "s1\<lparr>poolvoters := fmupd v (pv\<lparr>pv_is_proxy := b\<rparr>) (poolvoters s1)\<rparr>"
  have i1: "pool_voters_inv s1" using get_or_create_inv [OF 1(1) inv] .
  have "pool_voters_inv ?s2"
  proof (rule pool_voters_inv_row [OF i1])
    show "pool_voter_ok s1 (pv\<lparr>pv_is_proxy := b\<rparr>)"
      using i1 1(2,3) by (auto simp: pool_voters_inv_def pool_voter_ok_def)
    show "pv_proxy (pv\<lparr>pv_is_proxy := b\<rparr>) \<noteq> v \<and> ((v, pv_proxy (pv\<lparr>pv_is_proxy := b\<rparr>)) \<in> pool_edges s1 \<or>
        (\<forall>b'. (pv_proxy (pv\<lparr>pv_is_proxy := b\<rparr>), b') \<notin> pool_edges s1))"
      if p: "pv_proxy (pv\<lparr>pv_is_proxy := b\<rparr>) \<noteq> 0"
    proof -
      have e: "(v, pv_proxy pv) \<in> pool_edges s1" using 1(2) p by (simp add: pool_edges_def)
      moreover have "pv_proxy pv \<noteq> v" using e i1 by (auto simp: pool_voters_inv_def acyclic_def)
      ultimately show ?thesis by simp
    qed
  qed simp
  then show ?thesis using update_pool_proxy_frame [OF 1(4)] plinks_ballots same_ballots_inv by blast
qed

lemma refresh_total_voters: "refresh_total_votes v s = Inr t \<Longrightarrow> poolvoters t = poolvoters s"
  by (auto simp: refresh_total_votes_def res_simps)

lemma update_total_voters: "update_total_pool_votes n s = Inr t \<Longrightarrow> poolvoters t = poolvoters s"
  unfolding update_total_pool_votes_def
  by (erule foldR_invariant [of _ _ _ _ "\<lambda>u. poolvoters u = poolvoters s"]) (auto dest: refresh_total_voters)

lemma pay_producers_voters: "pay_producers a b c ks d e s = Inr (n, t) \<Longrightarrow> poolvoters t = poolvoters s"
  by (induction a b c ks d e s rule: pay_producers.induct) (auto simp: res_simps split: if_splits)

lemma fund_from_self_voters: "fund_from_self E to n core s = Inr t \<Longrightarrow> poolvoters t = poolvoters s"
  by (auto simp: fund_from_self_def bindR_eq_Inr split: if_splits)

lemma issue_pay_voters:
  assumes "issue_pay E core a b s = Inr t"
  shows "poolvoters t = poolvoters s"
proof (cases "0 < i64 (a + b)")
  case True
  from assms [unfolded issue_pay_def Let_def if_P [OF True] bindR_eq_Inr] show ?thesis
    using fund_from_self_voters by fastforce
next
  case False
  from assms [unfolded issue_pay_def Let_def if_not_P [OF False]] show ?thesis by simp
qed

lemma pay_round_voters:
  assumes "pay_round E s = Inr (core, a, b, t)"
  shows "poolvoters t = poolvoters s"
proof -
  obtain st s1 tot target per ps s2 where 1: "update_total_pool_votes (nat (max_num_pay st)) s = Inr s1"
    and 2: "(if 0 < target \<and> 0 < tot then
         pay_producers target tot (max_vote_ratio st) (top_active_producers (nat (max_num_pay st)) s1) 0 0 s1
       else Inr (0, s1)) = Inr (a, s2)"
    and "pay_pools E core per (pools st) 0 = Inr (b, ps)"
    and t: "t = s2\<lparr>poolstate := Some (st\<lparr>pools := ps, sp_unpaid_blocks := 0\<rparr>)\<rparr>"
    using assms unfolding pay_round_def bindR_eq_Inr fetch_eq_Inr check_eq_Inr core_symbol_eq_Inr Let_def
      split_paired_Ex prod.case by (elim exE conjE) (rule that, assumption+, auto)
  have "poolvoters s2 = poolvoters s1"
    using 2 pay_producers_voters by (cases "0 < target \<and> 0 < tot") (auto simp only: if_True if_False simp_thms sum.inject prod.inject)
  then show ?thesis using t update_total_voters [OF 1] by simp
qed

lemma updatepay_voters: "updatepay E user s = Inr t \<Longrightarrow> poolvoters t = poolvoters s"
  using pay_round_voters issue_pay_voters
  unfolding updatepay_def require_auth_eq_Inr bindR_eq_Inr split_paired_Ex prod.case by metis

lemma channel_voters: "channel_to_rex_or_pools E frm a b s = Inr t \<Longrightarrow> poolvoters t = poolvoters s"
proof -
  assume ok: "channel_to_rex_or_pools E frm a b s = Inr t"
  obtain r s1 where 1: "transition_channel_to_pools E frm a (\<not> b \<or> rex_available s) s = Inr (r, s1)"
    and 2: "t = s1 \<or> channel_to_rex E frm r s1 = Inr t"
    using ok by (auto simp: channel_to_rex_or_pools_def res_simps split: if_splits)
  have "poolvoters v = poolvoters u" if "same_but_pool u v" for u v
    using that unfolding same_but_pool_def by (cases u, cases v) simp
  then have "channel_to_rex E frm r s1 = Inr t \<Longrightarrow> poolvoters t = poolvoters s1"
    by (auto simp: channel_to_rex_def res_simps dest!: add_to_rex_return_pool_same split: if_splits)
  then show ?thesis using 2 transition_channel_voters [OF 1] by auto
qed

lemma votes_pay_voters:
  "updatevotes E user p s = Inr t \<Longrightarrow> poolvoters t = poolvoters s"
  "claimvotepay E p s = Inr t \<Longrightarrow> poolvoters t = poolvoters s"
  by (auto simp: updatevotes_def claimvotepay_def res_simps)

section \<open>Every run\<close>

lemma pool_step_inv:
  assumes "pool_step E s t" "pool_voters_inv s"
  shows "pool_voters_inv t"
  using assms(1)
  by (rule pool_stepE)
    (blast intro: assms(2) stake2pool_inv setpoolnotif_inv claimstake_inv transferstake_inv upgradestake_inv
      votewithpool_inv regpoolproxy_inv
      pool_voters_eq [OF cfgsrpool_voters] pool_voters_eq [OF updatepay_voters]
      pool_voters_eq [OF channel_voters] pool_voters_eq [OF votes_pay_voters(1)] pool_voters_eq [OF votes_pay_voters(2)])+

lemma pool_run_inv: "pool_run s t \<Longrightarrow> pool_voters_inv s \<Longrightarrow> pool_voters_inv t"
  by (induction rule: pool_run.induct) (auto dest: pool_step_inv)

lemma no_pool_voters_inv: "poolvoters s = fmempty \<Longrightarrow> pool_voters_inv s"
  by (simp add: pool_voters_inv_def pool_edges_def acyclic_def)

text \<open>
  C29: Along every run of the actions of the staking pools from a state with no pool voters, the
  proxies form no cycle, no registered proxy votes through another, a voter with a proxy has no
  ballot and its proxy has a row, ballots are strictly increasing lists of at most 30 producers; so the
  recursion that carries a change of pool shares along the proxies ends: one step more than there
  are pool voters is enough fuel for it, from any voter.
\<close>

theorem pool_proxies_end:
  assumes "pool_run s t" "poolvoters s = fmempty"
  shows "acyclic (pool_edges t) \<and>
    (\<forall>v pv. fmlookup (poolvoters t) v = Some pv \<longrightarrow> pool_voter_ok t pv) \<and>
    (\<forall>v. update_pool_proxy (pool_fuel t) v t \<noteq> Inl Out_of_fuel)"
  using pool_run_inv [OF assms(1) no_pool_voters_inv [OF assms(2)]] update_pool_proxy_ends
  by (simp add: pool_voters_inv_def)

text \<open>Account 7 stakes and registers as a proxy, account 8 votes through it.\<close>

definition proxy_story :: "chain \<Rightarrow> error + chain" where
  "proxy_story s =
     bindR (cfgsrpool pool_sample_env (Some [300, 900]) (Some [30, 60]) (Some [1, of_i 2]) (Some 0) (Some 10)
       None None None None None s) (\<lambda>s1.
     bindR (stake2pool pool_sample_env 7 0 (sys 100) s1) (\<lambda>s2.
     bindR (regpoolproxy pool_sample_env 7 True s2) (\<lambda>s3.
     votewithpool (pool_sample_env\<lparr>e_auth := (\<lambda>a. a = 8)\<rparr>) 8 7 [] s3)))"

theorem pool_proxies_end_witness:
  "\<exists>t. proxy_story sample_chain = Inr t \<and> (8, 7) \<in> pool_edges t \<and>
     (\<forall>v. update_pool_proxy (pool_fuel t) v t \<noteq> Inl Out_of_fuel)"
proof -
  have "case proxy_story sample_chain of Inr t \<Rightarrow>
      map_option pv_proxy (fmlookup (poolvoters t) 8) = Some 7 | Inl e \<Rightarrow> False"
    by code_simp
  then obtain t where t: "proxy_story sample_chain = Inr t" "map_option pv_proxy (fmlookup (poolvoters t) 8) = Some 7"
    by (auto split: sum.splits)
  have E: "pool_env pool_sample_env" "pool_env (pool_sample_env\<lparr>e_auth := (\<lambda>a. a = 8)\<rparr>)"
    using sample_laws by (simp_all add: pool_env_def pool_sample_env_def sample_env_def account_defs)
  obtain s1 s2 s3 where r:
    "cfgsrpool pool_sample_env (Some [300, 900]) (Some [30, 60]) (Some [1, of_i 2]) (Some 0) (Some 10)
       None None None None None sample_chain = Inr s1" "stake2pool pool_sample_env 7 0 (sys 100) s1 = Inr s2"
    "regpoolproxy pool_sample_env 7 True s2 = Inr s3"
    "votewithpool (pool_sample_env\<lparr>e_auth := (\<lambda>a. a = 8)\<rparr>) 8 7 [] s3 = Inr t"
    using t(1) by (auto simp: proxy_story_def bindR_eq_Inr)
  have "pool_run sample_chain s1" by (rule Next [OF Stop E(1) Config [OF r(1)]])
  then have "pool_run sample_chain s2" by (rule Next [OF _ E(1) Stake [OF r(2)]])
  then have "pool_run sample_chain s3" by (rule Next [OF _ E(1) Proxy [OF r(3)]])
  then have "pool_run sample_chain t" by (rule Next [OF _ E(2) Vote [OF r(4)]])
  then have "\<forall>v. update_pool_proxy (pool_fuel t) v t \<noteq> Inl Out_of_fuel"
    by (rule pool_proxies_end [THEN conjunct2, THEN conjunct2]) (simp add: sample_chain_def initial_chain_def)
  moreover have "(8, 7) \<in> pool_edges t" using t(2) by (simp add: pool_edges_def)
  ultimately show ?thesis using t(1) by blast
qed

end
