(* ===== verification/Names.thy ===== *)
theory Names
  imports PoolChannel
begin

text \<open>
  Auctions of account names (\<open>name_bidding.cpp\<close>) and the creation of accounts
  (\<open>native::newaccount\<close> of \<open>eosio.system.cpp\<close>). The auctions refine an abstract specification of
  bids and refunds; the tokens \<open>eosio.names\<close> holds cover the open bids, the refunds and the
  proceeds; and the bit test of a name is compared with its characters.
\<close>

section \<open>Bids\<close>

text \<open>The previous bidder's refund, by the name bid for and the bidder.\<close>

definition owe_refund :: "env \<Rightarrow> name \<Rightarrow> name \<Rightarrow> int \<Rightarrow> symbol \<Rightarrow> chain \<Rightarrow> error + chain" where
  "owe_refund E nm prev bid core s =
     bindR (aa_make (e_assets E) bid core) (\<lambda>a.
     bindR (case fmlookup (bidrefunds s) (nm, prev) of
         Some r \<Rightarrow> bindR (aa_plus (e_assets E) (bid_amount r) a) (\<lambda>b. Inr (r\<lparr>bid_amount := b\<rparr>))
       | None \<Rightarrow> Inr \<lparr>bidder = prev, bid_amount = a\<rparr>) (\<lambda>r.
     Inr (s\<lparr>bidrefunds := fmupd (nm, prev) r (bidrefunds s)\<rparr>)))"

definition deferred_id :: "name \<Rightarrow> name \<Rightarrow> int" where
  "deferred_id nm who = uint nm * 2 ^ 64 + uint who"

definition bidname :: "env \<Rightarrow> name \<Rightarrow> name \<Rightarrow> asset \<Rightarrow> chain \<Rightarrow> error + chain" where
  "bidname E who nm bid s =
     require_auth E who (
     check (e_suffix E nm = nm) (Bid Only_top_level_suffix) (
     check (nm \<noteq> 0) (Bid Empty_name) (
     check (nm AND 0xF = 0) (Bid Thirteen_characters) (
     check (nm AND 0x1F0 = 0) (Bid Twelve_characters) (
     check (\<not> e_is_account E nm) (Bid Account_exists) (
     core_symbol s (\<lambda>core.
     check (asym bid = core) (Bid Not_system_token) (
     check (0 < amount bid) (Bid Insufficient_bid) (
     let s1 = emit (Transfer [who] who names_account bid) s;
         row = \<lparr>newname = nm, high_bidder = who, high_bid = amount bid, last_bid_time = e_now E\<rparr> in
     case fmlookup (namebids s1) nm of
       None \<Rightarrow> Inr (s1\<lparr>namebids := fmupd nm row (namebids s1)\<rparr>)
     | Some current \<Rightarrow>
         check (0 < high_bid current) (Bid Auction_closed) (
         check (tdiv (high_bid current) 10 < i64 (amount bid - high_bid current)) (Bid Bid_increase_too_small) (
         check (high_bidder current \<noteq> who) (Bid Already_highest_bidder) (
         bindR (owe_refund E nm (high_bidder current) (high_bid current) core s1) (\<lambda>s2.
         let did = deferred_id nm (high_bidder current);
             s3 = emit (Send_deferred did (Def_bidrefund (high_bidder current) nm) 0)
               (emit (Cancel_deferred did) s2) in
         Inr (s3\<lparr>namebids := fmupd nm (current\<lparr>high_bidder := who, high_bid := amount bid,
           last_bid_time := e_now E\<rparr>) (namebids s3)\<rparr>))))))))))))))"

definition bidrefund :: "env \<Rightarrow> name \<Rightarrow> name \<Rightarrow> chain \<Rightarrow> error + chain" where
  "bidrefund E who nm s =
     fetch (fmlookup (bidrefunds s) (nm, who)) (Bid Bid_refund_not_found) (\<lambda>r.
     Inr (emit (Transfer [names_account, who] names_account who (bid_amount r))
       (s\<lparr>bidrefunds := fmdrop (nm, who) (bidrefunds s)\<rparr>)))"

section \<open>New accounts\<close>

text \<open>The loop over the twelve groups of five bits above the lowest four.\<close>

fun dot_loop :: "nat \<Rightarrow> 64 word \<Rightarrow> bool \<Rightarrow> bool" where
  "dot_loop 0 tmp has_dot = has_dot"
| "dot_loop (Suc n) tmp has_dot = dot_loop n (drop_bit 5 tmp) (has_dot \<or> tmp AND 0x1F = 0)"

definition has_dot :: "name \<Rightarrow> bool" where
  "has_dot newact = dot_loop 12 (drop_bit 4 newact) False"

definition claim_name :: "env \<Rightarrow> name \<Rightarrow> name \<Rightarrow> chain \<Rightarrow> error + chain" where
  "claim_name E creator newact s =
     (if creator \<noteq> e_self E \<and> has_dot newact then
        let suffix = e_suffix E newact in
        if suffix = newact then
          fetch (fmlookup (namebids s) newact) (Sys No_active_bid) (\<lambda>current.
          check (high_bidder current = creator) (Sys Not_highest_bidder) (
          check (high_bid current < 0) (Sys Auction_not_closed) (
          Inr (s\<lparr>namebids := fmdrop newact (namebids s)\<rparr>))))
        else check (creator = suffix) (Sys Only_suffix_may_create) (Inr s)
      else Inr s)"

definition newaccount :: "env \<Rightarrow> name \<Rightarrow> name \<Rightarrow> chain \<Rightarrow> error + chain" where
  "newaccount E creator newact s =
     bindR (claim_name E creator newact s) (\<lambda>s1.
     check (fmlookup (userres s1) newact = None) Duplicate_row (
     core_symbol s1 (\<lambda>core.
     Inr (set_resource_limits newact 0 0 0 (s1\<lparr>userres :=
       fmupd newact \<lparr>ur_owner = newact, ur_net_weight = asset0 core, ur_cpu_weight = asset0 core,
         ram_bytes = 0\<rparr> (userres s1)\<rparr>)))))"

section \<open>The abstract auction\<close>

text \<open>
  What the auctions promise: at most one highest bid per name, open or closed, and what is owed to
  whom. A bid must exceed the highest by more than a tenth and come from somebody else; the losing
  bid becomes owed; the winner of a closed auction takes the name.
\<close>

datatype auction = Open name int | Closed name int

type_synonym auctions = "(name \<Rightarrow> auction option) \<times> (name \<times> name \<Rightarrow> int)"

definition place_bid :: "name \<Rightarrow> name \<Rightarrow> int \<Rightarrow> auctions \<Rightarrow> auctions option" where
  "place_bid who nm bid a =
     (case a of (bids, owed) \<Rightarrow> case bids nm of
        None \<Rightarrow> Some (bids(nm \<mapsto> Open who bid), owed)
      | Some (Open prev high) \<Rightarrow>
          if prev \<noteq> who \<and> high + high div 10 < bid
          then Some (bids(nm \<mapsto> Open who bid), owed((nm, prev) := owed (nm, prev) + high)) else None
      | Some (Closed _ _) \<Rightarrow> None)"

definition take_name :: "name \<Rightarrow> name \<Rightarrow> auctions \<Rightarrow> auctions option" where
  "take_name who nm a =
     (case a of (bids, owed) \<Rightarrow> case bids nm of
        Some (Closed winner _) \<Rightarrow> if winner = who then Some (bids(nm := None), owed) else None
      | _ \<Rightarrow> None)"

definition close_auction :: "name \<Rightarrow> auctions \<Rightarrow> auctions option" where
  "close_auction nm a =
     (case a of (bids, owed) \<Rightarrow> case bids nm of
        Some (Open who high) \<Rightarrow> Some (bids(nm \<mapsto> Closed who high), owed)
      | _ \<Rightarrow> None)"

definition collect :: "name \<Rightarrow> name \<Rightarrow> auctions \<Rightarrow> auctions option" where
  "collect who nm a =
     (case a of (bids, owed) \<Rightarrow> if 0 < owed (nm, who) then Some (bids, owed((nm, who) := 0)) else None)"

text \<open>The events, with those who take part; each leads to at most one state.\<close>

datatype auction_event = Bid name name int | Collect name name | Take name name | Close name

fun auction_step :: "auction_event \<Rightarrow> auctions \<Rightarrow> auctions option" where
  "auction_step (Bid who nm bid) a = (if 0 < bid then place_bid who nm bid a else None)"
| "auction_step (Collect who nm) a = collect who nm a"
| "auction_step (Take who nm) a = take_name who nm a"
| "auction_step (Close nm) a = close_auction nm a"

text \<open>The abstraction: a negative highest bid marks a closed auction.\<close>

definition abs_bid :: "name_bid \<Rightarrow> auction" where
  "abs_bid b = (if 0 < high_bid b then Open (high_bidder b) (high_bid b)
     else Closed (high_bidder b) (- high_bid b))"

definition abs_auctions :: "chain \<Rightarrow> auctions" where
  "abs_auctions s = (\<lambda>nm. map_option abs_bid (fmlookup (namebids s) nm),
     \<lambda>k. row_val (\<lambda>r. amount (bid_amount r)) (bidrefunds s) k)"

definition bids_ok :: "chain \<Rightarrow> bool" where
  "bids_ok s \<longleftrightarrow> (\<forall>nm b. fmlookup (namebids s) nm = Some b \<longrightarrow> high_bid b \<le> i64_max)"

lemma owe_refund_Inr:
  assumes A: "asset_laws (e_assets E)" and ok: "owe_refund E nm prev bid core s = Inr t"
  obtains r where "t = s\<lparr>bidrefunds := fmupd (nm, prev) r (bidrefunds s)\<rparr>"
    "amount (bid_amount r) = row_val (\<lambda>r. amount (bid_amount r)) (bidrefunds s) (nm, prev) + bid"
proof -
  obtain a r where a: "aa_make (e_assets E) bid core = Inr a"
    and r: "(case fmlookup (bidrefunds s) (nm, prev) of
         Some r \<Rightarrow> bindR (aa_plus (e_assets E) (bid_amount r) a) (\<lambda>b. Inr (r\<lparr>bid_amount := b\<rparr>))
       | None \<Rightarrow> Inr \<lparr>bidder = prev, bid_amount = a\<rparr>) = Inr r"
    and t: "t = s\<lparr>bidrefunds := fmupd (nm, prev) r (bidrefunds s)\<rparr>"
    using ok by (auto simp: owe_refund_def bindR_eq_Inr)
  have "amount (bid_amount r) = row_val (\<lambda>r. amount (bid_amount r)) (bidrefunds s) (nm, prev) + bid"
    using r asset_laws.make_amount [OF A a]
    by (cases "fmlookup (bidrefunds s) (nm, prev)") (auto simp: bindR_eq_Inr dest: asset_laws.plus_amount [OF A])
  then show thesis using that t by blast
qed

lemma bidname_Inr:
  assumes A: "asset_laws (e_assets E)" and ok: "bidname E who nm bid s = Inr t"
  obtains "e_auth E who" "fmlookup (namebids s) nm = None" "0 < amount bid"
      "t = emit (Transfer [who] who names_account bid) s\<lparr>namebids := fmupd nm
        \<lparr>newname = nm, high_bidder = who, high_bid = amount bid, last_bid_time = e_now E\<rparr> (namebids s)\<rparr>"
    | b r where "e_auth E who" "fmlookup (namebids s) nm = Some b" "0 < amount bid"
      "0 < high_bid b" "high_bid b div 10 < i64 (amount bid - high_bid b)" "high_bidder b \<noteq> who"
      "amount (bid_amount r) = row_val (\<lambda>r. amount (bid_amount r)) (bidrefunds s) (nm, high_bidder b) + high_bid b"
      "t = s\<lparr>outbox := outbox s @ [Transfer [who] who names_account bid,
           Cancel_deferred (deferred_id nm (high_bidder b)),
           Send_deferred (deferred_id nm (high_bidder b)) (Def_bidrefund (high_bidder b) nm) 0],
         bidrefunds := fmupd (nm, high_bidder b) r (bidrefunds s),
         namebids := fmupd nm (b\<lparr>high_bidder := who, high_bid := amount bid, last_bid_time := e_now E\<rparr>) (namebids s)\<rparr>"
proof (cases "fmlookup (namebids s) nm")
  case None
  then show thesis using ok by (intro that(1)) (auto simp: bidname_def Let_def res_simps)
next
  case (Some b)
  let ?s1 = "emit (Transfer [who] who names_account bid) s"
  obtain core s2 where 1: "e_auth E who" "0 < amount bid"
      "0 < high_bid b" "tdiv (high_bid b) 10 < i64 (amount bid - high_bid b)" "high_bidder b \<noteq> who"
    and 2: "owe_refund E nm (high_bidder b) (high_bid b) core ?s1 = Inr s2"
    and t: "t = emit (Send_deferred (deferred_id nm (high_bidder b)) (Def_bidrefund (high_bidder b) nm) 0)
        (emit (Cancel_deferred (deferred_id nm (high_bidder b))) s2)\<lparr>namebids :=
          fmupd nm (b\<lparr>high_bidder := who, high_bid := amount bid, last_bid_time := e_now E\<rparr>) (namebids s2)\<rparr>"
    using ok Some by (auto simp: bidname_def Let_def res_simps)
  obtain r where r: "s2 = ?s1\<lparr>bidrefunds := fmupd (nm, high_bidder b) r (bidrefunds ?s1)\<rparr>"
    "amount (bid_amount r) = row_val (\<lambda>r. amount (bid_amount r)) (bidrefunds ?s1) (nm, high_bidder b) + high_bid b"
    by (rule owe_refund_Inr [OF A 2])
  show thesis
    by (rule that(2) [of b r]) (use 1 r t Some in \<open>simp_all add: emit_def\<close>)
qed

lemma bidname_refines:
  assumes A: "asset_laws (e_assets E)" and ok: "bidname E who nm bid s = Inr t"
    and wf: "bids_ok s" and rng: "amount bid \<le> i64_max"
  shows "place_bid who nm (amount bid) (abs_auctions s) = Some (abs_auctions t) \<and> 0 < amount bid \<and> bids_ok t"
proof (rule bidname_Inr [OF A ok])
  assume "fmlookup (namebids s) nm = None" "0 < amount bid"
    "t = emit (Transfer [who] who names_account bid) s\<lparr>namebids := fmupd nm
        \<lparr>newname = nm, high_bidder = who, high_bid = amount bid, last_bid_time = e_now E\<rparr> (namebids s)\<rparr>"
  then show ?thesis using wf rng
    by (auto simp: place_bid_def abs_auctions_def abs_bid_def bids_ok_def fun_eq_iff)
next
  fix b r
  assume b: "fmlookup (namebids s) nm = Some b" "0 < amount bid" "0 < high_bid b"
    and h: "high_bid b div 10 < i64 (amount bid - high_bid b)" and ne: "high_bidder b \<noteq> who"
    and r: "amount (bid_amount r) = row_val (\<lambda>r. amount (bid_amount r)) (bidrefunds s) (nm, high_bidder b) + high_bid b"
    and t: "t = s\<lparr>outbox := outbox s @ [Transfer [who] who names_account bid,
           Cancel_deferred (deferred_id nm (high_bidder b)),
           Send_deferred (deferred_id nm (high_bidder b)) (Def_bidrefund (high_bidder b) nm) 0],
         bidrefunds := fmupd (nm, high_bidder b) r (bidrefunds s),
         namebids := fmupd nm (b\<lparr>high_bidder := who, high_bid := amount bid, last_bid_time := e_now E\<rparr>) (namebids s)\<rparr>"
  have hb: "high_bid b \<le> i64_max" using b(1) wf unfolding bids_ok_def by blast
  have "i64 (amount bid - high_bid b) = amount bid - high_bid b"
    using b(2,3) hb rng by (simp add: i64_id i64_max_def)
  then have "high_bid b + high_bid b div 10 < amount bid" using h by simp
  then show ?thesis using b ne r wf rng
    by (auto simp: t place_bid_def abs_auctions_def abs_bid_def bids_ok_def fun_eq_iff row_val_def)
qed

lemma bidrefund_Inr:
  assumes "bidrefund E who nm s = Inr t"
  obtains r where "fmlookup (bidrefunds s) (nm, who) = Some r"
    "t = emit (Transfer [names_account, who] names_account who (bid_amount r))
       (s\<lparr>bidrefunds := fmdrop (nm, who) (bidrefunds s)\<rparr>)"
  using assms by (auto simp: bidrefund_def res_simps)

lemma set_resource_limits_fields [simp]:
  "namebids (set_resource_limits a r n c s) = namebids s" "bidrefunds (set_resource_limits a r n c s) = bidrefunds s"
  "outbox (set_resource_limits a r n c s) = outbox s" "rexpool (set_resource_limits a r n c s) = rexpool s"
  "poolstate (set_resource_limits a r n c s) = poolstate s"
  by (simp_all add: set_resource_limits_def)

lemma newaccount_Inr:
  assumes "newaccount E creator newact s = Inr t"
  obtains s1 where "claim_name E creator newact s = Inr s1" "namebids t = namebids s1" "bidrefunds t = bidrefunds s1"
    "outbox t = outbox s1" "rexpool t = rexpool s1" "poolstate t = poolstate s1"
  using assms by (auto simp: newaccount_def res_simps)

lemma claim_name_refines:
  assumes "claim_name E creator newact s = Inr t"
  shows "(t = s \<or> take_name creator newact (abs_auctions s) = Some (abs_auctions t)) \<and>
    bidrefunds t = bidrefunds s \<and> outbox t = outbox s \<and> rexpool t = rexpool s \<and> poolstate t = poolstate s \<and>
    (\<forall>nm b. fmlookup (namebids t) nm = Some b \<longrightarrow> fmlookup (namebids s) nm = Some b)"
  using assms
  by (auto simp: claim_name_def Let_def res_simps take_name_def abs_auctions_def abs_bid_def fun_eq_iff
      split: if_splits)

inductive name_step :: "env \<Rightarrow> chain \<Rightarrow> chain \<Rightarrow> bool" for E where
  Bid_name: "bidname E who nm bid s = Inr t \<Longrightarrow> amount bid \<le> i64_max \<Longrightarrow> name_step E s t"
| Refund_bid: "bidrefund E who nm s = Inr t \<Longrightarrow> name_step E s t"
| Create: "newaccount E creator newact s = Inr t \<Longrightarrow> name_step E s t"

inductive_cases name_stepE: "name_step E s t"

lemma name_step_bids_ok:
  assumes A: "asset_laws (e_assets E)" and st: "name_step E s t" and wf: "bids_ok s"
  shows "bids_ok t"
  using st
proof (rule name_stepE)
  fix who nm bid assume "bidname E who nm bid s = Inr t" "amount bid \<le> i64_max"
  then show ?thesis using bidname_refines [OF A _ wf] by blast
next
  fix who nm assume "bidrefund E who nm s = Inr t"
  then show ?thesis using wf by (auto elim!: bidrefund_Inr simp: bids_ok_def)
next
  fix creator newact assume "newaccount E creator newact s = Inr t"
  then obtain s1 where "claim_name E creator newact s = Inr s1" "namebids t = namebids s1" by (auto elim: newaccount_Inr)
  then show ?thesis using claim_name_refines wf unfolding bids_ok_def by metis
qed

text \<open>The actions on names, and the event of the abstract auctions that each stands for, if any.\<close>

datatype name_action = Bidname name name asset | Bidrefund name name | Newaccount name name

fun name_act :: "env \<Rightarrow> name_action \<Rightarrow> chain \<Rightarrow> error + chain" where
  "name_act E (Bidname who nm bid) s = bidname E who nm bid s"
| "name_act E (Bidrefund who nm) s = bidrefund E who nm s"
| "name_act E (Newaccount creator nm) s = newaccount E creator nm s"

fun event_of :: "env \<Rightarrow> name_action \<Rightarrow> auction_event option" where
  "event_of E (Bidname who nm bid) = Some (Bid who nm (amount bid))"
| "event_of E (Bidrefund who nm) = Some (Collect who nm)"
| "event_of E (Newaccount creator nm) =
     (if creator \<noteq> e_self E \<and> has_dot nm \<and> e_suffix E nm = nm then Some (Take creator nm) else None)"

fun bid_range :: "name_action \<Rightarrow> bool" where
  "bid_range (Bidname who nm bid) \<longleftrightarrow> amount bid \<le> i64_max"
| "bid_range _ \<longleftrightarrow> True"

text \<open>Highest bids are 64-bit integers, and every stored refund is of something.\<close>

definition auctions_ok :: "chain \<Rightarrow> bool" where
  "auctions_ok s \<longleftrightarrow> bids_ok s \<and> (\<forall>k r. fmlookup (bidrefunds s) k = Some r \<longrightarrow> 0 < amount (bid_amount r))"

lemma bidname_auctions:
  assumes A: "asset_laws (e_assets E)" and ok: "bidname E who nm bid s = Inr t"
    and wf: "auctions_ok s" and rng: "amount bid \<le> i64_max"
  shows "auctions_ok t \<and> auction_step (Bid who nm (amount bid)) (abs_auctions s) = Some (abs_auctions t)"
proof -
  have b: "bids_ok s" and pos: "\<And>k. 0 \<le> row_val (\<lambda>r. amount (bid_amount r)) (bidrefunds s) k"
    using wf by (auto simp: auctions_ok_def row_val_def less_imp_le split: option.splits)
  have "\<forall>k r. fmlookup (bidrefunds t) k = Some r \<longrightarrow> 0 < amount (bid_amount r)"
  proof (rule bidname_Inr [OF A ok])
    fix c r assume "0 < high_bid c"
      and "amount (bid_amount r) = row_val (\<lambda>r. amount (bid_amount r)) (bidrefunds s) (nm, high_bidder c) + high_bid c"
      and "t = s\<lparr>outbox := outbox s @ [Transfer [who] who names_account bid,
           Cancel_deferred (deferred_id nm (high_bidder c)),
           Send_deferred (deferred_id nm (high_bidder c)) (Def_bidrefund (high_bidder c) nm) 0],
         bidrefunds := fmupd (nm, high_bidder c) r (bidrefunds s),
         namebids := fmupd nm (c\<lparr>high_bidder := who, high_bid := amount bid, last_bid_time := e_now E\<rparr>) (namebids s)\<rparr>"
    then show ?thesis using wf pos [of "(nm, high_bidder c)"] by (auto simp: auctions_ok_def)
  qed (use wf in \<open>auto simp: auctions_ok_def\<close>)
  then show ?thesis using bidname_refines [OF A ok b rng] by (simp add: auctions_ok_def)
qed

lemma bidrefund_auctions:
  assumes "bidrefund E who nm s = Inr t" "auctions_ok s"
  shows "auctions_ok t \<and> auction_step (Collect who nm) (abs_auctions s) = Some (abs_auctions t)"
  using assms(1)
  by (rule bidrefund_Inr)
    (use assms(2) in \<open>auto simp: auctions_ok_def bids_ok_def abs_auctions_def collect_def row_val_def fun_eq_iff\<close>)

lemma newaccount_auctions:
  assumes ok: "newaccount E creator nm s = Inr t" and wf: "auctions_ok s"
  shows "auctions_ok t \<and> (case event_of E (Newaccount creator nm) of
      None \<Rightarrow> abs_auctions t = abs_auctions s
    | Some e \<Rightarrow> auction_step e (abs_auctions s) = Some (abs_auctions t))"
proof -
  obtain s1 where c: "claim_name E creator nm s = Inr s1" and t: "namebids t = namebids s1" "bidrefunds t = bidrefunds s1"
    using ok by (auto elim: newaccount_Inr)
  have "auctions_ok t" using claim_name_refines [OF c] wf unfolding auctions_ok_def bids_ok_def t by metis
  moreover have e: "abs_auctions t = abs_auctions s1" by (simp add: abs_auctions_def t)
  ultimately show ?thesis using c unfolding e
    by (auto simp: claim_name_def Let_def res_simps take_name_def abs_auctions_def abs_bid_def fun_eq_iff
        split: if_splits)
qed

text \<open>
  C7: The auctions refine their abstract specification, each action by the event of its own
  participants: a bid is accepted only on a free name or over the highest bid of somebody else by
  more than a tenth, and what the loser is owed grows by exactly its bid; a refund pays whoever is
  owed something exactly that and leaves nothing owed; and an account with the name of an auction is
  created only by the winner of the closed auction, which ends with it. No other creation changes
  the auctions, and one of a name with a dot is left to the owner of its suffix.
\<close>

theorem auctions_refine:
  assumes A: "asset_laws (e_assets E)" and ok: "name_act E act s = Inr t"
    and rng: "bid_range act" and wf: "auctions_ok s"
  shows "auctions_ok t \<and>
    (case event_of E act of
       None \<Rightarrow> abs_auctions t = abs_auctions s
     | Some e \<Rightarrow> auction_step e (abs_auctions s) = Some (abs_auctions t)) \<and>
    (case act of
       Bidrefund who nm \<Rightarrow> \<exists>a. outbox t = outbox s @ [Transfer [names_account, who] names_account who a] \<and>
         amount a = snd (abs_auctions s) (nm, who)
     | Newaccount creator nm \<Rightarrow> creator = e_self E \<or> \<not> has_dot nm \<or> e_suffix E nm = nm \<or> creator = e_suffix E nm
     | Bidname who nm bid \<Rightarrow> True)"
proof (cases act)
  case (Bidname who nm bid)
  then show ?thesis using bidname_auctions [OF A _ wf] ok rng by simp
next
  case (Bidrefund who nm)
  then have r: "bidrefund E who nm s = Inr t" using ok by simp
  obtain a where "outbox t = outbox s @ [Transfer [names_account, who] names_account who a]"
    "amount a = snd (abs_auctions s) (nm, who)"
    using r by (rule bidrefund_Inr) (auto simp: emit_def abs_auctions_def row_val_def)
  then show ?thesis using bidrefund_auctions [OF r wf] Bidrefund by auto
next
  case (Newaccount creator nm)
  then have n: "newaccount E creator nm s = Inr t" using ok by simp
  then obtain s1 where "claim_name E creator nm s = Inr s1" by (rule newaccount_Inr)
  then have "creator = e_self E \<or> \<not> has_dot nm \<or> e_suffix E nm = nm \<or> creator = e_suffix E nm"
    by (auto simp: claim_name_def Let_def check_eq_Inr split: if_splits)
  then show ?thesis using newaccount_auctions [OF n wf] Newaccount by (simp del: event_of.simps)
qed

definition auction_env :: env where
  "auction_env = sample_env\<lparr>e_auth := (\<lambda>a. a = 7 \<or> a = 9), e_is_account := (\<lambda>a. False)\<rparr>"

lemma auction_env: "asset_laws (e_assets auction_env)"
  using sample_laws by (simp add: auction_env_def)

text \<open>The name \<open>abc\<close>, bid for by account 7 and then by account 9.\<close>

definition auction_story :: "error + (chain \<times> chain)" where
  "auction_story = bindR (bidname auction_env 7 3589368903014285312 (sys 1000) sample_chain) (\<lambda>s.
     bindR (bidname auction_env 9 3589368903014285312 (sys 1101) s) (\<lambda>t. Inr (s, t)))"

lemma auction_story:
  obtains s t where "bidname auction_env 7 3589368903014285312 (sys 1000) sample_chain = Inr s"
    "bidname auction_env 9 3589368903014285312 (sys 1101) s = Inr t"
proof -
  have "succeeds auction_story" by code_simp
  then show thesis using that by (auto elim!: succeedsE simp: auction_story_def bindR_eq_Inr)
qed

theorem auctions_refine_witness:
  "\<exists>s t u. bidname auction_env 9 3589368903014285312 (sys 1101) s = Inr t \<and>
    bidrefund auction_env 7 3589368903014285312 t = Inr u \<and>
    auction_step (Collect 7 3589368903014285312) (abs_auctions t) = Some (abs_auctions u) \<and>
    snd (abs_auctions t) (3589368903014285312, 7) = 1000"
proof (rule auction_story)
  fix s t
  assume s: "bidname auction_env 7 3589368903014285312 (sys 1000) sample_chain = Inr s"
    and t: "bidname auction_env 9 3589368903014285312 (sys 1101) s = Inr t"
  have "succeeds (bindR auction_story (\<lambda>(s, t). bindR (bidrefund auction_env 7 3589368903014285312 t) (\<lambda>u.
      if snd (abs_auctions t) (3589368903014285312, 7) = 1000 then Inr u else Inl Out_of_fuel)))" by code_simp
  then obtain u where u: "bidrefund auction_env 7 3589368903014285312 t = Inr u"
    "snd (abs_auctions t) (3589368903014285312, 7) = 1000"
    using s t by (auto elim!: succeedsE simp: auction_story_def bindR_eq_Inr split: if_splits)
  have "auctions_ok sample_chain"
    by (simp add: auctions_ok_def bids_ok_def sample_chain_def initial_chain_def)
  then have "auctions_ok s" using auctions_refine [OF auction_env, of "Bidname 7 3589368903014285312 (sys 1000)"] s
    by (simp add: i64_max_def)
  then have "auctions_ok t" using auctions_refine [OF auction_env, of "Bidname 9 3589368903014285312 (sys 1101)"] t
    by (simp add: i64_max_def)
  then have "auction_step (Collect 7 3589368903014285312) (abs_auctions t) = Some (abs_auctions u)"
    using auctions_refine [OF auction_env, of "Bidrefund 7 3589368903014285312"] u(1) by simp
  then show ?thesis using t u by blast
qed

section \<open>The tokens of \<open>eosio.names\<close>\<close>

definition open_bids :: "chain \<Rightarrow> int" where
  "open_bids s = table_sum (\<lambda>b. max 0 (high_bid b)) (namebids s)"

definition owed_bids :: "chain \<Rightarrow> int" where
  "owed_bids s = table_sum (\<lambda>r. amount (bid_amount r)) (bidrefunds s)"

text \<open>The proceeds of closed auctions that wait to be moved to the REX pool or the staking pools.\<close>

definition waiting_proceeds :: "chain \<Rightarrow> int" where
  "waiting_proceeds s =
     (case rexpool s of None \<Rightarrow> 0 | Some p \<Rightarrow> amount (namebid_proceeds p)) +
     (case poolstate s of None \<Rightarrow> 0 | Some st \<Rightarrow> amount (sp_namebid_proceeds st))"

definition names_net :: "chain \<Rightarrow> int" where
  "names_net s = open_bids s + owed_bids s + waiting_proceeds s - net_in names_account (outbox s)"

lemmas names_nets = names_net_def open_bids_def owed_bids_def waiting_proceeds_def

interpretation namesl: ledger names_net
proof
  fix t s assume w: "without_votes t = without_votes s"
  have f: "namebids t = namebids s" "bidrefunds t = bidrefunds s" "rexpool t = rexpool s" "poolstate t = poolstate s"
    "outbox t = outbox s" by (fact without_votes_fields [OF w])+
  show "names_net t = names_net s" unfolding names_nets f ..
qed

text \<open>\<open>eosio.names\<close> itself has neither bid nor anything to collect.\<close>

definition no_own_bids :: "chain \<Rightarrow> bool" where
  "no_own_bids s \<longleftrightarrow>
     (\<forall>nm b. fmlookup (namebids s) nm = Some b \<longrightarrow> high_bidder b \<noteq> names_account) \<and>
     (\<forall>nm. fmlookup (bidrefunds s) (nm, names_account) = None)"

definition names_env :: "env \<Rightarrow> bool" where
  "names_env E \<longleftrightarrow> asset_laws (e_assets E) \<and> \<not> e_auth E names_account"

lemma bidname_books:
  assumes E: "names_env E" and ok: "bidname E who nm bid s = Inr t" and wf: "no_own_bids s"
  shows "names_net t = names_net s \<and> no_own_bids t"
proof -
  have A: "asset_laws (e_assets E)" using E by (simp add: names_env_def)
  have who: "e_auth E who \<Longrightarrow> who \<noteq> names_account" using E by (auto simp: names_env_def)
  show ?thesis
  proof (rule bidname_Inr [OF A ok])
    assume "e_auth E who" "fmlookup (namebids s) nm = None" "0 < amount bid"
      "t = emit (Transfer [who] who names_account bid) s\<lparr>namebids := fmupd nm
        \<lparr>newname = nm, high_bidder = who, high_bid = amount bid, last_bid_time = e_now E\<rparr> (namebids s)\<rparr>"
    then show ?thesis using who wf by (auto simp: names_nets table_sum_upd no_own_bids_def)
  next
    fix b r
    assume au: "e_auth E who" and b: "fmlookup (namebids s) nm = Some b" "0 < amount bid" "0 < high_bid b"
      and r: "amount (bid_amount r) = row_val (\<lambda>r. amount (bid_amount r)) (bidrefunds s) (nm, high_bidder b) + high_bid b"
      and t: "t = s\<lparr>outbox := outbox s @ [Transfer [who] who names_account bid,
           Cancel_deferred (deferred_id nm (high_bidder b)),
           Send_deferred (deferred_id nm (high_bidder b)) (Def_bidrefund (high_bidder b) nm) 0],
         bidrefunds := fmupd (nm, high_bidder b) r (bidrefunds s),
         namebids := fmupd nm (b\<lparr>high_bidder := who, high_bid := amount bid, last_bid_time := e_now E\<rparr>) (namebids s)\<rparr>"
    have "high_bidder b \<noteq> names_account" using wf b(1) by (auto simp: no_own_bids_def)
    moreover have "names_net t = names_net s"
      using who [OF au] b r by (simp add: names_nets t table_sum_upd msg_in_def)
    ultimately show ?thesis using wf who [OF au] by (auto simp: t no_own_bids_def)
  qed
qed

lemma bidrefund_books:
  assumes "bidrefund E who nm s = Inr t" "no_own_bids s"
  shows "names_net t = names_net s \<and> no_own_bids t"
proof -
  obtain r where r: "fmlookup (bidrefunds s) (nm, who) = Some r"
    and t: "t = emit (Transfer [names_account, who] names_account who (bid_amount r))
       (s\<lparr>bidrefunds := fmdrop (nm, who) (bidrefunds s)\<rparr>)"
    using assms(1) by (auto simp: bidrefund_def res_simps)
  have "who \<noteq> names_account" using assms(2) r by (auto simp: no_own_bids_def)
  then show ?thesis using assms(2) r by (auto simp: t names_nets table_sum_drop no_own_bids_def)
qed

lemma newaccount_books:
  assumes "newaccount E creator newact s = Inr t" "no_own_bids s"
  shows "names_net t = names_net s \<and> no_own_bids t"
proof -
  obtain s1 where c: "claim_name E creator newact s = Inr s1"
    and t: "namebids t = namebids s1" "bidrefunds t = bidrefunds s1" "outbox t = outbox s1" "rexpool t = rexpool s1"
      "poolstate t = poolstate s1" using assms(1) by (rule newaccount_Inr)
  have "open_bids s1 = open_bids s"
    using c by (auto simp: claim_name_def Let_def res_simps open_bids_def table_sum_drop split: if_splits)
  moreover have fewer: "\<forall>n b. fmlookup (namebids s1) n = Some b \<longrightarrow> fmlookup (namebids s) n = Some b"
    and kept: "bidrefunds s1 = bidrefunds s"
    and same: "outbox s1 = outbox s" "rexpool s1 = rexpool s" "poolstate s1 = poolstate s"
    using c by (auto simp: claim_name_def Let_def res_simps split: if_splits)
  moreover have "no_own_bids t"
    using assms(2) fewer kept unfolding no_own_bids_def t by metis
  ultimately show ?thesis using t by (simp add: names_nets)
qed

inductive name_run :: "chain \<Rightarrow> chain \<Rightarrow> bool" where
  Stop: "name_run s s"
| Next: "name_run s t \<Longrightarrow> names_env E \<Longrightarrow> name_step E t u \<Longrightarrow> name_run s u"

lemma name_run_ok: "name_run s t \<Longrightarrow> no_own_bids s \<Longrightarrow> no_own_bids t \<and> names_net t = names_net s"
proof (induction rule: name_run.induct)
  case (Next s t E u)
  from Next.hyps(3) show ?case
    by (rule name_stepE) (use Next bidname_books bidrefund_books newaccount_books in metis)+
qed simp

text \<open>
  C9: Over any run of bids, refunds and account creations, open bids, owed refunds and waiting
  proceeds change together by exactly what \<open>eosio.names\<close> receives less what it pays.
\<close>

theorem names_escrow_balances:
  assumes "name_run s t" "no_own_bids s"
  shows "names_net t = names_net s"
  using name_run_ok [OF assms] by simp

theorem names_escrow_balances_witness:
  "\<exists>s t. bidname auction_env 7 3589368903014285312 (sys 1000) sample_chain = Inr s \<and>
    bidname auction_env 9 3589368903014285312 (sys 1101) s = Inr t \<and> names_net t = 0"
proof (rule auction_story)
  fix s t
  assume s: "bidname auction_env 7 3589368903014285312 (sys 1000) sample_chain = Inr s"
    and t: "bidname auction_env 9 3589368903014285312 (sys 1101) s = Inr t"
  have E: "names_env auction_env" using auction_env by (simp add: names_env_def auction_env_def account_defs)
  have "name_run sample_chain t"
    by (rule Next [OF Next [OF Stop E Bid_name [OF s]] E Bid_name [OF t]]) (simp_all add: i64_max_def)
  moreover have "no_own_bids sample_chain" "names_net sample_chain = 0"
    by (simp_all add: no_own_bids_def names_nets sample_chain_def initial_chain_def)
  ultimately show ?thesis using names_escrow_balances [of sample_chain t] s t by auto
qed

section \<open>The characters of a name\<close>

text \<open>The character at position \<open>i\<close> from the end of the twelve, as the digit it is encoded by.\<close>

definition name_digit :: "name \<Rightarrow> nat \<Rightarrow> int" where
  "name_digit nm i = uint nm div 2 ^ (4 + 5 * i) mod 32"

lemma and_31: "(w :: 64 word) AND 0x1F = 0 \<longleftrightarrow> uint w mod 32 = 0"
proof -
  have m: "(0x1F :: 64 word) = mask 5" by (simp add: mask_eq_exp_minus_1)
  have "w AND 0x1F = take_bit 5 w" unfolding m by (simp add: take_bit_eq_mask)
  moreover have "uint (take_bit 5 w) = uint w mod 2 ^ 5"
    by (subst unsigned_take_bit_eq) (rule take_bit_eq_mod)
  ultimately have "uint (w AND 0x1F) = uint w mod 32" by simp
  then show ?thesis by (metis uint_0_iff)
qed

lemma uint_drop: "uint (drop_bit k (w :: 64 word)) = uint w div 2 ^ k"
proof -
  have "uint (drop_bit k w) = drop_bit k (take_bit LENGTH(64) (uint w))" by (rule unsigned_drop_bit_eq)
  then show ?thesis by (simp only: drop_bit_eq_div take_bit_int_eq_self [OF uint_ge_0 unsigned_less])
qed

lemma dot_loop_eq:
  "dot_loop n tmp b \<longleftrightarrow> b \<or> (\<exists>i < n. uint tmp div 2 ^ (5 * i) mod 32 = 0)"
proof (induction n arbitrary: tmp b)
  case (Suc n)
  have e: "uint (drop_bit 5 tmp) div 2 ^ (5 * i) = uint tmp div 2 ^ (5 * Suc i)" for i
    by (simp add: uint_drop zdiv_zmult2_eq [symmetric] power_add)
  have "(\<exists>i < Suc n. uint tmp div 2 ^ (5 * i) mod 32 = 0) \<longleftrightarrow>
      uint tmp mod 32 = 0 \<or> (\<exists>i < n. uint tmp div 2 ^ (5 * Suc i) mod 32 = 0)"
    by (auto simp: less_Suc_eq_0_disj)
  then show ?case using Suc.IH by (simp only: dot_loop.simps e and_31) blast
qed simp

text \<open>
  C39: The bit loop of \<open>newaccount\<close> finds exactly the names with a dot (a zero digit) among their
  first twelve characters.
\<close>

theorem has_dot_characters: "has_dot nm \<longleftrightarrow> (\<exists>i < 12. name_digit nm i = 0)"
proof -
  have "uint nm div 16 div 2 ^ (5 * i) = uint nm div 2 ^ (4 + 5 * i)" for i
    by (simp add: zdiv_zmult2_eq [symmetric] power_add)
  then show ?thesis by (simp add: has_dot_def dot_loop_eq uint_drop name_digit_def)
qed

end
