(* ===== verification/Bandwidth.thy ===== *)
theory Bandwidth
  imports RexBooks
begin

text \<open>
  Stake for bandwidth (\<open>delegate_bandwidth.cpp\<close>): delegation and its withdrawal through
  \<open>changebw\<close>, refunds after three days, and the change of voting power. The lemmas show that the
  staked and the refundable tokens are those \<open>eosio.stake\<close> holds, that the rows of the tables stay
  well formed, and that a refund waits for its delay.
\<close>

section \<open>Delegation\<close>

definition delegate :: "env \<Rightarrow> name \<Rightarrow> name \<Rightarrow> asset \<Rightarrow> asset \<Rightarrow> chain \<Rightarrow> error + chain" where
  "delegate E from receiver net cpu s =
     bindR (case fmlookup (delband s) (from, receiver) of
         None \<Rightarrow> Inr \<lparr>db_from = from, db_to = receiver, db_net_weight = net, db_cpu_weight = cpu\<rparr>
       | Some d \<Rightarrow>
           bindR (aa_plus (e_assets E) (db_net_weight d) net) (\<lambda>n.
           bindR (aa_plus (e_assets E) (db_cpu_weight d) cpu) (\<lambda>c.
           Inr (d\<lparr>db_net_weight := n, db_cpu_weight := c\<rparr>)))) (\<lambda>d.
     check (0 \<le> amount (db_net_weight d)) (Bw Insufficient_staked_net) (
     check (0 \<le> amount (db_cpu_weight d)) (Bw Insufficient_staked_cpu) (
     Inr (s\<lparr>delband := (if db_is_empty d then fmdrop (from, receiver) (delband s)
       else fmupd (from, receiver) d (delband s))\<rparr>))))"

definition add_totals :: "env \<Rightarrow> name \<Rightarrow> asset \<Rightarrow> asset \<Rightarrow> chain \<Rightarrow> error + chain" where
  "add_totals E receiver net cpu s =
     bindR (case fmlookup (userres s) receiver of
         None \<Rightarrow> Inr \<lparr>ur_owner = receiver, ur_net_weight = net, ur_cpu_weight = cpu, ram_bytes = 0\<rparr>
       | Some t \<Rightarrow>
           bindR (aa_plus (e_assets E) (ur_net_weight t) net) (\<lambda>n.
           bindR (aa_plus (e_assets E) (ur_cpu_weight t) cpu) (\<lambda>c.
           Inr (t\<lparr>ur_net_weight := n, ur_cpu_weight := c\<rparr>)))) (\<lambda>tot.
     check_totals tot (
     Inr (store_totals receiver tot (set_limits receiver (staker_ram receiver tot s) tot s))))"

section \<open>Refunds\<close>

text \<open>
  One of the two amounts of a refund request is reduced by a change of stake; what it does not
  cover is left of the change.
\<close>

definition offset_refund :: "env \<Rightarrow> asset \<Rightarrow> asset \<Rightarrow> error + (asset \<times> asset)" where
  "offset_refund E amt bal =
     bindR (aa_minus (e_assets E) amt bal) (\<lambda>n.
     Inr (if amount n < 0 then (set_amount 0 n, aa_neg (e_assets E) n) else (n, set_amount 0 bal)))"

definition change_refund ::
  "env \<Rightarrow> name \<Rightarrow> asset \<Rightarrow> asset \<Rightarrow> refund_request \<Rightarrow> chain \<Rightarrow> error + (asset \<times> asset \<times> bool \<times> chain)" where
  "change_refund E from net cpu r s =
     (let r0 = (if amount net < 0 \<or> amount cpu < 0 then r\<lparr>request_time := e_sec E\<rparr> else r) in
      bindR (offset_refund E (net_amount r0) net) (\<lambda>(rn, net').
      bindR (offset_refund E (cpu_amount r0) cpu) (\<lambda>(rc, cpu').
      let r1 = r0\<lparr>net_amount := rn, cpu_amount := rc\<rparr> in
      check (0 \<le> amount rn) (Bw Negative_net_refund) (
      check (0 \<le> amount rc) (Bw Negative_cpu_refund) (
      Inr (net', cpu', \<not> rr_is_empty r1,
        s\<lparr>refunds := (if rr_is_empty r1 then fmdrop from (refunds s) else fmupd from r1 (refunds s))\<rparr>))))))"

definition new_refund ::
  "env \<Rightarrow> name \<Rightarrow> asset \<Rightarrow> asset \<Rightarrow> chain \<Rightarrow> error + (asset \<times> asset \<times> bool \<times> chain)" where
  "new_refund E from net cpu s =
     core_symbol s (\<lambda>core.
     Inr (if amount net < 0 then set_amount 0 net else net,
       if amount cpu < 0 then set_amount 0 cpu else cpu, True,
       s\<lparr>refunds := fmupd from \<lparr>rr_owner = from, request_time = e_sec E,
         net_amount = (if amount net < 0 then aa_neg (e_assets E) net else asset0 core),
         cpu_amount = (if amount cpu < 0 then aa_neg (e_assets E) cpu else asset0 core)\<rparr> (refunds s)\<rparr>))"

text \<open>The refund request created, changed or dropped; the result tells whether one is left.\<close>

definition update_refund ::
  "env \<Rightarrow> name \<Rightarrow> name \<Rightarrow> asset \<Rightarrow> asset \<Rightarrow> bool \<Rightarrow> chain \<Rightarrow> error + (asset \<times> asset \<times> bool \<times> chain)" where
  "update_refund E from receiver net cpu transfer s =
     (let is_undelegating = i64 (amount net + amount cpu) < 0;
          is_delegating_to_self = (\<not> transfer \<and> from = receiver) in
      if is_delegating_to_self \<or> is_undelegating then
        case fmlookup (refunds s) from of
          Some r \<Rightarrow> change_refund E from net cpu r s
        | None \<Rightarrow> if amount net < 0 \<or> amount cpu < 0 then new_refund E from net cpu s
            else Inr (net, cpu, False, s)
      else Inr (net, cpu, False, s))"

definition settle_refund ::
  "env \<Rightarrow> name \<Rightarrow> name \<Rightarrow> name \<Rightarrow> asset \<Rightarrow> asset \<Rightarrow> bool \<Rightarrow> chain \<Rightarrow> error + chain" where
  "settle_refund E source from receiver net cpu transfer s =
     bindR (update_refund E from receiver net cpu transfer s) (\<lambda>(net', cpu', need_deferred_trx, s1).
     let s2 = emit (Cancel_deferred (uint from)) s1;
         s3 = (if need_deferred_trx
           then emit (Send_deferred (uint from) (Def_refund from) refund_delay_sec) s2 else s2) in
     bindR (aa_plus (e_assets E) net' cpu') (\<lambda>transfer_amount.
     Inr (if 0 < amount transfer_amount
       then emit (Transfer [source] source stake_account transfer_amount) s3 else s3)))"

section \<open>The actions\<close>

definition changebw :: "env \<Rightarrow> name \<Rightarrow> name \<Rightarrow> asset \<Rightarrow> asset \<Rightarrow> bool \<Rightarrow> chain \<Rightarrow> error + chain" where
  "changebw E source receiver net cpu transfer s =
     require_auth E source (
     check (amount net \<noteq> 0 \<or> amount cpu \<noteq> 0) (Bw Should_stake_nonzero) (
     bindR (aa_plus (e_assets E) net cpu) (\<lambda>tot.
     check (max \<bar>amount net\<bar> \<bar>amount cpu\<bar> \<le> \<bar>amount tot\<bar>) (Bw Opposite_signs) (
     let from = (if transfer then receiver else source) in
     bindR (delegate E from receiver net cpu s) (\<lambda>s1.
     bindR (add_totals E receiver net cpu s1) (\<lambda>s2.
     bindR (if source \<noteq> stake_account
       then settle_refund E source from receiver net cpu transfer s2 else Inr s2) (\<lambda>s3.
     bindR (update_rex_stake from s3) (update_voting_power E from (amount tot)))))))))"

definition delegatebw :: "env \<Rightarrow> name \<Rightarrow> name \<Rightarrow> asset \<Rightarrow> asset \<Rightarrow> bool \<Rightarrow> chain \<Rightarrow> error + chain" where
  "delegatebw E from receiver net cpu transfer s =
     core_symbol s (\<lambda>core.
     bindR (aa_leq (e_assets E) (asset0 core) cpu) (\<lambda>c.
     check c (Bw Must_stake_positive) (
     bindR (aa_leq (e_assets E) (asset0 core) net) (\<lambda>n.
     check n (Bw Must_stake_positive) (
     check (0 < i64 (amount net + amount cpu)) (Bw Must_stake_positive) (
     check (\<not> transfer \<or> from \<noteq> receiver) (Bw Transfer_to_self) (
     changebw E from receiver net cpu transfer s)))))))"

definition undelegatebw :: "env \<Rightarrow> name \<Rightarrow> name \<Rightarrow> asset \<Rightarrow> asset \<Rightarrow> chain \<Rightarrow> error + chain" where
  "undelegatebw E from receiver net cpu s =
     core_symbol s (\<lambda>core.
     bindR (aa_leq (e_assets E) (asset0 core) cpu) (\<lambda>c.
     check c (Bw Must_unstake_positive) (
     bindR (aa_leq (e_assets E) (asset0 core) net) (\<lambda>n.
     check n (Bw Must_unstake_positive) (
     check (0 < i64 (amount cpu + amount net)) (Bw Must_unstake_positive) (
     changebw E from receiver (aa_neg (e_assets E) net) (aa_neg (e_assets E) cpu) False s))))))"

definition refund :: "env \<Rightarrow> name \<Rightarrow> chain \<Rightarrow> error + chain" where
  "refund E owner s =
     require_auth E owner (
     fetch (fmlookup (refunds s) owner) (Bw Refund_not_found) (\<lambda>r.
     check ((request_time r + refund_delay_sec) * 1000000 \<le> e_now E) (Bw Refund_not_available) (
     bindR (aa_plus (e_assets E) (net_amount r) (cpu_amount r)) (\<lambda>a.
     Inr (emit (Transfer [stake_account, rr_owner r] stake_account (rr_owner r) a)
       (s\<lparr>refunds := fmdrop owner (refunds s)\<rparr>))))))"

section \<open>What each step leaves alone\<close>

lemma update_rex_stake_same:
  "update_rex_stake v s = Inr t \<Longrightarrow> t = s\<lparr>rexbalance := rexbalance t, voters := voters t\<rparr>"
  by (auto simp: update_rex_stake_def res_simps Let_def split: option.splits if_splits)

lemma add_totals_same: "add_totals E a n c s = Inr t \<Longrightarrow> same_but_quotas s t"
  by (auto simp: add_totals_def res_simps quotas_stored)

lemma delegate_same: "delegate E a b n c s = Inr t \<Longrightarrow> t = s\<lparr>delband := delband t\<rparr>"
  by (auto simp: delegate_def res_simps)

lemma change_refund_Inr:
  assumes "change_refund E frm net cpu r s = Inr (net', cpu', need, t)"
  obtains rn rc r1 where "offset_refund E (net_amount r) net = Inr (rn, net')"
    "offset_refund E (cpu_amount r) cpu = Inr (rc, cpu')"
    "r1 = r\<lparr>request_time := (if amount net < 0 \<or> amount cpu < 0 then e_sec E else request_time r),
       net_amount := rn, cpu_amount := rc\<rparr>"
    "0 \<le> amount rn" "0 \<le> amount rc" "need \<longleftrightarrow> \<not> rr_is_empty r1"
    "t = s\<lparr>refunds := (if rr_is_empty r1 then fmdrop frm (refunds s) else fmupd frm r1 (refunds s))\<rparr>"
proof -
  let ?r0 = "if amount net < 0 \<or> amount cpu < 0 then r\<lparr>request_time := e_sec E\<rparr> else r"
  obtain rn rc where 1: "offset_refund E (net_amount ?r0) net = Inr (rn, net')"
    "offset_refund E (cpu_amount ?r0) cpu = Inr (rc, cpu')"
    and 2: "0 \<le> amount rn" "0 \<le> amount rc"
    and 3: "(Inr (net', cpu', \<not> rr_is_empty (?r0\<lparr>net_amount := rn, cpu_amount := rc\<rparr>),
        s\<lparr>refunds := (if rr_is_empty (?r0\<lparr>net_amount := rn, cpu_amount := rc\<rparr>) then fmdrop frm (refunds s)
          else fmupd frm (?r0\<lparr>net_amount := rn, cpu_amount := rc\<rparr>) (refunds s))\<rparr>)
        :: error + (asset \<times> asset \<times> bool \<times> chain)) = Inr (net', cpu', need, t)"
    using assms unfolding change_refund_def bindR_eq_Inr check_eq_Inr Let_def split_paired_Ex prod.case
    by (elim exE conjE) (rule that, simp_all)
  have r0: "?r0\<lparr>net_amount := rn, cpu_amount := rc\<rparr> =
      r\<lparr>request_time := (if amount net < 0 \<or> amount cpu < 0 then e_sec E else request_time r),
       net_amount := rn, cpu_amount := rc\<rparr>" by simp
  have e: "net_amount ?r0 = net_amount r" "cpu_amount ?r0 = cpu_amount r" by simp_all
  show thesis by (rule that [OF 1 [unfolded e] refl 2]) (use 3 [unfolded r0] in simp_all)
qed

lemma change_refund_same: "change_refund E a n c r s = Inr (n', c', need, t) \<Longrightarrow> t = s\<lparr>refunds := refunds t\<rparr>"
  by (erule change_refund_Inr) simp

lemma new_refund_same: "new_refund E a n c s = Inr (n', c', need, t) \<Longrightarrow> t = s\<lparr>refunds := refunds t\<rparr>"
  by (auto simp: new_refund_def core_symbol_eq_Inr)

lemma update_refund_same:
  "update_refund E a b n c tr s = Inr (n', c', need, t) \<Longrightarrow> t = s\<lparr>refunds := refunds t\<rparr>"
  unfolding update_refund_def Let_def
  by (auto intro: change_refund_same new_refund_same split: if_splits option.splits)

lemma settle_refund_Inr:
  assumes "settle_refund E source from receiver net cpu tr s = Inr t"
  obtains net' cpu' need s1 a ms where "update_refund E from receiver net cpu tr s = Inr (net', cpu', need, s1)"
    "aa_plus (e_assets E) net' cpu' = Inr a" "t = s1\<lparr>outbox := outbox s1 @ ms\<rparr>"
    "\<And>x. net_in x ms = (if 0 < amount a then msg_in x (Transfer [source] source stake_account a) else 0)"
proof -
  let ?c = "Cancel_deferred (uint from)"
  let ?d = "Send_deferred (uint from) (Def_refund from) refund_delay_sec"
  obtain net' cpu' need s1 a where 1: "update_refund E from receiver net cpu tr s = Inr (net', cpu', need, s1)"
    and 2: "aa_plus (e_assets E) net' cpu' = Inr a"
    and t: "Inr (if 0 < amount a then emit (Transfer [source] source stake_account a)
        (if need then emit ?d (emit ?c s1) else emit ?c s1)
      else (if need then emit ?d (emit ?c s1) else emit ?c s1)) = (Inr t :: error + chain)"
    using assms unfolding settle_refund_def bindR_eq_Inr Let_def split_paired_Ex prod.case
    by (elim exE conjE) (rule that, assumption+)
  let ?ms = "[?c] @ (if need then [?d] else []) @ (if 0 < amount a then [Transfer [source] source stake_account a] else [])"
  have "t = s1\<lparr>outbox := outbox s1 @ ?ms\<rparr>" using t by (cases need) (auto simp: emit_def)
  moreover have "net_in x ?ms = (if 0 < amount a then msg_in x (Transfer [source] source stake_account a) else 0)" for x
    by (cases need) (simp_all add: msg_in_def)
  ultimately show thesis by (rule that [OF 1 2])
qed

lemma settle_refund_same:
  assumes "settle_refund E source from receiver net cpu tr s = Inr t"
  shows "t = s\<lparr>refunds := refunds t, outbox := outbox t\<rparr>"
  using assms
proof (rule settle_refund_Inr)
  fix net' cpu' need s1 a ms
  assume 1: "update_refund E from receiver net cpu tr s = Inr (net', cpu', need, s1)"
    and 2: "t = s1\<lparr>outbox := outbox s1 @ ms\<rparr>"
  show ?thesis using update_refund_same [OF 1] 2 by (cases s, cases s1, cases t) simp
qed

lemma changebw_Inr:
  assumes "changebw E source receiver net cpu transfer s = Inr t"
  obtains tot frm s1 s2 s3 s4 where "e_auth E source" "amount net \<noteq> 0 \<or> amount cpu \<noteq> 0"
    "aa_plus (e_assets E) net cpu = Inr tot" "max \<bar>amount net\<bar> \<bar>amount cpu\<bar> \<le> \<bar>amount tot\<bar>"
    "frm = (if transfer then receiver else source)" "delegate E frm receiver net cpu s = Inr s1"
    "add_totals E receiver net cpu s1 = Inr s2"
    "(if source \<noteq> stake_account then settle_refund E source frm receiver net cpu transfer s2 else Inr s2) = Inr s3"
    "update_rex_stake frm s3 = Inr s4" "update_voting_power E frm (amount tot) s4 = Inr t"
  using assms unfolding changebw_def require_auth_eq_Inr check_eq_Inr bindR_eq_Inr Let_def
  by (elim exE conjE) (rule that, assumption+, rule refl, assumption+)

section \<open>The tokens of \<open>eosio.stake\<close>\<close>

definition delegated :: "chain \<Rightarrow> int" where
  "delegated s = table_sum (\<lambda>d. amount (db_net_weight d) + amount (db_cpu_weight d)) (delband s)"

definition refundable :: "chain \<Rightarrow> int" where
  "refundable s = table_sum (\<lambda>r. amount (net_amount r) + amount (cpu_amount r)) (refunds s)"

definition stake_net :: "chain \<Rightarrow> int" where
  "stake_net s = delegated s + refundable s - net_in stake_account (outbox s)"

lemmas stake_nets = stake_net_def delegated_def refundable_def

interpretation stakel: ledger stake_net
proof
  fix t s assume w: "without_votes t = without_votes s"
  have "delband t = delband s" "refunds t = refunds s" "outbox t = outbox s"
    by (fact without_votes_fields [OF w])+
  then show "stake_net t = stake_net s" by (simp add: stake_nets)
qed

lemma stake_moves_same:
  "delband t = delband s \<Longrightarrow> refunds t = refunds s \<Longrightarrow> outbox t = outbox s \<Longrightarrow> stakel.moves 0 s t"
  by (rule stakel.moves_eq) (simp add: stake_nets)

lemma delegate_moves:
  assumes A: "asset_laws (e_assets E)" and ok: "delegate E frm receiver net cpu s = Inr t"
  shows "stakel.moves (amount net + amount cpu) s t"
proof -
  let ?v = "\<lambda>d. amount (db_net_weight d) + amount (db_cpu_weight d)"
  obtain d where t: "t = s\<lparr>delband := (if db_is_empty d then fmdrop (frm, receiver) (delband s)
       else fmupd (frm, receiver) d (delband s))\<rparr>"
    and d: "?v d = row_val ?v (delband s) (frm, receiver) + (amount net + amount cpu)"
    using ok by (cases "fmlookup (delband s) (frm, receiver)")
      (auto simp: delegate_def res_simps asset_laws.plus_amount [OF A])
  have "delegated t = delegated s + (amount net + amount cpu)"
    using d by (auto simp: t delegated_def table_sum_upd table_sum_drop db_is_empty_def)
  then show ?thesis by (intro stakel.moves_eq) (simp add: stake_net_def refundable_def t)
qed

lemma offset_refund_sum:
  assumes A: "asset_laws (e_assets E)" and ok: "offset_refund E a b = Inr (r, left)"
  shows "amount r - amount a + amount b = amount left \<and> 0 \<le> amount left \<and> 0 \<le> amount r"
proof -
  obtain n where n: "aa_minus (e_assets E) a b = Inr n" "amount n = amount a - amount b"
    and l: "(r, left) = (if amount n < 0 then (set_amount 0 n, aa_neg (e_assets E) n) else (n, set_amount 0 b))"
    using ok asset_laws.minus_amount [OF A] by (auto simp: offset_refund_def bindR_eq_Inr)
  show ?thesis using n(2) l asset_laws.neg_amount [OF A] by (cases "amount n < 0") simp_all
qed

text \<open>A change of the refund leaves what has to be transferred to keep the books.\<close>

lemma update_refund_sum:
  assumes A: "asset_laws (e_assets E)" and ok: "update_refund E frm receiver net cpu tr s = Inr (net', cpu', need, t)"
    and sgn: "(0 \<le> amount net \<and> 0 \<le> amount cpu) \<or> (amount net \<le> 0 \<and> amount cpu \<le> 0)"
    and rng: "\<bar>amount net + amount cpu\<bar> \<le> max_amount"
  shows "refundable t = refundable s + (amount net' + amount cpu') - (amount net + amount cpu) \<and>
    0 \<le> amount net' + amount cpu'"
proof -
  have i: "i64 (amount net + amount cpu) = amount net + amount cpu"
    using rng by (simp add: i64_id max_amount_def)
  show ?thesis
  proof (cases "fmlookup (refunds s) frm")
    case None
    then show ?thesis using ok sgn i asset_laws.neg_amount [OF A]
      by (auto simp: update_refund_def new_refund_def Let_def res_simps refundable_def table_sum_upd split: if_splits)
  next
    case (Some r)
    show ?thesis
    proof (cases "(\<not> tr \<and> frm = receiver) \<or> amount net + amount cpu < 0")
      case True
      then have "change_refund E frm net cpu r s = Inr (net', cpu', need, t)"
        using ok Some i by (auto simp: update_refund_def)
      then show ?thesis
      proof (rule change_refund_Inr)
        fix rn rc r1
        assume 1: "offset_refund E (net_amount r) net = Inr (rn, net')" "offset_refund E (cpu_amount r) cpu = Inr (rc, cpu')"
          and r1: "r1 = r\<lparr>request_time := (if amount net < 0 \<or> amount cpu < 0 then e_sec E else request_time r),
            net_amount := rn, cpu_amount := rc\<rparr>"
          and t: "t = s\<lparr>refunds := (if rr_is_empty r1 then fmdrop frm (refunds s) else fmupd frm r1 (refunds s))\<rparr>"
        show ?thesis using offset_refund_sum [OF A 1(1)] offset_refund_sum [OF A 1(2)] Some
          by (auto simp: t r1 refundable_def table_sum_upd table_sum_drop rr_is_empty_def)
      qed
    next
      case False
      then show ?thesis using ok i sgn by (auto simp: update_refund_def)
    qed
  qed
qed

lemma settle_refund_moves:
  assumes A: "asset_laws (e_assets E)" and ok: "settle_refund E source frm receiver net cpu tr s = Inr t"
    and sgn: "(0 \<le> amount net \<and> 0 \<le> amount cpu) \<or> (amount net \<le> 0 \<and> amount cpu \<le> 0)"
    and rng: "\<bar>amount net + amount cpu\<bar> \<le> max_amount" and src: "source \<noteq> stake_account"
  shows "stakel.moves (- (amount net + amount cpu)) s t"
  using ok
proof (rule settle_refund_Inr)
  fix net' cpu' need s1 a ms
  assume 1: "update_refund E frm receiver net cpu tr s = Inr (net', cpu', need, s1)"
    and a: "aa_plus (e_assets E) net' cpu' = Inr a" and t: "t = s1\<lparr>outbox := outbox s1 @ ms\<rparr>"
    and ms: "\<And>x. net_in x ms = (if 0 < amount a then msg_in x (Transfer [source] source stake_account a) else 0)"
  note r = update_refund_sum [OF A 1 sgn rng]
  have f: "delband s1 = delband s" "outbox s1 = outbox s"
    using update_refund_same [OF 1] by (cases s, cases s1, simp)+
  have "amount a = amount net' + amount cpu'" using asset_laws.plus_amount [OF A a] .
  then have "net_in stake_account ms = amount net' + amount cpu'" using r ms src by auto
  then show ?thesis using r f
    by (intro stakel.moves_eq) (simp add: stake_net_def delegated_def refundable_def t)
qed

lemma same_sign:
  assumes "asset_laws (e_assets E)" "aa_plus (e_assets E) net cpu = Inr tot"
    and "max \<bar>amount net\<bar> \<bar>amount cpu\<bar> \<le> \<bar>amount tot\<bar>"
  shows "(0 \<le> amount net \<and> 0 \<le> amount cpu) \<or> (amount net \<le> 0 \<and> amount cpu \<le> 0)"
    and "\<bar>amount net + amount cpu\<bar> \<le> max_amount" and "amount tot = amount net + amount cpu"
proof -
  show t: "amount tot = amount net + amount cpu" using asset_laws.plus_amount [OF assms(1,2)] .
  show "\<bar>amount net + amount cpu\<bar> \<le> max_amount" using asset_laws.plus_ok [OF assms(1,2)] by simp
  show "(0 \<le> amount net \<and> 0 \<le> amount cpu) \<or> (amount net \<le> 0 \<and> amount cpu \<le> 0)"
    using assms(3) t by (simp add: max_def split: if_splits) linarith+
qed

text \<open>\<open>eosio.stake\<close> does not act for itself.\<close>

definition stake_env :: "env \<Rightarrow> bool" where
  "stake_env E \<longleftrightarrow> asset_laws (e_assets E) \<and> \<not> e_auth E stake_account"

lemma quotas_stake_moves: "same_but_quotas s t \<Longrightarrow> stakel.moves 0 s t"
  by (rule stake_moves_same) (simp_all add: same_but_quotas_fields)

lemma update_rex_stake_moves: "update_rex_stake v s = Inr t \<Longrightarrow> stakel.moves 0 s t"
  by (drule update_rex_stake_same, rule stake_moves_same) (cases s, cases t, simp)+

lemma changebw_moves:
  assumes E: "stake_env E" and ok: "changebw E source receiver net cpu transfer s = Inr t"
  shows "stakel.moves 0 s t"
  using ok
proof (rule changebw_Inr)
  fix tot frm s1 s2 s3 s4
  assume au: "e_auth E source" and tot: "aa_plus (e_assets E) net cpu = Inr tot"
    "max \<bar>amount net\<bar> \<bar>amount cpu\<bar> \<le> \<bar>amount tot\<bar>"
    and 1: "delegate E frm receiver net cpu s = Inr s1" and 2: "add_totals E receiver net cpu s1 = Inr s2"
    and 3: "(if source \<noteq> stake_account then settle_refund E source frm receiver net cpu transfer s2 else Inr s2) = Inr s3"
    and 4: "update_rex_stake frm s3 = Inr s4" and 5: "update_voting_power E frm (amount tot) s4 = Inr t"
  have A: "asset_laws (e_assets E)" and src: "source \<noteq> stake_account" using E au by (auto simp: stake_env_def)
  note sg = same_sign [OF A tot]
  let ?d = "amount net + amount cpu"
  have "stakel.moves (- ?d) s2 s3" using settle_refund_moves [OF A _ sg(1,2) src] 3 src by simp
  from stakel.moves_trans [OF stakel.moves_trans_0 [OF delegate_moves [OF A 1]
      quotas_stake_moves [OF add_totals_same [OF 2]]] this]
  have "stakel.moves 0 s s3" by simp
  then show ?thesis
    using update_rex_stake_moves [OF 4] stakel.update_voting_power_moves [OF 5] stakel.moves_0_trans by blast
qed

lemma delegatebw_Inr: "delegatebw E frm receiver net cpu tr s = Inr t \<Longrightarrow> asset_laws (e_assets E) \<Longrightarrow>
   changebw E frm receiver net cpu tr s = Inr t \<and> 0 \<le> amount net \<and> 0 \<le> amount cpu"
  by (auto simp: delegatebw_def res_simps dest: asset_laws.leq_ok)

lemma undelegatebw_Inr: "undelegatebw E frm receiver net cpu s = Inr t \<Longrightarrow> asset_laws (e_assets E) \<Longrightarrow>
   changebw E frm receiver (aa_neg (e_assets E) net) (aa_neg (e_assets E) cpu) False s = Inr t \<and>
   0 \<le> amount net \<and> 0 \<le> amount cpu"
  by (auto simp: undelegatebw_def res_simps dest: asset_laws.leq_ok)

lemma refund_moves:
  assumes A: "asset_laws (e_assets E)" and ok: "refund E owner s = Inr t"
    and own: "\<And>r. fmlookup (refunds s) owner = Some r \<Longrightarrow> rr_owner r \<noteq> stake_account"
  shows "stakel.moves 0 s t"
proof -
  obtain r a where r: "fmlookup (refunds s) owner = Some r" and a: "aa_plus (e_assets E) (net_amount r) (cpu_amount r) = Inr a"
    and t: "t = emit (Transfer [stake_account, rr_owner r] stake_account (rr_owner r) a) (s\<lparr>refunds := fmdrop owner (refunds s)\<rparr>)"
    using ok by (auto simp: refund_def res_simps)
  show ?thesis using own [OF r] r asset_laws.plus_amount [OF A a]
    by (intro stakel.moves_eq) (simp add: t stake_nets table_sum_drop)
qed

section \<open>Well-formed tables\<close>

definition core_of :: "chain \<Rightarrow> symbol option" where
  "core_of s = map_option (\<lambda>m. asym (balance (quote m))) (rammarket s)"

text \<open>
  The rows of both tables stand under their own keys, hold two amounts of the core token that are
  not negative, and are never empty.
\<close>

definition pair_ok :: "symbol option \<Rightarrow> asset \<Rightarrow> asset \<Rightarrow> bool" where
  "pair_ok core a b \<longleftrightarrow> 0 \<le> amount a \<and> 0 \<le> amount b \<and> core = Some (asym a) \<and> core = Some (asym b) \<and>
     \<not> (amount a = 0 \<and> amount b = 0)"

definition delband_ok :: "symbol option \<Rightarrow> (name \<times> name, delegated_bandwidth) fmap \<Rightarrow> bool" where
  "delband_ok core t \<longleftrightarrow> (\<forall>k d. fmlookup t k = Some d \<longrightarrow>
     (db_from d, db_to d) = k \<and> pair_ok core (db_net_weight d) (db_cpu_weight d))"

definition refunds_ok :: "symbol option \<Rightarrow> (name, refund_request) fmap \<Rightarrow> bool" where
  "refunds_ok core t \<longleftrightarrow> (\<forall>k r. fmlookup t k = Some r \<longrightarrow>
     rr_owner r = k \<and> pair_ok core (net_amount r) (cpu_amount r))"

definition bandwidth_ok :: "chain \<Rightarrow> bool" where
  "bandwidth_ok s \<longleftrightarrow> delband_ok (core_of s) (delband s) \<and> refunds_ok (core_of s) (refunds s)"

lemma bandwidth_ok_same:
  "delband t = delband s \<Longrightarrow> refunds t = refunds s \<Longrightarrow> rammarket t = rammarket s \<Longrightarrow> bandwidth_ok t = bandwidth_ok s"
  by (simp add: bandwidth_ok_def core_of_def)

lemma delband_ok_upd:
  "delband_ok core t \<Longrightarrow> (db_from d, db_to d) = k \<Longrightarrow> pair_ok core (db_net_weight d) (db_cpu_weight d) \<Longrightarrow>
     delband_ok core (fmupd k d t)"
  by (auto simp: delband_ok_def)

lemma delband_ok_drop: "delband_ok core t \<Longrightarrow> delband_ok core (fmdrop k t)"
  by (auto simp: delband_ok_def split: if_splits)

lemma refunds_ok_upd:
  "refunds_ok core t \<Longrightarrow> rr_owner r = k \<Longrightarrow> pair_ok core (net_amount r) (cpu_amount r) \<Longrightarrow>
     refunds_ok core (fmupd k r t)"
  by (simp add: refunds_ok_def)

lemma refunds_ok_drop: "refunds_ok core t \<Longrightarrow> refunds_ok core (fmdrop k t)"
  by (auto simp: refunds_ok_def split: if_splits)

lemma delegate_ok:
  assumes A: "asset_laws (e_assets E)" and ok: "delegate E frm receiver net cpu s = Inr t"
    and wf: "delband_ok core (delband s)" and sym: "core = Some (asym net)" "core = Some (asym cpu)"
  shows "delband_ok core (delband t)"
proof -
  obtain d where t: "t = s\<lparr>delband := (if db_is_empty d then fmdrop (frm, receiver) (delband s)
       else fmupd (frm, receiver) d (delband s))\<rparr>" and nn: "0 \<le> amount (db_net_weight d)" "0 \<le> amount (db_cpu_weight d)"
    and d: "db_from d = frm" "db_to d = receiver" "core = Some (asym (db_net_weight d))" "core = Some (asym (db_cpu_weight d))"
  proof (cases "fmlookup (delband s) (frm, receiver)")
    case None
    then show thesis using ok sym by (intro that) (auto simp: delegate_def res_simps)
  next
    case (Some d0)
    then have d0: "(db_from d0, db_to d0) = (frm, receiver)" "core = Some (asym (db_net_weight d0))"
      "core = Some (asym (db_cpu_weight d0))" using wf unfolding delband_ok_def pair_ok_def by blast+
    obtain n c where 1: "aa_plus (e_assets E) (db_net_weight d0) net = Inr n"
      "aa_plus (e_assets E) (db_cpu_weight d0) cpu = Inr c"
      and 2: "0 \<le> amount n" "0 \<le> amount c"
      "t = s\<lparr>delband := (if db_is_empty (d0\<lparr>db_net_weight := n, db_cpu_weight := c\<rparr>) then fmdrop (frm, receiver) (delband s)
        else fmupd (frm, receiver) (d0\<lparr>db_net_weight := n, db_cpu_weight := c\<rparr>) (delband s))\<rparr>"
      using ok Some by (auto simp: delegate_def res_simps)
    have "asym n = asym (db_net_weight d0)" "asym c = asym (db_cpu_weight d0)"
      using asset_laws.plus_ok [OF A 1(1)] asset_laws.plus_ok [OF A 1(2)] by simp_all
    then show thesis using d0 2 by (intro that [OF 2(3)]) simp_all
  qed
  show ?thesis
  proof (cases "db_is_empty d")
    case False
    then have "pair_ok core (db_net_weight d) (db_cpu_weight d)"
      using nn d unfolding pair_ok_def db_is_empty_def by blast
    with wf have "delband_ok core (fmupd (frm, receiver) d (delband s))"
      using d(1,2) by (intro delband_ok_upd) simp_all
    then show ?thesis using False by (simp add: t)
  qed (use delband_ok_drop [OF wf] in \<open>simp add: t\<close>)
qed

lemma offset_refund_sym:
  assumes A: "asset_laws (e_assets E)" and "offset_refund E a b = Inr (r, left)"
  shows "asym r = asym a"
proof -
  obtain n where n: "aa_minus (e_assets E) a b = Inr n"
    and "(r, left) = (if amount n < 0 then (set_amount 0 n, aa_neg (e_assets E) n) else (n, set_amount 0 b))"
    using assms(2) by (auto simp: offset_refund_def bindR_eq_Inr)
  then show ?thesis using asset_laws.minus_ok [OF A n] by (cases "amount n < 0") simp_all
qed

lemma update_refund_ok:
  assumes A: "asset_laws (e_assets E)" and ok: "update_refund E frm receiver net cpu tr s = Inr (net', cpu', need, t)"
    and wf: "refunds_ok (core_of s) (refunds s)" and sym: "core_of s = Some (asym net)" "core_of s = Some (asym cpu)"
  shows "refunds_ok (core_of s) (refunds t)"
proof (cases "fmlookup (refunds s) frm")
  case None
  show ?thesis
  proof (cases "new_refund E frm net cpu s = Inr (net', cpu', need, t) \<and> (amount net < 0 \<or> amount cpu < 0)")
    case True
    then have "t = s\<lparr>refunds := fmupd frm \<lparr>rr_owner = frm, request_time = e_sec E,
         net_amount = (if amount net < 0 then aa_neg (e_assets E) net else asset0 (asym net)),
         cpu_amount = (if amount cpu < 0 then aa_neg (e_assets E) cpu else asset0 (asym net))\<rparr> (refunds s)\<rparr>"
      using sym by (auto simp: new_refund_def core_symbol_eq_Inr core_of_def)
    then show ?thesis using True sym wf
      by (auto intro!: refunds_ok_upd simp: pair_ok_def asset_laws.neg_ok [OF A])
  qed (use ok None wf in \<open>auto simp: update_refund_def Let_def split: if_splits\<close>)
next
  case (Some r)
  show ?thesis
  proof (cases "change_refund E frm net cpu r s = Inr (net', cpu', need, t)")
    case True
    then show ?thesis
    proof (rule change_refund_Inr)
      fix rn rc r1
      assume 1: "offset_refund E (net_amount r) net = Inr (rn, net')" "offset_refund E (cpu_amount r) cpu = Inr (rc, cpu')"
        and 2: "r1 = r\<lparr>request_time := (if amount net < 0 \<or> amount cpu < 0 then e_sec E else request_time r),
            net_amount := rn, cpu_amount := rc\<rparr>" "0 \<le> amount rn" "0 \<le> amount rc"
          "t = s\<lparr>refunds := (if rr_is_empty r1 then fmdrop frm (refunds s) else fmupd frm r1 (refunds s))\<rparr>"
      have o': "rr_owner r = frm" "core_of s = Some (asym (net_amount r))" "core_of s = Some (asym (cpu_amount r))"
        using wf Some unfolding refunds_ok_def pair_ok_def by blast+
      show ?thesis
      proof (cases "rr_is_empty r1")
        case False
        then have "pair_ok (core_of s) (net_amount r1) (cpu_amount r1)" "rr_owner r1 = frm"
          using 2 o' offset_refund_sym [OF A 1(1)] offset_refund_sym [OF A 1(2)]
          by (simp_all add: pair_ok_def rr_is_empty_def)
        with wf have "refunds_ok (core_of s) (fmupd frm r1 (refunds s))" by (intro refunds_ok_upd)
        then show ?thesis using False by (simp add: 2(4))
      qed (use refunds_ok_drop [OF wf] in \<open>simp add: 2(4)\<close>)
    qed
  qed (use ok Some wf in \<open>auto simp: update_refund_def Let_def split: if_splits\<close>)
qed

lemma settle_refund_ok:
  assumes A: "asset_laws (e_assets E)" and ok: "settle_refund E source frm receiver net cpu tr s = Inr t"
    and wf: "bandwidth_ok s" and sym: "core_of s = Some (asym net)" "core_of s = Some (asym cpu)"
  shows "bandwidth_ok t \<and> core_of t = core_of s"
  using ok
proof (rule settle_refund_Inr)
  fix net' cpu' need s1 a ms
  assume 1: "update_refund E frm receiver net cpu tr s = Inr (net', cpu', need, s1)"
    and t: "t = s1\<lparr>outbox := outbox s1 @ ms\<rparr>"
  have f: "delband s1 = delband s" "rammarket s1 = rammarket s"
    using update_refund_same [OF 1] by (cases s, cases s1, simp)+
  have "refunds_ok (core_of s) (refunds s1)"
    by (rule update_refund_ok [OF A 1 _ sym]) (use wf in \<open>simp add: bandwidth_ok_def\<close>)
  then show ?thesis using wf f by (simp add: bandwidth_ok_def core_of_def t)
qed

lemma bandwidth_ok_votes:
  assumes "without_votes t = without_votes s"
  shows "bandwidth_ok t = bandwidth_ok s"
  by (rule bandwidth_ok_same) (fact without_votes_fields [OF assms])+

lemma changebw_ok:
  assumes A: "asset_laws (e_assets E)" and ok: "changebw E source receiver net cpu transfer s = Inr t"
    and wf: "bandwidth_ok s" and sym: "core_of s = Some (asym net)" "core_of s = Some (asym cpu)"
  shows "bandwidth_ok t"
  using ok
proof (rule changebw_Inr)
  fix tot frm s1 s2 s3 s4
  assume 1: "delegate E frm receiver net cpu s = Inr s1" and 2: "add_totals E receiver net cpu s1 = Inr s2"
    and 3: "(if source \<noteq> stake_account then settle_refund E source frm receiver net cpu transfer s2 else Inr s2) = Inr s3"
    and 4: "update_rex_stake frm s3 = Inr s4" and 5: "update_voting_power E frm (amount tot) s4 = Inr t"
  have f: "refunds s1 = refunds s" "rammarket s1 = rammarket s"
    using delegate_same [OF 1] by (cases s, cases s1, simp)+
  have "delband_ok (core_of s) (delband s1)"
    by (rule delegate_ok [OF A 1 _ sym]) (use wf in \<open>simp add: bandwidth_ok_def\<close>)
  then have ok1: "bandwidth_ok s1" "core_of s1 = core_of s"
    using wf f by (simp_all add: bandwidth_ok_def core_of_def)
  note q = same_but_quotas_fields [OF add_totals_same [OF 2]]
  have ok2: "bandwidth_ok s2" "core_of s2 = core_of s"
    using ok1 q bandwidth_ok_same [of s2 s1] by (simp_all add: core_of_def)
  have ok3: "bandwidth_ok s3"
    using 3 ok2 sym settle_refund_ok [OF A, of source frm receiver net cpu transfer s2 s3]
    by (cases "source = stake_account") simp_all
  have "bandwidth_ok s4 = bandwidth_ok s3"
    using update_rex_stake_same [OF 4] by (intro bandwidth_ok_same) (cases s3, cases s4, simp)+
  then show ?thesis
    using ok3 bandwidth_ok_votes [OF update_voting_power_without_votes [OF 5]] by simp
qed

section \<open>Properties\<close>

inductive stake_step :: "env \<Rightarrow> chain \<Rightarrow> chain \<Rightarrow> bool" for E where
  Delegate: "delegatebw E frm receiver net cpu tr s = Inr t \<Longrightarrow> stake_step E s t"
| Undelegate: "undelegatebw E frm receiver net cpu s = Inr t \<Longrightarrow> stake_step E s t"
| Refund: "refund E owner s = Inr t \<Longrightarrow> stake_step E s t"

inductive_cases stake_stepE: "stake_step E s t"

lemma delegatebw_symbols:
  assumes A: "asset_laws (e_assets E)" and "delegatebw E frm receiver net cpu tr s = Inr t"
  shows "core_of s = Some (asym net)" "core_of s = Some (asym cpu)"
  using assms(2) by (auto simp: delegatebw_def res_simps core_of_def dest!: asset_laws.leq_ok [OF A])

lemma undelegatebw_symbols:
  assumes A: "asset_laws (e_assets E)" and "undelegatebw E frm receiver net cpu s = Inr t"
  shows "core_of s = Some (asym net)" "core_of s = Some (asym cpu)"
  using assms(2) by (auto simp: undelegatebw_def res_simps core_of_def dest!: asset_laws.leq_ok [OF A])

lemma refund_ok:
  assumes "refund E owner s = Inr t" "bandwidth_ok s"
  shows "bandwidth_ok t"
  using assms by (auto simp: refund_def res_simps bandwidth_ok_def core_of_def refunds_ok_drop)

lemma stake_step_ok:
  assumes st: "stake_step E s t" and A: "asset_laws (e_assets E)" and wf: "bandwidth_ok s"
  shows "bandwidth_ok t"
  using st
proof (rule stake_stepE)
  fix frm receiver net cpu tr assume 1: "delegatebw E frm receiver net cpu tr s = Inr t"
  then show ?thesis using changebw_ok [OF A _ wf] delegatebw_Inr [OF 1 A] delegatebw_symbols [OF A 1] by blast
next
  fix frm receiver net cpu assume 1: "undelegatebw E frm receiver net cpu s = Inr t"
  show ?thesis
    by (rule changebw_ok [OF A conjunct1 [OF undelegatebw_Inr [OF 1 A]] wf])
      (simp_all add: undelegatebw_symbols [OF A 1] asset_laws.neg_ok [OF A] flip: undelegatebw_symbols(2) [OF A 1])
qed (use refund_ok wf in blast)

inductive stake_run :: "chain \<Rightarrow> chain \<Rightarrow> bool" where
  Stop: "stake_run s s"
| Next: "stake_run s t \<Longrightarrow> stake_env E \<Longrightarrow> stake_step E t u \<Longrightarrow> stake_run s u"

text \<open>
  C37: The tables of delegations and refunds stay well formed: each row stands under its own key and
  holds two amounts of the core token, neither negative and not both zero.
\<close>

theorem bandwidth_tables_typed:
  assumes "stake_run s t" "bandwidth_ok s"
  shows "bandwidth_ok t"
  using assms by induction (auto intro: stake_step_ok simp: stake_env_def)

lemma refund_own:
  assumes "bandwidth_ok s" "e_auth E owner" "stake_env E" "fmlookup (refunds s) owner = Some r"
  shows "rr_owner r \<noteq> stake_account"
  using assms by (auto simp: bandwidth_ok_def refunds_ok_def stake_env_def)

lemma stake_step_moves:
  assumes E: "stake_env E" and st: "stake_step E s t" and wf: "bandwidth_ok s"
  shows "stakel.moves 0 s t"
proof -
  have A: "asset_laws (e_assets E)" using E by (simp add: stake_env_def)
  show ?thesis
    using st
  proof (rule stake_stepE)
    fix owner assume 1: "refund E owner s = Inr t"
    then have "e_auth E owner" by (simp add: refund_def res_simps)
    then show ?thesis using refund_moves [OF A 1] refund_own [OF wf _ E] by blast
  qed (use changebw_moves [OF E] delegatebw_Inr [OF _ A] undelegatebw_Inr [OF _ A] in blast)+
qed

lemma stake_run_ok: "stake_run s t \<Longrightarrow> bandwidth_ok s \<Longrightarrow> bandwidth_ok t"
  by (induction rule: stake_run.induct) (auto intro: stake_step_ok simp: stake_env_def)

text \<open>
  C5: Over any run of delegations, withdrawals and refunds, what is staked and what waits for a
  refund together change by exactly what \<open>eosio.stake\<close> receives less what it pays.
\<close>

theorem stake_books_balance:
  assumes "stake_run s t" "bandwidth_ok s"
  shows "i64 (stake_net t) = i64 (stake_net s)"
  using assms
proof induction
  case (Next s t E u)
  have "bandwidth_ok t" using stake_run_ok Next.hyps(1) Next.prems by blast
  then show ?case using Next.IH [OF Next.prems] stake_step_moves [OF Next.hyps(2,3)]
    by (simp add: stakel.moves_def)
qed simp

section \<open>Refunds wait\<close>

lemma settle_refund_outbox:
  assumes "settle_refund E source frm receiver net cpu tr s = Inr t"
  obtains net' cpu' need s1 a where "update_refund E frm receiver net cpu tr s = Inr (net', cpu', need, s1)"
    "aa_plus (e_assets E) net' cpu' = Inr a" "refunds t = refunds s1" "delband t = delband s"
    "\<And>x. net_in x (outbox t) = net_in x (outbox s) + (if 0 < amount a then msg_in x (Transfer [source] source stake_account a) else 0)"
  using assms
proof (rule settle_refund_Inr)
  fix net' cpu' need s1 a ms
  assume 1: "update_refund E frm receiver net cpu tr s = Inr (net', cpu', need, s1)"
    "aa_plus (e_assets E) net' cpu' = Inr a" and t: "t = s1\<lparr>outbox := outbox s1 @ ms\<rparr>"
    and ms: "\<And>x. net_in x ms = (if 0 < amount a then msg_in x (Transfer [source] source stake_account a) else 0)"
  have "delband s1 = delband s" "outbox s1 = outbox s" using update_refund_same [OF 1(1)] by (cases s, cases s1, simp)+
  then show thesis using that [OF 1] t ms by simp
qed

text \<open>What \<open>changebw\<close> does to the two tables and to the account's tokens.\<close>

lemma changebw_effect:
  assumes "changebw E source receiver net cpu transfer s = Inr t" "source \<noteq> stake_account"
  obtains frm s1 s2 net' cpu' need u a where "frm = (if transfer then receiver else source)"
    "delegate E frm receiver net cpu s = Inr s1" "refunds s2 = refunds s"
    "update_refund E frm receiver net cpu transfer s2 = Inr (net', cpu', need, u)"
    "aa_plus (e_assets E) net' cpu' = Inr a" "delband t = delband s1" "refunds t = refunds u"
    "\<And>x. net_in x (outbox t) = net_in x (outbox s) +
       (if 0 < amount a then msg_in x (Transfer [source] source stake_account a) else 0)"
  using assms(1)
proof (rule changebw_Inr)
  fix tot frm s1 s2 s3 s4
  assume 0: "frm = (if transfer then receiver else source)"
    and 1: "delegate E frm receiver net cpu s = Inr s1" and 2: "add_totals E receiver net cpu s1 = Inr s2"
    and 3: "(if source \<noteq> stake_account then settle_refund E source frm receiver net cpu transfer s2 else Inr s2) = Inr s3"
    and 4: "update_rex_stake frm s3 = Inr s4" and 5: "update_voting_power E frm (amount tot) s4 = Inr t"
  have s1: "refunds s1 = refunds s" "outbox s1 = outbox s"
    using delegate_same [OF 1] by (cases s, cases s1, simp)+
  note s2 = same_but_quotas_fields [OF add_totals_same [OF 2]]
  have s4: "delband s4 = delband s3" "refunds s4 = refunds s3" "outbox s4 = outbox s3"
    using update_rex_stake_same [OF 4] by (cases s3, cases s4, simp)+
  note t = without_votes_fields [OF update_voting_power_without_votes [OF 5]]
  have "settle_refund E source frm receiver net cpu transfer s2 = Inr s3" using 3 assms(2) by simp
  then show thesis
  proof (rule settle_refund_outbox)
    fix net' cpu' need u a
    assume s3: "update_refund E frm receiver net cpu transfer s2 = Inr (net', cpu', need, u)"
      "aa_plus (e_assets E) net' cpu' = Inr a" "refunds s3 = refunds u" "delband s3 = delband s2"
      "\<And>x. net_in x (outbox s3) = net_in x (outbox s2) +
         (if 0 < amount a then msg_in x (Transfer [source] source stake_account a) else 0)"
    show thesis
      by (rule that [OF 0 1 _ s3(1,2)]) (simp_all add: s1 s2 s3 s4 t)
  qed
qed

lemma update_refund_request:
  assumes A: "asset_laws (e_assets E)" and ok: "update_refund E a b net cpu tr s = Inr (net', cpu', need, t)"
    and neg: "amount net \<le> 0" "amount cpu \<le> 0" "amount net + amount cpu < 0"
    and rng: "\<bar>amount net + amount cpu\<bar> \<le> max_amount" and wf: "refunds_ok core (refunds s)"
  shows "\<exists>r. fmlookup (refunds t) a = Some r \<and> request_time r = e_sec E"
proof -
  have i: "i64 (amount net + amount cpu) < 0" using rng neg(3) by (simp add: i64_id max_amount_def)
  have n: "amount net < 0 \<or> amount cpu < 0" using neg by auto
  show ?thesis
  proof (cases "fmlookup (refunds s) a")
    case None
    then have "new_refund E a net cpu s = Inr (net', cpu', need, t)" using ok i n by (simp add: update_refund_def)
    then show ?thesis by (auto simp: new_refund_def core_symbol_eq_Inr)
  next
    case (Some r)
    then have "change_refund E a net cpu r s = Inr (net', cpu', need, t)" using ok i by (simp add: update_refund_def)
    then show ?thesis
    proof (rule change_refund_Inr)
      fix rn rc r1
      assume 1: "offset_refund E (net_amount r) net = Inr (rn, net')" "offset_refund E (cpu_amount r) cpu = Inr (rc, cpu')"
        and r1: "r1 = r\<lparr>request_time := (if amount net < 0 \<or> amount cpu < 0 then e_sec E else request_time r),
            net_amount := rn, cpu_amount := rc\<rparr>"
        and t: "t = s\<lparr>refunds := (if rr_is_empty r1 then fmdrop a (refunds s) else fmupd a r1 (refunds s))\<rparr>"
      have "0 \<le> amount (net_amount r)" "0 \<le> amount (cpu_amount r)"
        using wf Some unfolding refunds_ok_def pair_ok_def by blast+
      then have "\<not> rr_is_empty r1"
        using offset_refund_sum [OF A 1(1)] offset_refund_sum [OF A 1(2)] neg by (simp add: r1 rr_is_empty_def)
      then show ?thesis using n by (simp add: t r1)
    qed
  qed
qed

lemma undelegate_request:
  assumes A: "asset_laws (e_assets E)" and ok: "undelegatebw E a receiver net cpu s = Inr t"
    and a: "a \<noteq> stake_account" and wf: "bandwidth_ok s"
  shows "\<exists>r. fmlookup (refunds t) a = Some r \<and> request_time r = e_sec E"
proof -
  let ?n = "aa_neg (e_assets E) net" and ?c = "aa_neg (e_assets E) cpu"
  have c: "changebw E a receiver ?n ?c False s = Inr t" and nn: "0 \<le> amount net" "0 \<le> amount cpu"
    using undelegatebw_Inr [OF ok A] by auto
  have m: "amount ?n = - amount net" "amount ?c = - amount cpu" by (simp_all add: asset_laws.neg_amount [OF A])
  obtain tot where tot: "aa_plus (e_assets E) ?n ?c = Inr tot" "amount net \<noteq> 0 \<or> amount cpu \<noteq> 0"
    using c m by (auto elim: changebw_Inr)
  have rng: "\<bar>amount ?n + amount ?c\<bar> \<le> max_amount" using asset_laws.plus_ok [OF A tot(1)] by simp
  show ?thesis
    using c a
  proof (rule changebw_effect)
    fix frm s1 s2 net' cpu' need u assume 0: "frm = (if False then receiver else a)" "refunds s2 = refunds s"
      "update_refund E frm receiver ?n ?c False s2 = Inr (net', cpu', need, u)" "refunds t = refunds u"
    have "\<exists>r. fmlookup (refunds u) frm = Some r \<and> request_time r = e_sec E"
      by (rule update_refund_request [OF A 0(3), where core = "core_of s"])
        (use nn tot(2) rng m wf 0(2) in \<open>auto simp: bandwidth_ok_def\<close>)
    then show ?thesis using 0 by simp
  qed
qed

text \<open>
  C38: Stake that is withdrawn can be collected three days later at the earliest: as long as the
  request made then stands, a refund before that time fails.
\<close>

theorem refund_waits:
  assumes "asset_laws (e_assets E)" "undelegatebw E a receiver net cpu s = Inr t"
    and "a \<noteq> stake_account" "bandwidth_ok s"
    and "refunds u = refunds t" "refund E' a u = Inr v"
  shows "(e_sec E + 259200) * 1000000 \<le> e_now E'"
  using undelegate_request [OF assms(1-4)] assms(5,6) by (auto simp: refund_def res_simps refund_delay_sec_def)

section \<open>Witnesses\<close>

definition stake_sample_env :: env where
  "stake_sample_env = sample_env\<lparr>e_auth := (\<lambda>a. a = 7)\<rparr>"

definition later_env :: env where
  "later_env = stake_sample_env\<lparr>e_now := 1600259200000000, e_sec := 1600259200\<rparr>"

lemma stake_sample_env: "stake_env stake_sample_env" "asset_laws (e_assets stake_sample_env)"
  "stake_env later_env" "e_now later_env = 1600259200000000" "e_sec stake_sample_env = 1600000000"
  using sample_laws by (simp_all add: stake_env_def later_env_def stake_sample_env_def sample_env_def account_defs)

lemma sample_bandwidth_ok: "bandwidth_ok sample_chain"
  by (simp add: bandwidth_ok_def delband_ok_def refunds_ok_def sample_chain_def initial_chain_def)

text \<open>Account 7 stakes for itself, withdraws a part and collects it.\<close>

definition stake_story :: "error + (chain \<times> chain \<times> chain)" where
  "stake_story =
     bindR (delegatebw stake_sample_env 7 7 (sys 100) (sys 50) False sample_chain) (\<lambda>s1.
     bindR (undelegatebw stake_sample_env 7 7 (sys 30) (sys 0) s1) (\<lambda>s2.
     bindR (refund later_env 7 s2) (\<lambda>s3. Inr (s1, s2, s3))))"

lemma stake_story:
  obtains s1 s2 s3 where "delegatebw stake_sample_env 7 7 (sys 100) (sys 50) False sample_chain = Inr s1"
    "undelegatebw stake_sample_env 7 7 (sys 30) (sys 0) s1 = Inr s2" "refund later_env 7 s2 = Inr s3"
    "stake_run sample_chain s1" "stake_run sample_chain s3"
proof -
  have "succeeds stake_story" by code_simp
  then obtain y where "stake_story = Inr y" by (rule succeedsE)
  then obtain s1 s2 s3 where 1: "delegatebw stake_sample_env 7 7 (sys 100) (sys 50) False sample_chain = Inr s1"
    "undelegatebw stake_sample_env 7 7 (sys 30) (sys 0) s1 = Inr s2" "refund later_env 7 s2 = Inr s3"
    by (auto simp: stake_story_def bindR_eq_Inr)
  have r1: "stake_run sample_chain s1" by (rule Next [OF Stop stake_sample_env(1) Delegate [OF 1(1)]])
  then have "stake_run sample_chain s3"
    by (rule Next [OF Next [OF _ stake_sample_env(1) Undelegate [OF 1(2)]] stake_sample_env(3) Refund [OF 1(3)]])
  with 1 r1 show thesis by (rule that)
qed

theorem bandwidth_tables_typed_witness:
  "\<exists>s t. delegatebw stake_sample_env 7 7 (sys 100) (sys 50) False sample_chain = Inr s \<and>
    undelegatebw stake_sample_env 7 7 (sys 30) (sys 0) s = Inr t \<and> bandwidth_ok s"
  by (rule stake_story) (use bandwidth_tables_typed [OF _ sample_bandwidth_ok] in blast)

theorem stake_books_balance_witness:
  "\<exists>s1 s2 s3. delegatebw stake_sample_env 7 7 (sys 100) (sys 50) False sample_chain = Inr s1 \<and>
    undelegatebw stake_sample_env 7 7 (sys 30) (sys 0) s1 = Inr s2 \<and> refund later_env 7 s2 = Inr s3 \<and>
    i64 (stake_net s3) = i64 (stake_net sample_chain)"
  by (rule stake_story) (use stake_books_balance [OF _ sample_bandwidth_ok] in blast)

theorem refund_waits_witness:
  "(1600000000 + 259200) * 1000000 \<le> e_now later_env"
proof (rule stake_story)
  fix s1 s2 s3
  assume 1: "undelegatebw stake_sample_env 7 7 (sys 30) (sys 0) s1 = Inr s2" "refund later_env 7 s2 = Inr s3"
    and r: "stake_run sample_chain s1"
  have a: "(7 :: name) \<noteq> stake_account" by (simp add: account_defs)
  from refund_waits [OF stake_sample_env(2) 1(1) a stake_run_ok [OF r sample_bandwidth_ok] refl 1(2)]
  show ?thesis by (simp add: stake_sample_env(5))
qed

end
