(* ===== verification/Ram.thy ===== *)
theory Ram
  imports PoolChannel Bancor
begin

text \<open>
  The RAM market (\<open>delegate_bandwidth.cpp\<close>, and \<open>setram\<close>, \<open>update_ram_supply\<close>, \<open>setramrate\<close> of
  \<open>eosio.system.cpp\<close>): accounts buy and sell quota at the Bancor price, a fee of half a percent is
  channelled away, and the supply grows with every block. The lemmas show that three books stay in
  balance: bytes for sale and bytes sold make up the supply, the reserved bytes are the accounts'
  quotas, and the staked tokens are those \<open>eosio.ram\<close> holds.
\<close>

section \<open>The supply\<close>

text \<open>
  The new bytes are a product of 32-bit and 16-bit unsigned integers, computed in 32 bits.
\<close>

definition new_ram :: "env \<Rightarrow> chain \<Rightarrow> int" where
  "new_ram E s = u32 (u32 (e_slot E - last_ram_increase (gstate2 s)) * new_ram_per_block (gstate2 s))"

definition grow_ram :: "int \<Rightarrow> exchange_state \<Rightarrow> exchange_state" where
  "grow_ram n m = set_base ((balance (base m))\<lparr>amount := i64 (amount (balance (base m)) + n)\<rparr>) m"

definition update_ram_supply :: "env \<Rightarrow> chain \<Rightarrow> error + chain" where
  "update_ram_supply E s =
     (if e_slot E \<le> last_ram_increase (gstate2 s) then Inr s
      else
        fetch (rammarket s) No_row (\<lambda>m.
        Inr (s\<lparr>gstate := (gstate s)\<lparr>max_ram_size := u64 (max_ram_size (gstate s) + new_ram E s)\<rparr>,
          rammarket := Some (grow_ram (new_ram E s) m),
          gstate2 := (gstate2 s)\<lparr>last_ram_increase := e_slot E\<rparr>\<rparr>)))"

definition setram :: "env \<Rightarrow> int \<Rightarrow> chain \<Rightarrow> error + chain" where
  "setram E new_size s =
     require_auth E (e_self E) (
     check (max_ram_size (gstate s) < new_size) (Sys Ram_only_increase) (
     check (new_size < 1024 * 1024 * 1024 * 1024 * 1024) (Sys Ram_unrealistic) (
     check (total_ram_bytes_reserved (gstate s) < new_size) (Sys Ram_below_reserved) (
     let delta = i64 (i64 new_size - i64 (max_ram_size (gstate s))) in
     fetch (rammarket s) No_row (\<lambda>m.
     Inr (s\<lparr>rammarket := Some (grow_ram delta m), gstate := (gstate s)\<lparr>max_ram_size := new_size\<rparr>\<rparr>))))))"

definition setramrate :: "env \<Rightarrow> int \<Rightarrow> chain \<Rightarrow> error + chain" where
  "setramrate E bytes_per_block s =
     require_auth E (e_self E) (
     bindR (update_ram_supply E s) (\<lambda>s1.
     Inr (s1\<lparr>gstate2 := (gstate2 s1)\<lparr>new_ram_per_block := bytes_per_block\<rparr>\<rparr>)))"

section \<open>Buying and selling\<close>

text \<open>Half a percent, rounded up.\<close>

definition ram_fee :: "int \<Rightarrow> int" where
  "ram_fee n = tdiv (i64 (n + 199)) 200"

text \<open>The market's row exchanged by a conversion.\<close>

definition trade :: "env \<Rightarrow> asset \<Rightarrow> symbol \<Rightarrow> error \<Rightarrow> chain \<Rightarrow> error + (asset \<times> chain)" where
  "trade E frm to e s =
     fetch (rammarket s) e (\<lambda>m.
     bindR (direct_convert E m frm to) (\<lambda>(m', out). Inr (out, s\<lparr>rammarket := Some m'\<rparr>)))"

text \<open>The RAM limit of an account that is not managed is its quota and the gift.\<close>

definition follow_quota :: "name \<Rightarrow> chain \<Rightarrow> chain" where
  "follow_quota a s =
     (if account_flag s a ram_managed then s
      else case (fmlookup (userres s) a, get_resource_limits s a) of
        (Some r, _, net, cpu) \<Rightarrow> set_resource_limits a (i64 (ram_bytes r + ram_gift_bytes)) net cpu s
      | (None, _) \<Rightarrow> s)"

definition add_quota :: "name \<Rightarrow> int \<Rightarrow> symbol \<Rightarrow> chain \<Rightarrow> chain" where
  "add_quota a bytes core s =
     s\<lparr>userres := fmupd a (case fmlookup (userres s) a of
         None \<Rightarrow> \<lparr>ur_owner = a, ur_net_weight = asset0 core, ur_cpu_weight = asset0 core, ram_bytes = bytes\<rparr>
       | Some r \<Rightarrow> r\<lparr>ram_bytes := i64 (ram_bytes r + bytes)\<rparr>) (userres s)\<rparr>"

definition reserve_ram :: "int \<Rightarrow> int \<Rightarrow> chain \<Rightarrow> chain" where
  "reserve_ram bytes tokens s =
     s\<lparr>gstate := (gstate s)\<lparr>
       total_ram_bytes_reserved := u64 (total_ram_bytes_reserved (gstate s) + bytes),
       total_ram_stake := i64 (total_ram_stake (gstate s) + tokens)\<rparr>\<rparr>"

definition buyram :: "env \<Rightarrow> name \<Rightarrow> name \<Rightarrow> asset \<Rightarrow> chain \<Rightarrow> error + chain" where
  "buyram E payer receiver quant s =
     require_auth E payer (
     bindR (update_ram_supply E s) (\<lambda>s1.
     core_symbol s1 (\<lambda>core.
     check (asym quant = core) (Ram Must_buy_with_core_token) (
     check (0 < amount quant) (Ram Must_purchase_positive) (
     let fee = ram_fee (amount quant);
         after_fee = set_amount (i64 (amount quant - fee)) quant;
         s2 = emit (Transfer [payer, ram_account] payer ram_account after_fee) s1 in
     bindR (if 0 < fee then
         channel_to_rex_or_pools E ramfee_account (set_amount fee quant) False
           (emit (Transfer [payer] payer ramfee_account (set_amount fee quant)) s2)
       else Inr s2) (\<lambda>s3.
     bindR (trade E after_fee ram_symbol No_row s3) (\<lambda>(out, s4).
     check (0 < amount out) (Ram Must_reserve_positive) (
     Inr (follow_quota receiver (add_quota receiver (amount out) core
       (reserve_ram (amount out) (amount after_fee) s4)))))))))))"

definition buyrambytes :: "env \<Rightarrow> name \<Rightarrow> name \<Rightarrow> int \<Rightarrow> chain \<Rightarrow> error + chain" where
  "buyrambytes E payer receiver bytes s =
     fetch (rammarket s) No_row (\<lambda>m.
     bindR (get_bancor_input (amount (balance (base m))) (amount (balance (quote m))) bytes) (\<lambda>cost.
     bindR (to_i64 Bad_conversion (of_i cost / f64_lit 995 1000)) (\<lambda>cost_plus_fee.
     core_symbol s (\<lambda>core.
     bindR (aa_make (e_assets E) cost_plus_fee core) (\<lambda>quant.
     buyram E payer receiver quant s)))))"

definition sellram :: "env \<Rightarrow> name \<Rightarrow> int \<Rightarrow> chain \<Rightarrow> error + chain" where
  "sellram E account bytes s =
     require_auth E account (
     bindR (update_ram_supply E s) (\<lambda>s1.
     check (0 < bytes) (Ram Cannot_sell_negative) (
     fetch (fmlookup (userres s1) account) (Ram No_resource_row) (\<lambda>r.
     check (bytes \<le> ram_bytes r) (Ram Insufficient_quota) (
     core_symbol s1 (\<lambda>core.
     bindR (aa_make (e_assets E) bytes ram_symbol) (\<lambda>q.
     bindR (trade E q core No_row s1) (\<lambda>(out, s2).
     check (1 < amount out) (Ram Sell_amount_too_low) (
     let s3 = reserve_ram (- bytes) (- amount out) s2 in
     check (0 \<le> total_ram_stake (gstate s3)) (Ram Unstake_more_than_staked) (
     let s4 = follow_quota account (s3\<lparr>userres :=
           fmupd account (r\<lparr>ram_bytes := i64 (ram_bytes r - bytes)\<rparr>) (userres s3)\<rparr>);
         s5 = emit (Transfer [ram_account, account] ram_account account out) s4;
         fee = ram_fee (amount out) in
     if 0 < fee then
       bindR (aa_make (e_assets E) fee core) (\<lambda>fee_asset.
       channel_to_rex_or_pools E ramfee_account fee_asset False
         (emit (Transfer [account] account ramfee_account fee_asset) s5))
     else Inr s5))))))))))"

section \<open>The books of the market\<close>

definition for_sale :: "chain \<Rightarrow> int" where
  "for_sale s = (case rammarket s of None \<Rightarrow> 0 | Some m \<Rightarrow> amount (balance (base m)))"

definition market_tokens :: "chain \<Rightarrow> int" where
  "market_tokens s = (case rammarket s of None \<Rightarrow> 0 | Some m \<Rightarrow> amount (balance (quote m)))"

definition quotas :: "chain \<Rightarrow> int" where
  "quotas s = table_sum ram_bytes (userres s)"

text \<open>
  Four ledgers: the bytes for sale and sold against the supply; the bytes reserved against the
  quotas; the tokens staked, and the tokens of the market, against those of \<open>eosio.ram\<close>.
\<close>

definition supply_net :: "chain \<Rightarrow> int" where
  "supply_net s = for_sale s + quotas s - max_ram_size (gstate s)"

definition reserved_net :: "chain \<Rightarrow> int" where
  "reserved_net s = total_ram_bytes_reserved (gstate s) - quotas s"

definition ram_stake_net :: "chain \<Rightarrow> int" where
  "ram_stake_net s = total_ram_stake (gstate s) - net_in ram_account (outbox s)"

definition market_net :: "chain \<Rightarrow> int" where
  "market_net s = market_tokens s - net_in ram_account (outbox s)"

lemmas ram_nets = supply_net_def reserved_net_def ram_stake_net_def market_net_def for_sale_def
  market_tokens_def quotas_def

lemma votes_leave_ram:
  assumes "without_votes t = without_votes s"
  shows "rammarket t = rammarket s" "userres t = userres s" "outbox t = outbox s"
    "max_ram_size (gstate t) = max_ram_size (gstate s)"
    "total_ram_bytes_reserved (gstate t) = total_ram_bytes_reserved (gstate s)"
    "total_ram_stake (gstate t) = total_ram_stake (gstate s)"
  by (fact without_votes_fields [OF assms])+

interpretation supplyl: ledger supply_net
proof
  fix t s assume w: "without_votes t = without_votes s"
  show "supply_net t = supply_net s" unfolding ram_nets votes_leave_ram [OF w] ..
qed

interpretation reservedl: ledger reserved_net
proof
  fix t s assume w: "without_votes t = without_votes s"
  show "reserved_net t = reserved_net s" unfolding ram_nets votes_leave_ram [OF w] ..
qed

interpretation ramstakel: ledger ram_stake_net
proof
  fix t s assume w: "without_votes t = without_votes s"
  show "ram_stake_net t = ram_stake_net s" unfolding ram_nets votes_leave_ram [OF w] ..
qed

interpretation marketl: ledger market_net
proof
  fix t s assume w: "without_votes t = without_votes s"
  show "market_net t = market_net s" unfolding ram_nets votes_leave_ram [OF w] ..
qed

definition ram_moves :: "int \<Rightarrow> int \<Rightarrow> int \<Rightarrow> int \<Rightarrow> chain \<Rightarrow> chain \<Rightarrow> bool" where
  "ram_moves a b c d s t \<longleftrightarrow>
     supplyl.moves a s t \<and> reservedl.moves b s t \<and> ramstakel.moves c s t \<and> marketl.moves d s t"

lemma ram_moves_add:
  "ram_moves a b c d s t \<Longrightarrow> ram_moves a' b' c' d' t u \<Longrightarrow> ram_moves (a + a') (b + b') (c + c') (d + d') s u"
  unfolding ram_moves_def
  by (blast intro: supplyl.moves_trans reservedl.moves_trans ramstakel.moves_trans marketl.moves_trans)

lemma ram_moves_refl [simp]: "ram_moves 0 0 0 0 s s"
  by (simp add: ram_moves_def)

lemma ram_moves_same:
  assumes "rammarket t = rammarket s" "userres t = userres s" "gstate t = gstate s"
    and "net_in ram_account (outbox t) = net_in ram_account (outbox s) + n"
  shows "ram_moves 0 0 (- n) (- n) s t"
  using assms unfolding ram_moves_def
  by (intro conjI supplyl.moves_eq reservedl.moves_eq ramstakel.moves_eq marketl.moves_eq) (simp_all add: ram_nets)

lemma ram_moves_emit: "ram_moves 0 0 (- msg_in ram_account m) (- msg_in ram_account m) s (emit m s)"
  by (rule ram_moves_same) simp_all

lemma add_quota_moves: "ram_moves n (- n) 0 0 s (add_quota a n core s)"
proof -
  obtain k where k: "table_sum ram_bytes (userres (add_quota a n core s)) =
      table_sum ram_bytes (userres s) + n + k * 18446744073709551616"
  proof (cases "fmlookup (userres s) a")
    case None
    then show ?thesis using that [of 0] by (simp add: add_quota_def table_sum_upd)
  next
    case (Some r)
    obtain k where "i64 (ram_bytes r + n) = ram_bytes r + n + k * 18446744073709551616" using i64_off by blast
    then show ?thesis using that [of k] Some by (simp add: add_quota_def table_sum_upd)
  qed
  have f: "rammarket (add_quota a n core s) = rammarket s" "gstate (add_quota a n core s) = gstate s"
    "outbox (add_quota a n core s) = outbox s" by (simp_all add: add_quota_def)
  show ?thesis
    unfolding ram_moves_def supplyl.moves_def reservedl.moves_def
    by (intro conjI i64_shift [where k = k] i64_shift [where k = "- k"] ramstakel.moves_eq marketl.moves_eq)
      (simp_all add: ram_nets k f)
qed

lemma reserve_ram_moves: "ram_moves 0 n m 0 s (reserve_ram n m s)"
proof -
  obtain k where k: "u64 (total_ram_bytes_reserved (gstate s) + n) =
      total_ram_bytes_reserved (gstate s) + n + k * 18446744073709551616" using u64_off by blast
  obtain l where l: "i64 (total_ram_stake (gstate s) + m) =
      total_ram_stake (gstate s) + m + l * 18446744073709551616" using i64_off by blast
  show ?thesis
    unfolding ram_moves_def reservedl.moves_def ramstakel.moves_def
    by (intro conjI i64_shift [where k = k] i64_shift [where k = l] supplyl.moves_eq marketl.moves_eq)
      (simp_all add: ram_nets reserve_ram_def k l)
qed

lemma follow_quota_moves: "ram_moves 0 0 0 0 s (follow_quota a s)"
  by (rule ram_moves_same [where n = 0, simplified])
    (auto simp: follow_quota_def set_resource_limits_def split: option.split prod.split)

lemma fees_moves:
  "same_but_fees frm s t \<Longrightarrow> frm \<noteq> ram_account \<Longrightarrow> ram_moves 0 0 0 0 s t"
  by (rule ram_moves_same [where n = 0, simplified])
    (simp_all add: same_but_fees_fields same_but_fees_net account_defs)

lemma grow_ram_simps [simp]:
  "balance (base (grow_ram n m)) = (balance (base m))\<lparr>amount := i64 (amount (balance (base m)) + n)\<rparr>"
  "quote (grow_ram n m) = quote m"
  by (simp_all add: grow_ram_def set_base_def)

lemma update_ram_supply_moves:
  assumes "update_ram_supply E s = Inr t"
  shows "ram_moves 0 0 0 0 s t"
proof (cases "e_slot E \<le> last_ram_increase (gstate2 s)")
  case False
  obtain m where m: "rammarket s = Some m"
    and t: "t = s\<lparr>gstate := (gstate s)\<lparr>max_ram_size := u64 (max_ram_size (gstate s) + new_ram E s)\<rparr>,
          rammarket := Some (grow_ram (new_ram E s) m),
          gstate2 := (gstate2 s)\<lparr>last_ram_increase := e_slot E\<rparr>\<rparr>"
    using assms False by (auto simp: update_ram_supply_def fetch_eq_Inr)
  obtain k where k: "u64 (max_ram_size (gstate s) + new_ram E s) =
      max_ram_size (gstate s) + new_ram E s + k * 18446744073709551616" using u64_off by blast
  obtain l where l: "i64 (amount (balance (base m)) + new_ram E s) =
      amount (balance (base m)) + new_ram E s + l * 18446744073709551616" using i64_off by blast
  show ?thesis
    unfolding ram_moves_def supplyl.moves_def
    by (intro conjI i64_shift [where k = "l - k"] reservedl.moves_eq ramstakel.moves_eq marketl.moves_eq)
      (simp_all add: ram_nets t m k l)
qed (use assms in \<open>simp add: update_ram_supply_def\<close>)

lemma setram_moves:
  assumes "setram E n s = Inr t"
  shows "ram_moves 0 0 0 0 s t"
proof -
  let ?d = "i64 (i64 n - i64 (max_ram_size (gstate s)))"
  obtain m where m: "rammarket s = Some m"
    and t: "t = s\<lparr>rammarket := Some (grow_ram ?d m), gstate := (gstate s)\<lparr>max_ram_size := n\<rparr>\<rparr>"
    using assms by (auto simp: setram_def res_simps Let_def)
  obtain l where l: "i64 (amount (balance (base m)) + (n - max_ram_size (gstate s))) =
      amount (balance (base m)) + (n - max_ram_size (gstate s)) + l * 18446744073709551616"
    using i64_off by blast
  show ?thesis
    unfolding ram_moves_def supplyl.moves_def
    by (intro conjI i64_shift [where k = l] reservedl.moves_eq ramstakel.moves_eq marketl.moves_eq)
      (simp_all add: ram_nets t m l)
qed

lemma direct_convert_Inr:
  assumes "asset_laws (e_assets E)" "direct_convert E m frm to = Inr (m', out)"
  obtains (sell) "asym frm = asym (balance (base m))" "to = asym (balance (quote m))"
      "get_bancor_output (amount (balance (base m))) (amount (balance (quote m))) (amount frm) = Inr (amount out)"
      "asym out = to"
      "amount (balance (base m')) = amount (balance (base m)) + amount frm"
      "amount (balance (quote m')) = amount (balance (quote m)) - amount out"
    | (buy) "asym frm = asym (balance (quote m))" "to = asym (balance (base m))"
      "asym frm \<noteq> asym (balance (base m)) \<or> to \<noteq> asym (balance (quote m))"
      "get_bancor_output (amount (balance (quote m))) (amount (balance (base m))) (amount frm) = Inr (amount out)"
      "asym out = to"
      "amount (balance (quote m')) = amount (balance (quote m)) + amount frm"
      "amount (balance (base m')) = amount (balance (base m)) - amount out"
proof (cases "asym frm = asym (balance (base m)) \<and> to = asym (balance (quote m))")
  case True
  then show ?thesis using assms
    by (intro sell) (auto simp: direct_convert_def Let_def res_simps set_base_def set_quote_def
        asset_laws.plus_amount asset_laws.minus_amount)
next
  case False
  then show ?thesis using assms
    by (intro buy) (auto simp: direct_convert_def Let_def res_simps set_base_def set_quote_def
        asset_laws.plus_amount asset_laws.minus_amount split: if_splits)
qed

lemma direct_convert_neq: "direct_convert E m frm to = Inr r \<Longrightarrow> asym frm \<noteq> to"
  by (auto simp: direct_convert_def check_eq_Inr Let_def)

text \<open>A trade sells from the market what the payment is worth, or buys into it.\<close>

lemma trade_buy_moves:
  assumes A: "asset_laws (e_assets E)" and ok: "trade E q to e s = Inr (out, t)"
    and sym: "\<And>m. rammarket s = Some m \<Longrightarrow> asym q = asym (balance (quote m))"
  shows "ram_moves (- amount out) 0 0 (amount q) s t"
proof -
  obtain m m' where m: "rammarket s = Some m" "direct_convert E m q to = Inr (m', out)"
    and t: "t = s\<lparr>rammarket := Some m'\<rparr>" using ok by (auto simp: trade_def res_simps)
  have "amount (balance (quote m')) = amount (balance (quote m)) + amount q \<and>
      amount (balance (base m')) = amount (balance (base m)) - amount out"
    using m(2) sym [OF m(1)]
    by (cases rule: direct_convert_Inr [OF A]) (use direct_convert_neq [OF m(2)] in auto)
  then show ?thesis unfolding ram_moves_def
    by (intro conjI supplyl.moves_eq reservedl.moves_eq ramstakel.moves_eq marketl.moves_eq)
      (simp_all add: ram_nets t m(1))
qed

lemma trade_sell_moves:
  assumes A: "asset_laws (e_assets E)" and ok: "trade E q to e s = Inr (out, t)"
    and sym: "\<And>m. rammarket s = Some m \<Longrightarrow> to = asym (balance (quote m))"
  shows "ram_moves (amount q) 0 0 (- amount out) s t"
proof -
  obtain m m' where m: "rammarket s = Some m" "direct_convert E m q to = Inr (m', out)"
    and t: "t = s\<lparr>rammarket := Some m'\<rparr>" using ok by (auto simp: trade_def res_simps)
  have "amount (balance (quote m')) = amount (balance (quote m)) - amount out \<and>
      amount (balance (base m')) = amount (balance (base m)) + amount q"
    using m(2) sym [OF m(1)]
    by (cases rule: direct_convert_Inr [OF A]) (use direct_convert_neq [OF m(2)] in auto)
  then show ?thesis unfolding ram_moves_def
    by (intro conjI supplyl.moves_eq reservedl.moves_eq ramstakel.moves_eq marketl.moves_eq)
      (simp_all add: ram_nets t m(1))
qed

text \<open>\<open>eosio.ram\<close> and the other accounts of the system do not act for themselves.\<close>

definition ram_env :: "env \<Rightarrow> bool" where
  "ram_env E \<longleftrightarrow> asset_laws (e_assets E) \<and> \<not> e_auth E ram_account"

lemma core_symbol_quote: "rammarket s = Some m \<Longrightarrow> rammarket t = rammarket s \<Longrightarrow> rammarket t = Some m' \<Longrightarrow>
  asym (balance (quote m)) = asym (balance (quote m'))"
  by simp

lemma buyram_Inr:
  assumes "buyram E payer receiver quant s = Inr t"
  obtains s1 m fee s3 out s4 where "e_auth E payer" "update_ram_supply E s = Inr s1" "rammarket s1 = Some m"
    "asym quant = asym (balance (quote m))" "0 < amount quant" "fee = ram_fee (amount quant)"
    "same_but_fees ramfee_account (if 0 < fee
       then emit (Transfer [payer] payer ramfee_account (set_amount fee quant))
         (emit (Transfer [payer, ram_account] payer ram_account (set_amount (i64 (amount quant - fee)) quant)) s1)
       else emit (Transfer [payer, ram_account] payer ram_account (set_amount (i64 (amount quant - fee)) quant)) s1) s3"
    "trade E (set_amount (i64 (amount quant - fee)) quant) ram_symbol No_row s3 = Inr (out, s4)" "0 < amount out"
    "t = follow_quota receiver (add_quota receiver (amount out) (asym quant)
       (reserve_ram (amount out) (i64 (amount quant - fee)) s4))"
proof -
  let ?fee = "ram_fee (amount quant)"
  let ?after = "set_amount (i64 (amount quant - ?fee)) quant"
  obtain s1 m s3 out s4 where 1: "e_auth E payer" "update_ram_supply E s = Inr s1" "rammarket s1 = Some m"
    "asym quant = asym (balance (quote m))" "0 < amount quant"
    and c: "(if 0 < ?fee then channel_to_rex_or_pools E ramfee_account (set_amount ?fee quant) False
         (emit (Transfer [payer] payer ramfee_account (set_amount ?fee quant))
           (emit (Transfer [payer, ram_account] payer ram_account ?after) s1))
       else Inr (emit (Transfer [payer, ram_account] payer ram_account ?after) s1)) = Inr s3"
    and 2: "trade E ?after ram_symbol No_row s3 = Inr (out, s4)" "0 < amount out"
    and t: "t = follow_quota receiver (add_quota receiver (amount out) (asym quant)
       (reserve_ram (amount out) (i64 (amount quant - ?fee)) s4))"
    using assms by (auto simp: buyram_def Let_def res_simps)
  have f: "same_but_fees ramfee_account (if 0 < ?fee
       then emit (Transfer [payer] payer ramfee_account (set_amount ?fee quant))
         (emit (Transfer [payer, ram_account] payer ram_account ?after) s1)
       else emit (Transfer [payer, ram_account] payer ram_account ?after) s1) s3"
    using c channel_fees by (cases "0 < ?fee") auto
  show thesis by (rule that [OF 1 refl f 2 t])
qed

lemma buyram_moves:
  assumes E: "ram_env E" and ok: "buyram E payer receiver quant s = Inr t"
  shows "ram_moves 0 0 0 0 s t"
  using ok
proof (rule buyram_Inr)
  fix s1 m fee s3 out s4
  let ?n = "i64 (amount quant - fee)"
  let ?after = "set_amount ?n quant"
  let ?s2 = "emit (Transfer [payer, ram_account] payer ram_account ?after) s1"
  let ?s2' = "if 0 < fee then emit (Transfer [payer] payer ramfee_account (set_amount fee quant)) ?s2 else ?s2"
  assume au: "e_auth E payer" and 1: "update_ram_supply E s = Inr s1" and m: "rammarket s1 = Some m"
    and sym: "asym quant = asym (balance (quote m))"
    and f: "same_but_fees ramfee_account ?s2' s3"
    and 2: "trade E ?after ram_symbol No_row s3 = Inr (out, s4)"
    and t: "t = follow_quota receiver (add_quota receiver (amount out) (asym quant)
       (reserve_ram (amount out) ?n s4))"
  have A: "asset_laws (e_assets E)" and p: "payer \<noteq> ram_account" using E au by (auto simp: ram_env_def)
  have n: "ramfee_account \<noteq> ram_account" by (simp add: account_defs)
  have "ram_moves 0 0 (- ?n) (- ?n) s1 ?s2'"
    using p n by (intro ram_moves_same) simp_all
  from ram_moves_add [OF update_ram_supply_moves [OF 1] ram_moves_add [OF this fees_moves [OF f n]]]
  have a: "ram_moves 0 0 (- ?n) (- ?n) s s3" by simp
  have r: "rammarket s3 = rammarket s1" using same_but_fees_fields(1) [OF f] by (simp split: if_splits)
  have "ram_moves (- amount out) 0 0 ?n s3 s4"
    using trade_buy_moves [OF A 2] r m sym by simp
  from ram_moves_add [OF a this] have "ram_moves (- amount out) 0 (- ?n) 0 s s4" by simp
  from ram_moves_add [OF ram_moves_add [OF ram_moves_add [OF this reserve_ram_moves [of "amount out" ?n]]
      add_quota_moves [of "amount out" _ receiver "asym quant"]] follow_quota_moves [of _ receiver]]
  show ?thesis by (simp add: t)
qed

lemma buyrambytes_moves:
  "ram_env E \<Longrightarrow> buyrambytes E payer receiver n s = Inr t \<Longrightarrow> ram_moves 0 0 0 0 s t"
  by (auto simp: buyrambytes_def res_simps intro: buyram_moves)

lemma fee_channelled_moves:
  assumes A: "asset_laws (e_assets E)" and n: "frm \<noteq> ram_account"
    and ok: "bindR (aa_make (e_assets E) fee core) (\<lambda>q. channel_to_rex_or_pools E ramfee_account q False
      (emit (Transfer [frm] frm ramfee_account q) s)) = Inr t"
  shows "ram_moves 0 0 0 0 s t"
proof -
  obtain q where c: "channel_to_rex_or_pools E ramfee_account q False
      (emit (Transfer [frm] frm ramfee_account q) s) = Inr t" using ok by (auto simp: bindR_eq_Inr)
  have r: "ramfee_account \<noteq> ram_account" by (simp add: account_defs)
  show ?thesis
    using ram_moves_add [OF ram_moves_emit [of "Transfer [frm] frm ramfee_account q" s] fees_moves [OF channel_fees [OF c] r]]
      n r by simp
qed

lemma sellram_Inr:
  assumes "sellram E account n s = Inr t"
  obtains s1 r m q out s2 s4 where "e_auth E account" "update_ram_supply E s = Inr s1" "0 < n"
    "fmlookup (userres s1) account = Some r" "n \<le> ram_bytes r" "rammarket s1 = Some m"
    "aa_make (e_assets E) n ram_symbol = Inr q" "trade E q (asym (balance (quote m))) No_row s1 = Inr (out, s2)"
    "1 < amount out" "0 \<le> i64 (total_ram_stake (gstate s2) + - amount out)"
    "s4 = follow_quota account (reserve_ram (- n) (- amount out) s2\<lparr>userres :=
       fmupd account (r\<lparr>ram_bytes := i64 (ram_bytes r - n)\<rparr>) (userres s2)\<rparr>)"
    "(if 0 < ram_fee (amount out) then
       bindR (aa_make (e_assets E) (ram_fee (amount out)) (asym (balance (quote m)))) (\<lambda>q.
       channel_to_rex_or_pools E ramfee_account q False (emit (Transfer [account] account ramfee_account q)
         (emit (Transfer [ram_account, account] ram_account account out) s4)))
     else Inr (emit (Transfer [ram_account, account] ram_account account out) s4)) = Inr t"
  using assms unfolding sellram_def require_auth_eq_Inr bindR_eq_Inr fetch_eq_Inr check_eq_Inr core_symbol_eq_Inr
    Let_def split_paired_Ex prod.case
  by (elim exE conjE) (rule that, assumption+, simp_all add: reserve_ram_def)

lemma sold_quota_moves:
  assumes "fmlookup (userres s) a = Some r"
  shows "ram_moves (- n) n 0 0 s (s\<lparr>userres := fmupd a (r\<lparr>ram_bytes := i64 (ram_bytes r - n)\<rparr>) (userres s)\<rparr>)"
proof -
  have "add_quota a (- n) core s = s\<lparr>userres := fmupd a (r\<lparr>ram_bytes := i64 (ram_bytes r - n)\<rparr>) (userres s)\<rparr>" for core
    using assms by (simp add: add_quota_def)
  then show ?thesis using add_quota_moves [of "- n" s a] by simp
qed

lemma sellram_moves:
  assumes E: "ram_env E" and ok: "sellram E account n s = Inr t"
  shows "ram_moves 0 0 0 0 s t"
  using ok
proof (rule sellram_Inr)
  fix s1 r m q s2 s4 and out :: asset
  let ?s3 = "reserve_ram (- n) (- amount out) s2"
  let ?s5 = "emit (Transfer [ram_account, account] ram_account account out) s4"
  assume au: "e_auth E account" and 1: "update_ram_supply E s = Inr s1" and r: "fmlookup (userres s1) account = Some r"
    and m: "rammarket s1 = Some m" and q: "aa_make (e_assets E) n ram_symbol = Inr q"
    and tr: "trade E q (asym (balance (quote m))) No_row s1 = Inr (out, s2)"
    and s4: "s4 = follow_quota account (?s3\<lparr>userres :=
       fmupd account (r\<lparr>ram_bytes := i64 (ram_bytes r - n)\<rparr>) (userres s2)\<rparr>)"
    and t: "(if 0 < ram_fee (amount out) then
       bindR (aa_make (e_assets E) (ram_fee (amount out)) (asym (balance (quote m)))) (\<lambda>q.
       channel_to_rex_or_pools E ramfee_account q False (emit (Transfer [account] account ramfee_account q) ?s5))
     else Inr ?s5) = Inr t"
  have A: "asset_laws (e_assets E)" and p: "account \<noteq> ram_account" using E au by (auto simp: ram_env_def)
  have u: "userres s2 = userres s1" using tr by (auto simp: trade_def res_simps)
  have qn: "amount q = n" using asset_laws.make_amount [OF A q] .
  have "ram_moves n 0 0 (- amount out) s1 s2"
    using trade_sell_moves [OF A tr] m qn by simp
  from ram_moves_add [OF update_ram_supply_moves [OF 1] this] have a: "ram_moves n 0 0 (- amount out) s s2" by simp
  have "ram_moves (- n) n 0 0 ?s3 (?s3\<lparr>userres := fmupd account (r\<lparr>ram_bytes := i64 (ram_bytes r - n)\<rparr>) (userres s2)\<rparr>)"
    using sold_quota_moves [of ?s3 account r n] r u by (simp add: reserve_ram_def)
  from ram_moves_add [OF ram_moves_add [OF a reserve_ram_moves [of "- n" "- amount out"]] this]
  have "ram_moves 0 0 (- amount out) (- amount out) s (?s3\<lparr>userres := fmupd account (r\<lparr>ram_bytes := i64 (ram_bytes r - n)\<rparr>) (userres s2)\<rparr>)"
    by simp
  from ram_moves_add [OF ram_moves_add [OF this follow_quota_moves [of _ account]]
      ram_moves_emit [of "Transfer [ram_account, account] ram_account account out"]]
  have 5: "ram_moves 0 0 0 0 s ?s5" using p by (simp add: s4)
  show ?thesis
  proof (cases "0 < ram_fee (amount out)")
    case True
    from fee_channelled_moves [OF A p t [unfolded if_P [OF True]]] show ?thesis
      using ram_moves_add [OF 5] by fastforce
  qed (use t 5 in simp)
qed

section \<open>Properties\<close>

inductive ram_step :: "env \<Rightarrow> chain \<Rightarrow> chain \<Rightarrow> bool" for E where
  Buy: "buyram E payer receiver quant s = Inr t \<Longrightarrow> ram_step E s t"
| Buy_bytes: "buyrambytes E payer receiver n s = Inr t \<Longrightarrow> ram_step E s t"
| Sell: "sellram E account n s = Inr t \<Longrightarrow> ram_step E s t"
| Resize: "setram E n s = Inr t \<Longrightarrow> ram_step E s t"
| Rate: "setramrate E n s = Inr t \<Longrightarrow> ram_step E s t"

inductive_cases ram_stepE: "ram_step E s t"

lemma setramrate_moves: "setramrate E n s = Inr t \<Longrightarrow> ram_moves 0 0 0 0 s t"
proof -
  assume "setramrate E n s = Inr t"
  then obtain u where u: "update_ram_supply E s = Inr u" "t = u\<lparr>gstate2 := (gstate2 u)\<lparr>new_ram_per_block := n\<rparr>\<rparr>"
    by (auto simp: setramrate_def res_simps)
  have "ram_moves 0 0 0 0 u t" by (rule ram_moves_same [where n = 0, simplified]) (simp_all add: u)
  from ram_moves_add [OF update_ram_supply_moves [OF u(1)] this] show ?thesis by simp
qed

lemma ram_step_moves:
  assumes "ram_step E s t" "ram_env E"
  shows "ram_moves 0 0 0 0 s t"
  using assms(1)
  by (rule ram_stepE) (blast intro: buyram_moves [OF assms(2)] buyrambytes_moves [OF assms(2)]
      sellram_moves [OF assms(2)] setram_moves setramrate_moves)+

inductive ram_run :: "chain \<Rightarrow> chain \<Rightarrow> bool" where
  Stop: "ram_run s s"
| Next: "ram_run s t \<Longrightarrow> ram_env E \<Longrightarrow> ram_step E t u \<Longrightarrow> ram_run s u"

lemma ram_run_books: "ram_run s t \<Longrightarrow> ram_moves 0 0 0 0 s t"
proof (induction rule: ram_run.induct)
  case (Next s t E u)
  then show ?case using ram_moves_add [OF Next.IH ram_step_moves [OF Next.hyps(3,2)]] by simp
qed simp

text \<open>
  C4: The books of the RAM market balance over any run of its actions: bytes for sale and quotas
  make up the supply, the reserved bytes are the quotas, and what the market's connector and the
  stake counter changed by is what \<open>eosio.ram\<close> received less what it paid (as 64-bit integers).
\<close>

theorem ram_books_balance:
  assumes "ram_run s t" "i64 (supply_net s) = 0" "i64 (reserved_net s) = 0"
  shows "i64 (supply_net t) = 0 \<and> i64 (reserved_net t) = 0 \<and>
    i64 (ram_stake_net t) = i64 (ram_stake_net s) \<and> i64 (market_net t) = i64 (market_net s)"
  using ram_run_books [OF assms(1)] assms(2,3)
  by (simp add: ram_moves_def supplyl.moves_def reservedl.moves_def ramstakel.moves_def marketl.moves_def)

definition ram_sample_env :: env where
  "ram_sample_env = sample_env\<lparr>e_auth := (\<lambda>a. a = 7)\<rparr>"

lemma ram_sample_env: "ram_env ram_sample_env" "e_assets ram_sample_env = e_assets sample_env"
  using sample_laws by (simp_all add: ram_env_def ram_sample_env_def sample_env_def account_defs)

theorem ram_books_balance_witness:
  "\<exists>t. buyram ram_sample_env 7 9 (sys 100000) sample_chain = Inr t \<and> i64 (supply_net t) = 0"
proof -
  have "succeeds (buyram ram_sample_env 7 9 (sys 100000) sample_chain)" by code_simp
  then obtain t where t: "buyram ram_sample_env 7 9 (sys 100000) sample_chain = Inr t" by (rule succeedsE)
  have "ram_run sample_chain t" by (rule Next [OF Stop ram_sample_env(1) Buy [OF t]])
  moreover have "i64 (supply_net sample_chain) = 0" "i64 (reserved_net sample_chain) = 0"
    by (simp_all add: ram_nets sample_chain_def initial_chain_def get_default_parameters_def i64_id)
  ultimately show ?thesis using ram_books_balance [of sample_chain t] t by blast
qed

lemma ram_fee_eq: "0 < n \<Longrightarrow> n \<le> max_amount \<Longrightarrow> ram_fee n = (n + 199) div 200 \<and> 0 < ram_fee n \<and> ram_fee n \<le> n"
  by (simp add: ram_fee_def i64_id max_amount_def) linarith

lemma trade_same: "trade E q to e s = Inr (out, t) \<Longrightarrow> t = s\<lparr>rammarket := rammarket t\<rparr>"
  by (auto simp: trade_def res_simps)

lemma bancor_output_i64: "get_bancor_output a b c = Inr n \<Longrightarrow> in_i64 n"
  by (auto simp: get_bancor_output_def Let_def bindR_eq_Inr to_i64_Inr in_i64_def split: if_splits)

lemma trade_out_i64: "trade E q to e s = Inr (out, t) \<Longrightarrow> in_i64 (amount out)"
  by (auto simp: trade_def direct_convert_def Let_def fetch_eq_Inr check_eq_Inr bindR_eq_Inr
      dest: bancor_output_i64 split: if_splits)

lemma update_ram_supply_same:
  "update_ram_supply E s = Inr t \<Longrightarrow> outbox t = outbox s \<and> userres t = userres s \<and> voters t = voters s \<and> limits t = limits s"
  by (auto simp: update_ram_supply_def res_simps split: if_splits)

lemma follow_quota_limits:
  assumes "fmlookup (userres s) a = Some r"
  shows "limits (follow_quota a s) a =
    ((if account_flag s a ram_managed then fst (limits s a) else i64 (ram_bytes r + ram_gift_bytes)), snd (limits s a))"
  using assms by (auto simp: follow_quota_def get_resource_limits_def set_resource_limits_def split: prod.split)

lemma follow_quota_same:
  "outbox (follow_quota a s) = outbox s" "userres (follow_quota a s) = userres s" "voters (follow_quota a s) = voters s"
  by (auto simp: follow_quota_def set_resource_limits_def split: option.split prod.split)

lemma quota_followed:
  assumes n: "in_i64 n" and t: "t = follow_quota a (add_quota a n core (reserve_ram n m u))"
  shows "row_val ram_bytes (userres t) a = i64 (row_val ram_bytes (userres u) a + n)"
    and "limits t a = ((if account_flag u a ram_managed then fst (limits u a)
      else i64 (row_val ram_bytes (userres t) a + ram_gift_bytes)), snd (limits u a))"
    and "outbox t = outbox u"
proof -
  let ?u = "add_quota a n core (reserve_ram n m u)"
  obtain v where v: "fmlookup (userres ?u) a = Some v" "ram_bytes v = i64 (row_val ram_bytes (userres u) a + n)"
    using n by (cases "fmlookup (userres u) a") (simp_all add: i64_in_i64 add_quota_def reserve_ram_def)
  have s: "outbox ?u = outbox u" "voters ?u = voters u" "limits ?u = limits u" by (simp_all add: add_quota_def reserve_ram_def)
  then have f: "account_flag ?u a ram_managed = account_flag u a ram_managed" by (simp add: account_flag_def)
  have r: "row_val ram_bytes (userres t) a = ram_bytes v" using v(1) by (simp add: t follow_quota_same)
  then show "row_val ram_bytes (userres t) a = i64 (row_val ram_bytes (userres u) a + n)" using v(2) by simp
  show "limits t a = ((if account_flag u a ram_managed then fst (limits u a)
      else i64 (row_val ram_bytes (userres t) a + ram_gift_bytes)), snd (limits u a))"
    unfolding r using follow_quota_limits [OF v(1)] by (simp add: t f s)
  show "outbox t = outbox u" by (simp add: t follow_quota_same s)
qed

lemma buyram_payment:
  assumes A: "asset_laws (e_assets E)" and ok: "buyram E payer receiver quant s = Inr t"
    and q: "amount quant \<le> max_amount"
    and p: "payer \<notin> {ram_account, ramfee_account, rex_account, srpool_account}"
  shows "net_in payer (outbox t) = net_in payer (outbox s) - amount quant \<and>
    net_in ram_account (outbox t) = net_in ram_account (outbox s) + (amount quant - (amount quant + 199) div 200) \<and>
    limits t receiver = ((if account_flag s receiver ram_managed then fst (limits s receiver)
      else i64 (row_val ram_bytes (userres t) receiver + ram_gift_bytes)), snd (limits s receiver))"
  using ok
proof (rule buyram_Inr)
  fix s1 m fee s3 s4 and out :: asset
  let ?n = "i64 (amount quant - fee)"
  let ?s2 = "emit (Transfer [payer, ram_account] payer ram_account (set_amount ?n quant)) s1"
  let ?s2' = "if 0 < fee then emit (Transfer [payer] payer ramfee_account (set_amount fee quant)) ?s2 else ?s2"
  assume 1: "update_ram_supply E s = Inr s1" and pos: "0 < amount quant" and fee: "fee = ram_fee (amount quant)"
    and f: "same_but_fees ramfee_account ?s2' s3"
    and 2: "trade E (set_amount ?n quant) ram_symbol No_row s3 = Inr (out, s4)" and out: "0 < amount out"
    and t: "t = follow_quota receiver (add_quota receiver (amount out) (asym quant) (reserve_ram (amount out) ?n s4))"
  note r = ram_fee_eq [OF pos q, folded fee]
  have n: "?n = amount quant - fee" using r q pos by (simp add: i64_id max_amount_def)
  note u = update_ram_supply_same [OF 1]
  have c: "userres s3 = userres s" "voters s3 = voters s" "limits s3 = limits s"
    using same_but_fees_fields [OF f] u by (simp_all split: if_splits)
  have d: "userres s4 = userres s3" "voters s4 = voters s3" "limits s4 = limits s3" "outbox s4 = outbox s3"
    using trade_same [OF 2] by (metis chain.select_convs chain.surjective chain.update_convs)+
  note Q = quota_followed [OF trade_out_i64 [OF 2] t]
  have a: "ram_account \<notin> {rex_account, srpool_account, ramfee_account}" "ramfee_account \<noteq> ram_account"
    by (simp_all add: account_defs)
  have "net_in x (outbox t) = net_in x (outbox ?s2')" if "x \<notin> {rex_account, srpool_account, ramfee_account}" for x
    using same_but_fees_net [OF f, of x] that by (simp add: Q(3) d)
  from this [of payer] this [of ram_account] have
    "net_in payer (outbox t) = net_in payer (outbox s) - amount quant"
    "net_in ram_account (outbox t) = net_in ram_account (outbox s) + (amount quant - fee)"
    using p u r n a by auto
  moreover have "account_flag s4 receiver ram_managed = account_flag s receiver ram_managed"
    by (simp add: account_flag_def d c)
  ultimately show ?thesis using Q(2) r by (auto simp: d c)
qed

text \<open>A purchase trades the payment against the RAM of the market, and reserves what it gets.\<close>

lemma trade_buy_effect:
  assumes A: "asset_laws (e_assets E)" and ok: "trade E q to e s = Inr (out, t)"
    and m: "rammarket s = Some m" and sym: "asym q = asym (balance (quote m))"
  obtains m' where "rammarket t = Some m'"
    "get_bancor_output (amount (balance (quote m))) (amount (balance (base m))) (amount q) = Inr (amount out)"
    "amount (balance (quote m')) = amount (balance (quote m)) + amount q"
    "amount (balance (base m')) = amount (balance (base m)) - amount out"
proof -
  obtain m' where c: "direct_convert E m q to = Inr (m', out)" and t: "t = s\<lparr>rammarket := Some m'\<rparr>"
    using ok m by (auto simp: trade_def res_simps)
  show thesis using c
    by (cases rule: direct_convert_Inr [OF A]) (use sym direct_convert_neq [OF c] t in \<open>auto intro: that\<close>)
qed

lemma update_ram_supply_reserved:
  "update_ram_supply E s = Inr t \<Longrightarrow> total_ram_bytes_reserved (gstate t) = total_ram_bytes_reserved (gstate s) \<and>
    total_ram_stake (gstate t) = total_ram_stake (gstate s)"
  by (auto simp: update_ram_supply_def res_simps split: if_splits)

lemma reserved_kept:
  assumes "t = follow_quota a (add_quota a n core (reserve_ram n m u))"
  shows "rammarket t = rammarket u" "total_ram_bytes_reserved (gstate t) = u64 (total_ram_bytes_reserved (gstate u) + n)"
    "total_ram_stake (gstate t) = i64 (total_ram_stake (gstate u) + m)"
  by (simp_all add: assms follow_quota_def set_resource_limits_def add_quota_def reserve_ram_def
      split: option.split prod.split)

lemma buyram_market:
  assumes A: "asset_laws (e_assets E)" and ok: "buyram E payer receiver quant s = Inr t"
    and q: "amount quant \<le> max_amount"
  obtains s1 m m' n where "update_ram_supply E s = Inr s1" "rammarket s1 = Some m" "rammarket t = Some m'" "0 < n"
    "get_bancor_output (amount (balance (quote m))) (amount (balance (base m)))
      (amount quant - (amount quant + 199) div 200) = Inr n"
    "amount (balance (quote m')) = amount (balance (quote m)) + (amount quant - (amount quant + 199) div 200)"
    "amount (balance (base m')) = amount (balance (base m)) - n"
    "total_ram_bytes_reserved (gstate t) = u64 (total_ram_bytes_reserved (gstate s) + n)"
    "total_ram_stake (gstate t) = i64 (total_ram_stake (gstate s) + (amount quant - (amount quant + 199) div 200))"
    "row_val ram_bytes (userres t) receiver = i64 (row_val ram_bytes (userres s) receiver + n)"
  using ok
proof (rule buyram_Inr)
  fix s1 m fee s3 s4 and out :: asset
  let ?n = "i64 (amount quant - fee)"
  let ?s2 = "emit (Transfer [payer, ram_account] payer ram_account (set_amount ?n quant)) s1"
  let ?s2' = "if 0 < fee then emit (Transfer [payer] payer ramfee_account (set_amount fee quant)) ?s2 else ?s2"
  assume 1: "update_ram_supply E s = Inr s1" and m: "rammarket s1 = Some m"
    and sym: "asym quant = asym (balance (quote m))"
    and pos: "0 < amount quant" and fee: "fee = ram_fee (amount quant)" and f: "same_but_fees ramfee_account ?s2' s3"
    and 2: "trade E (set_amount ?n quant) ram_symbol No_row s3 = Inr (out, s4)" and out: "0 < amount out"
    and t: "t = follow_quota receiver (add_quota receiver (amount out) (asym quant) (reserve_ram (amount out) ?n s4))"
  note r = ram_fee_eq [OF pos q, folded fee]
  have n: "?n = amount quant - (amount quant + 199) div 200" using r q pos by (simp add: i64_id max_amount_def)
  have c: "rammarket s3 = Some m" "userres s3 = userres s" "gstate s3 = gstate s1"
    using same_but_fees_fields [OF f] update_ram_supply_same [OF 1] m by (simp_all split: if_splits)
  have d: "userres s4 = userres s3" "gstate s4 = gstate s3"
    using trade_same [OF 2] by (metis chain.select_convs chain.surjective chain.update_convs)+
  obtain m' where m': "rammarket s4 = Some m'"
    "get_bancor_output (amount (balance (quote m))) (amount (balance (base m))) ?n = Inr (amount out)"
    "amount (balance (quote m')) = amount (balance (quote m)) + ?n"
    "amount (balance (base m')) = amount (balance (base m)) - amount out"
    by (rule trade_buy_effect [OF A 2 c(1)]) (use sym in simp_all)
  note K = reserved_kept [OF t] and Q = quota_followed(1) [OF trade_out_i64 [OF 2] t]
  show thesis
    by (rule that [OF 1 m _ out m'(2-4) [unfolded n]])
      (use K m'(1) Q update_ram_supply_reserved [OF 1] in \<open>simp_all add: c d n\<close>)
qed

text \<open>
  C36: A purchase of RAM costs the payer exactly the amount given: half a percent, rounded up, is
  the fee, and \<open>eosio.ram\<close> receives the rest. The market, brought up to date with the supply,
  takes that rest into its connector and gives the bytes the Bancor formula yields for it, more
  than none; the same bytes are added to the bytes reserved and to the receiver's quota, and the
  same rest to the tokens staked for RAM. The receiver's RAM limit becomes quota and gift unless it
  is managed, and its NET and CPU limits stay.
\<close>

theorem buyram_effect:
  assumes A: "asset_laws (e_assets E)" and ok: "buyram E payer receiver quant s = Inr t"
    and q: "amount quant \<le> max_amount"
    and p: "payer \<notin> {ram_account, ramfee_account, rex_account, srpool_account}"
  defines "paid \<equiv> amount quant - (amount quant + 199) div 200"
  shows "net_in payer (outbox t) = net_in payer (outbox s) - amount quant \<and>
    net_in ram_account (outbox t) = net_in ram_account (outbox s) + paid \<and>
    (\<exists>s1 m m' n. update_ram_supply E s = Inr s1 \<and> rammarket s1 = Some m \<and> rammarket t = Some m' \<and> 0 < n \<and>
      get_bancor_output (amount (balance (quote m))) (amount (balance (base m))) paid = Inr n \<and>
      amount (balance (quote m')) = amount (balance (quote m)) + paid \<and>
      amount (balance (base m')) = amount (balance (base m)) - n \<and>
      total_ram_bytes_reserved (gstate t) = u64 (total_ram_bytes_reserved (gstate s) + n) \<and>
      total_ram_stake (gstate t) = i64 (total_ram_stake (gstate s) + paid) \<and>
      row_val ram_bytes (userres t) receiver = i64 (row_val ram_bytes (userres s) receiver + n)) \<and>
    limits t receiver = ((if account_flag s receiver ram_managed then fst (limits s receiver)
      else i64 (row_val ram_bytes (userres t) receiver + ram_gift_bytes)), snd (limits s receiver))"
proof -
  have "net_in payer (outbox t) = net_in payer (outbox s) - amount quant \<and>
    net_in ram_account (outbox t) = net_in ram_account (outbox s) + paid \<and>
    limits t receiver = ((if account_flag s receiver ram_managed then fst (limits s receiver)
      else i64 (row_val ram_bytes (userres t) receiver + ram_gift_bytes)), snd (limits s receiver))"
    unfolding paid_def by (rule buyram_payment [OF A ok q p])
  then show ?thesis using buyram_market [OF A ok q] unfolding paid_def by metis
qed

theorem buyram_effect_witness:
  "\<exists>t. buyram ram_sample_env 7 9 (sys 100000) sample_chain = Inr t \<and> net_in 7 (outbox t) = - 100000 \<and>
    net_in ram_account (outbox t) = 99500 \<and> total_ram_stake (gstate t) = 99500 \<and>
    (\<exists>n > 0. total_ram_bytes_reserved (gstate t) = u64 n \<and> row_val ram_bytes (userres t) 9 = i64 n)"
proof -
  have "succeeds (buyram ram_sample_env 7 9 (sys 100000) sample_chain)" by code_simp
  then obtain t where t: "buyram ram_sample_env 7 9 (sys 100000) sample_chain = Inr t" by (rule succeedsE)
  have s: "outbox sample_chain = []" "total_ram_bytes_reserved (gstate sample_chain) = 0"
    "total_ram_stake (gstate sample_chain) = 0" "userres sample_chain = fmempty"
    by (simp_all add: sample_chain_def initial_chain_def get_default_parameters_def)
  show ?thesis using buyram_effect [OF _ t] t sample_laws
    by (auto simp: ram_sample_env(2) max_amount_def account_defs s i64_id)
qed

section \<open>The supply grows\<close>

text \<open>
  The bytes added are computed in 32 bits: with a rate and an elapsed time whose product does not
  fit, fewer are added.
\<close>

lemma new_ram_value:
  assumes "last_ram_increase (gstate2 s) \<le> e_slot E" "e_slot E < 4294967296" "0 \<le> last_ram_increase (gstate2 s)"
    and "0 \<le> new_ram_per_block (gstate2 s)"
  defines "due \<equiv> (e_slot E - last_ram_increase (gstate2 s)) * new_ram_per_block (gstate2 s)"
  shows "0 \<le> new_ram E s" "new_ram E s < 4294967296" "due < 4294967296 \<Longrightarrow> new_ram E s = due"
    "4294967296 \<le> due \<Longrightarrow> new_ram E s \<le> due - 4294967296"
proof -
  have u: "u32 (e_slot E - last_ram_increase (gstate2 s)) = e_slot E - last_ram_increase (gstate2 s)"
    using assms(1-3) by (intro u32_id) simp_all
  have d: "0 \<le> due" using assms by simp
  have n: "new_ram E s = due mod 4294967296" by (simp only: new_ram_def u) (simp add: due_def u32_def)
  show "0 \<le> new_ram E s" "new_ram E s < 4294967296" using n by simp_all
  show "due < 4294967296 \<Longrightarrow> new_ram E s = due" using d n by simp
  show "4294967296 \<le> due \<Longrightarrow> new_ram E s \<le> due - 4294967296"
    using zmod_le_nonneg_dividend [of "due - 4294967296" 4294967296] by (simp add: n)
qed

text \<open>
  C40: Bringing the RAM supply up to date succeeds whenever the market exists. At most once per
  slot, it raises the maximum RAM size and the bytes for sale on the market by one and the same
  number and takes the slot for the last increase, and touches nothing else; that number is the
  elapsed slots times the rate if the product is below \<open>2 ^ 32\<close>, and otherwise less, as it is
  computed in 32 bits. A second update in the same slot changes nothing.
\<close>

theorem ram_supply_grows:
  assumes m: "rammarket s = Some m"
    and slot: "0 \<le> last_ram_increase (gstate2 s)" "e_slot E < 4294967296" and rate: "0 \<le> new_ram_per_block (gstate2 s)"
    and sizes: "0 \<le> max_ram_size (gstate s)" "max_ram_size (gstate s) < 2 ^ 62"
      "0 \<le> amount (balance (base m))" "amount (balance (base m)) < 2 ^ 62"
  defines "due \<equiv> (e_slot E - last_ram_increase (gstate2 s)) * new_ram_per_block (gstate2 s)"
  shows "\<exists>t. update_ram_supply E s = Inr t \<and> update_ram_supply E t = Inr t \<and>
    (if e_slot E \<le> last_ram_increase (gstate2 s) then t = s
     else \<exists>n m'. 0 \<le> n \<and> (due < 4294967296 \<longrightarrow> n = due) \<and> (4294967296 \<le> due \<longrightarrow> n \<le> due - 4294967296) \<and>
       max_ram_size (gstate t) = max_ram_size (gstate s) + n \<and> rammarket t = Some m' \<and>
       amount (balance (base m')) = amount (balance (base m)) + n \<and>
       asym (balance (base m')) = asym (balance (base m)) \<and> quote m' = quote m \<and>
       last_ram_increase (gstate2 t) = e_slot E \<and>
       t = s\<lparr>gstate := (gstate s)\<lparr>max_ram_size := max_ram_size (gstate t)\<rparr>, rammarket := rammarket t,
         gstate2 := (gstate2 s)\<lparr>last_ram_increase := last_ram_increase (gstate2 t)\<rparr>\<rparr>)"
proof (cases "e_slot E \<le> last_ram_increase (gstate2 s)")
  case False
  let ?n = "new_ram E s"
  let ?t = "s\<lparr>gstate := (gstate s)\<lparr>max_ram_size := max_ram_size (gstate s) + ?n\<rparr>,
    rammarket := Some (grow_ram ?n m), gstate2 := (gstate2 s)\<lparr>last_ram_increase := e_slot E\<rparr>\<rparr>"
  note n = new_ram_value [of s E, OF _ slot(2,1) rate]
  have r: "0 \<le> ?n" "?n < 4294967296" using n(1,2) False by simp_all
  have "u64 (max_ram_size (gstate s) + ?n) = max_ram_size (gstate s) + ?n" using r sizes by (intro u64_id) simp_all
  then have t: "update_ram_supply E s = Inr ?t" using False m by (simp add: update_ram_supply_def fetch_def)
  have u: "update_ram_supply E ?t = Inr ?t" by (simp add: update_ram_supply_def)
  have b: "amount (balance (base (grow_ram ?n m))) = amount (balance (base m)) + ?n"
    using r sizes by (simp add: i64_id)
  have a: "asym (balance (base (grow_ram ?n m))) = asym (balance (base m))" by simp
  have "\<exists>n' m'. 0 \<le> n' \<and> (due < 4294967296 \<longrightarrow> n' = due) \<and> (4294967296 \<le> due \<longrightarrow> n' \<le> due - 4294967296) \<and>
      max_ram_size (gstate ?t) = max_ram_size (gstate s) + n' \<and> rammarket ?t = Some m' \<and>
      amount (balance (base m')) = amount (balance (base m)) + n' \<and>
      asym (balance (base m')) = asym (balance (base m)) \<and> quote m' = quote m"
    by (rule exI [of _ ?n], rule exI [of _ "grow_ram ?n m"])
      (use n(3,4) r(1) b a False in \<open>simp add: due_def del: grow_ram_simps(1)\<close>)
  moreover have "last_ram_increase (gstate2 ?t) = e_slot E"
    "?t = s\<lparr>gstate := (gstate s)\<lparr>max_ram_size := max_ram_size (gstate ?t)\<rparr>, rammarket := rammarket ?t,
      gstate2 := (gstate2 s)\<lparr>last_ram_increase := last_ram_increase (gstate2 ?t)\<rparr>\<rparr>" by simp_all
  ultimately show ?thesis unfolding if_not_P [OF False] using t u by blast
qed (use m in \<open>simp add: update_ram_supply_def\<close>)

definition busy_chain :: chain where
  "busy_chain = sample_chain\<lparr>gstate2 := (gstate2 sample_chain)\<lparr>last_ram_increase := 1306564862,
     new_ram_per_block := 65535\<rparr>\<rparr>"

theorem ram_supply_grows_witness:
  "\<exists>t n. update_ram_supply sample_env busy_chain = Inr t \<and>
    max_ram_size (gstate t) = max_ram_size (gstate busy_chain) + n \<and> n \<le> 65538 * 65535 - 4294967296"
proof -
  obtain m where m: "rammarket busy_chain = Some m" "0 \<le> amount (balance (base m))" "amount (balance (base m)) < 2 ^ 62"
    by (simp add: busy_chain_def sample_chain_def initial_chain_def)
  have s: "0 \<le> max_ram_size (gstate busy_chain)" "max_ram_size (gstate busy_chain) < 2 ^ 62"
    "last_ram_increase (gstate2 busy_chain) = 1306564862" "new_ram_per_block (gstate2 busy_chain) = 65535"
    "e_slot sample_env = 1306630400"
    by (simp_all add: busy_chain_def sample_chain_def initial_chain_def get_default_parameters_def sample_env_def)
  have "(e_slot sample_env - last_ram_increase (gstate2 busy_chain)) * new_ram_per_block (gstate2 busy_chain) =
      65538 * 65535" by (simp add: s)
  then show ?thesis using ram_supply_grows [OF m(1) _ _ _ s(1,2) m(2,3), of sample_env] by (auto simp: s)
qed

end
