(* ===== verification/Producers.thy ===== *)
theory Producers
  imports PoolPay "HOL-Library.Multiset"
begin

text \<open>
  Registration of block producers and the election of a schedule (\<open>voting.cpp\<close> and the struct
  \<open>producer_info\<close>). A schedule has up to 21 producers: first the top of the staking pools' ranking,
  as many as the transition period grants, then the active registered producers with the most
  votes. Shown: what a proposed schedule is, that it never shrinks, and that registration keeps the
  tables in step.
\<close>

section \<open>Registration\<close>

definition convert_to_block_signing_authority :: "public_key \<Rightarrow> signing_authority" where
  "convert_to_block_signing_authority key = \<lparr>threshold = 1, keys = [(key, 1)]\<rparr>"

definition get_producer_authority :: "producer_info \<Rightarrow> signing_authority" where
  "get_producer_authority p = (case producer_authority p of
     Some a \<Rightarrow> if threshold a \<noteq> 0 then a else convert_to_block_signing_authority (producer_key p)
   | None \<Rightarrow> convert_to_block_signing_authority (producer_key p))"

definition register_producer :: "env \<Rightarrow> name \<Rightarrow> signing_authority \<Rightarrow> string \<Rightarrow> int \<Rightarrow> chain \<Rightarrow> error + chain" where
  "register_producer E producer authority u loc s =
     (let ct = e_now E;
          key = (if length (keys authority) = 1 then fst (keys authority ! 0) else 0) in
      case fmlookup (producers s) producer of
        Some p \<Rightarrow>
          bindR (enable_prod_pool_votes (p\<lparr>producer_key := key, is_active := True, url := u, location := loc,
            producer_authority := Some authority,
            last_claim_time := (if last_claim_time p = 0 then ct else last_claim_time p)\<rparr>) s) (\<lambda>(p1, s1).
          let s2 = s1\<lparr>producers := fmupd producer p1 (producers s1)\<rparr> in
          Inr (if fmlookup (producers2 s2) producer = None then
              snd (update_total_votepay_share ct 0 (total_votes p1) (s2\<lparr>producers2 := fmupd producer
                \<lparr>p2_owner = producer, votepay_share = 0, last_votepay_share_update = ct\<rparr> (producers2 s2)\<rparr>))
            else s2))
      | None \<Rightarrow>
          bindR (enable_prod_pool_votes \<lparr>p_owner = producer, total_votes = 0, producer_key = key, is_active = True,
            url = u, unpaid_blocks = 0, last_claim_time = ct, location = loc,
            producer_authority = Some authority, pool_votes = None\<rparr> s) (\<lambda>(p1, s1).
          check (fmlookup (producers2 s1) producer = None) Duplicate_row (
          Inr (s1\<lparr>producers := fmupd producer p1 (producers s1),
            producers2 := fmupd producer \<lparr>p2_owner = producer, votepay_share = 0,
              last_votepay_share_update = ct\<rparr> (producers2 s1)\<rparr>))))"

definition regproducer :: "env \<Rightarrow> name \<Rightarrow> public_key \<Rightarrow> string \<Rightarrow> int \<Rightarrow> chain \<Rightarrow> error + chain" where
  "regproducer E producer key u loc s =
     require_auth E producer (
     check (length u < 512) (Vote Url_too_long) (
     register_producer E producer (convert_to_block_signing_authority key) u loc s))"

definition regproducer2 :: "env \<Rightarrow> name \<Rightarrow> signing_authority \<Rightarrow> string \<Rightarrow> int \<Rightarrow> chain \<Rightarrow> error + chain" where
  "regproducer2 E producer authority u loc s =
     require_auth E producer (
     check (length u < 512) (Vote Url_too_long) (
     check (e_auth_valid E authority) (Vote Invalid_authority) (
     register_producer E producer authority u loc s)))"

definition unregprod :: "env \<Rightarrow> name \<Rightarrow> chain \<Rightarrow> error + chain" where
  "unregprod E producer s = require_auth E producer (deactivate_producer producer s)"

section \<open>Election\<close>

definition prod_by_votes :: "producer_info \<Rightarrow> f64" where
  "prod_by_votes p = (if is_active p then - total_votes p else total_votes p)"

text \<open>The index \<open>prototalvote\<close>, ties by primary key.\<close>

definition prototalvote :: "chain \<Rightarrow> (name \<times> producer_info) list" where
  "prototalvote s = sort_key (\<lambda>(k, p). (f64_rank (prod_by_votes p), k)) (rows (producers s))"

type_synonym candidate = "(name \<times> signing_authority) \<times> int"

definition candidate :: "producer_info \<Rightarrow> candidate" where
  "candidate p = ((p_owner p, get_producer_authority p), location p)"

text \<open>
  The loop over the index: it ends at 21 producers or at the first without votes or not active, and
  skips those the pools have elected.
\<close>

fun elect :: "name list \<Rightarrow> candidate list \<Rightarrow> (name \<times> producer_info) list \<Rightarrow> candidate list" where
  "elect pool_producers top_producers [] = top_producers"
| "elect pool_producers top_producers ((k, p) # ps) =
     (if length top_producers < 21 \<and> 0 < total_votes p \<and> is_active p then
        if p_owner p \<in> set pool_producers then elect pool_producers top_producers ps
        else elect pool_producers (top_producers @ [candidate p]) ps
      else top_producers)"

text \<open>The producers the staking pools elect: 21 of them when the transition is over.\<close>

definition pool_elected :: "int \<Rightarrow> chain \<Rightarrow> name list" where
  "pool_elected slot s = (case poolstate s of
     None \<Rightarrow> []
   | Some st \<Rightarrow> let n = transition_int slot st 21 in
       if 1 \<le> n then top_active_producers (nat n) s else [])"

fun lookup_all :: "name list \<Rightarrow> chain \<Rightarrow> error + producer_info list" where
  "lookup_all [] s = Inr []"
| "lookup_all (k # ks) s =
     fetch (fmlookup (producers s) k) No_row (\<lambda>p. bindR (lookup_all ks s) (\<lambda>ps. Inr (p # ps)))"

text \<open>
  \<open>std::sort\<close> by location leaves the order of producers at the same location open: the sorting is
  a parameter.
\<close>

definition update_elected_producers ::
  "(candidate list \<Rightarrow> candidate list) \<Rightarrow> env \<Rightarrow> int \<Rightarrow> chain \<Rightarrow> error + chain" where
  "update_elected_producers srt E block_time s =
     (let s1 = s\<lparr>gstate := (gstate s)\<lparr>last_producer_schedule_update := block_time\<rparr>\<rparr>;
          pool_producers = pool_elected block_time s1 in
      bindR (lookup_all pool_producers s1) (\<lambda>infos.
      let top_producers = elect pool_producers (map candidate infos) (prototalvote s1) in
      if length top_producers = 0 \<or> int (length top_producers) < last_producer_schedule_size (gstate s1) then Inr s1
      else
        let schedule = map fst (srt top_producers);
            s2 = emit (Set_proposed_producers schedule) s1 in
        Inr (if 0 \<le> e_propose E schedule
          then s2\<lparr>gstate := (gstate s2)\<lparr>last_producer_schedule_size := u16 (int (length top_producers))\<rparr>\<rparr>
          else s2)))"

section \<open>The loop as a selection\<close>

definition votable :: "name \<times> producer_info \<Rightarrow> bool" where
  "votable kp = (0 < total_votes (snd kp) \<and> is_active (snd kp))"

text \<open>
  The loop of the election appends, up to 21 in all, the producers of the index up to the first
  that has no votes or is not active, without those the pools have elected.
\<close>

lemma elect_selects:
  "elect pool acc ps =
     acc @ map (candidate \<circ> snd) (take (21 - length acc)
       (filter (\<lambda>(k, p). p_owner p \<notin> set pool) (takeWhile votable ps)))"
proof (induction pool acc ps rule: elect.induct)
  case (2 pool acc k p ps)
  show ?case
  proof (cases "length acc < 21")
    case True
    then have "21 - length acc = Suc (21 - Suc (length acc))" by simp
    then show ?thesis using 2 True by (auto simp: votable_def)
  next
    case False
    then show ?thesis by simp
  qed
qed simp

section \<open>The order of the index\<close>

lemma f64_pos_cases: "0 < (x :: f64) \<Longrightarrow> (\<exists>a > 0. x = Fin a) \<or> x = PInf"
  by (cases x) (auto simp: f64_defs)

lemma rank_neg: "0 < (x :: f64) \<Longrightarrow> 0 < y \<Longrightarrow> f64_rank (- x) \<le> f64_rank (- y) \<Longrightarrow> y \<le> x"
  by (drule f64_pos_cases)+ (auto simp: f64_rank_def f64_defs f64_eq_def less_eq_prod_def split: if_splits)

lemma rank_votable:
  assumes "votable (k, p)" "\<not> votable (j, q)" "\<not> total_votes q < 0"
  shows "f64_rank (prod_by_votes p) < f64_rank (prod_by_votes q)"
  using assms f64_pos_cases [of "total_votes p"]
  by (cases "total_votes q") (auto simp: votable_def prod_by_votes_def f64_rank_def f64_defs less_prod_def)

section \<open>The schedule\<close>

definition producers_keyed :: "chain \<Rightarrow> bool" where
  "producers_keyed s \<longleftrightarrow> (\<forall>k p. fmlookup (producers s) k = Some p \<longrightarrow> p_owner p = k \<and> \<not> total_votes p < 0)"

text \<open>What \<open>std::sort\<close> promises.\<close>

definition sorting :: "(candidate list \<Rightarrow> candidate list) \<Rightarrow> bool" where
  "sorting srt \<longleftrightarrow> (\<forall>xs. mset (srt xs) = mset xs \<and> sorted (map snd (srt xs)))"

lemma distinct_map_takeWhile:
  assumes "distinct (map f xs)"
  shows "distinct (map f (takeWhile P xs))"
proof -
  have "map f xs = map f (takeWhile P xs) @ map f (dropWhile P xs)"
    unfolding map_append [symmetric] takeWhile_dropWhile_id by (rule refl)
  with assms show ?thesis by simp
qed

lemma prototalvote_set: "(k, p) \<in> set (prototalvote s) \<longleftrightarrow> fmlookup (producers s) k = Some p"
  by (simp add: prototalvote_def rows_upd_lookup)

lemma prototalvote_distinct: "distinct (map fst (prototalvote s))"
proof -
  have "distinct (map fst (rows (producers s)))"
    by (simp add: rows_def sorted_list_of_fmap_def comp_def sorted_list_of_fset.rep_eq)
  moreover have "mset (map fst (prototalvote s)) = mset (map fst (rows (producers s)))"
    by (simp add: prototalvote_def)
  ultimately show ?thesis using mset_eq_imp_distinct_iff by metis
qed

lemma fst_le: "(x :: 'a::linorder \<times> 'b::linorder) \<le> y \<Longrightarrow> fst x \<le> fst y"
  by (auto simp: less_eq_prod_def)

lemma sorted_prefix:
  assumes "sorted (map f xs)" "\<And>x y. x \<in> set xs \<Longrightarrow> y \<in> set xs \<Longrightarrow> P x \<Longrightarrow> \<not> P y \<Longrightarrow> f x < f y" "x \<in> set xs" "P x"
  shows "x \<in> set (takeWhile P xs)"
  using assms
proof (induction xs)
  case (Cons y ys)
  show ?case
  proof (cases "P y")
    case True
    then show ?thesis using Cons by auto
  next
    case False
    then have "f x < f y" by (intro Cons.prems(2)) (use Cons.prems in auto)
    moreover have "f y \<le> f x" using Cons.prems(1,3,4) False by auto
    ultimately show ?thesis by simp
  qed
qed simp

text \<open>The producers the index offers: all with votes that are active, the most voted first.\<close>

lemma votable_offered:
  assumes "producers_keyed s"
  shows "set (takeWhile votable (prototalvote s)) = {(k, p). fmlookup (producers s) k = Some p \<and> 0 < total_votes p \<and> is_active p}"
proof (intro set_eqI iffI)
  fix x assume "x \<in> set (takeWhile votable (prototalvote s))"
  then show "x \<in> {(k, p). fmlookup (producers s) k = Some p \<and> 0 < total_votes p \<and> is_active p}"
    using set_takeWhileD [of x votable] prototalvote_set [of "fst x" "snd x" s] by (auto simp: votable_def)
next
  fix x assume x: "x \<in> {(k, p). fmlookup (producers s) k = Some p \<and> 0 < total_votes p \<and> is_active p}"
  show "x \<in> set (takeWhile votable (prototalvote s))"
  proof (rule sorted_prefix [where f = "\<lambda>(k, p). (f64_rank (prod_by_votes p), k)"])
    show "sorted (map (\<lambda>(k, p). (f64_rank (prod_by_votes p), k)) (prototalvote s))"
      unfolding prototalvote_def by simp
    show "x \<in> set (prototalvote s)" using x prototalvote_set [of "fst x" "snd x" s] by auto
    show "votable x" using x by (auto simp: votable_def)
  next
    fix a b assume "a \<in> set (prototalvote s)" "b \<in> set (prototalvote s)" "votable a" "\<not> votable b"
    then show "(case a of (k, p) \<Rightarrow> (f64_rank (prod_by_votes p), k)) < (case b of (k, p) \<Rightarrow> (f64_rank (prod_by_votes p), k))"
      using rank_votable [of "fst a" "snd a" "fst b" "snd b"] assms prototalvote_set [of "fst b" "snd b" s]
      by (auto simp: producers_keyed_def less_prod_def split: prod.splits)
  qed
qed

lemma take_before:
  assumes "sorted (map f xs)" "x \<in> set (take n xs)" "y \<in> set xs" "y \<notin> set (take n xs)"
  shows "f x \<le> f y"
proof -
  have "xs = take n xs @ drop n xs" by simp
  then have "sorted (map f (take n xs) @ map f (drop n xs))" using assms(1) by (metis map_append)
  moreover have "y \<in> set (drop n xs)" using assms(3,4) by (metis Un_iff append_take_drop_id set_append)
  ultimately show ?thesis using assms(2) by (auto simp: sorted_append)
qed

text \<open>The producers elected by votes, without those the pools elect.\<close>

definition by_vote :: "name list \<Rightarrow> nat \<Rightarrow> chain \<Rightarrow> (name \<times> producer_info) list" where
  "by_vote pool n s = take n (filter (\<lambda>(k, p). p_owner p \<notin> set pool) (takeWhile votable (prototalvote s)))"

lemma by_vote_distinct: "distinct (map fst (by_vote pool n s))"
proof -
  have "distinct (map fst (takeWhile votable (prototalvote s)))"
    using prototalvote_distinct by (rule distinct_map_takeWhile)
  then have "distinct (map fst (filter (\<lambda>(k, p). p_owner p \<notin> set pool) (takeWhile votable (prototalvote s))))"
    by (rule distinct_map_filter)
  then show ?thesis unfolding by_vote_def take_map [symmetric] by (rule distinct_take)
qed

lemma by_vote_member:
  assumes "producers_keyed s" "(k, p) \<in> set (by_vote pool n s)"
  shows "fmlookup (producers s) k = Some p" "0 < total_votes p" "is_active p" "k \<notin> set pool" "p_owner p = k"
proof -
  have "(k, p) \<in> set (takeWhile votable (prototalvote s))" "p_owner p \<notin> set pool"
    using assms(2) in_set_takeD [of "(k, p)" n] by (fastforce simp: by_vote_def)+
  then show "fmlookup (producers s) k = Some p" "0 < total_votes p" "is_active p"
    using votable_offered [OF assms(1)] by auto
  then show "p_owner p = k" using assms(1) by (simp add: producers_keyed_def)
  with \<open>p_owner p \<notin> set pool\<close> show "k \<notin> set pool" by simp
qed

lemma by_vote_best:
  assumes k: "producers_keyed s" and q: "fmlookup (producers s) q = Some p" "0 < total_votes p" "is_active p"
    and out: "q \<notin> set pool" "q \<notin> fst ` set (by_vote pool n s)"
  shows "length (by_vote pool n s) = n \<and> (\<forall>(k, p') \<in> set (by_vote pool n s). total_votes p \<le> total_votes p')"
proof -
  let ?all = "filter (\<lambda>(k, p). p_owner p \<notin> set pool) (takeWhile votable (prototalvote s))"
  let ?f = "\<lambda>(k, p). (f64_rank (prod_by_votes p), k)"
  have m: "(q, p) \<in> set ?all" using votable_offered [OF k] q out(1) k by (auto simp: producers_keyed_def)
  moreover have t: "(q, p) \<notin> set (take n ?all)" using out(2) by (force simp: by_vote_def)
  ultimately have "n < length ?all" by (metis linorder_le_less_linear take_all_iff)
  moreover have "sorted (map ?f (prototalvote s))" unfolding prototalvote_def by simp
  then have "sorted (map ?f (takeWhile votable (prototalvote s)))"
    by (metis map_append sorted_append takeWhile_dropWhile_id)
  then have "sorted (map ?f ?all)" by (rule sorted_filter)
  then have le: "?f x \<le> ?f (q, p)" if "x \<in> set (by_vote pool n s)" for x
    using that unfolding by_vote_def by (rule take_before [OF _ _ m t])
  have "total_votes p \<le> total_votes p'" if x: "(k, p') \<in> set (by_vote pool n s)" for k p'
  proof (rule rank_neg)
    show "f64_rank (- total_votes p') \<le> f64_rank (- total_votes p)"
      using fst_le [OF le [OF x]] by_vote_member(3) [OF k x] q(3) by (simp add: prod_by_votes_def)
  qed (use by_vote_member(2) [OF k x] q(2) in simp_all)
  ultimately show ?thesis by (auto simp: by_vote_def)
qed

lemma pool_elected_distinct: "distinct (pool_elected slot s) \<and> length (pool_elected slot s) \<le> 21"
proof -
  have "distinct (map fst (by_votes_index s))"
  proof -
    have "distinct (map fst (rows (totpoolvotes s)))"
      by (simp add: rows_def sorted_list_of_fmap_def comp_def sorted_list_of_fset.rep_eq)
    moreover have "mset (map fst (by_votes_index s)) = mset (map fst (rows (totpoolvotes s)))"
      by (simp add: by_votes_index_def)
    ultimately show ?thesis using mset_eq_imp_distinct_iff by metis
  qed
  then have "distinct (map fst (takeWhile P (by_votes_index s)))" for P by (rule distinct_map_takeWhile)
  then have "distinct (top_active_producers n s) \<and> length (top_active_producers n s) \<le> n" for n
    unfolding top_active_producers_def by (intro conjI distinct_take) auto
  moreover have "nat (transition_int slot st 21) \<le> 21" for st
    using transition_int_bounds [of 21 slot st] by (simp add: nat_le_iff)
  ultimately have "distinct (top_active_producers (nat (transition_int slot st 21)) s) \<and>
      length (top_active_producers (nat (transition_int slot st 21)) s) \<le> 21" for st
    using order_trans by blast
  then show ?thesis by (simp add: pool_elected_def Let_def split: option.split)
qed

lemma lookup_all_Inr:
  "lookup_all ks s = Inr ps \<Longrightarrow> length ps = length ks \<and> (\<forall>k p. (k, p) \<in> set (zip ks ps) \<longrightarrow> fmlookup (producers s) k = Some p)"
  by (induction ks arbitrary: ps) (auto simp: res_simps)

lemma lookup_all_owner:
  assumes "lookup_all ks s = Inr ps" "producers_keyed s"
  shows "map p_owner ps = ks" and "p \<in> set ps \<Longrightarrow> fmlookup (producers s) (p_owner p) = Some p"
proof -
  note l = lookup_all_Inr [OF assms(1)]
  show "map p_owner ps = ks"
  proof (rule nth_equalityI)
    fix i assume i: "i < length (map p_owner ps)"
    then have "(ks ! i, ps ! i) \<in> set (zip ks ps)" using l by (auto simp: set_zip)
    then show "map p_owner ps ! i = ks ! i" using l assms(2) i by (auto simp: producers_keyed_def)
  qed (use l in simp)
  assume "p \<in> set ps"
  then obtain i where i: "i < length ps" "p = ps ! i" by (auto simp: in_set_conv_nth)
  then have "(ks ! i, p) \<in> set (zip ks ps)" using l by (auto simp: set_zip)
  then have "fmlookup (producers s) (ks ! i) = Some p" using l by blast
  moreover from this have "p_owner p = ks ! i" using assms(2) by (simp add: producers_keyed_def)
  ultimately show "fmlookup (producers s) (p_owner p) = Some p" by simp
qed

lemma update_elected_cases:
  assumes "update_elected_producers srt E slot s = Inr t"
  obtains (keep) "t = s\<lparr>gstate := (gstate s)\<lparr>last_producer_schedule_update := slot\<rparr>\<rparr>"
  | (propose) infos tops where "lookup_all (pool_elected slot s) s = Inr infos"
      "tops = map candidate infos @ map (candidate \<circ> snd) (by_vote (pool_elected slot s) (21 - length infos) s)"
      "tops \<noteq> []" "last_producer_schedule_size (gstate s) \<le> int (length tops)"
      "outbox t = outbox s @ [Set_proposed_producers (map fst (srt tops))]"
      "t = s\<lparr>gstate := gstate t, outbox := outbox t\<rparr>"
      "gstate t = (gstate s)\<lparr>last_producer_schedule_update := slot,
         last_producer_schedule_size := last_producer_schedule_size (gstate t)\<rparr>"
proof -
  let ?s1 = "s\<lparr>gstate := (gstate s)\<lparr>last_producer_schedule_update := slot\<rparr>\<rparr>"
  have same: "pool_elected slot ?s1 = pool_elected slot s" "prototalvote ?s1 = prototalvote s"
    by (simp_all add: pool_elected_def top_active_producers_def by_votes_index_def prototalvote_def Let_def split: option.split)
  have look: "lookup_all ks ?s1 = lookup_all ks s" for ks by (induction ks) simp_all
  obtain infos where i: "lookup_all (pool_elected slot s) s = Inr infos"
    using assms by (auto simp: update_elected_producers_def Let_def res_simps same look)
  let ?tops = "map candidate infos @ map (candidate \<circ> snd) (by_vote (pool_elected slot s) (21 - length infos) s)"
  have e: "elect (pool_elected slot s) (map candidate infos) (prototalvote s) = ?tops"
    by (simp add: elect_selects by_vote_def)
  show thesis
  proof (cases "length ?tops = 0 \<or> int (length ?tops) < last_producer_schedule_size (gstate s)")
    case True
    then have "t = ?s1" using assms i
      by (simp add: update_elected_producers_def Let_def res_simps same look e del: length_append length_map)
    then show thesis by (rule keep)
  next
    case False
    then have t: "t = s\<lparr>gstate := gstate t, outbox := outbox s @ [Set_proposed_producers (map fst (srt ?tops))]\<rparr> \<and>
        gstate t = (gstate s)\<lparr>last_producer_schedule_update := slot,
          last_producer_schedule_size := last_producer_schedule_size (gstate t)\<rparr>"
      using assms i
      by (auto simp: update_elected_producers_def Let_def res_simps same look e emit_def split: if_splits)
    have "outbox t = outbox s @ [Set_proposed_producers (map fst (srt ?tops))]"
      using arg_cong [OF conjunct1 [OF t], of outbox] by simp
    then show thesis by (intro propose [OF i refl]) (use False t in auto)
  qed
qed

text \<open>A list of producers and authorities that is, in some order, what the pools and the votes elect.\<close>

definition elected :: "name list \<Rightarrow> chain \<Rightarrow> (name \<times> signing_authority) list \<Rightarrow> producer_info list \<Rightarrow> bool" where
  "elected pool s sch infos \<longleftrightarrow> producers_keyed s \<and> distinct pool \<and> length pool \<le> 21 \<and> lookup_all pool s = Inr infos \<and>
     mset sch = mset (map (fst \<circ> candidate) infos @ map (fst \<circ> candidate \<circ> snd) (by_vote pool (21 - length pool) s))"

lemma elected_names:
  assumes el: "elected pool s sch infos"
  shows "mset (map fst sch) = mset (pool @ map fst (by_vote pool (21 - length pool) s))"
proof -
  let ?v = "by_vote pool (21 - length pool) s"
  have "mset (map fst sch) = image_mset fst (mset sch)" by simp
  also have "\<dots> = mset (map p_owner infos @ map (p_owner \<circ> snd) ?v)"
    using el by (simp add: elected_def multiset.map_comp comp_def candidate_def)
  also have "map (p_owner \<circ> snd) ?v = map fst ?v"
    using el by (auto simp: elected_def by_vote_member(5))
  finally have "mset (map fst sch) = mset (map p_owner infos @ map fst ?v)" .
  moreover have "map p_owner infos = pool" using lookup_all_owner(1) [of pool s infos] el by (simp add: elected_def)
  ultimately show ?thesis by simp
qed

lemma elected_set: "elected pool s sch infos \<Longrightarrow> fst ` set sch = set pool \<union> fst ` set (by_vote pool (21 - length pool) s)"
  using mset_eq_setD [OF elected_names] by simp

lemma elected_distinct:
  assumes el: "elected pool s sch infos"
  shows "distinct (map fst sch) \<and> length sch \<le> 21"
proof
  let ?v = "by_vote pool (21 - length pool) s"
  have k: "producers_keyed s" using el by (simp add: elected_def)
  have "distinct (pool @ map fst ?v)"
    using el by_vote_distinct by_vote_member(4) [OF k] by (fastforce simp: elected_def)
  then show "distinct (map fst sch)" using mset_eq_imp_distinct_iff [OF elected_names [OF el]] by blast
  have "length ?v \<le> 21 - length pool" by (simp add: by_vote_def)
  moreover have "length pool \<le> 21" using el by (simp add: elected_def)
  ultimately show "length sch \<le> 21" using mset_eq_length [OF elected_names [OF el]] by simp
qed

lemma elected_member:
  assumes el: "elected pool s sch infos" and a: "(a, auth) \<in> set sch"
  shows "\<exists>p. fmlookup (producers s) a = Some p \<and> auth = get_producer_authority p \<and>
    (a \<notin> set pool \<longrightarrow> is_active p \<and> 0 < total_votes p)"
proof -
  have k: "producers_keyed s" and look: "lookup_all pool s = Inr infos" using el by (simp_all add: elected_def)
  note L = lookup_all_owner [OF look k]
  have "mset sch = mset (map (fst \<circ> candidate) infos @ map (fst \<circ> candidate \<circ> snd) (by_vote pool (21 - length pool) s))"
    using el by (simp add: elected_def)
  from mset_eq_setD [OF this] a consider p where "p \<in> set infos" "(a, auth) = fst (candidate p)"
    | j p where "(j, p) \<in> set (by_vote pool (21 - length pool) s)" "(a, auth) = fst (candidate p)" by auto
  then show ?thesis
  proof cases
    case (1 p)
    then show ?thesis using L by (auto simp: candidate_def)
  next
    case (2 j p)
    then show ?thesis using by_vote_member [OF k 2(1)] by (auto simp: candidate_def)
  qed
qed

lemma elected_best:
  assumes el: "elected pool s sch infos"
    and q: "fmlookup (producers s) q = Some p" "0 < total_votes p" "is_active p" "q \<notin> fst ` set sch"
  shows "length sch = 21 \<and> (\<forall>a p'. a \<in> fst ` set sch \<longrightarrow> a \<notin> set pool \<longrightarrow> fmlookup (producers s) a = Some p' \<longrightarrow>
    total_votes p \<le> total_votes p')"
proof -
  let ?v = "by_vote pool (21 - length pool) s"
  have k: "producers_keyed s" using el by (simp add: elected_def)
  have B: "length ?v = 21 - length pool" "\<forall>(k, p') \<in> set ?v. total_votes p \<le> total_votes p'"
    using by_vote_best [OF k q(1-3), of pool "21 - length pool"] q(4) elected_set [OF el] by auto
  have "length sch = 21" using mset_eq_length [OF elected_names [OF el]] B(1) el by (simp add: elected_def)
  moreover have "total_votes p \<le> total_votes p'"
    if a: "a \<in> fst ` set sch" "a \<notin> set pool" "fmlookup (producers s) a = Some p'" for a p'
  proof -
    obtain r where r: "(a, r) \<in> set ?v" using a elected_set [OF el] by auto
    then show ?thesis using by_vote_member(1) [OF k r] a(3) B(2) by fastforce
  qed
  ultimately show ?thesis by blast
qed

lemma proposed_elected:
  assumes "update_elected_producers srt E slot s = Inr t" "sorting srt" "producers_keyed s"
    "outbox t = outbox s @ [Set_proposed_producers sch]"
  obtains infos where "elected (pool_elected slot s) s sch infos" "sch \<noteq> []"
    "last_producer_schedule_size (gstate s) \<le> int (length sch)"
  using assms(1)
proof (cases rule: update_elected_cases)
  case keep
  then show ?thesis using assms(4) by simp
next
  case (propose infos tops)
  have "sch = map fst (srt tops)" using assms(4) propose(5) by simp
  then have ms: "mset sch = mset (map fst tops)" using assms(2) by (simp add: sorting_def)
  have "length infos = length (pool_elected slot s)" using lookup_all_Inr [OF propose(1)] by simp
  then have "elected (pool_elected slot s) s sch infos"
    using ms propose(1,2) pool_elected_distinct [of slot s] assms(3)
    by (simp add: elected_def multiset.map_comp comp_assoc)
  moreover have len: "length sch = length tops" using mset_eq_length [OF ms] by simp
  then have "sch \<noteq> []" using propose(3) by (cases sch) auto
  ultimately show ?thesis using that [of infos] propose(4) len by simp
qed

text \<open>
  C14: A proposed schedule names between one and 21 different registered producers with their
  authorities, no fewer than the schedule before: all those the staking pools elect, and otherwise
  active producers with votes; an active producer with votes is left out only of a full schedule,
  and only if everyone elected by votes has at least as many.
\<close>

theorem proposed_schedule:
  assumes ok: "update_elected_producers srt E slot s = Inr t" and srt: "sorting srt" and keyed: "producers_keyed s"
    and sch: "outbox t = outbox s @ [Set_proposed_producers sch]"
  defines "pool \<equiv> pool_elected slot s"
  shows "distinct (map fst sch) \<and> sch \<noteq> [] \<and> length sch \<le> 21 \<and> last_producer_schedule_size (gstate s) \<le> int (length sch) \<and>
    set pool \<subseteq> fst ` set sch \<and>
    (\<forall>(a, auth) \<in> set sch. \<exists>p. fmlookup (producers s) a = Some p \<and> auth = get_producer_authority p \<and>
       (a \<notin> set pool \<longrightarrow> is_active p \<and> 0 < total_votes p)) \<and>
    (\<forall>q p. fmlookup (producers s) q = Some p \<longrightarrow> 0 < total_votes p \<longrightarrow> is_active p \<longrightarrow> q \<notin> fst ` set sch \<longrightarrow>
       length sch = 21 \<and> (\<forall>a p'. a \<in> fst ` set sch \<longrightarrow> a \<notin> set pool \<longrightarrow> fmlookup (producers s) a = Some p' \<longrightarrow>
         total_votes p \<le> total_votes p'))"
  using ok srt keyed sch
proof (rule proposed_elected)
  fix infos assume el: "elected (pool_elected slot s) s sch infos" and r: "sch \<noteq> []"
    "last_producer_schedule_size (gstate s) \<le> int (length sch)"
  show ?thesis
    unfolding pool_def
    using r elected_distinct [OF el] elected_set [OF el] elected_member [OF el] elected_best [OF el]
    by (auto simp: case_prod_beta)
qed

section \<open>The registry\<close>

text \<open>
  Rows stand under their owner; a producer has a row in the ranking of the pools exactly if it takes
  part in the pools, with the same activity; and only producers have rows beside.
\<close>

definition in_ranking :: "chain \<Rightarrow> name \<Rightarrow> producer_info \<Rightarrow> bool" where
  "in_ranking s k p \<longleftrightarrow> (case get_prod_pool_votes p of
     None \<Rightarrow> fmlookup (totpoolvotes s) k = None
   | Some v \<Rightarrow> poolstate s \<noteq> None \<and>
       (\<exists>tot. fmlookup (totpoolvotes s) k = Some tot \<and> active tot = is_active p))"

definition registry_ok :: "chain \<Rightarrow> bool" where
  "registry_ok s \<longleftrightarrow>
     (\<forall>k p. fmlookup (producers s) k = Some p \<longrightarrow> p_owner p = k \<and> in_ranking s k p) \<and>
     (\<forall>k. fmlookup (producers s) k = None \<longrightarrow> fmlookup (totpoolvotes s) k = None \<and> fmlookup (producers2 s) k = None)"

lemma in_ranking_cong:
  "pool_votes q = pool_votes p \<Longrightarrow> is_active q = is_active p \<Longrightarrow> in_ranking s k q = in_ranking s k p"
  unfolding in_ranking_def get_prod_pool_votes_def by (simp split: option.split)

lemma in_ranking_state:
  "fmlookup (totpoolvotes t) k = fmlookup (totpoolvotes s) k \<Longrightarrow> poolstate t = poolstate s \<Longrightarrow>
     in_ranking t k p = in_ranking s k p"
  unfolding in_ranking_def by (simp split: option.split)

lemma registry_row: "registry_ok s \<Longrightarrow> fmlookup (producers s) k = Some p \<Longrightarrow> p_owner p = k \<and> in_ranking s k p"
  by (simp add: registry_ok_def)

lemma registry_none:
  "registry_ok s \<Longrightarrow> fmlookup (producers s) k = None \<Longrightarrow>
     fmlookup (totpoolvotes s) k = None \<and> fmlookup (producers2 s) k = None"
  by (simp add: registry_ok_def)

text \<open>Writing a producer's row together with its row in the ranking.\<close>

lemma registry_okI:
  assumes ok: "registry_ok s" and own: "p_owner p = k"
    and rows: "producers t = fmupd k p (producers s)" "\<And>j. j \<noteq> k \<Longrightarrow> fmlookup (totpoolvotes t) j = fmlookup (totpoolvotes s) j"
      "\<And>j. j \<noteq> k \<Longrightarrow> fmlookup (producers2 t) j = fmlookup (producers2 s) j"
      "poolstate t = poolstate s"
    and k: "in_ranking t k p"
  shows "registry_ok t"
  unfolding registry_ok_def
proof (intro conjI allI impI)
  fix j q assume q: "fmlookup (producers t) j = Some q"
  show "p_owner q = j" using q registry_row [OF ok] own by (auto simp: rows(1) split: if_splits)
  show "in_ranking t j q"
  proof (cases "j = k")
    case True
    then show ?thesis using q k by (simp add: rows(1))
  next
    case False
    then have "in_ranking s j q" using q registry_row [OF ok, of j q] by (simp add: rows(1))
    then show ?thesis unfolding in_ranking_def rows(2) [OF False] rows(4) .
  qed
next
  fix j assume "fmlookup (producers t) j = None"
  then have "j \<noteq> k" "fmlookup (producers s) j = None" by (auto simp: rows(1) split: if_splits)
  then show "fmlookup (totpoolvotes t) j = None" "fmlookup (producers2 t) j = None"
    using registry_none [OF ok] by (simp_all add: rows)
qed

text \<open>Enabling pool votes of a producer whose row is about to be written active.\<close>

lemma enable_pool_votes_ok:
  assumes core: "rammarket s \<noteq> None" and own: "p_owner p = k" "is_active p"
    and row: "in_ranking s k (p\<lparr>is_active := b\<rparr>)"
  obtains q t where "enable_prod_pool_votes p s = Inr (q, t)" "q = p\<lparr>pool_votes := pool_votes q\<rparr>"
    "t = s\<lparr>totpoolvotes := totpoolvotes t\<rparr>" "\<And>j. j \<noteq> k \<Longrightarrow> fmlookup (totpoolvotes t) j = fmlookup (totpoolvotes s) j"
    "in_ranking t k q"
proof (cases "get_prod_pool_votes p")
  case (Some v)
  then obtain st tot where "poolstate s = Some st" "fmlookup (totpoolvotes s) k = Some tot"
    using row by (auto simp: in_ranking_def get_prod_pool_votes_def)
  then show thesis using Some own
    by (intro that [of p "s\<lparr>totpoolvotes := fmupd k (tot\<lparr>active := True\<rparr>) (totpoolvotes s)\<rparr>"])
      (simp_all add: enable_prod_pool_votes_def in_ranking_def)
next
  case None
  then have new: "fmlookup (totpoolvotes s) k = None" using row by (auto simp: in_ranking_def get_prod_pool_votes_def)
  show thesis
  proof (cases "poolstate s")
    case p: None
    then show thesis using that [of p s] None new by (simp add: enable_prod_pool_votes_def in_ranking_def)
  next
    case (Some st)
    obtain m where "rammarket s = Some m" using core by blast
    then show thesis using Some None own new
      by (intro that [of "p\<lparr>pool_votes := Some (Some (replicate (length (pools st)) 0))\<rparr>"
            "s\<lparr>totpoolvotes := fmupd k \<lparr>tv_owner = k, active = True, votes = 0,
              vote_pay = asset0 (asym (balance (quote m)))\<rparr> (totpoolvotes s)\<rparr>"])
        (simp_all add: enable_prod_pool_votes_def core_symbol_def get_prod_pool_votes_def in_ranking_def)
  qed
qed

definition registered :: "env \<Rightarrow> name \<Rightarrow> signing_authority \<Rightarrow> string \<Rightarrow> int \<Rightarrow> chain \<Rightarrow> bool" where
  "registered E k a u loc s \<longleftrightarrow> fmlookup (producers2 s) k \<noteq> None \<and>
     (\<exists>p. fmlookup (producers s) k = Some p \<and> is_active p \<and> producer_authority p = Some a \<and> url p = u \<and>
        location p = loc \<and> last_claim_time p \<noteq> 0)"

lemma votepay_share_tables:
  "producers (snd (update_total_votepay_share ct a b s)) = producers s"
  "producers2 (snd (update_total_votepay_share ct a b s)) = producers2 s"
  "totpoolvotes (snd (update_total_votepay_share ct a b s)) = totpoolvotes s"
  "poolstate (snd (update_total_votepay_share ct a b s)) = poolstate s"
  "rammarket (snd (update_total_votepay_share ct a b s)) = rammarket s"
  "namebids (snd (update_total_votepay_share ct a b s)) = namebids s"
  "bidrefunds (snd (update_total_votepay_share ct a b s)) = bidrefunds s"
  "rexpool (snd (update_total_votepay_share ct a b s)) = rexpool s"
  "gstate (snd (update_total_votepay_share ct a b s)) = gstate s"
  "gstate4 (snd (update_total_votepay_share ct a b s)) = gstate4 s"
  "outbox (snd (update_total_votepay_share ct a b s)) = outbox s"
  by (simp_all add: update_total_votepay_share_def Let_def)

lemma register_producer_ok:
  assumes ok: "registry_ok s" and core: "rammarket s \<noteq> None" and now: "e_now E \<noteq> 0"
  shows "\<exists>t. register_producer E k a u loc s = Inr t \<and> registry_ok t \<and> registered E k a u loc t"
proof (cases "fmlookup (producers s) k")
  case (Some p)
  let ?key = "if length (keys a) = 1 then fst (keys a ! 0) else 0"
  let ?p = "p\<lparr>producer_key := ?key, is_active := True, url := u, location := loc, producer_authority := Some a,
    last_claim_time := (if last_claim_time p = 0 then e_now E else last_claim_time p)\<rparr>"
  note old = registry_row [OF ok Some]
  then have own: "p_owner ?p = k" by simp
  have row: "in_ranking s k (?p\<lparr>is_active := is_active p\<rparr>)"
    using old by (subst in_ranking_cong [of _ p]) simp_all
  obtain q s1 where e: "enable_prod_pool_votes ?p s = Inr (q, s1)" "q = ?p\<lparr>pool_votes := pool_votes q\<rparr>"
    "s1 = s\<lparr>totpoolvotes := totpoolvotes s1\<rparr>" "\<And>j. j \<noteq> k \<Longrightarrow> fmlookup (totpoolvotes s1) j = fmlookup (totpoolvotes s) j"
    "in_ranking s1 k q"
    by (rule enable_pool_votes_ok [OF core own _ row]) simp_all
  let ?s2 = "s1\<lparr>producers := fmupd k q (producers s1)\<rparr>"
  define t where "t = (if fmlookup (producers2 ?s2) k = None then
      snd (update_total_votepay_share (e_now E) 0 (total_votes q) (?s2\<lparr>producers2 := fmupd k
        \<lparr>p2_owner = k, votepay_share = 0, last_votepay_share_update = e_now E\<rparr> (producers2 ?s2)\<rparr>)) else ?s2)"
  have r: "register_producer E k a u loc s = Inr t"
    unfolding register_producer_def Let_def Some option.case e(1) bindR_Inr prod.case t_def by (rule refl)
  have f: "producers s1 = producers s" "producers2 s1 = producers2 s" "poolstate s1 = poolstate s"
    using arg_cong [OF e(3), of producers] arg_cong [OF e(3), of producers2] arg_cong [OF e(3), of poolstate] by simp_all
  have g: "producers t = fmupd k q (producers s)" "totpoolvotes t = totpoolvotes s1" "poolstate t = poolstate s"
    "\<And>j. j \<noteq> k \<Longrightarrow> fmlookup (producers2 t) j = fmlookup (producers2 s) j" "fmlookup (producers2 t) k \<noteq> None"
    by (auto simp: t_def votepay_share_tables f)
  have q: "p_owner q = k" using arg_cong [OF e(2), of p_owner] old by simp
  have qf: "is_active q" "producer_authority q = Some a" "url q = u" "location q = loc" "last_claim_time q \<noteq> 0"
    using arg_cong [OF e(2), of is_active] arg_cong [OF e(2), of producer_authority] arg_cong [OF e(2), of url]
      arg_cong [OF e(2), of location] arg_cong [OF e(2), of last_claim_time] now by simp_all
  have "registry_ok t"
    by (rule registry_okI [OF ok q g(1)]) (use e(4,5) in \<open>simp_all add: g f in_ranking_state [of t k s1]\<close>)
  moreover have "registered E k a u loc t" using g(1,5) qf by (simp add: registered_def)
  ultimately show ?thesis using r by blast
next
  case None
  let ?key = "if length (keys a) = 1 then fst (keys a ! 0) else 0"
  let ?p = "\<lparr>p_owner = k, total_votes = 0, producer_key = ?key, is_active = True, url = u, unpaid_blocks = 0,
    last_claim_time = e_now E, location = loc, producer_authority = Some a, pool_votes = None\<rparr>"
  note new = registry_none [OF ok None]
  have row: "in_ranking s k (?p\<lparr>is_active := True\<rparr>)" using new by (simp add: in_ranking_def get_prod_pool_votes_def)
  obtain q s1 where e: "enable_prod_pool_votes ?p s = Inr (q, s1)" "q = ?p\<lparr>pool_votes := pool_votes q\<rparr>"
    "s1 = s\<lparr>totpoolvotes := totpoolvotes s1\<rparr>" "\<And>j. j \<noteq> k \<Longrightarrow> fmlookup (totpoolvotes s1) j = fmlookup (totpoolvotes s) j"
    "in_ranking s1 k q"
    by (rule enable_pool_votes_ok [OF core _ _ row]) simp_all
  have f: "producers s1 = producers s" "producers2 s1 = producers2 s" "poolstate s1 = poolstate s"
    using arg_cong [OF e(3), of producers] arg_cong [OF e(3), of producers2] arg_cong [OF e(3), of poolstate] by simp_all
  define t where "t = s1\<lparr>producers := fmupd k q (producers s1), producers2 := fmupd k
    \<lparr>p2_owner = k, votepay_share = 0, last_votepay_share_update = e_now E\<rparr> (producers2 s1)\<rparr>"
  have r: "register_producer E k a u loc s = Inr t"
    unfolding register_producer_def Let_def None option.case e(1) bindR_Inr prod.case t_def
    using new by (simp add: f)
  have q: "p_owner q = k" using arg_cong [OF e(2), of p_owner] by simp
  have qf: "is_active q" "producer_authority q = Some a" "url q = u" "location q = loc" "last_claim_time q \<noteq> 0"
    using arg_cong [OF e(2), of is_active] arg_cong [OF e(2), of producer_authority] arg_cong [OF e(2), of url]
      arg_cong [OF e(2), of location] arg_cong [OF e(2), of last_claim_time] now by simp_all
  have "registry_ok t"
  proof (rule registry_okI [OF ok q])
    show "in_ranking t k q" using e(5) in_ranking_state [of t k s1] by (simp add: t_def)
  qed (use e(4) in \<open>simp_all add: t_def f\<close>)
  moreover have "registered E k a u loc t" using qf by (simp add: registered_def t_def)
  ultimately show ?thesis using r by blast
qed

lemma deactivate_producer_registry:
  assumes ok: "registry_ok s" and d: "deactivate_producer k s = Inr t"
  shows "registry_ok t"
proof -
  obtain p where p: "fmlookup (producers s) k = Some p"
    and t: "case fmlookup (totpoolvotes s) k of
        None \<Rightarrow> t = s\<lparr>producers := fmupd k (deactivate p) (producers s)\<rparr>
      | Some tot \<Rightarrow> t = s\<lparr>producers := fmupd k (deactivate p) (producers s),
          totpoolvotes := fmupd k (tot\<lparr>active := False\<rparr>) (totpoolvotes s)\<rparr>"
    using d by (auto simp: deactivate_producer_def res_simps Let_def split: option.splits)
  have v: "get_prod_pool_votes (deactivate p) = get_prod_pool_votes p" "p_owner (deactivate p) = p_owner p"
    "\<not> is_active (deactivate p)" by (simp_all add: get_prod_pool_votes_def deactivate_def)
  note r = registry_row [OF ok p]
  show ?thesis
  proof (rule registry_okI [OF ok])
    show "p_owner (deactivate p) = k" using r v by simp
    show "in_ranking t k (deactivate p)"
      using r t v by (auto simp: in_ranking_def split: option.splits)
  qed (use t in \<open>auto split: option.splits\<close>)
qed

text \<open>
  C34: Registering and unregistering keep the registry: rows stand under their owners and the ranking
  of the staking pools lists exactly the producers that take part in the pools, active or not alike.
\<close>

theorem registry_kept:
  assumes "registry_ok s" "rammarket s \<noteq> None" "e_now E \<noteq> 0"
    and "regproducer E k key u loc s = Inr t \<or> regproducer2 E k a u loc s = Inr t \<or> unregprod E k s = Inr t"
  shows "registry_ok t"
proof -
  have "registry_ok t" if "register_producer E k b u loc s = Inr t" for b
    using register_producer_ok [OF assms(1-3), of k b u loc] that by auto
  then show ?thesis using assms(4) deactivate_producer_registry [OF assms(1)]
    by (auto simp: regproducer_def regproducer2_def unregprod_def res_simps)
qed

text \<open>
  C35: On such a state a registration fails only for a missing authorisation, an over-long URL or an
  invalid authority, with that error; otherwise the producer is registered as given.
\<close>

theorem regproducer2_outcome:
  assumes "registry_ok s" "rammarket s \<noteq> None" "e_now E \<noteq> 0"
  shows "case regproducer2 E k a u loc s of
      Inl e \<Rightarrow> if \<not> e_auth E k then e = Missing_auth k
        else if 512 \<le> length u then e = Vote Url_too_long
        else \<not> e_auth_valid E a \<and> e = Vote Invalid_authority
    | Inr t \<Rightarrow> e_auth E k \<and> length u < 512 \<and> e_auth_valid E a \<and> registered E k a u loc t"
  using register_producer_ok [OF assms, of k a u loc]
  by (auto simp: regproducer2_def require_auth_def check_def)

section \<open>Witnesses\<close>

definition sample_producer :: "name \<Rightarrow> int \<Rightarrow> int \<Rightarrow> producer_info" where
  "sample_producer k v loc = \<lparr>p_owner = k, total_votes = of_i v, producer_key = 11, is_active = True, url = ''u'',
     unpaid_blocks = 0, last_claim_time = 1, location = loc, producer_authority = None, pool_votes = None\<rparr>"

text \<open>Three producers with votes, of which 2 has none left.\<close>

definition sample_producers_chain :: chain where
  "sample_producers_chain = sample_chain\<lparr>producers :=
     fmupd 1 (sample_producer 1 100 9) (fmupd 2 (sample_producer 2 0 1) (fmupd 3 (sample_producer 3 200 4) fmempty))\<rparr>"

lemma sort_by_location: "sorting (sort_key snd)"
  by (simp add: sorting_def)

definition proposes :: "error + chain \<Rightarrow> name list \<Rightarrow> bool" where
  "proposes y names = (case y of
     Inr t \<Rightarrow> (case outbox t of [Set_proposed_producers sch] \<Rightarrow> map fst sch = names | _ \<Rightarrow> False)
   | Inl _ \<Rightarrow> False)"

lemma proposes_Inr:
  assumes "proposes y names"
  obtains t sch where "y = Inr t" "outbox t = [Set_proposed_producers sch]" "map fst sch = names"
proof -
  obtain t where t: "y = Inr t" using assms by (cases y) (simp_all add: proposes_def)
  then obtain m ms where o': "outbox t = m # ms" using assms by (cases "outbox t") (simp_all add: proposes_def)
  then have "ms = []" using assms t by (cases ms; cases m) (simp_all add: proposes_def)
  then obtain sch where "m = Set_proposed_producers sch" using assms t o' by (cases m) (simp_all add: proposes_def)
  with \<open>ms = []\<close> assms t o' show thesis by (intro that) (simp_all add: proposes_def)
qed

theorem proposed_schedule_witness:
  "\<exists>t sch. update_elected_producers (sort_key snd) sample_env 500 sample_producers_chain = Inr t \<and>
    outbox t = [Set_proposed_producers sch] \<and> map fst sch = [3, 1] \<and> distinct (map fst sch)"
proof -
  have "proposes (update_elected_producers (sort_key snd) sample_env 500 sample_producers_chain) [3, 1]" by code_simp
  then obtain t sch where t: "update_elected_producers (sort_key snd) sample_env 500 sample_producers_chain = Inr t"
    "outbox t = [Set_proposed_producers sch]" "map fst sch = [3, 1]" by (rule proposes_Inr)
  have "producers_keyed sample_producers_chain"
    by (auto simp: producers_keyed_def sample_producers_chain_def sample_producer_def sample_chain_def initial_chain_def
        of_i_exact f64_defs split: if_splits)
  moreover have "outbox sample_producers_chain = []"
    by (simp add: sample_producers_chain_def sample_chain_def initial_chain_def)
  ultimately show ?thesis using proposed_schedule [OF t(1) sort_by_location] t by auto
qed

lemma sample_registry: "registry_ok sample_chain" "rammarket sample_chain \<noteq> None" "e_now sample_env \<noteq> 0"
  by (simp_all add: registry_ok_def sample_chain_def initial_chain_def sample_env_def)

theorem registry_kept_witness:
  "\<exists>t. regproducer2 sample_env 5 \<lparr>threshold = 1, keys = [(7, 1)]\<rparr> ''bp'' 2 sample_chain = Inr t \<and> registry_ok t"
proof -
  have "succeeds (regproducer2 sample_env 5 \<lparr>threshold = 1, keys = [(7, 1)]\<rparr> ''bp'' 2 sample_chain)" by code_simp
  then obtain t where "regproducer2 sample_env 5 \<lparr>threshold = 1, keys = [(7, 1)]\<rparr> ''bp'' 2 sample_chain = Inr t"
    by (rule succeedsE)
  then show ?thesis using registry_kept [OF sample_registry] by blast
qed

theorem regproducer2_outcome_witness:
  "\<exists>t. regproducer2 sample_env 5 \<lparr>threshold = 1, keys = [(7, 1)]\<rparr> ''bp'' 2 sample_chain = Inr t \<and>
    registered sample_env 5 \<lparr>threshold = 1, keys = [(7, 1)]\<rparr> ''bp'' 2 t"
proof -
  have "succeeds (regproducer2 sample_env 5 \<lparr>threshold = 1, keys = [(7, 1)]\<rparr> ''bp'' 2 sample_chain)" by code_simp
  then obtain t where "regproducer2 sample_env 5 \<lparr>threshold = 1, keys = [(7, 1)]\<rparr> ''bp'' 2 sample_chain = Inr t"
    by (rule succeedsE)
  with regproducer2_outcome [OF sample_registry, where k = 5 and a = "\<lparr>threshold = 1, keys = [(7, 1)]\<rparr>" and u = "''bp''" and loc = 2] show ?thesis by auto
qed

end
