(* ===== verification/ProducerPay.thy ===== *)
theory ProducerPay
  imports Producers Names
begin

text \<open>
  What happens at every block and the pay of block producers (\<open>producer_pay.cpp\<close>). \<open>onblock\<close>
  counts produced blocks, once a minute elects a schedule and once a day closes the name auction
  with the highest bid. \<open>claimrewards\<close> issues inflation since the last claim, splits it between
  savings and the two pay buckets, and pays the producer its part of each bucket. Shown: each
  closing is a step of the abstract auction, and the buckets are what the two pay accounts hold.
\<close>

section \<open>Every block\<close>

text \<open>The index \<open>highbid\<close> from the highest open bid on.\<close>

definition highbid :: "chain \<Rightarrow> (name \<times> name_bid) list" where
  "highbid s = sort_key (\<lambda>(k, b). (by_high_bid b, k)) (rows (namebids s))"

definition close_name :: "env \<Rightarrow> int \<Rightarrow> chain \<Rightarrow> chain" where
  "close_name E timestamp s =
     (if 172800 < u32 (timestamp - last_name_close (gstate s)) then
        case filter (\<lambda>(k, b). 9223372036854775807 \<le> by_high_bid b) (highbid s) of
          [] \<Rightarrow> s
        | (k, highest) # _ \<Rightarrow>
            if 0 < high_bid highest \<and>
               useconds_per_day < i64 (e_now E - last_bid_time highest) \<and>
               0 < thresh_activated_stake_time (gstate s) \<and>
               14 * useconds_per_day < i64 (e_now E - thresh_activated_stake_time (gstate s)) then
              let s1 = channel_namebid_to_rex_or_pools E (high_bid highest)
                (s\<lparr>gstate := (gstate s)\<lparr>last_name_close := timestamp\<rparr>\<rparr>) in
              s1\<lparr>namebids := fmupd k (highest\<lparr>high_bid := i64 (- high_bid highest)\<rparr>) (namebids s1)\<rparr>
            else s
      else s)"

definition count_block :: "name \<Rightarrow> chain \<Rightarrow> chain" where
  "count_block producer s = (case fmlookup (producers s) producer of
     None \<Rightarrow> s
   | Some p \<Rightarrow> s\<lparr>gstate := (gstate s)\<lparr>total_unpaid_blocks := u32 (total_unpaid_blocks (gstate s) + 1)\<rparr>,
       producers := fmupd producer (p\<lparr>unpaid_blocks := u32 (unpaid_blocks p + 1)\<rparr>) (producers s)\<rparr>)"

definition onblock ::
  "(candidate list \<Rightarrow> candidate list) \<Rightarrow> env \<Rightarrow> int \<Rightarrow> name \<Rightarrow> chain \<Rightarrow> error + chain" where
  "onblock srt E timestamp producer s =
     require_auth E (e_self E) (
     let s1 = onblock_update_pool timestamp s;
         s2 = s1\<lparr>gstate2 := (gstate2 s1)\<lparr>last_block_num := timestamp\<rparr>\<rparr> in
     if thresh_activated_stake_time (gstate s2) = 0 then Inr s2
     else
       let s3 = (if last_pervote_bucket_fill (gstate s2) = 0
             then s2\<lparr>gstate := (gstate s2)\<lparr>last_pervote_bucket_fill := e_now E\<rparr>\<rparr> else s2);
           s4 = count_block producer s3 in
       if 120 < u32 (timestamp - last_producer_schedule_update (gstate s4)) then
         bindR (update_elected_producers srt E timestamp s4) (\<lambda>s5. Inr (close_name E timestamp s5))
       else Inr s4)"

section \<open>Claiming rewards\<close>

text \<open>Inline actions whose amounts are positive.\<close>

definition pay_out :: "env \<Rightarrow> name list \<Rightarrow> name \<Rightarrow> name \<Rightarrow> int \<Rightarrow> chain \<Rightarrow> error + chain" where
  "pay_out E auths frm to n s =
     (if 0 < n then
        core_symbol s (\<lambda>core.
        bindR (aa_make (e_assets E) n core) (\<lambda>a. Inr (emit (Transfer auths frm to a) s)))
      else Inr s)"

text \<open>The tokens issued since the last fill, and how they are split.\<close>

definition new_inflation :: "env \<Rightarrow> asset \<Rightarrow> int \<Rightarrow> chain \<Rightarrow> error + int" where
  "new_inflation E supply usecs s =
     (let additional_inflation = (claimrewards_transition (e_slot E) s * continuous_rate (gstate4 s) *
          of_i (amount supply) * of_i usecs) / of_i useconds_per_year in
      check (additional_inflation \<le> of_i (9223372036854775807 - 1023)) (Pay Inflation_overflow) (
      if additional_inflation < 0 then Inr 0 else to_i64 Bad_conversion additional_inflation))"

definition issue_inflation :: "env \<Rightarrow> int \<Rightarrow> int \<Rightarrow> int \<Rightarrow> int \<Rightarrow> chain \<Rightarrow> error + chain" where
  "issue_inflation E new_tokens to_savings to_per_block_pay to_per_vote_pay s =
     (if 0 < new_tokens then
        core_symbol s (\<lambda>core.
        bindR (aa_make (e_assets E) new_tokens core) (\<lambda>a.
        bindR (pay_out E [e_self E] (e_self E) saving_account to_savings (emit (Issue (e_self E) a) s)) (\<lambda>s1.
        bindR (pay_out E [e_self E] (e_self E) bpay_account to_per_block_pay s1)
          (pay_out E [e_self E] (e_self E) vpay_account to_per_vote_pay))))
      else Inr s)"

definition fill_buckets :: "env \<Rightarrow> asset \<Rightarrow> chain \<Rightarrow> error + chain" where
  "fill_buckets E supply s =
     (let usecs = i64 (e_now E - last_pervote_bucket_fill (gstate s)) in
      if 0 < usecs \<and> 0 < last_pervote_bucket_fill (gstate s) then
        bindR (new_inflation E supply usecs s) (\<lambda>new_tokens.
        bindR (muldivR new_tokens pay_factor_precision (inflation_pay_factor (gstate4 s))) (\<lambda>to_producers.
        bindR (muldivR to_producers pay_factor_precision (votepay_factor (gstate4 s))) (\<lambda>to_per_block_pay.
        let to_savings = i64 (new_tokens - to_producers);
            to_per_vote_pay = i64 (to_producers - to_per_block_pay) in
        bindR (issue_inflation E new_tokens to_savings to_per_block_pay to_per_vote_pay s) (\<lambda>s2.
        Inr (s2\<lparr>gstate := (gstate s2)\<lparr>
          pervote_bucket := i64 (pervote_bucket (gstate s2) + to_per_vote_pay),
          perblock_bucket := i64 (perblock_bucket (gstate s2) + to_per_block_pay),
          last_pervote_bucket_fill := e_now E\<rparr>\<rparr>)))))
      else Inr s)"

definition per_block_pay :: "producer_info \<Rightarrow> chain \<Rightarrow> int" where
  "per_block_pay p s =
     (if 0 < total_unpaid_blocks (gstate s)
      then tdiv (i64 (perblock_bucket (gstate s) * unpaid_blocks p)) (total_unpaid_blocks (gstate s)) else 0)"

text \<open>The pay by votes, with the update of the global votepay share it needs.\<close>

definition per_vote_pay :: "env \<Rightarrow> f64 \<Rightarrow> bool \<Rightarrow> producer_info \<Rightarrow> chain \<Rightarrow> error + (int \<times> chain)" where
  "per_vote_pay E new_share crossed_threshold p s =
     bindR (if 0 < revision (gstate2 s) then
         let (total, s1) = update_total_votepay_share (e_now E) 0 0 s in
         if 0 < total \<and> \<not> crossed_threshold then
           bindR (to_i64 Bad_conversion ((new_share * of_i (pervote_bucket (gstate s1))) / total)) (\<lambda>n.
           Inr (if pervote_bucket (gstate s1) < n then pervote_bucket (gstate s1) else n, s1))
         else Inr (0, s1)
       else if 0 < total_producer_vote_weight (gstate s) then
         bindR (to_i64 Bad_conversion
           ((of_i (pervote_bucket (gstate s)) * total_votes p) / total_producer_vote_weight (gstate s))) (\<lambda>n.
         Inr (n, s))
       else Inr (0, s)) (\<lambda>(n, s1).
     Inr (if n < min_pervote_daily_pay then 0 else n, s1))"

text \<open>The row of votepay shares, created if there is none, and whether it is newer than three days.\<close>

definition votepay_row :: "env \<Rightarrow> name \<Rightarrow> int \<Rightarrow> chain \<Rightarrow> bool \<times> chain" where
  "votepay_row E owner last_claim_plus_3days s =
     (case fmlookup (producers2 s) owner of
        Some p2 \<Rightarrow> (last_claim_plus_3days \<le> last_votepay_share_update p2, s)
      | None \<Rightarrow> (True, s\<lparr>producers2 := fmupd owner
          \<lparr>p2_owner = owner, votepay_share = 0, last_votepay_share_update = e_now E\<rparr> (producers2 s)\<rparr>))"

text \<open>The buckets and counts reduced, the claim recorded, and the pay sent.\<close>

definition settle_claim ::
  "env \<Rightarrow> name \<Rightarrow> producer_info \<Rightarrow> int \<Rightarrow> int \<Rightarrow> f64 \<Rightarrow> bool \<Rightarrow> chain \<Rightarrow> error + chain" where
  "settle_claim E owner p block_pay votes_pay new_share updated_after_threshold s =
     (let g = gstate s;
          s1 = s\<lparr>gstate := g\<lparr>pervote_bucket := i64 (pervote_bucket g - votes_pay),
            perblock_bucket := i64 (perblock_bucket g - block_pay),
            total_unpaid_blocks := u32 (total_unpaid_blocks g - unpaid_blocks p)\<rparr>\<rparr>;
          s2 = snd (update_total_votepay_share (e_now E) (- new_share)
            (if updated_after_threshold then total_votes p else 0) s1);
          s3 = s2\<lparr>producers := fmupd owner (p\<lparr>last_claim_time := e_now E, unpaid_blocks := 0\<rparr>) (producers s2)\<rparr> in
      bindR (pay_out E [bpay_account, owner] bpay_account owner block_pay s3)
        (pay_out E [vpay_account, owner] vpay_account owner votes_pay))"

definition claimrewards :: "env \<Rightarrow> name \<Rightarrow> chain \<Rightarrow> error + chain" where
  "claimrewards E owner s =
     require_auth E owner (
     fetch (fmlookup (producers s) owner) No_row (\<lambda>p.
     check (is_active p) (Pay No_active_key) (
     check (thresh_activated_stake_time (gstate s) \<noteq> 0) (Pay Chain_not_activated) (
     check (useconds_per_day < i64 (e_now E - last_claim_time p)) (Pay Claimed_within_day) (
     core_symbol s (\<lambda>core.
     bindR (e_supply E (sym_code core)) (\<lambda>supply.
     bindR (fill_buckets E supply s) (\<lambda>s1.
     let last_claim_plus_3days = i64 (last_claim_time p + 3 * useconds_per_day);
         crossed_threshold = (last_claim_plus_3days \<le> e_now E);
         updated_after_threshold = fst (votepay_row E owner last_claim_plus_3days s1);
         s2 = snd (votepay_row E owner last_claim_plus_3days s1) in
     bindR (update_producer_votepay_share owner (e_now E)
         (if updated_after_threshold then 0 else total_votes p) True s2) (\<lambda>(new_share, s3).
     bindR (per_vote_pay E new_share crossed_threshold p s3) (\<lambda>(votes_pay, s4).
     settle_claim E owner p (per_block_pay p s2) votes_pay new_share updated_after_threshold s4))))))))))"

text \<open>The rates and factors of inflation are set by the system account (\<open>eosio.system.cpp\<close>).\<close>

definition setinflation :: "env \<Rightarrow> int \<Rightarrow> int \<Rightarrow> int \<Rightarrow> chain \<Rightarrow> error + chain" where
  "setinflation E annual_rate pay_factor vote_factor s =
     require_auth E (e_self E) (
     check (0 \<le> annual_rate) (Sys Negative_annual_rate) (
     check (\<not> pay_factor < pay_factor_precision) (Sys Inflation_factor_too_small) (
     check (\<not> vote_factor < pay_factor_precision) (Sys Votepay_factor_too_small) (
     Inr (s\<lparr>gstate4 := \<lparr>continuous_rate = get_continuous_rate E annual_rate,
       inflation_pay_factor = pay_factor, votepay_factor = vote_factor\<rparr>\<rparr>)))))"

section \<open>Closing an auction\<close>

lemma channel_namebid_same:
  "\<exists>a b. channel_namebid_to_rex_or_pools E n s = s\<lparr>rexpool := a, poolstate := b\<rparr>"
  unfolding channel_namebid_to_rex_or_pools_def channel_namebid_to_rex_def Let_def
  by (cases s) (auto split: option.split)

lemma highbid_set: "(k, b) \<in> set (highbid s) \<longleftrightarrow> fmlookup (namebids s) k = Some b"
  by (simp add: highbid_def rows_upd_lookup)

lemma by_high_bid_open: "0 < high_bid b \<Longrightarrow> high_bid b \<le> i64_max \<Longrightarrow> by_high_bid b = 18446744073709551616 - high_bid b"
  unfolding by_high_bid_def u64_def i64_max_def minus_mod_self1 [symmetric]
  by (simp add: mod_pos_pos_trivial del: minus_mod_self1)

text \<open>Either nothing changes in the auctions or the highest open bid, older than a day, is closed.\<close>

lemma close_name_cases:
  assumes wf: "bids_ok s"
  obtains (idle) "close_name E ts s = s"
  | (close) k b r p where "fmlookup (namebids s) k = Some b" "0 < high_bid b"
      "useconds_per_day < i64 (e_now E - last_bid_time b)"
      "\<And>j c. fmlookup (namebids s) j = Some c \<Longrightarrow> high_bid c \<le> high_bid b"
      "close_name E ts s = s\<lparr>gstate := (gstate s)\<lparr>last_name_close := ts\<rparr>, rexpool := r, poolstate := p,
         namebids := fmupd k (b\<lparr>high_bid := - high_bid b\<rparr>) (namebids s)\<rparr>"
proof -
  let ?P = "\<lambda>(k, b). 9223372036854775807 \<le> by_high_bid b"
  have "close_name E ts s = s \<or> (\<exists>k b rest. filter ?P (highbid s) = (k, b) # rest \<and> 0 < high_bid b \<and>
      useconds_per_day < i64 (e_now E - last_bid_time b) \<and>
      close_name E ts s = (let s1 = channel_namebid_to_rex_or_pools E (high_bid b)
          (s\<lparr>gstate := (gstate s)\<lparr>last_name_close := ts\<rparr>\<rparr>) in
        s1\<lparr>namebids := fmupd k (b\<lparr>high_bid := i64 (- high_bid b)\<rparr>) (namebids s1)\<rparr>))"
    unfolding close_name_def by (auto simp: Let_def split: list.split)
  then consider "close_name E ts s = s"
    | k b rest where "filter ?P (highbid s) = (k, b) # rest" "0 < high_bid b"
      "useconds_per_day < i64 (e_now E - last_bid_time b)"
      "close_name E ts s = (let s1 = channel_namebid_to_rex_or_pools E (high_bid b)
          (s\<lparr>gstate := (gstate s)\<lparr>last_name_close := ts\<rparr>\<rparr>) in
        s1\<lparr>namebids := fmupd k (b\<lparr>high_bid := i64 (- high_bid b)\<rparr>) (namebids s1)\<rparr>)"
    by blast
  then show thesis
  proof cases
    case 1
    then show thesis by (rule idle)
  next
    case (2 k b rest)
    have "(k, b) \<in> set (filter ?P (highbid s))" using 2(1) by simp
    then have k: "fmlookup (namebids s) k = Some b" using highbid_set [of k b s] by simp
    have hb: "high_bid b \<le> i64_max" using wf k by (simp add: bids_ok_def)
    have best: "high_bid c \<le> high_bid b" if c: "fmlookup (namebids s) j = Some c" for j c
    proof (rule ccontr)
      assume "\<not> high_bid c \<le> high_bid b"
      moreover have "high_bid c \<le> i64_max" using wf c by (simp add: bids_ok_def)
      ultimately have lt: "by_high_bid c < by_high_bid b" and "?P (j, c)"
        using 2(2) hb by (simp_all add: by_high_bid_open i64_max_def)
      then have "(j, c) \<in> set (filter ?P (highbid s))" using highbid_set [of j c s] c by simp
      then have "(j, c) \<in> set ((k, b) # rest)" unfolding 2(1) .
      moreover have "sorted (map (\<lambda>(k, b). (by_high_bid b, k)) (filter ?P (highbid s)))"
        by (rule sorted_filter) (simp add: highbid_def)
      then have "\<forall>x \<in> set rest. (by_high_bid b, k) \<le> (\<lambda>(k, b). (by_high_bid b, k)) x" unfolding 2(1) by simp
      ultimately show False using lt by (auto simp: less_eq_prod_def)
    qed
    obtain r p where ch: "channel_namebid_to_rex_or_pools E (high_bid b) (s\<lparr>gstate := (gstate s)\<lparr>last_name_close := ts\<rparr>\<rparr>)
        = s\<lparr>gstate := (gstate s)\<lparr>last_name_close := ts\<rparr>, rexpool := r, poolstate := p\<rparr>"
      using channel_namebid_same [of E "high_bid b" "s\<lparr>gstate := (gstate s)\<lparr>last_name_close := ts\<rparr>\<rparr>"] by auto
    have "i64 (- high_bid b) = - high_bid b" using 2(2) hb by (simp add: i64_id i64_max_def)
    then have "close_name E ts s = s\<lparr>gstate := (gstate s)\<lparr>last_name_close := ts\<rparr>, rexpool := r, poolstate := p,
         namebids := fmupd k (b\<lparr>high_bid := - high_bid b\<rparr>) (namebids s)\<rparr>"
      using 2(4) by (simp add: Let_def ch)
    from best this show thesis by (rule close [OF k 2(2,3)])
  qed
qed

text \<open>What precedes the closing leaves the auctions alone.\<close>

lemma update_elected_same:
  "update_elected_producers srt E slot s = Inr t \<Longrightarrow> t = s\<lparr>gstate := gstate t, outbox := outbox t\<rparr>"
  by (erule update_elected_cases) auto

lemma update_elected_net:
  "update_elected_producers srt E slot s = Inr t \<Longrightarrow> net_in a (outbox t) = net_in a (outbox s)"
  by (erule update_elected_cases) (auto simp: msg_in_def)

lemma onblock_update_pool_same: "onblock_update_pool ts s = s\<lparr>poolstate := poolstate (onblock_update_pool ts s)\<rparr>"
  by (cases s) (simp add: onblock_update_pool_def Let_def split: option.split)

text \<open>What a block does before it closes an auction: it counts itself and proposes a schedule.\<close>

definition counted :: "name \<Rightarrow> chain \<Rightarrow> chain \<Rightarrow> bool" where
  "counted k s u \<longleftrightarrow>
     producers u = producers s \<and> total_unpaid_blocks (gstate u) = total_unpaid_blocks (gstate s) \<or>
     (\<exists>p. fmlookup (producers s) k = Some p \<and>
        producers u = fmupd k (p\<lparr>unpaid_blocks := u32 (unpaid_blocks p + 1)\<rparr>) (producers s) \<and>
        total_unpaid_blocks (gstate u) = u32 (total_unpaid_blocks (gstate s) + 1))"

definition block_frame :: "chain \<Rightarrow> chain \<Rightarrow> bool" where
  "block_frame s u \<longleftrightarrow> namebids u = namebids s \<and> bidrefunds u = bidrefunds s \<and> rexpool u = rexpool s \<and>
     gstate4 u = gstate4 s \<and> perblock_bucket (gstate u) = perblock_bucket (gstate s) \<and>
     pervote_bucket (gstate u) = pervote_bucket (gstate s) \<and> (\<forall>a. net_in a (outbox u) = net_in a (outbox s))"

lemma count_block_counted: "counted k s (count_block k s) \<and> block_frame s (count_block k s)"
  by (simp add: counted_def block_frame_def count_block_def split: option.split)

lemma counted_frame:
  assumes "counted k s u" "block_frame s u" "block_frame u v" "producers v = producers u"
    "total_unpaid_blocks (gstate v) = total_unpaid_blocks (gstate u)"
  shows "counted k s v \<and> block_frame s v"
  using assms by (simp add: counted_def block_frame_def)

lemma update_elected_frame:
  assumes "update_elected_producers srt E ts s = Inr t"
  shows "block_frame s t" "producers t = producers s" "total_unpaid_blocks (gstate t) = total_unpaid_blocks (gstate s)"
proof -
  have "producers t = producers s \<and> namebids t = namebids s \<and> bidrefunds t = bidrefunds s \<and> rexpool t = rexpool s \<and>
      gstate4 t = gstate4 s"
    by (subst (1 2 3 4 5) update_elected_same [OF assms]) simp
  moreover have "total_unpaid_blocks (gstate t) = total_unpaid_blocks (gstate s) \<and>
      perblock_bucket (gstate t) = perblock_bucket (gstate s) \<and> pervote_bucket (gstate t) = pervote_bucket (gstate s)"
    using assms by (cases rule: update_elected_cases) (simp, metis eosio_global_state.select_convs eosio_global_state.surjective eosio_global_state.update_convs)
  moreover note update_elected_net [OF assms]
  ultimately show "block_frame s t" "producers t = producers s" "total_unpaid_blocks (gstate t) = total_unpaid_blocks (gstate s)"
    by (simp_all add: block_frame_def)
qed

lemma onblock_Inr:
  assumes "onblock srt E ts k s = Inr t"
  obtains u where "counted k s u" "block_frame s u" "t = u \<or> t = close_name E ts u"
proof -
  let ?s1 = "onblock_update_pool ts s"
  let ?s2 = "?s1\<lparr>gstate2 := (gstate2 ?s1)\<lparr>last_block_num := ts\<rparr>\<rparr>"
  define s3 where "s3 = (if last_pervote_bucket_fill (gstate ?s2) = 0
      then ?s2\<lparr>gstate := (gstate ?s2)\<lparr>last_pervote_bucket_fill := e_now E\<rparr>\<rparr> else ?s2)"
  have g: "namebids ?s1 = namebids s" "bidrefunds ?s1 = bidrefunds s" "rexpool ?s1 = rexpool s" "gstate4 ?s1 = gstate4 s"
    "gstate ?s1 = gstate s" "outbox ?s1 = outbox s" "producers ?s1 = producers s"
    by (subst onblock_update_pool_same, simp)+
  have f2: "block_frame s ?s2" "producers ?s2 = producers s" "total_unpaid_blocks (gstate ?s2) = total_unpaid_blocks (gstate s)"
    by (simp_all add: block_frame_def g)
  have f3: "block_frame s s3" "producers s3 = producers s" "total_unpaid_blocks (gstate s3) = total_unpaid_blocks (gstate s)"
    by (simp_all add: s3_def block_frame_def g)
  have c4: "counted k s (count_block k s3)" "block_frame s (count_block k s3)"
    using count_block_counted [of k s3] f3 by (simp_all add: counted_def block_frame_def)
  consider "t = ?s2" | "t = count_block k s3"
    | s5 where "update_elected_producers srt E ts (count_block k s3) = Inr s5" "t = close_name E ts s5"
    using assms unfolding onblock_def Let_def s3_def [symmetric]
    by (auto simp: res_simps split: if_splits)
  then show thesis
  proof cases
    case 1
    then show thesis using f2 by (intro that [of t]) (simp_all add: counted_def)
  next
    case 2
    then show thesis using c4 by (intro that [of t]) simp_all
  next
    case (3 s5)
    then show thesis using counted_frame [OF c4 update_elected_frame [OF 3(1)]] by (intro that [of s5]) simp_all
  qed
qed

text \<open>
  C8: A block is an idle step of the abstract auctions or closes one of them: the highest open bid,
  which has stood for more than a day.
\<close>

theorem onblock_refines_auctions:
  assumes "onblock srt E ts k s = Inr t" "bids_ok s"
  shows "abs_auctions t = abs_auctions s \<or>
     (\<exists>nm b. fmlookup (namebids s) nm = Some b \<and> useconds_per_day < i64 (e_now E - last_bid_time b) \<and>
        (\<forall>j c. fmlookup (namebids s) j = Some c \<longrightarrow> high_bid c \<le> high_bid b) \<and>
        auction_step (Close nm) (abs_auctions s) = Some (abs_auctions t))"
  using assms(1)
proof (rule onblock_Inr)
  fix u assume c: "counted k s u" and f: "block_frame s u" and t: "t = u \<or> t = close_name E ts u"
  have b: "namebids u = namebids s" "bidrefunds u = bidrefunds s" "bids_ok u"
    using f assms(2) by (simp_all add: block_frame_def bids_ok_def)
  then have au: "abs_auctions u = abs_auctions s" by (simp add: abs_auctions_def)
  from t show ?thesis
  proof
    assume "t = u"
    then show ?thesis using au by simp
  next
    assume t: "t = close_name E ts u"
    show ?thesis
    proof (rule close_name_cases [OF b(3), where E = E and ts = ts])
      assume "close_name E ts u = u"
      then show ?thesis using au t by simp
    next
      fix nm x r p
      assume 2: "fmlookup (namebids u) nm = Some x" "0 < high_bid x" "useconds_per_day < i64 (e_now E - last_bid_time x)"
        "\<And>j c. fmlookup (namebids u) j = Some c \<Longrightarrow> high_bid c \<le> high_bid x"
        "close_name E ts u = u\<lparr>gstate := (gstate u)\<lparr>last_name_close := ts\<rparr>, rexpool := r, poolstate := p,
           namebids := fmupd nm (x\<lparr>high_bid := - high_bid x\<rparr>) (namebids u)\<rparr>"
      have "close_auction nm (abs_auctions u) = Some (abs_auctions t)"
        using 2(1,2) by (simp add: t 2(5) close_auction_def abs_auctions_def abs_bid_def fun_eq_iff)
      then show ?thesis using au b 2 auction_step.simps(4) by metis
    qed
  qed
qed

section \<open>The pay buckets\<close>

text \<open>
  What the buckets hold beyond what the two pay accounts received, and what the count of unpaid
  blocks has beyond the counts of the producers.
\<close>

definition bpay_net :: "chain \<Rightarrow> int" where
  "bpay_net s = perblock_bucket (gstate s) - net_in bpay_account (outbox s)"

definition vpay_net :: "chain \<Rightarrow> int" where
  "vpay_net s = pervote_bucket (gstate s) - net_in vpay_account (outbox s)"

definition unpaid_net :: "chain \<Rightarrow> int" where
  "unpaid_net s = total_unpaid_blocks (gstate s) - table_sum unpaid_blocks (producers s)"

lemmas pay_nets = bpay_net_def vpay_net_def unpaid_net_def

text \<open>Factors as \<open>setinflation\<close> accepts them.\<close>

definition factors_ok :: "chain \<Rightarrow> bool" where
  "factors_ok s \<longleftrightarrow> pay_factor_precision \<le> inflation_pay_factor (gstate4 s) \<and>
     inflation_pay_factor (gstate4 s) \<le> i64_max \<and>
     pay_factor_precision \<le> votepay_factor (gstate4 s) \<and> votepay_factor (gstate4 s) \<le> i64_max"

lemma inflation_share:
  assumes "0 \<le> n" "n \<le> i64_max" "pay_factor_precision \<le> f" "f \<le> i64_max"
  shows "0 \<le> muldiv n pay_factor_precision f \<and> muldiv n pay_factor_precision f \<le> n"
proof -
  have f: "0 < f" using assms(3) by (simp add: pay_factor_precision_def)
  have "n * pay_factor_precision div f \<le> n * f div f"
    using assms f by (intro zdiv_mono1 mult_left_mono) auto
  then have le: "n * pay_factor_precision div f \<le> n" using f by simp
  have "0 \<le> n * pay_factor_precision div f" using assms f by (simp add: pos_imp_zdiv_nonneg_iff pay_factor_precision_def)
  moreover have "muldiv n pay_factor_precision f = n * pay_factor_precision div f"
    by (rule muldiv_small) (use assms f le in \<open>auto simp: i64_max_def pay_factor_precision_def\<close>)
  ultimately show ?thesis using le by simp
qed

lemma pay_out_Inr:
  assumes A: "asset_laws (e_assets E)" and ok: "pay_out E auths frm to n s = Inr t"
  obtains "n \<le> 0" "t = s" | a where "0 < n" "amount a = n" "t = emit (Transfer auths frm to a) s"
  using ok asset_laws.make_amount [OF A] by (auto simp: pay_out_def res_simps split: if_splits)

lemma pay_out_effect:
  assumes A: "asset_laws (e_assets E)" and ok: "pay_out E auths frm to n s = Inr t"
  shows "net_in a (outbox t) = net_in a (outbox s) + (if to = a then max 0 n else 0) - (if frm = a then max 0 n else 0)"
    and "t = s\<lparr>outbox := outbox t\<rparr>"
  by (rule pay_out_Inr [OF assms], simp_all add: emit_def)+

lemma new_inflation_range:
  assumes "new_inflation E supply usecs s = Inr n"
  shows "0 \<le> n \<and> n \<le> i64_max"
proof -
  define x where "x = (claimrewards_transition (e_slot E) s * continuous_rate (gstate4 s) * of_i (amount supply) *
    of_i usecs) / of_i useconds_per_year"
  have "n = 0 \<or> (\<not> x < 0 \<and> to_i64 Bad_conversion x = Inr n)"
    using assms by (auto simp: new_inflation_def x_def [symmetric] Let_def res_simps split: if_splits)
  then show ?thesis
    by (cases x) (auto simp: to_i64_def trunc_nonneg in_i64_def i64_max_def f64_defs split: if_splits)
qed

lemma pay_out_frame:
  assumes A: "asset_laws (e_assets E)" and ok: "pay_out E auths frm to n s = Inr t"
  shows "gstate t = gstate s" "producers t = producers s" "gstate4 t = gstate4 s"
  by (rule pay_out_Inr [OF assms], simp_all add: emit_def)+

text \<open>Filling the buckets issues as much as it sends to the two accounts and to savings.\<close>

lemma issue_inflation_effect:
  assumes A: "asset_laws (e_assets E)" and ok: "issue_inflation E n sv pb pv s = Inr t"
    and self: "e_self E \<noteq> bpay_account" "e_self E \<noteq> vpay_account"
    and r: "0 \<le> pb" "0 \<le> pv" "n \<le> 0 \<longrightarrow> pb = 0 \<and> pv = 0"
  shows "t = s\<lparr>outbox := outbox t\<rparr> \<and> net_in bpay_account (outbox t) = net_in bpay_account (outbox s) + pb \<and>
    net_in vpay_account (outbox t) = net_in vpay_account (outbox s) + pv"
proof (cases "0 < n")
  case False
  then show ?thesis using ok r by (simp add: issue_inflation_def)
next
  case True
  then obtain a s1 s2 where p: "pay_out E [e_self E] (e_self E) saving_account sv (emit (Issue (e_self E) a) s) = Inr s1"
    "pay_out E [e_self E] (e_self E) bpay_account pb s1 = Inr s2"
    "pay_out E [e_self E] (e_self E) vpay_account pv s2 = Inr t"
    using ok by (auto simp: issue_inflation_def res_simps)
  have "t = s\<lparr>outbox := outbox t\<rparr>"
    using pay_out_effect(2) [OF A p(1)] pay_out_effect(2) [OF A p(2)] pay_out_effect(2) [OF A p(3)]
    by (cases s, cases s1, cases s2, cases t) (simp add: emit_def)
  moreover have "net_in b (outbox (emit (Issue (e_self E) a) s)) = net_in b (outbox s)" for b
    by (simp add: emit_def msg_in_def)
  moreover have "bpay_account \<noteq> vpay_account" "saving_account \<noteq> bpay_account" "saving_account \<noteq> vpay_account"
    "vpay_account \<noteq> bpay_account" by (simp_all add: account_defs)
  ultimately show ?thesis
    using pay_out_effect(1) [OF A p(1)] pay_out_effect(1) [OF A p(2)] pay_out_effect(1) [OF A p(3)] self r
    by simp
qed

lemma fill_buckets_effect:
  assumes A: "asset_laws (e_assets E)" and ok: "fill_buckets E supply s = Inr t" and f: "factors_ok s"
    and self: "e_self E \<noteq> bpay_account" "e_self E \<noteq> vpay_account"
  obtains pb pv g where "t = s\<lparr>gstate := g, outbox := outbox t\<rparr>"
    "i64 (perblock_bucket g) = i64 (perblock_bucket (gstate s) + pb)"
    "i64 (pervote_bucket g) = i64 (pervote_bucket (gstate s) + pv)"
    "total_unpaid_blocks g = total_unpaid_blocks (gstate s)"
    "net_in bpay_account (outbox t) = net_in bpay_account (outbox s) + pb"
    "net_in vpay_account (outbox t) = net_in vpay_account (outbox s) + pv"
proof (cases "0 < i64 (e_now E - last_pervote_bucket_fill (gstate s)) \<and> 0 < last_pervote_bucket_fill (gstate s)")
  case False
  then have "t = s" using ok by (simp add: fill_buckets_def Let_def split: if_splits)
  then show thesis by (intro that [of "gstate s" 0 0]) simp_all
next
  case True
  let ?usecs = "i64 (e_now E - last_pervote_bucket_fill (gstate s))"
  obtain n tp pb s2 where n: "new_inflation E supply ?usecs s = Inr n"
    and tp_def: "tp = muldiv n pay_factor_precision (inflation_pay_factor (gstate4 s))"
    and pb_def: "pb = muldiv tp pay_factor_precision (votepay_factor (gstate4 s))"
    and iss: "issue_inflation E n (i64 (n - tp)) pb (i64 (tp - pb)) s = Inr s2"
    and t: "t = s2\<lparr>gstate := (gstate s2)\<lparr>pervote_bucket := i64 (pervote_bucket (gstate s2) + i64 (tp - pb)),
        perblock_bucket := i64 (perblock_bucket (gstate s2) + pb), last_pervote_bucket_fill := e_now E\<rparr>\<rparr>"
    using ok True unfolding fill_buckets_def Let_def by (auto simp: res_simps)
  have r: "0 \<le> n" "n \<le> i64_max" using new_inflation_range [OF n] by simp_all
  have tp: "0 \<le> tp" "tp \<le> n" unfolding tp_def using inflation_share [OF r] f by (simp_all add: factors_ok_def)
  then have tp': "tp \<le> i64_max" using r by simp
  have pb: "0 \<le> pb" "pb \<le> tp" unfolding pb_def using inflation_share [OF tp(1) tp'] f by (simp_all add: factors_ok_def)
  have pv: "i64 (tp - pb) = tp - pb" using tp' pb tp by (simp add: i64_id i64_max_def)
  have e: "s2 = s\<lparr>outbox := outbox s2\<rparr>" "net_in bpay_account (outbox s2) = net_in bpay_account (outbox s) + pb"
    "net_in vpay_account (outbox s2) = net_in vpay_account (outbox s) + (tp - pb)"
    using issue_inflation_effect [OF A iss self pb(1)] pb tp pv by simp_all
  have g: "gstate s2 = gstate s" using arg_cong [OF e(1), of gstate] by simp
  show thesis
  proof (rule that)
    show "t = s\<lparr>gstate := gstate t, outbox := outbox t\<rparr>" using e(1) by (cases s, cases s2) (simp add: t)
    show "i64 (perblock_bucket (gstate t)) = i64 (perblock_bucket (gstate s) + pb)"
      "i64 (pervote_bucket (gstate t)) = i64 (pervote_bucket (gstate s) + (tp - pb))"
      "total_unpaid_blocks (gstate t) = total_unpaid_blocks (gstate s)"
      "net_in bpay_account (outbox t) = net_in bpay_account (outbox s) + pb"
      "net_in vpay_account (outbox t) = net_in vpay_account (outbox s) + (tp - pb)"
      using e g pv by (simp_all add: t)
  qed
qed

text \<open>The bookkeeping of votepay shares touches neither buckets nor producers nor messages.\<close>

definition same_but_shares :: "chain \<Rightarrow> chain \<Rightarrow> bool" where
  "same_but_shares s t \<longleftrightarrow> (\<exists>a b c. t = s\<lparr>producers2 := a, gstate2 := b, gstate3 := c\<rparr>)"

lemma same_but_sharesI: "t = s\<lparr>producers2 := a, gstate2 := b, gstate3 := c\<rparr> \<Longrightarrow> same_but_shares s t"
  unfolding same_but_shares_def by blast

lemma same_but_shares_refl [simp]: "same_but_shares s s"
  by (rule same_but_sharesI [where a = "producers2 s" and b = "gstate2 s" and c = "gstate3 s"]) simp

lemma same_but_shares_trans: "same_but_shares s t \<Longrightarrow> same_but_shares t u \<Longrightarrow> same_but_shares s u"
  unfolding same_but_shares_def by (elim exE) (simp, blast)

lemma same_but_shares_fields:
  assumes "same_but_shares s t"
  shows "gstate t = gstate s" "gstate4 t = gstate4 s" "producers t = producers s" "outbox t = outbox s"
  using assms unfolding same_but_shares_def by auto

lemma votepay_row_shares: "same_but_shares s (snd (votepay_row E k n s))"
proof (cases "fmlookup (producers2 s) k")
  case None
  then show ?thesis
    by (intro same_but_sharesI [where b = "gstate2 s" and c = "gstate3 s"]) (simp add: votepay_row_def)
qed (simp add: votepay_row_def)

lemma producer_share_shares:
  assumes "update_producer_votepay_share k ct r b s = Inr (x, t)"
  shows "same_but_shares s t"
proof -
  obtain a where "t = s\<lparr>producers2 := a\<rparr>"
    using assms unfolding update_producer_votepay_share_def Let_def fetch_eq_Inr by auto
  then show ?thesis by (intro same_but_sharesI [where a = a and b = "gstate2 s" and c = "gstate3 s"]) simp
qed

lemma total_share_shares: "same_but_shares s (snd (update_total_votepay_share ct a c s))"
  unfolding update_total_votepay_share_def Let_def snd_conv
  by (rule same_but_sharesI [where a = "producers2 s"]) simp

lemmas shares_updated = votepay_row_shares producer_share_shares total_share_shares

lemma per_vote_pay_Inr:
  assumes "per_vote_pay E share crossed p s = Inr (n, t)"
  shows "same_but_shares s t \<and> 0 \<le> n"
proof -
  have m: "0 \<le> (if x < min_pervote_daily_pay then 0 else x)" for x by (simp add: min_pervote_daily_pay_def)
  have "t = s \<or> t = snd (update_total_votepay_share (e_now E) 0 0 s)"
    using assms unfolding per_vote_pay_def bindR_eq_Inr split_paired_Ex prod.case sum.inject prod.inject
    by (cases "update_total_votepay_share (e_now E) 0 0 s")
      (simp only: prod.case Let_def snd_conv bindR_eq_Inr sum.inject prod.inject split: if_splits; blast)
  then have "same_but_shares s t" using total_share_shares [of s "e_now E" 0 0] by (elim disjE) simp_all
  moreover have "0 \<le> n"
    using assms m unfolding per_vote_pay_def bindR_eq_Inr split_paired_Ex prod.case sum.inject prod.inject by blast
  ultimately show ?thesis by simp
qed

text \<open>The product of the bucket and the blocks of the producer, which the code computes in 64 bits, fits.\<close>

definition block_pay_fits :: "env \<Rightarrow> name \<Rightarrow> chain \<Rightarrow> bool" where
  "block_pay_fits E owner s = (case (rammarket s, fmlookup (producers s) owner) of
     (Some m, Some p) \<Rightarrow> (case bindR (e_supply E (sym_code (asym (balance (quote m))))) (\<lambda>supl. fill_buckets E supl s) of
        Inr s1 \<Rightarrow> 0 \<le> perblock_bucket (gstate s1) * unpaid_blocks p \<and>
          perblock_bucket (gstate s1) * unpaid_blocks p \<le> i64_max
      | Inl _ \<Rightarrow> True)
   | _ \<Rightarrow> True)"

lemma u32_shift: "a = b + k * 4294967296 \<Longrightarrow> u32 a = u32 b"
  by (simp add: u32_def)

lemma u32_off: "\<exists>k. u32 x = x + k * 4294967296"
  unfolding u32_def by (rule exI [of _ "- (x div 4294967296)"]) (simp add: minus_div_mult_eq_mod [symmetric])

lemma settle_claim_effect:
  assumes A: "asset_laws (e_assets E)" and ok: "settle_claim E k p bp vp share b s = Inr t"
    and p: "fmlookup (producers s) k = Some p" and r: "0 \<le> bp" "0 \<le> vp"
    and k: "k \<noteq> bpay_account" "k \<noteq> vpay_account"
  shows "i64 (bpay_net t) = i64 (bpay_net s)" "i64 (vpay_net t) = i64 (vpay_net s)"
    "u32 (unpaid_net t) = u32 (unpaid_net s)" "gstate4 t = gstate4 s"
proof -
  let ?g = "gstate s"
  define s1 where "s1 = s\<lparr>gstate := ?g\<lparr>pervote_bucket := i64 (pervote_bucket ?g - vp),
    perblock_bucket := i64 (perblock_bucket ?g - bp),
    total_unpaid_blocks := u32 (total_unpaid_blocks ?g - unpaid_blocks p)\<rparr>\<rparr>"
  define s2 where "s2 = snd (update_total_votepay_share (e_now E) (- share) (if b then total_votes p else 0) s1)"
  define s3 where "s3 = s2\<lparr>producers := fmupd k (p\<lparr>last_claim_time := e_now E, unpaid_blocks := 0\<rparr>) (producers s2)\<rparr>"
  obtain s4 where o': "pay_out E [bpay_account, k] bpay_account k bp s3 = Inr s4"
    "pay_out E [vpay_account, k] vpay_account k vp s4 = Inr t"
    using ok unfolding settle_claim_def Let_def s1_def [symmetric] s2_def [symmetric] s3_def [symmetric]
    by (auto simp: bindR_eq_Inr)
  note f = same_but_shares_fields [OF total_share_shares [of s1 "e_now E" "- share" "if b then total_votes p else 0"],
    folded s2_def]
  note fr = pay_out_frame [OF A o'(1)] pay_out_frame [OF A o'(2)]
  have g: "gstate t = gstate s1" "producers t = producers s3" "gstate4 t = gstate4 s"
    using fr f by (simp_all add: s3_def s1_def)
  have acc: "bpay_account \<noteq> vpay_account" "vpay_account \<noteq> bpay_account" by (simp_all add: account_defs)
  have n: "net_in bpay_account (outbox t) = net_in bpay_account (outbox s) - bp"
    "net_in vpay_account (outbox t) = net_in vpay_account (outbox s) - vp"
    using pay_out_effect(1) [OF A o'(1)] pay_out_effect(1) [OF A o'(2)] f(4) k acc r by (simp_all add: s3_def s1_def)
  show "i64 (bpay_net t) = i64 (bpay_net s)" "i64 (vpay_net t) = i64 (vpay_net s)"
    using i64_diff_i64(1) [of "perblock_bucket ?g - bp" "net_in bpay_account (outbox s) - bp"]
      i64_diff_i64(1) [of "pervote_bucket ?g - vp" "net_in vpay_account (outbox s) - vp"]
    by (simp_all add: pay_nets g n s1_def)
  obtain j where "u32 (total_unpaid_blocks ?g - unpaid_blocks p) = total_unpaid_blocks ?g - unpaid_blocks p + j * 4294967296"
    using u32_off by blast
  then show "u32 (unpaid_net t) = u32 (unpaid_net s)"
    using p f(3) by (intro u32_shift [where k = j]) (simp add: unpaid_net_def g s3_def s1_def table_sum_upd)
  show "gstate4 t = gstate4 s" by (rule g(3))
qed

lemma claimrewards_Inr:
  assumes "claimrewards E k s = Inr t"
  obtains p m supl s1 share s3 vp s4 b b' where "e_auth E k" "fmlookup (producers s) k = Some p" "is_active p"
    "rammarket s = Some m" "e_supply E (sym_code (asym (balance (quote m)))) = Inr supl"
    "fill_buckets E supl s = Inr s1" "same_but_shares s1 s3" "per_vote_pay E share b' p s3 = Inr (vp, s4)"
    "settle_claim E k p (per_block_pay p s1) vp share b s4 = Inr t"
proof -
  obtain p m supl s1 share s3 vp s4 where 1: "e_auth E k" "fmlookup (producers s) k = Some p" "is_active p"
    "rammarket s = Some m" "e_supply E (sym_code (asym (balance (quote m)))) = Inr supl"
    "fill_buckets E supl s = Inr s1"
    and 2: "update_producer_votepay_share k (e_now E)
         (if fst (votepay_row E k (i64 (last_claim_time p + 3 * useconds_per_day)) s1) then 0 else total_votes p) True
         (snd (votepay_row E k (i64 (last_claim_time p + 3 * useconds_per_day)) s1)) = Inr (share, s3)"
    and 3: "per_vote_pay E share (i64 (last_claim_time p + 3 * useconds_per_day) \<le> e_now E) p s3 = Inr (vp, s4)"
    and 4: "settle_claim E k p (per_block_pay p (snd (votepay_row E k (i64 (last_claim_time p + 3 * useconds_per_day)) s1)))
         vp share (fst (votepay_row E k (i64 (last_claim_time p + 3 * useconds_per_day)) s1)) s4 = Inr t"
    using assms unfolding claimrewards_def bindR_eq_Inr fetch_eq_Inr check_eq_Inr core_symbol_eq_Inr require_auth_eq_Inr
      Let_def split_paired_Ex prod.case by (elim exE conjE) (rule that, assumption+)
  note r = votepay_row_shares [of s1 E k "i64 (last_claim_time p + 3 * useconds_per_day)"]
  have "same_but_shares s1 s3" by (rule same_but_shares_trans [OF r producer_share_shares [OF 2]])
  moreover have "per_block_pay p (snd (votepay_row E k (i64 (last_claim_time p + 3 * useconds_per_day)) s1)) = per_block_pay p s1"
    by (simp add: per_block_pay_def same_but_shares_fields [OF r])
  ultimately show thesis using 1 3 4 by (intro that) auto
qed

text \<open>The pay accounts are none of the contract and the paid producer, and the factors are in range.\<close>

definition claim_ok :: "env \<Rightarrow> name \<Rightarrow> chain \<Rightarrow> bool" where
  "claim_ok E k s \<longleftrightarrow> asset_laws (e_assets E) \<and> e_self E \<notin> {bpay_account, vpay_account} \<and>
     k \<notin> {bpay_account, vpay_account} \<and> block_pay_fits E k s"

definition pay_kept :: "chain \<Rightarrow> chain \<Rightarrow> bool" where
  "pay_kept s t \<longleftrightarrow> i64 (bpay_net t) = i64 (bpay_net s) \<and> i64 (vpay_net t) = i64 (vpay_net s) \<and>
     u32 (unpaid_net t) = u32 (unpaid_net s) \<and> (factors_ok s \<longrightarrow> factors_ok t)"

lemma pay_kept_trans: "pay_kept s t \<Longrightarrow> pay_kept t u \<Longrightarrow> pay_kept s u"
  by (simp add: pay_kept_def)

lemma fill_buckets_kept:
  assumes "claim_ok E k s" "fill_buckets E supl s = Inr t" "factors_ok s"
  shows "pay_kept s t \<and> producers t = producers s"
proof -
  have A: "asset_laws (e_assets E)" "e_self E \<noteq> bpay_account" "e_self E \<noteq> vpay_account"
    using assms(1) by (simp_all add: claim_ok_def)
  show ?thesis
  proof (rule fill_buckets_effect [OF A(1) assms(2,3) A(2,3)])
    fix pb pv g
    assume t: "t = s\<lparr>gstate := g, outbox := outbox t\<rparr>"
      and g: "i64 (perblock_bucket g) = i64 (perblock_bucket (gstate s) + pb)"
        "i64 (pervote_bucket g) = i64 (pervote_bucket (gstate s) + pv)"
        "total_unpaid_blocks g = total_unpaid_blocks (gstate s)"
      and n: "net_in bpay_account (outbox t) = net_in bpay_account (outbox s) + pb"
        "net_in vpay_account (outbox t) = net_in vpay_account (outbox s) + pv"
    have f: "gstate t = g" "producers t = producers s" "gstate4 t = gstate4 s" by (subst t, simp)+
    have "i64 (perblock_bucket g - (m + pb)) = i64 (perblock_bucket (gstate s) - m)"
      "i64 (pervote_bucket g - (m + pv)) = i64 (pervote_bucket (gstate s) - m)" for m
      using i64_add_cong [OF g(1), of "- (m + pb)"] i64_add_cong [OF g(2), of "- (m + pv)"]
      by (simp_all add: algebra_simps)
    then show ?thesis by (simp add: pay_kept_def pay_nets factors_ok_def f g(3) n)
  qed
qed

lemma claimrewards_kept:
  assumes ok: "claimrewards E k s = Inr t" and c: "claim_ok E k s" and f: "factors_ok s"
  shows "pay_kept s t"
  using ok
proof (rule claimrewards_Inr)
  fix p m supl s1 share s3 vp s4 b b'
  assume p: "fmlookup (producers s) k = Some p" and m: "rammarket s = Some m"
    and sp: "e_supply E (sym_code (asym (balance (quote m)))) = Inr supl" and fb: "fill_buckets E supl s = Inr s1"
    and s3: "same_but_shares s1 s3" and vp: "per_vote_pay E share b' p s3 = Inr (vp, s4)"
    and st: "settle_claim E k p (per_block_pay p s1) vp share b s4 = Inr t"
  note k1 = fill_buckets_kept [OF c fb f]
  have v: "same_but_shares s1 s4" "0 \<le> vp" using per_vote_pay_Inr [OF vp] same_but_shares_trans [OF s3] by simp_all
  note g = same_but_shares_fields [OF v(1)]
  have fit: "0 \<le> perblock_bucket (gstate s1) * unpaid_blocks p \<and> perblock_bucket (gstate s1) * unpaid_blocks p \<le> i64_max"
    using c p m sp fb by (simp add: claim_ok_def block_pay_fits_def bindR_def)
  then have "i64 (perblock_bucket (gstate s1) * unpaid_blocks p) = perblock_bucket (gstate s1) * unpaid_blocks p"
    by (intro i64_id) (simp_all add: i64_max_def)
  then have bp: "0 \<le> per_block_pay p s1"
    using fit by (simp add: per_block_pay_def pos_imp_zdiv_nonneg_iff)
  have "pay_kept s1 s4" by (simp add: pay_kept_def pay_nets factors_ok_def g)
  moreover have "pay_kept s4 t"
    using settle_claim_effect [OF _ st _ bp v(2)] c p k1 g by (simp add: claim_ok_def pay_kept_def factors_ok_def)
  ultimately show ?thesis using k1 pay_kept_trans by blast
qed

lemma close_name_kept: "pay_kept s (close_name E ts s)"
proof -
  have c: "gstate (channel_namebid_to_rex_or_pools E n u) = gstate u" "gstate4 (channel_namebid_to_rex_or_pools E n u) = gstate4 u"
    "producers (channel_namebid_to_rex_or_pools E n u) = producers u" "outbox (channel_namebid_to_rex_or_pools E n u) = outbox u"
    for n u using channel_namebid_same [of E n u] by auto
  show ?thesis unfolding close_name_def by (simp add: c Let_def pay_kept_def pay_nets factors_ok_def split: list.split)
qed

lemma counted_kept:
  assumes "counted k s u" "block_frame s u"
  shows "pay_kept s u"
proof -
  have "u32 (unpaid_net u) = u32 (unpaid_net s)"
  proof (cases "producers u = producers s \<and> total_unpaid_blocks (gstate u) = total_unpaid_blocks (gstate s)")
    case True
    then show ?thesis by (simp add: unpaid_net_def)
  next
    case False
    then obtain p where p: "fmlookup (producers s) k = Some p"
      "producers u = fmupd k (p\<lparr>unpaid_blocks := u32 (unpaid_blocks p + 1)\<rparr>) (producers s)"
      "total_unpaid_blocks (gstate u) = u32 (total_unpaid_blocks (gstate s) + 1)"
      using assms(1) by (auto simp: counted_def)
    obtain i j where "u32 (unpaid_blocks p + 1) = unpaid_blocks p + 1 + i * 4294967296"
      "u32 (total_unpaid_blocks (gstate s) + 1) = total_unpaid_blocks (gstate s) + 1 + j * 4294967296"
      using u32_off by meson
    then show ?thesis
      by (intro u32_shift [where k = "j - i"]) (simp add: unpaid_net_def p table_sum_upd algebra_simps)
  qed
  then show ?thesis using assms(2) by (simp add: pay_kept_def block_frame_def pay_nets factors_ok_def)
qed

text \<open>Any sequence of blocks, changes of inflation and claims, each in its own environment.\<close>

inductive pay_run :: "chain \<Rightarrow> chain \<Rightarrow> bool" where
  Start: "pay_run s s"
| Block: "pay_run s t \<Longrightarrow> onblock srt E ts k t = Inr u \<Longrightarrow> pay_run s u"
| Inflation: "pay_run s t \<Longrightarrow> setinflation E rate pf vf t = Inr u \<Longrightarrow> pf \<le> i64_max \<Longrightarrow> vf \<le> i64_max \<Longrightarrow> pay_run s u"
| Claim: "pay_run s t \<Longrightarrow> claimrewards E k t = Inr u \<Longrightarrow> claim_ok E k t \<Longrightarrow> pay_run s u"

lemma pay_run_kept: "pay_run s t \<Longrightarrow> factors_ok s \<Longrightarrow> pay_kept s t"
proof (induction rule: pay_run.induct)
  case (Block s t srt E ts k u)
  from Block.hyps(2) obtain v where "counted k t v" "block_frame t v" "u = v \<or> u = close_name E ts v"
    by (rule onblock_Inr)
  then have "pay_kept t u" using counted_kept close_name_kept pay_kept_trans by blast
  then show ?case using Block pay_kept_trans by blast
next
  case (Inflation s t E rate pf vf u)
  then have "pay_kept t u" by (auto simp: setinflation_def pay_kept_def pay_nets factors_ok_def res_simps)
  then show ?case using Inflation pay_kept_trans by blast
next
  case (Claim s t E k u)
  then have "factors_ok t" by (simp add: pay_kept_def)
  then show ?case using Claim claimrewards_kept pay_kept_trans by blast
qed (simp add: pay_kept_def)

text \<open>
  C10: Starting from buckets that agree with what the two pay accounts received, after any sequence
  of blocks, changes of inflation and claims the buckets still are the tokens the accounts hold, and the total of unpaid
  blocks still is the sum over the producers.
\<close>

theorem pay_buckets_balance:
  assumes "pay_run s t" "factors_ok s" "bpay_net s = 0" "vpay_net s = 0" "unpaid_net s = 0"
  shows "i64 (perblock_bucket (gstate t)) = i64 (net_in bpay_account (outbox t)) \<and>
    i64 (pervote_bucket (gstate t)) = i64 (net_in vpay_account (outbox t)) \<and>
    u32 (total_unpaid_blocks (gstate t)) = u32 (table_sum unpaid_blocks (producers t))"
proof -
  have k: "i64 (bpay_net t) = 0" "i64 (vpay_net t) = 0" "u32 (unpaid_net t) = 0"
    using pay_run_kept [OF assms(1,2)] assms(3-5) by (simp_all add: pay_kept_def i64_id u32_id)
  have i: "i64 a = i64 b" if "i64 (a - b) = 0" for a b
    using i64_addL_cong [of "a - b" 0 b] that by (simp add: i64_id)
  have u: "u32 a = u32 b" if "u32 (a - b) = 0" for a b
    using that by (simp add: u32_def mod_eq_dvd_iff dvd_eq_mod_eq_0)
  show ?thesis using k by (auto simp: pay_nets intro!: i u)
qed

section \<open>Witnesses\<close>

text \<open>An activated chain with one producer and one open bid.\<close>

definition sample_pay_chain :: chain where
  "sample_pay_chain = sample_chain\<lparr>
     gstate := (gstate sample_chain)\<lparr>thresh_activated_stake_time := 1, last_pervote_bucket_fill := 1599990000000000\<rparr>,
     producers := fmupd 1 (sample_producer 1 100 9) fmempty,
     namebids := fmupd 70 \<lparr>newname = 70, high_bidder = 8, high_bid = 5000, last_bid_time = 1590000000000000\<rparr> fmempty\<rparr>"

lemma sample_block:
  obtains t where "onblock (sort_key snd) sample_env 1306630400 1 sample_pay_chain = Inr t"
    "map_option high_bid (fmlookup (namebids t) 70) = Some (- 5000)"
proof -
  have "case onblock (sort_key snd) sample_env 1306630400 1 sample_pay_chain of
      Inr t \<Rightarrow> map_option high_bid (fmlookup (namebids t) 70) = Some (- 5000) | Inl _ \<Rightarrow> False" by code_simp
  then show thesis by (auto split: sum.splits intro: that)
qed

theorem onblock_refines_auctions_witness:
  "\<exists>t. onblock (sort_key snd) sample_env 1306630400 1 sample_pay_chain = Inr t \<and>
    close_auction 70 (abs_auctions sample_pay_chain) = Some (abs_auctions t)"
proof (rule sample_block)
  fix t
  assume t: "onblock (sort_key snd) sample_env 1306630400 1 sample_pay_chain = Inr t"
    "map_option high_bid (fmlookup (namebids t) 70) = Some (- 5000)"
  have b: "bids_ok sample_pay_chain"
    by (simp add: bids_ok_def sample_pay_chain_def sample_chain_def initial_chain_def i64_max_def)
  have nb: "namebids sample_pay_chain = fmupd 70 \<lparr>newname = 70, high_bidder = 8, high_bid = 5000, last_bid_time = 1590000000000000\<rparr> fmempty"
    by (simp add: sample_pay_chain_def)
  have "abs_auctions t \<noteq> abs_auctions sample_pay_chain"
    using t(2) by (auto simp: abs_auctions_def abs_bid_def nb fun_eq_iff split: option.splits)
  then show ?thesis using onblock_refines_auctions [OF t(1) b] t(1) by (auto simp: nb split: if_splits)
qed

lemma sample_claim:
  obtains s t where "onblock (sort_key snd) sample_env 1306630400 1 sample_pay_chain = Inr s"
    "claimrewards sample_env 1 s = Inr t" "block_pay_fits sample_env 1 s"
    "0 < perblock_bucket (gstate t) + net_in 1 (outbox t)"
proof -
  have "case onblock (sort_key snd) sample_env 1306630400 1 sample_pay_chain of
      Inr s \<Rightarrow> (case claimrewards sample_env 1 s of
        Inr t \<Rightarrow> block_pay_fits sample_env 1 s \<and> 0 < perblock_bucket (gstate t) + net_in 1 (outbox t) | Inl _ \<Rightarrow> False)
    | Inl _ \<Rightarrow> False" by code_simp
  then show thesis by (auto split: sum.splits intro: that)
qed

theorem pay_buckets_balance_witness:
  "\<exists>s t. onblock (sort_key snd) sample_env 1306630400 1 sample_pay_chain = Inr s \<and>
    claimrewards sample_env 1 s = Inr t \<and> 0 < perblock_bucket (gstate t) + net_in 1 (outbox t) \<and>
    i64 (perblock_bucket (gstate t)) = i64 (net_in bpay_account (outbox t))"
proof (rule sample_claim)
  fix s t
  assume s: "onblock (sort_key snd) sample_env 1306630400 1 sample_pay_chain = Inr s"
    and t: "claimrewards sample_env 1 s = Inr t" "block_pay_fits sample_env 1 s"
    and pos: "0 < perblock_bucket (gstate t) + net_in 1 (outbox t)"
  have ok: "claim_ok sample_env 1 s"
    using t(2) sample_laws by (simp add: claim_ok_def account_defs sample_env_def)
  have run: "pay_run sample_pay_chain t" by (rule Claim [OF Block [OF Start s] t(1) ok])
  have f: "factors_ok sample_pay_chain" by code_simp
  have n: "bpay_net sample_pay_chain = 0" "vpay_net sample_pay_chain = 0" "unpaid_net sample_pay_chain = 0"
    by (simp_all add: pay_nets sample_pay_chain_def sample_chain_def initial_chain_def get_default_parameters_def
        table_sum_upd sample_producer_def)
  show ?thesis using pay_buckets_balance [OF run f n] s t(1) pos by blast
qed

end
