(* ===== verification/System.thy ===== *)
theory System
  imports Bandwidth Ram ProducerPay
begin

text \<open>
  The actions of the system account (\<open>eosio.system.cpp\<close>): blockchain parameters, privileges, the
  limits of single accounts, the revision, the hash of an account's ABI and \<open>init\<close>,
  which creates the RAM market. Shown: what managing a resource of an account does to its flags and
  limits. \<open>setinflation\<close> is modelled with the pay of producers.
\<close>

section \<open>Parameters and privileges\<close>

definition setparams :: "env \<Rightarrow> blockchain_parameters \<Rightarrow> chain \<Rightarrow> error + chain" where
  "setparams E params s =
     require_auth E (e_self E) (
     check (3 \<le> max_authority_depth params) (Sys Authority_depth_too_small) (
     Inr (emit (Set_blockchain_parameters (max_authority_depth params) (other_parameters params))
       (s\<lparr>gstate := (gstate s)\<lparr>parameters := params\<rparr>\<rparr>))))"

definition setkvparams :: "env \<Rightarrow> int list \<Rightarrow> chain \<Rightarrow> error + chain" where
  "setkvparams E params s =
     require_auth E (e_self E) (
     check (e_kv_available E) (Sys Kv_params_not_enabled) (
     Inr (emit (Set_kv_parameters params) s)))"

definition setpriv :: "env \<Rightarrow> name \<Rightarrow> int \<Rightarrow> chain \<Rightarrow> error + chain" where
  "setpriv E account ispriv s = require_auth E (e_self E) (Inr (emit (Set_privileged account ispriv) s))"

definition activate :: "env \<Rightarrow> nat \<Rightarrow> chain \<Rightarrow> error + chain" where
  "activate E feature_digest s =
     require_auth E (e_self E) (Inr (emit (Preactivate_feature feature_digest) s))"

definition rmvproducer :: "env \<Rightarrow> name \<Rightarrow> chain \<Rightarrow> error + chain" where
  "rmvproducer E producer s = require_auth E (e_self E) (deactivate_producer producer s)"

definition updtrevision :: "env \<Rightarrow> int \<Rightarrow> chain \<Rightarrow> error + chain" where
  "updtrevision E next_rev s =
     require_auth E (e_self E) (
     check (revision (gstate2 s) < 255) (Sys Revision_at_maximum) (
     check (next_rev = revision (gstate2 s) + 1) (Sys Revision_not_next) (
     check (next_rev \<le> 1) (Sys Revision_unsupported) (
     Inr (s\<lparr>gstate2 := (gstate2 s)\<lparr>revision := next_rev\<rparr>\<rparr>)))))"

section \<open>Limits of single accounts\<close>

definition setalimits :: "env \<Rightarrow> name \<Rightarrow> int \<Rightarrow> int \<Rightarrow> int \<Rightarrow> chain \<Rightarrow> error + chain" where
  "setalimits E account ram net cpu s =
     require_auth E (e_self E) (
     check (fmlookup (userres s) account = None) (Sys Only_unlimited_accounts) (
     check (\<not> (account_flag s account ram_managed \<or> account_flag s account net_managed \<or>
         account_flag s account cpu_managed)) (Sys Managed_resources) (
     Inr (set_resource_limits account ram net cpu s))))"

text \<open>The two updates of the managed flag of an account that the next three actions share.\<close>

definition release_flag :: "name \<Rightarrow> 32 word \<Rightarrow> chain \<Rightarrow> error + chain" where
  "release_flag account field s =
     fetch (fmlookup (voters s) account) (Sys Already_unmanaged) (\<lambda>v.
     check (has_field (flags1 v) field) (Sys Already_unmanaged) (
     Inr (s\<lparr>voters := fmupd account (v\<lparr>flags1 := set_field (flags1 v) field False\<rparr>) (voters s)\<rparr>)))"

definition manage_flag :: "name \<Rightarrow> 32 word \<Rightarrow> chain \<Rightarrow> chain" where
  "manage_flag account field s =
     s\<lparr>voters := fmupd account (case fmlookup (voters s) account of
         Some v \<Rightarrow> v\<lparr>flags1 := set_field (flags1 v) field True\<rparr>
       | None \<Rightarrow> new_voter\<lparr>v_owner := account, flags1 := set_field (flags1 new_voter) field True\<rparr>) (voters s)\<rparr>"

definition setacctram :: "env \<Rightarrow> name \<Rightarrow> int option \<Rightarrow> chain \<Rightarrow> error + chain" where
  "setacctram E account bytes s =
     require_auth E (e_self E) (
     let (current_ram, current_net, current_cpu) = get_resource_limits s account in
     bindR (case bytes of
         None \<Rightarrow> bindR (release_flag account ram_managed s) (\<lambda>s1.
           Inr (case fmlookup (userres s1) account of
               None \<Rightarrow> ram_gift_bytes | Some r \<Rightarrow> i64 (ram_gift_bytes + ram_bytes r), s1))
       | Some n \<Rightarrow> check (0 \<le> n) (Sys Ram_limit_unlimited) (Inr (n, manage_flag account ram_managed s)))
       (\<lambda>(ram, s2). Inr (set_resource_limits account ram current_net current_cpu s2)))"

definition setacctnet :: "env \<Rightarrow> name \<Rightarrow> int option \<Rightarrow> chain \<Rightarrow> error + chain" where
  "setacctnet E account net_weight s =
     require_auth E (e_self E) (
     let (current_ram, current_net, current_cpu) = get_resource_limits s account in
     bindR (case net_weight of
         None \<Rightarrow> bindR (release_flag account net_managed s) (\<lambda>s1.
           Inr (case fmlookup (userres s1) account of
               None \<Rightarrow> 0 | Some r \<Rightarrow> amount (ur_net_weight r), s1))
       | Some n \<Rightarrow> check (- 1 \<le> n) (Sys Invalid_weight) (Inr (n, manage_flag account net_managed s)))
       (\<lambda>(net, s2). Inr (set_resource_limits account current_ram net current_cpu s2)))"

definition setacctcpu :: "env \<Rightarrow> name \<Rightarrow> int option \<Rightarrow> chain \<Rightarrow> error + chain" where
  "setacctcpu E account cpu_weight s =
     require_auth E (e_self E) (
     let (current_ram, current_net, current_cpu) = get_resource_limits s account in
     bindR (case cpu_weight of
         None \<Rightarrow> bindR (release_flag account cpu_managed s) (\<lambda>s1.
           Inr (case fmlookup (userres s1) account of
               None \<Rightarrow> 0 | Some r \<Rightarrow> amount (ur_cpu_weight r), s1))
       | Some n \<Rightarrow> check (- 1 \<le> n) (Sys Invalid_weight) (Inr (n, manage_flag account cpu_managed s)))
       (\<lambda>(cpu, s2). Inr (set_resource_limits account current_ram current_net cpu s2)))"

section \<open>ABI hashes and errors\<close>

definition setabi :: "env \<Rightarrow> name \<Rightarrow> nat list \<Rightarrow> chain \<Rightarrow> error + chain" where
  "setabi E acnt abi s = Inr (s\<lparr>abihash := fmupd acnt (e_sha256 E abi) (abihash s)\<rparr>)"

definition onerror :: "chain \<Rightarrow> error + chain" where
  "onerror s = Inl (Sys Onerror_called_directly)"

section \<open>Initialisation\<close>

definition init :: "env \<Rightarrow> int \<Rightarrow> symbol \<Rightarrow> chain \<Rightarrow> error + chain" where
  "init E version core s =
     require_auth E (e_self E) (
     check (version = 0) (Sys Unsupported_version) (
     check (rammarket s = None) (Sys Already_initialized) (
     bindR (e_supply E (sym_code core)) (\<lambda>system_token_supply.
     check (asym system_token_supply = core) (Sys Core_symbol_mismatch) (
     check (0 < amount system_token_supply) (Sys Supply_not_positive) (
     Inr (emit (Open_token rex_account core (e_self E))
       (s\<lparr>rammarket := Some \<lparr>
          ex_supply = \<lparr>amount = 100000000000000, asym = ramcore_symbol\<rparr>,
          base = \<lparr>balance = \<lparr>amount = i64 (free_ram (gstate s)), asym = ram_symbol\<rparr>, weight = f64_lit 1 2\<rparr>,
          quote = \<lparr>balance = \<lparr>amount = tdiv (amount system_token_supply) 1000, asym = core\<rparr>,
            weight = f64_lit 1 2\<rparr>\<rparr>\<rparr>))))))))"

section \<open>Managed resources\<close>

text \<open>Of all managed flags only one of one account is set to a value.\<close>

definition flag_set :: "name \<Rightarrow> 32 word \<Rightarrow> bool \<Rightarrow> chain \<Rightarrow> chain \<Rightarrow> bool" where
  "flag_set a field v s t \<longleftrightarrow> (\<forall>b. \<forall>f \<in> {ram_managed, net_managed, cpu_managed}.
     account_flag t b f = (if b = a \<and> f = field then v else account_flag s b f))"

lemma flags_distinct: "ram_managed \<noteq> net_managed" "ram_managed \<noteq> cpu_managed" "net_managed \<noteq> cpu_managed"
  by (simp_all add: ram_managed_def net_managed_def cpu_managed_def)

lemma new_flags: "has_field (flags1 new_voter) f = False"
  by (simp add: has_field_def new_voter_def)

lemma manage_flag_effect:
  assumes "field \<in> {ram_managed, net_managed, cpu_managed}"
  shows "flag_set a field True s (manage_flag a field s)"
    and "userres (manage_flag a field s) = userres s" and "limits (manage_flag a field s) = limits s"
  using assms flags_distinct flags_distinct [symmetric]
  by (auto simp: flag_set_def manage_flag_def account_flag_def new_flags split: option.split)

lemma release_flag_effect:
  assumes "field \<in> {ram_managed, net_managed, cpu_managed}" "release_flag a field s = Inr t"
  shows "flag_set a field False s t" and "userres t = userres s" and "limits t = limits s"
  using assms flags_distinct flags_distinct [symmetric]
  by (auto simp: flag_set_def release_flag_def account_flag_def res_simps)

text \<open>The three actions are the same update of one of the three limits.\<close>

definition limit_of :: "32 word \<Rightarrow> chain \<Rightarrow> name \<Rightarrow> int" where
  "limit_of field s a = (let (ram, net, cpu) = get_resource_limits s a in
     if field = ram_managed then ram else if field = net_managed then net else cpu)"

definition unmanaged_limit :: "32 word \<Rightarrow> chain \<Rightarrow> name \<Rightarrow> int" where
  "unmanaged_limit field s a =
     (if field = ram_managed then (case fmlookup (userres s) a of None \<Rightarrow> ram_gift_bytes | Some r \<Rightarrow> i64 (ram_gift_bytes + ram_bytes r))
      else if field = net_managed then row_val (\<lambda>r. amount (ur_net_weight r)) (userres s) a
      else row_val (\<lambda>r. amount (ur_cpu_weight r)) (userres s) a)"

definition setacct :: "32 word \<Rightarrow> env \<Rightarrow> name \<Rightarrow> int option \<Rightarrow> chain \<Rightarrow> error + chain" where
  "setacct field = (if field = ram_managed then setacctram else if field = net_managed then setacctnet else setacctcpu)"

definition limit_set :: "32 word \<Rightarrow> name \<Rightarrow> int option \<Rightarrow> chain \<Rightarrow> chain \<Rightarrow> bool" where
  "limit_set field a v s t \<longleftrightarrow> flag_set a field (v \<noteq> None) s t \<and> userres t = userres s \<and>
     (\<forall>b. \<forall>f \<in> {ram_managed, net_managed, cpu_managed}. limit_of f t b =
        (if b = a \<and> f = field then (case v of Some n \<Rightarrow> n | None \<Rightarrow> unmanaged_limit field s a) else limit_of f s b))"

definition store_limit :: "32 word \<Rightarrow> name \<Rightarrow> int \<Rightarrow> chain \<Rightarrow> chain" where
  "store_limit field a n s = (case get_resource_limits s a of (ram, net, cpu) \<Rightarrow> set_resource_limits a
     (if field = ram_managed then n else ram) (if field = net_managed then n else net)
     (if field = cpu_managed then n else cpu) s)"

lemma store_limit_same [simp]: "voters (store_limit field a n s) = voters s" "userres (store_limit field a n s) = userres s"
  by (simp_all add: store_limit_def set_resource_limits_def split: prod.split)

lemma limit_of_stored:
  assumes "f \<in> {ram_managed, net_managed, cpu_managed}" "field \<in> {ram_managed, net_managed, cpu_managed}"
  shows "limit_of f (store_limit field a n s) b = (if b = a \<and> f = field then n else limit_of f s b)"
proof -
  obtain ram net cpu where l: "limits s a = (ram, net, cpu)" by (cases "limits s a")
  show ?thesis
    using assms flags_distinct flags_distinct [symmetric] l
    by (elim insertE) (auto simp: limit_of_def store_limit_def get_resource_limits_def set_resource_limits_def)
qed

lemma limit_stored:
  assumes f: "field \<in> {ram_managed, net_managed, cpu_managed}" and u: "flag_set a field (v \<noteq> None) s u"
    "userres u = userres s" "limits u = limits s"
    and n: "n = (case v of Some n \<Rightarrow> n | None \<Rightarrow> unmanaged_limit field s a)"
  shows "limit_set field a v s (store_limit field a n u)"
proof -
  have "flag_set a field (v \<noteq> None) s (store_limit field a n u)"
    using u(1) unfolding flag_set_def account_flag_def by simp
  moreover have "limit_of f u b = limit_of f s b" for f b using u(3) by (simp add: limit_of_def get_resource_limits_def)
  ultimately show ?thesis using f u(2) n by (simp add: limit_set_def limit_of_stored)
qed

lemma manage_flag_limits [simp]: "limits (manage_flag a field s) = limits s"
  by (simp add: manage_flag_def)

lemma setacct_Some:
  assumes "setacct field E a (Some n) s = Inr t" and f: "field \<in> {ram_managed, net_managed, cpu_managed}"
  shows "t = store_limit field a n (manage_flag a field s)"
proof -
  obtain ram net cpu where l: "limits s a = (ram, net, cpu)" by (cases "limits s a")
  show ?thesis
    using assms flags_distinct flags_distinct [symmetric] l
    by (elim insertE) (auto simp: setacct_def setacctram_def setacctnet_def setacctcpu_def store_limit_def
        get_resource_limits_def res_simps)
qed

lemma setacct_None:
  assumes "setacct field E a None s = Inr t" and f: "field \<in> {ram_managed, net_managed, cpu_managed}"
  obtains u where "release_flag a field s = Inr u" "t = store_limit field a (unmanaged_limit field u a) u"
proof -
  obtain ram net cpu where l: "limits s a = (ram, net, cpu)" by (cases "limits s a")
  obtain u where u: "release_flag a field s = Inr u"
    using assms flags_distinct flags_distinct [symmetric] l
    by (elim insertE) (auto simp: setacct_def setacctram_def setacctnet_def setacctcpu_def get_resource_limits_def res_simps)
  moreover have "t = store_limit field a (unmanaged_limit field u a) u"
    using assms(1) f u release_flag_effect(3) [OF f u] flags_distinct flags_distinct [symmetric] l
    by (elim insertE; cases "fmlookup (userres u) a")
      (auto simp: setacct_def setacctram_def setacctnet_def setacctcpu_def store_limit_def get_resource_limits_def
        unmanaged_limit_def res_simps)
  ultimately show thesis by (rule that)
qed

lemma setacct_effect:
  assumes f: "field \<in> {ram_managed, net_managed, cpu_managed}" and ok: "setacct field E a v s = Inr t"
  shows "limit_set field a v s t"
proof (cases v)
  case None
  obtain u where u: "release_flag a field s = Inr u" "t = store_limit field a (unmanaged_limit field u a) u"
    using ok f unfolding None by (rule setacct_None)
  note r = release_flag_effect [OF f u(1)]
  have "unmanaged_limit field u a = unmanaged_limit field s a" using r(2) by (simp add: unmanaged_limit_def)
  then show ?thesis using limit_stored [OF f, of a v s u] r u None by simp
next
  case (Some n)
  note m = manage_flag_effect [OF f, of a s]
  have "t = store_limit field a n (manage_flag a field s)"
    using setacct_Some [OF ok [unfolded Some] f] .
  then show ?thesis using limit_stored [OF f, of a v s] m Some by simp
qed

lemma setacct_actions:
  "setacct ram_managed = setacctram" "setacct net_managed = setacctnet" "setacct cpu_managed = setacctcpu"
  using flags_distinct by (simp_all add: setacct_def)

end
