(* ===== verification/Powerup.thy ===== *)
theory Powerup
  imports PoolChannel
begin

text \<open>
  The power-up market (\<open>powerup.cpp\<close>). A NET and a CPU resource each have a weight that grows over
  time as the ratio of staked resources falls, and a utilization: the weight sold in orders that
  expire. A buyer names a fraction of the weight and pays the integral of a price function. The
  totals of \<open>eosio.reserv\<close> hold what is not sold. Every change of the market first expires due
  orders and brings weight and decaying utilization up to date. Shown: the market never sells more
  than its weight, its utilization is the sum of the orders, and the bandwidth totals of all
  accounts grow by exactly what the weights grow.
\<close>

section \<open>Weight and utilization over time\<close>

text \<open>\<open>update_utilization\<close>; the decayed part is computed in doubles and clamped.\<close>

definition update_utilization :: "env \<Rightarrow> powerup_state_resource \<Rightarrow> error + powerup_state_resource" where
  "update_utilization E r =
     (if e_sec E \<le> utilization_timestamp r then Inr r
      else
        bindR (if adjusted_utilization r \<le> utilization r then Inr (utilization r)
          else
            let diff = i64 (adjusted_utilization r - utilization r) in
            bindR (to_i64 Bad_conversion (of_i diff *
              e_exp E (- of_i (u32 (e_sec E - utilization_timestamp r)) / of_i (decay_secs r)))) (\<lambda>delta.
            Inr (i64 (utilization r + (if delta < 0 then 0 else if diff < delta then diff else delta)))))
        (\<lambda>adj. Inr (r\<lparr>adjusted_utilization := adj, utilization_timestamp := e_sec E\<rparr>)))"

definition ratio_now :: "env \<Rightarrow> powerup_state_resource \<Rightarrow> error + int" where
  "ratio_now E r =
     (if target_timestamp r \<le> e_sec E then Inr (target_weight_ratio r)
      else
        let span = u32 (target_timestamp r - initial_timestamp r) in
        check (span \<noteq> 0) Division_trap (
        Inr (i64 (initial_weight_ratio r +
          tdiv (i128 (i64 (target_weight_ratio r - initial_weight_ratio r) *
            u32 (e_sec E - initial_timestamp r))) span))))"

text \<open>\<open>update_weight\<close> adds the growth of the weight to its last argument.\<close>

definition update_weight ::
  "env \<Rightarrow> powerup_state_resource \<Rightarrow> int \<Rightarrow> error + (powerup_state_resource \<times> int)" where
  "update_weight E r delta_available =
     bindR (ratio_now E r) (\<lambda>ratio.
     check (ratio \<noteq> 0) Division_trap (
     let new_weight = i64 (tdiv (i128 (assumed_stake_weight r * powerup_frac)) ratio - assumed_stake_weight r) in
     Inr (r\<lparr>weight_ratio := ratio, pr_weight := new_weight\<rparr>,
       i64 (delta_available + i64 (new_weight - pr_weight r)))))"

section \<open>The queue of orders\<close>

definition orders_by_expires :: "chain \<Rightarrow> (int \<times> powerup_order) list" where
  "orders_by_expires s = sort_key (\<lambda>(k, p). (po_expires p, k)) (rows (powerorders s))"

text \<open>The loop: the state, and what the expired orders make available again.\<close>

primrec expire_orders :: "env \<Rightarrow> symbol \<Rightarrow> nat \<Rightarrow> int \<Rightarrow> int \<Rightarrow> chain \<Rightarrow> error + (int \<times> int \<times> chain)" where
  "expire_orders E core 0 net cpu s = Inr (net, cpu, s)"
| "expire_orders E core (Suc max_items) net cpu s =
     (case orders_by_expires s of
        [] \<Rightarrow> Inr (net, cpu, s)
      | (k, p) # _ \<Rightarrow>
          if e_sec E < po_expires p then Inr (net, cpu, s)
          else
            bindR (adjust_resources E (po_owner p) core (i64 (- po_net_weight p)) (i64 (- po_cpu_weight p)) False s)
              (\<lambda>s1. expire_orders E core max_items (i64 (net + po_net_weight p)) (i64 (cpu + po_cpu_weight p))
                (s1\<lparr>powerorders := fmdrop k (powerorders s1)\<rparr>)))"

definition sub_utilization :: "int \<Rightarrow> powerup_state_resource \<Rightarrow> powerup_state_resource" where
  "sub_utilization n r = r\<lparr>utilization := i64 (utilization r - n)\<rparr>"

definition process_powerup_queue ::
  "env \<Rightarrow> symbol \<Rightarrow> powerup_state \<Rightarrow> nat \<Rightarrow> chain \<Rightarrow> error + (powerup_state \<times> int \<times> int \<times> chain)" where
  "process_powerup_queue E core st max_items s =
     bindR (update_utilization E (ps_net st)) (\<lambda>n1.
     bindR (update_utilization E (ps_cpu st)) (\<lambda>c1.
     bindR (expire_orders E core max_items 0 0 s) (\<lambda>(net, cpu, s1).
     bindR (update_weight E (sub_utilization net n1) net) (\<lambda>(n2, net').
     bindR (update_weight E (sub_utilization cpu c1) cpu) (\<lambda>(c2, cpu').
     Inr (st\<lparr>ps_net := n2, ps_cpu := c2\<rparr>, net', cpu', s1))))))"

section \<open>Configuration\<close>

definition is_default_asset :: "asset \<Rightarrow> bool" where
  "is_default_asset a \<longleftrightarrow> amount a = 0 \<and> asym a = default_symbol"

text \<open>
  The lambda \<open>update\<close>: an argument that is not given takes the value of the state. (The code
  assigns such a value through the dereferenced empty \<open>std::optional\<close> and reads it from there.)
\<close>

definition config_target :: "env \<Rightarrow> int \<Rightarrow> int \<Rightarrow> powerup_config_resource \<Rightarrow> powerup_state_resource \<Rightarrow> error + int" where
  "config_target E cur tgt a r =
     (if cur = tgt then Inr (e_sec E)
      else
        bindR (case cf_target_timestamp a of
            Some x \<Rightarrow> Inr x
          | None \<Rightarrow> check (target_timestamp r \<noteq> 0) (Power No_default_value) (Inr (target_timestamp r))) (\<lambda>t.
        check (e_sec E < t) (Power Target_not_in_future) (Inr t)))"

definition config_prices :: "powerup_config_resource \<Rightarrow> powerup_state_resource \<Rightarrow> error + (asset \<times> asset)" where
  "config_prices a r =
     bindR (case cf_max_price a of
         Some x \<Rightarrow> Inr x
       | None \<Rightarrow> check (\<not> is_default_asset (max_price r)) (Power No_default_value) (Inr (max_price r))) (\<lambda>maxp.
     Inr (case cf_min_price a of
         Some x \<Rightarrow> x
       | None \<Rightarrow> if is_default_asset (min_price r) then set_amount 0 maxp else min_price r, maxp))"

definition config_resource ::
  "env \<Rightarrow> symbol \<Rightarrow> powerup_config_resource \<Rightarrow> powerup_state_resource \<Rightarrow> error + powerup_state_resource" where
  "config_resource E core a r =
     (let cur = (case cf_current_weight_ratio a of
          Some x \<Rightarrow> x | None \<Rightarrow> if weight_ratio r \<noteq> 0 then weight_ratio r else initial_weight_ratio r);
        tgt = (case cf_target_weight_ratio a of Some x \<Rightarrow> x | None \<Rightarrow> target_weight_ratio r) in
      bindR (case cf_assumed_stake_weight a of
          Some x \<Rightarrow> Inr x
        | None \<Rightarrow> check (assumed_stake_weight r \<noteq> 0) (Power No_default_value) (Inr (assumed_stake_weight r))) (\<lambda>asw.
      bindR (config_target E cur tgt a r) (\<lambda>tts.
      let e = (case cf_exponent a of Some x \<Rightarrow> x | None \<Rightarrow> exponent r);
          decay = (case cf_decay_secs a of Some x \<Rightarrow> x | None \<Rightarrow> decay_secs r) in
      bindR (config_prices a r) (\<lambda>(minp, maxp).
      check (0 < cur) (Power Current_ratio_too_small) (
      check (cur \<le> powerup_frac) (Power Current_ratio_too_large) (
      check (0 < tgt) (Power Target_ratio_too_small) (
      check (tgt \<le> cur) (Power Weight_cannot_grow) (
      check (1 \<le> asw) (Power Stake_weight_too_small) (
      check (tdiv (i128 (asw * powerup_frac)) tgt \<le> i64_max) (Power Stake_weight_too_large) (
      check (1 \<le> e) (Power Exponent_too_small) (
      check (1 \<le> decay) (Power Decay_too_small) (
      check (asym maxp = core) (Power Max_price_symbol) (
      check (0 < amount maxp) (Power Max_price_not_positive) (
      check (asym minp = core) (Power Min_price_symbol) (
      check (0 \<le> amount minp) (Power Min_price_negative) (
      check (amount minp \<le> amount maxp) (Power Min_exceeds_max) (
      check (f64_eq e 1 \<longrightarrow> amount minp = amount maxp) (Power Prices_must_match) (
      Inr (r\<lparr>assumed_stake_weight := asw, initial_weight_ratio := cur, target_weight_ratio := tgt,
        initial_timestamp := e_sec E, target_timestamp := tts, exponent := e, decay_secs := decay,
        min_price := minp, max_price := maxp\<rparr>)))))))))))))))))))"

text \<open>What the first part of \<open>cfgpowerup\<close> makes of an existing state, or of none.\<close>

definition config_base :: "env \<Rightarrow> powerup_state option \<Rightarrow> error + (powerup_state \<times> int \<times> int)" where
  "config_base E st_opt = (case st_opt of
     Some st \<Rightarrow>
       bindR (update_utilization E (ps_net st)) (\<lambda>n1.
       bindR (update_utilization E (ps_cpu st)) (\<lambda>c1.
       bindR (update_weight E n1 0) (\<lambda>(n2, net).
       bindR (update_weight E c1 0) (\<lambda>(c2, cpu).
       Inr (st\<lparr>ps_net := n2, ps_cpu := c2\<rparr>, net, cpu)))))
   | None \<Rightarrow>
       Inr (new_power_state\<lparr>ps_net := (ps_net new_power_state)\<lparr>utilization_timestamp := e_sec E\<rparr>,
         ps_cpu := (ps_cpu new_power_state)\<lparr>utilization_timestamp := e_sec E\<rparr>\<rparr>, 0, 0))"

definition cap_adjusted :: "powerup_state_resource \<Rightarrow> powerup_state_resource" where
  "cap_adjusted r = r\<lparr>adjusted_utilization := min (adjusted_utilization r) (pr_weight r)\<rparr>"

definition cfgpowerup :: "env \<Rightarrow> powerup_config \<Rightarrow> chain \<Rightarrow> error + chain" where
  "cfgpowerup E args s =
     require_auth E (e_self E) (
     core_symbol s (\<lambda>core.
     check (e_is_account E reserv_account) (Power Reserv_account_missing) (
     bindR (config_base E (powerstate s)) (\<lambda>(st, net, cpu).
     let days = (case cf_powerup_days args of Some x \<Rightarrow> x | None \<Rightarrow> powerup_days st) in
     bindR (case cf_min_powerup_fee args of
         Some x \<Rightarrow> Inr x
       | None \<Rightarrow> check (\<not> is_default_asset (min_powerup_fee st)) (Power No_default_value)
           (Inr (min_powerup_fee st))) (\<lambda>fee.
     check (0 < days) (Power Powerup_days_zero) (
     check (asym fee = core) (Power Min_fee_symbol) (
     check (0 < amount fee) (Power Min_fee_not_positive) (
     bindR (config_resource E core (cf_net args) (ps_net st)) (\<lambda>n1.
     bindR (config_resource E core (cf_cpu args) (ps_cpu st)) (\<lambda>c1.
     bindR (update_weight E n1 net) (\<lambda>(n2, net').
     bindR (update_weight E c1 cpu) (\<lambda>(c2, cpu').
     check (utilization n2 \<le> pr_weight n2) (Power Weight_below_utilization) (
     check (utilization c2 \<le> pr_weight c2) (Power Weight_below_utilization) (
     bindR (adjust_resources E reserv_account core net' cpu' True s) (\<lambda>s1.
     Inr (s1\<lparr>powerstate := Some \<lparr>ps_net = cap_adjusted n2, ps_cpu = cap_adjusted c2, powerup_days = days,
       min_powerup_fee = fee\<rparr>\<rparr>))))))))))))))))"

section \<open>Prices\<close>

definition price_integral_delta :: "env \<Rightarrow> powerup_state_resource \<Rightarrow> int \<Rightarrow> int \<Rightarrow> f64" where
  "price_integral_delta E r start_utilization end_utilization =
     (let coefficient = of_i (i64 (amount (max_price r) - amount (min_price r))) / exponent r;
          start_u = of_i start_utilization / of_i (pr_weight r);
          end_u = of_i end_utilization / of_i (pr_weight r) in
      of_i (amount (min_price r)) * end_u - of_i (amount (min_price r)) * start_u +
        coefficient * e_pow E end_u (exponent r) - coefficient * e_pow E start_u (exponent r))"

definition price_function :: "env \<Rightarrow> powerup_state_resource \<Rightarrow> int \<Rightarrow> f64" where
  "price_function E r n =
     (let new_exponent = exponent r - 1 in
      if new_exponent \<le> 0 then of_i (amount (max_price r))
      else of_i (amount (min_price r)) + of_i (i64 (amount (max_price r) - amount (min_price r))) *
        e_pow E (of_i n / of_i (pr_weight r)) new_exponent)"

definition calc_powerup_fee :: "env \<Rightarrow> powerup_state_resource \<Rightarrow> int \<Rightarrow> error + int" where
  "calc_powerup_fee E r utilization_increase =
     (if utilization_increase \<le> 0 then Inr 0
      else
        let start0 = utilization r;
            end_u = i64 (start0 + utilization_increase);
            (fee1, start1) = (if start0 < adjusted_utilization r
              then (0 + price_function E r (adjusted_utilization r) *
                  of_i (min utilization_increase (i64 (adjusted_utilization r - start0))) / of_i (pr_weight r),
                adjusted_utilization r)
              else (0, start0));
            fee2 = (if start1 < end_u then fee1 + price_integral_delta E r start1 end_u else fee1) in
        to_i64 Bad_conversion (f64_ceil fee2))"

section \<open>Buying\<close>

text \<open>The lambda \<open>process\<close>: what a fraction of a resource's weight is and costs.\<close>

definition buy_fraction ::
  "env \<Rightarrow> int \<Rightarrow> int \<Rightarrow> powerup_state_resource \<Rightarrow> error + (int \<times> int \<times> powerup_state_resource)" where
  "buy_fraction E fee portion r =
     (if portion = 0 then Inr (fee, 0, r)
      else
        let n = i64 (tdiv (i128 (portion * pr_weight r)) powerup_frac) in
        check (pr_weight r \<noteq> 0) (Power No_resources_available) (
        check (i64 (utilization r + n) \<le> pr_weight r) (Power Not_enough_resources) (
        bindR (calc_powerup_fee E r n) (\<lambda>f.
        check (0 < f) (Power Fee_below_minimum) (
        Inr (i64 (fee + f), n, r\<lparr>utilization := i64 (utilization r + n)\<rparr>))))))"

text \<open>\<open>available_primary_key\<close>: the key after the last row's.\<close>

definition next_key :: "(int, 'v) fmap \<Rightarrow> int" where
  "next_key t = (case rows t of [] \<Rightarrow> 0 | rs \<Rightarrow> fst (last rs) + 1)"

text \<open>The seconds of \<open>now + eosio::days(days)\<close>, a sum of microseconds in 64 bits.\<close>

definition order_expiry :: "env \<Rightarrow> int \<Rightarrow> int" where
  "order_expiry E days = u32 (tdiv (i64 (e_sec E * 1000000 + i64 (days * 86400000000))) 1000000)"

definition powerupexec :: "env \<Rightarrow> name \<Rightarrow> nat \<Rightarrow> chain \<Rightarrow> error + chain" where
  "powerupexec E user max_items s =
     require_auth E user (
     fetch (powerstate s) (Power Powerup_not_initialized) (\<lambda>st.
     core_symbol s (\<lambda>core.
     bindR (process_powerup_queue E core st max_items s) (\<lambda>(st1, net, cpu, s1).
     bindR (adjust_resources E reserv_account core net cpu True s1) (\<lambda>s2.
     Inr (s2\<lparr>powerstate := Some st1\<rparr>))))))"

definition powerup :: "env \<Rightarrow> name \<Rightarrow> name \<Rightarrow> int \<Rightarrow> int \<Rightarrow> int \<Rightarrow> asset \<Rightarrow> chain \<Rightarrow> error + chain" where
  "powerup E payer receiver days net_frac cpu_frac max_payment s =
     require_auth E payer (
     fetch (powerstate s) (Power Powerup_not_initialized) (\<lambda>st.
     core_symbol s (\<lambda>core.
     check (asym max_payment = core) (Power Max_payment_symbol) (
     check (days = powerup_days st) (Power Days_mismatch) (
     check (0 \<le> net_frac) (Power Frac_negative) (
     check (0 \<le> cpu_frac) (Power Frac_negative) (
     check (net_frac \<le> powerup_frac) (Power Frac_too_large) (
     check (cpu_frac \<le> powerup_frac) (Power Frac_too_large) (
     bindR (process_powerup_queue E core st 2 s) (\<lambda>(st1, net, cpu, s1).
     bindR (buy_fraction E 0 net_frac (ps_net st1)) (\<lambda>(fee1, net_amount, n1).
     bindR (buy_fraction E fee1 cpu_frac (ps_cpu st1)) (\<lambda>(fee2, cpu_amount, c1).
     let fee = \<lparr>amount = fee2, asym = core\<rparr> in
     bindR (aa_less (e_assets E) max_payment fee) (\<lambda>too_much.
     check (\<not> too_much) (Power Max_payment_exceeded) (
     bindR (aa_leq (e_assets E) (min_powerup_fee st1) fee) (\<lambda>enough.
     check enough (Power Fee_below_minimum) (
     let k = next_key (powerorders s1);
         s2 = s1\<lparr>powerorders := fmupd k \<lparr>po_id = k, po_owner = receiver, po_net_weight = net_amount,
           po_cpu_weight = cpu_amount, po_expires = order_expiry E days\<rparr> (powerorders s1)\<rparr> in
     bindR (adjust_resources E receiver core net_amount cpu_amount True s2) (\<lambda>s3.
     bindR (adjust_resources E reserv_account core (i64 (net - net_amount)) (i64 (cpu - cpu_amount)) True s3) (\<lambda>s4.
     bindR (channel_to_rex_or_pools E payer fee True s4) (\<lambda>s5.
     Inr (emit (Powup_result fee net_amount cpu_amount)
       (s5\<lparr>powerstate := Some (st1\<lparr>ps_net := n1, ps_cpu := c1\<rparr>)\<rparr>)))))))))))))))))))))"

section \<open>The plan of a resource's weight\<close>

text \<open>
  With times and amounts in range the ratio and the weight are functions of the time: the ratio
  falls in a straight line from its initial value to the target, and the weight grows.
\<close>

definition ratio_at :: "powerup_state_resource \<Rightarrow> int \<Rightarrow> int" where
  "ratio_at r t =
     (if target_timestamp r \<le> t then target_weight_ratio r
      else initial_weight_ratio r - (initial_weight_ratio r - target_weight_ratio r) *
        (t - initial_timestamp r) div (target_timestamp r - initial_timestamp r))"

definition weight_at :: "powerup_state_resource \<Rightarrow> int \<Rightarrow> int" where
  "weight_at r t = assumed_stake_weight r * powerup_frac div ratio_at r t - assumed_stake_weight r"

definition plan_ok :: "int \<Rightarrow> powerup_state_resource \<Rightarrow> bool" where
  "plan_ok T r \<longleftrightarrow> 0 < target_weight_ratio r \<and> target_weight_ratio r \<le> initial_weight_ratio r \<and>
     initial_weight_ratio r \<le> powerup_frac \<and> 1 \<le> assumed_stake_weight r \<and>
     assumed_stake_weight r * powerup_frac div target_weight_ratio r \<le> max_amount \<and>
     0 \<le> initial_timestamp r \<and> initial_timestamp r \<le> T \<and> initial_timestamp r \<le> target_timestamp r \<and>
     target_timestamp r < 4294967296"

lemma plan_ok_later: "plan_ok T r \<Longrightarrow> T \<le> t \<Longrightarrow> plan_ok t r"
  by (simp add: plan_ok_def)

lemma line_div:
  fixes a e d :: int
  assumes "0 \<le> a" "0 \<le> e" "e \<le> d" "0 < d"
  shows "0 \<le> a * e div d" and "a * e div d \<le> a"
proof -
  show "0 \<le> a * e div d" using assms by (simp add: pos_imp_zdiv_nonneg_iff)
  have "a * e div d \<le> a * d div d" using assms by (intro zdiv_mono1 mult_left_mono) auto
  then show "a * e div d \<le> a" using assms by simp
qed

lemma ratio_at_range:
  assumes "plan_ok T r" "T \<le> t"
  shows "target_weight_ratio r \<le> ratio_at r t" and "ratio_at r t \<le> initial_weight_ratio r"
  using assms line_div [of "initial_weight_ratio r - target_weight_ratio r" "t - initial_timestamp r"
      "target_timestamp r - initial_timestamp r"]
  by (auto simp: plan_ok_def ratio_at_def)

lemma ratio_at_antimono:
  assumes "plan_ok T r" "T \<le> t" "t \<le> t'"
  shows "ratio_at r t' \<le> ratio_at r t"
proof (cases "target_timestamp r \<le> t'")
  case True
  then show ?thesis using ratio_at_range(1) [OF assms(1,2)] by (simp add: ratio_at_def)
next
  case False
  let ?a = "initial_weight_ratio r - target_weight_ratio r" and ?d = "target_timestamp r - initial_timestamp r"
  have "?a * (t - initial_timestamp r) div ?d \<le> ?a * (t' - initial_timestamp r) div ?d"
    using assms False by (intro zdiv_mono1 mult_left_mono) (auto simp: plan_ok_def)
  then show ?thesis using False assms(3) by (simp add: ratio_at_def)
qed

lemma weight_at_range:
  assumes "plan_ok T r" "T \<le> t"
  shows "0 \<le> weight_at r t" and "weight_at r t + assumed_stake_weight r \<le> max_amount"
proof -
  let ?a = "assumed_stake_weight r"
  note R = ratio_at_range [OF assms]
  have p: "0 < target_weight_ratio r" "initial_weight_ratio r \<le> powerup_frac" "1 \<le> ?a"
    "?a * powerup_frac div target_weight_ratio r \<le> max_amount"
    using assms(1) by (simp_all add: plan_ok_def)
  have f: "0 < powerup_frac" by (simp add: powerup_frac_def)
  have "?a = ?a * powerup_frac div powerup_frac" using f by simp
  also have "\<dots> \<le> ?a * powerup_frac div ratio_at r t" using R p f by (intro zdiv_mono2) auto
  finally show "0 \<le> weight_at r t" by (simp add: weight_at_def)
  have "?a * powerup_frac div ratio_at r t \<le> ?a * powerup_frac div target_weight_ratio r"
    using R p f by (intro zdiv_mono2) auto
  then show "weight_at r t + ?a \<le> max_amount" using p by (simp add: weight_at_def)
qed

lemma weight_at_mono:
  assumes "plan_ok T r" "T \<le> t" "t \<le> t'"
  shows "weight_at r t \<le> weight_at r t'"
proof -
  have "0 < ratio_at r t'" using ratio_at_range(1) [OF assms(1), of t'] assms by (simp add: plan_ok_def)
  then have "assumed_stake_weight r * powerup_frac div ratio_at r t \<le> assumed_stake_weight r * powerup_frac div ratio_at r t'"
    using ratio_at_antimono [OF assms] assms(1)
    by (intro zdiv_mono2) (auto simp: plan_ok_def powerup_frac_def)
  then show ?thesis by (simp add: weight_at_def)
qed

lemma assumed_bound:
  assumes "plan_ok T r"
  shows "assumed_stake_weight r \<le> max_amount"
  using weight_at_range [OF assms order_refl] by linarith

lemma ratio_now_eq:
  assumes p: "plan_ok T r" and t: "T \<le> e_sec E" "e_sec E < 4294967296"
  shows "ratio_now E r = Inr (ratio_at r (e_sec E))"
proof (cases "target_timestamp r \<le> e_sec E")
  case False
  let ?a = "initial_weight_ratio r - target_weight_ratio r" and ?i = "initial_timestamp r"
  have b: "0 \<le> ?a" "?a \<le> powerup_frac" "0 \<le> e_sec E - ?i" "e_sec E - ?i < 4294967296" "0 < target_timestamp r - ?i"
    "target_timestamp r - ?i < 4294967296"
    using p t False by (auto simp: plan_ok_def)
  have u: "u32 (target_timestamp r - ?i) = target_timestamp r - ?i" "u32 (e_sec E - ?i) = e_sec E - ?i"
    using b by (simp_all add: u32_id)
  have n: "i64 (target_weight_ratio r - initial_weight_ratio r) = - ?a"
    using b by (subst i64_id) (auto simp: powerup_frac_def)
  define m where "m = ?a * (e_sec E - ?i)"
  have "m \<le> powerup_frac * 4294967296" "0 \<le> m"
    unfolding m_def using b by (intro mult_mono mult_nonneg_nonneg; auto simp: powerup_frac_def)+
  then have "i128 (- m) = - m" by (subst i128_id) (auto simp: powerup_frac_def)
  moreover have "- ?a * (e_sec E - ?i) = - m" unfolding m_def by (rule mult_minus_left)
  moreover have "tdiv (- m) (target_timestamp r - ?i) = - (m div (target_timestamp r - ?i))"
    using b \<open>0 \<le> m\<close> by (subst tdiv_neg) auto
  moreover have "i64 (ratio_at r (e_sec E)) = ratio_at r (e_sec E)"
    using ratio_at_range [OF p t(1)] p by (subst i64_id) (auto simp: plan_ok_def powerup_frac_def)
  ultimately show ?thesis using False b
    by (simp only: ratio_now_def u n Let_def ratio_at_def if_False) (simp add: m_def)
qed (simp add: ratio_now_def ratio_at_def)

lemma update_weight_eq:
  assumes p: "plan_ok T r" and t: "T \<le> e_sec E" "e_sec E < 4294967296"
  shows "update_weight E r d = Inr (r\<lparr>weight_ratio := ratio_at r (e_sec E), pr_weight := weight_at r (e_sec E)\<rparr>,
    i64 (d + (weight_at r (e_sec E) - pr_weight r)))"
proof -
  let ?a = "assumed_stake_weight r"
  have a: "1 \<le> ?a" "?a \<le> max_amount" using p assumed_bound [OF p] by (simp_all add: plan_ok_def)
  have r: "0 < ratio_at r (e_sec E)" using ratio_at_range(1) [OF p t(1)] p by (simp add: plan_ok_def)
  have "?a * powerup_frac \<le> max_amount * powerup_frac" using a by (intro mult_right_mono) (simp_all add: powerup_frac_def)
  then have "i128 (?a * powerup_frac) = ?a * powerup_frac"
    using a by (subst i128_id) (auto simp: powerup_frac_def max_amount_def)
  moreover have "tdiv (?a * powerup_frac) (ratio_at r (e_sec E)) = ?a * powerup_frac div ratio_at r (e_sec E)"
    using a r by (intro tdiv_nonneg) (simp_all add: powerup_frac_def)
  moreover have "i64 (weight_at r (e_sec E)) = weight_at r (e_sec E)"
    using weight_at_range [OF p t(1)] a by (subst i64_id) (auto simp: max_amount_def)
  ultimately show ?thesis using r
    by (simp add: update_weight_def ratio_now_eq [OF assms] Let_def weight_at_def)
qed

section \<open>Decay\<close>

lemma update_utilization_Inr:
  assumes "update_utilization E r = Inr r'" and rng: "0 \<le> utilization r" "utilization r \<le> i64_max"
    "0 \<le> adjusted_utilization r" "adjusted_utilization r \<le> i64_max"
  obtains a ts where "r' = r\<lparr>adjusted_utilization := a, utilization_timestamp := ts\<rparr>"
    "0 \<le> a" "a \<le> max (utilization r) (adjusted_utilization r)"
    "e_sec E \<le> utilization_timestamp r \<longrightarrow> a = adjusted_utilization r"
    "utilization_timestamp r < e_sec E \<longrightarrow> utilization r \<le> a \<and> ts = e_sec E"
proof (cases "e_sec E \<le> utilization_timestamp r")
  case True
  then show thesis using assms that [where a = "adjusted_utilization r" and ts = "utilization_timestamp r"]
    by (auto simp: update_utilization_def)
next
  case late: False
  show thesis
  proof (cases "adjusted_utilization r \<le> utilization r")
    case True
    then show thesis using assms late that [where a = "utilization r" and ts = "e_sec E"]
      by (auto simp: update_utilization_def)
  next
    case False
    let ?diff = "adjusted_utilization r - utilization r"
    have d: "i64 ?diff = ?diff" using False rng by (subst i64_id) (auto simp: i64_max_def)
    obtain delta where r': "r' = r\<lparr>adjusted_utilization := i64 (utilization r +
        (if delta < 0 then 0 else if ?diff < delta then ?diff else delta)), utilization_timestamp := e_sec E\<rparr>"
      using assms(1) late False d by (auto simp: update_utilization_def res_simps Let_def)
    let ?c = "if delta < 0 then 0 else if ?diff < delta then ?diff else delta"
    have c: "0 \<le> ?c" "?c \<le> ?diff" using False by auto
    then have "i64 (utilization r + ?c) = utilization r + ?c"
      using rng by (subst i64_id) (auto simp: i64_max_def)
    then show thesis using r' c late rng that [where a = "utilization r + ?c" and ts = "e_sec E"] by simp
  qed
qed

section \<open>Bandwidth totals\<close>

definition net_total :: "chain \<Rightarrow> int" where
  "net_total s = table_sum (\<lambda>r. amount (ur_net_weight r)) (userres s)"

definition cpu_total :: "chain \<Rightarrow> int" where
  "cpu_total s = table_sum (\<lambda>r. amount (ur_cpu_weight r)) (userres s)"

lemma stored_total:
  "(ur_is_empty tot \<Longrightarrow> f tot = 0) \<Longrightarrow>
     table_sum f (userres (store_totals a tot (set_limits a r tot s))) =
     table_sum f (userres s) + (f tot - row_val f (userres s) a)"
  by (auto simp: store_totals_def table_sum_upd table_sum_drop)

lemma add_to_old: "i64 (S + (i64 (x + n) - x)) = i64 (S + (n :: int))"
  using i64_add_i64(2) [of "S - x" "x + n"] by (simp add: algebra_simps)

lemma adjust_resources_totals:
  assumes A: "asset_laws (e_assets E)" and ok: "adjust_resources E a core n c b s = Inr t"
  shows "i64 (net_total t) = i64 (net_total s + n)" and "i64 (cpu_total t) = i64 (cpu_total s + c)"
proof -
  have "t = s \<and> n = 0 \<and> c = 0 \<or>
      (\<exists>tot. t = store_totals a tot (set_limits a (staker_ram a tot s) tot s) \<and>
        (case fmlookup (userres s) a of
           None \<Rightarrow> amount (ur_net_weight tot) = n \<and> amount (ur_cpu_weight tot) = c
         | Some u \<Rightarrow> amount (ur_net_weight tot) = i64 (amount (ur_net_weight u) + n) \<and>
             amount (ur_cpu_weight tot) = i64 (amount (ur_cpu_weight u) + c)))"
    using ok by (cases "fmlookup (userres s) a")
      (auto simp: adjust_resources_def res_simps dest!: asset_laws.make_amount [OF A] split: if_splits)
  then consider "t = s" "n = 0" "c = 0"
    | tot where "t = store_totals a tot (set_limits a (staker_ram a tot s) tot s)"
      "case fmlookup (userres s) a of
         None \<Rightarrow> amount (ur_net_weight tot) = n \<and> amount (ur_cpu_weight tot) = c
       | Some u \<Rightarrow> amount (ur_net_weight tot) = i64 (amount (ur_net_weight u) + n) \<and>
           amount (ur_cpu_weight tot) = i64 (amount (ur_cpu_weight u) + c)" by blast
  then have "i64 (net_total t) = i64 (net_total s + n) \<and> i64 (cpu_total t) = i64 (cpu_total s + c)"
  proof cases
    case 2
    have "net_total t = net_total s + (amount (ur_net_weight tot) - row_val (\<lambda>r. amount (ur_net_weight r)) (userres s) a)"
      "cpu_total t = cpu_total s + (amount (ur_cpu_weight tot) - row_val (\<lambda>r. amount (ur_cpu_weight r)) (userres s) a)"
      unfolding net_total_def cpu_total_def 2(1) by (rule stored_total, simp add: ur_is_empty_def)+
    then show ?thesis using 2(2) by (cases "fmlookup (userres s) a") (simp_all add: add_to_old)
  qed simp
  then show "i64 (net_total t) = i64 (net_total s + n)" "i64 (cpu_total t) = i64 (cpu_total s + c)" by simp_all
qed

section \<open>The queue\<close>

definition orders_nonneg :: "chain \<Rightarrow> bool" where
  "orders_nonneg s \<longleftrightarrow>
     (\<forall>k p. fmlookup (powerorders s) k = Some p \<longrightarrow> 0 \<le> po_net_weight p \<and> 0 \<le> po_cpu_weight p)"

definition sold_net :: "chain \<Rightarrow> int" where "sold_net s = table_sum po_net_weight (powerorders s)"
definition sold_cpu :: "chain \<Rightarrow> int" where "sold_cpu s = table_sum po_cpu_weight (powerorders s)"

lemma sold_nonneg: "orders_nonneg s \<Longrightarrow> 0 \<le> sold_net s" "orders_nonneg s \<Longrightarrow> 0 \<le> sold_cpu s"
  by (auto simp: sold_net_def sold_cpu_def orders_nonneg_def intro: table_sum_nonneg)

lemma orders_by_expires_set: "(k, p) \<in> set (orders_by_expires s) \<longleftrightarrow> fmlookup (powerorders s) k = Some p"
  by (simp add: orders_by_expires_def rows_upd_lookup)

lemma orders_by_expires_Nil: "orders_by_expires s = [] \<Longrightarrow> fmlookup (powerorders s) k = None"
  using orders_by_expires_set [of k _ s] by (cases "fmlookup (powerorders s) k") auto

lemma orders_by_expires_Cons:
  assumes "orders_by_expires s = (k, p) # rs"
  shows "fmlookup (powerorders s) k = Some p"
    and "fmlookup (powerorders s) j = Some q \<Longrightarrow> po_expires p \<le> po_expires q"
proof -
  show "fmlookup (powerorders s) k = Some p" using orders_by_expires_set [of k p s] assms by simp
  have "sorted (map (\<lambda>(k, p). (po_expires p, k)) (orders_by_expires s))"
    unfolding orders_by_expires_def by simp
  then have "\<forall>(j, q) \<in> set rs. (po_expires p, k) \<le> (po_expires q, j)" using assms by auto
  moreover assume "fmlookup (powerorders s) j = Some q"
  ultimately show "po_expires p \<le> po_expires q"
    using orders_by_expires_set [of j q s] assms by (auto simp: less_eq_prod_def)
qed

text \<open>The rule for invariants of the loop.\<close>

lemma expire_orders_rule:
  assumes "expire_orders E core n net cpu s = Inr (net', cpu', t)" and "P net cpu s"
    and step: "\<And>net cpu s k p s1. P net cpu s \<Longrightarrow> fmlookup (powerorders s) k = Some p \<Longrightarrow>
      po_expires p \<le> e_sec E \<Longrightarrow>
      adjust_resources E (po_owner p) core (i64 (- po_net_weight p)) (i64 (- po_cpu_weight p)) False s = Inr s1 \<Longrightarrow>
      P (i64 (net + po_net_weight p)) (i64 (cpu + po_cpu_weight p)) (s1\<lparr>powerorders := fmdrop k (powerorders s1)\<rparr>)"
  shows "P net' cpu' t"
  using assms(1,2)
proof (induction n arbitrary: net cpu s)
  case (Suc n)
  show ?case
  proof (cases "orders_by_expires s")
    case Nil
    then show ?thesis using Suc.prems by simp
  next
    case (Cons kp rs)
    then obtain k p where c: "orders_by_expires s = (k, p) # rs" by (cases kp) auto
    show ?thesis
    proof (cases "e_sec E < po_expires p")
      case True
      then show ?thesis using Suc.prems c by simp
    next
      case False
      then obtain s1 where a: "adjust_resources E (po_owner p) core (i64 (- po_net_weight p))
          (i64 (- po_cpu_weight p)) False s = Inr s1"
        and r: "expire_orders E core n (i64 (net + po_net_weight p)) (i64 (cpu + po_cpu_weight p))
          (s1\<lparr>powerorders := fmdrop k (powerorders s1)\<rparr>) = Inr (net', cpu', t)"
        using Suc.prems(1) c by (auto simp: res_simps)
      show ?thesis
        by (rule Suc.IH [OF r step]) (use Suc.prems(2) orders_by_expires_Cons(1) [OF c] False a in auto)
    qed
  qed
qed simp

lemma expire_orders_same:
  assumes "expire_orders E core n net cpu s = Inr (net', cpu', t)"
  shows "t = s\<lparr>userres := userres t, limits := limits t, powerorders := powerorders t\<rparr>"
proof (rule expire_orders_rule [OF assms, where P = "\<lambda>_ _ u. u = s\<lparr>userres := userres u, limits := limits u, powerorders := powerorders u\<rparr>"])
  fix k p u s1 and net cpu :: int
  assume u: "u = s\<lparr>userres := userres u, limits := limits u, powerorders := powerorders u\<rparr>"
    and "adjust_resources E (po_owner p) core (i64 (- po_net_weight p)) (i64 (- po_cpu_weight p)) False u = Inr s1"
  then have "s1 = u\<lparr>userres := userres s1, limits := limits s1\<rparr>"
    using adjust_resources_same same_but_quotas_def by blast
  then show "s1\<lparr>powerorders := fmdrop k (powerorders s1)\<rparr> =
      s\<lparr>userres := userres (s1\<lparr>powerorders := fmdrop k (powerorders s1)\<rparr>),
        limits := limits (s1\<lparr>powerorders := fmdrop k (powerorders s1)\<rparr>),
        powerorders := powerorders (s1\<lparr>powerorders := fmdrop k (powerorders s1)\<rparr>)\<rparr>"
    using u by (cases s, cases u, cases s1) simp
qed simp

lemma adjust_orders: "adjust_resources E a core n c b s = Inr t \<Longrightarrow> powerorders t = powerorders s"
  by (drule adjust_resources_same) (rule same_but_quotas_fields)

text \<open>What the loop makes available is what the orders it drops had sold; totals give it back.\<close>

lemma expire_orders_books:
  assumes A: "asset_laws (e_assets E)" and ok: "expire_orders E core n net cpu s = Inr (net', cpu', t)"
  shows "i64 (net' + sold_net t) = i64 (net + sold_net s)" "i64 (cpu' + sold_cpu t) = i64 (cpu + sold_cpu s)"
    "i64 (net' + net_total t) = i64 (net + net_total s)" "i64 (cpu' + cpu_total t) = i64 (cpu + cpu_total s)"
proof -
  have "i64 (net' + sold_net t) = i64 (net + sold_net s) \<and> i64 (cpu' + sold_cpu t) = i64 (cpu + sold_cpu s) \<and>
    i64 (net' + net_total t) = i64 (net + net_total s) \<and> i64 (cpu' + cpu_total t) = i64 (cpu + cpu_total s)"
  proof (rule expire_orders_rule [OF ok], goal_cases)
    case (2 n c u k p s1)
    have d: "sold_net (s1\<lparr>powerorders := fmdrop k (powerorders s1)\<rparr>) = sold_net u - po_net_weight p"
      "sold_cpu (s1\<lparr>powerorders := fmdrop k (powerorders s1)\<rparr>) = sold_cpu u - po_cpu_weight p"
      using 2 by (simp_all add: sold_net_def sold_cpu_def adjust_orders table_sum_drop)
    note a = adjust_resources_totals [OF A 2(4)]
    have "i64 (n + po_net_weight p + net_total s1) = i64 (n + net_total u)"
      using i64_addL_cong [OF a(1), of "n + po_net_weight p"] i64_add_i64(2) [of "n + po_net_weight p + net_total u" "- po_net_weight p"]
      by (simp add: algebra_simps)
    moreover have "i64 (c + po_cpu_weight p + cpu_total s1) = i64 (c + cpu_total u)"
      using i64_addL_cong [OF a(2), of "c + po_cpu_weight p"] i64_add_i64(2) [of "c + po_cpu_weight p + cpu_total u" "- po_cpu_weight p"]
      by (simp add: algebra_simps)
    ultimately show ?case using 2(1) by (simp add: d) (simp add: net_total_def cpu_total_def)
  qed simp
  then show "i64 (net' + sold_net t) = i64 (net + sold_net s)" "i64 (cpu' + sold_cpu t) = i64 (cpu + sold_cpu s)"
    "i64 (net' + net_total t) = i64 (net + net_total s)" "i64 (cpu' + cpu_total t) = i64 (cpu + cpu_total s)"
    by simp_all
qed

lemma expire_orders_nonneg:
  assumes "expire_orders E core n net cpu s = Inr (net', cpu', t)" "orders_nonneg s"
  shows "orders_nonneg t \<and> sold_net t \<le> sold_net s \<and> sold_cpu t \<le> sold_cpu s"
  by (rule expire_orders_rule [OF assms(1), where P = "\<lambda>_ _ u. orders_nonneg u \<and> sold_net u \<le> sold_net s \<and> sold_cpu u \<le> sold_cpu s"])
    (use assms(2) in \<open>fastforce simp: orders_nonneg_def sold_net_def sold_cpu_def adjust_orders table_sum_drop split: if_splits\<close>)+

section \<open>The state of the market\<close>

definition resource_ok :: "int \<Rightarrow> int \<Rightarrow> powerup_state_resource \<Rightarrow> bool" where
  "resource_ok T sold r \<longleftrightarrow> plan_ok T r \<and> pr_weight r = weight_at r T \<and> utilization r = sold \<and>
     0 \<le> sold \<and> sold \<le> pr_weight r \<and> 0 \<le> adjusted_utilization r \<and> adjusted_utilization r \<le> pr_weight r"

definition state_ok :: "int \<Rightarrow> chain \<Rightarrow> powerup_state \<Rightarrow> bool" where
  "state_ok T s st \<longleftrightarrow> resource_ok T (sold_net s) (ps_net st) \<and> resource_ok T (sold_cpu s) (ps_cpu st)"

definition market_ok :: "int \<Rightarrow> chain \<Rightarrow> bool" where
  "market_ok T s \<longleftrightarrow> orders_nonneg s \<and>
     (case powerstate s of None \<Rightarrow> powerorders s = fmempty | Some st \<Rightarrow> state_ok T s st)"

lemma resource_bounds:
  assumes "resource_ok T sold r"
  shows "pr_weight r \<le> max_amount" "0 \<le> utilization r" "utilization r \<le> i64_max"
    "0 \<le> adjusted_utilization r" "adjusted_utilization r \<le> i64_max" "sold \<le> max_amount"
  using assms weight_at_range(2) [of T r T] by (auto simp: resource_ok_def plan_ok_def max_amount_def i64_max_def)

lemma plan_ok_fields:
  assumes "assumed_stake_weight r' = assumed_stake_weight r" "target_weight_ratio r' = target_weight_ratio r"
    "initial_weight_ratio r' = initial_weight_ratio r" "initial_timestamp r' = initial_timestamp r"
    "target_timestamp r' = target_timestamp r"
  shows "plan_ok T r' = plan_ok T r" and "ratio_at r' t = ratio_at r t" and "weight_at r' t = weight_at r t"
  using assms by (simp_all add: plan_ok_def weight_at_def ratio_at_def)

text \<open>The bandwidth totals of all accounts, less the weights of the market.\<close>

definition power_net :: "chain \<Rightarrow> int" where
  "power_net s = net_total s - (case powerstate s of None \<Rightarrow> 0 | Some st \<Rightarrow> pr_weight (ps_net st))"

definition power_cpu :: "chain \<Rightarrow> int" where
  "power_cpu s = cpu_total s - (case powerstate s of None \<Rightarrow> 0 | Some st \<Rightarrow> pr_weight (ps_cpu st))"

text \<open>One resource over an update: part of what was sold expires, the weight grows.\<close>

lemma resource_later:
  assumes ok: "resource_ok T sold r" and t: "T \<le> e_sec E" "e_sec E < 4294967296"
    and n: "0 \<le> n" "n \<le> sold"
    and 1: "update_utilization E r = Inr r1" and 2: "update_weight E (sub_utilization n r1) d = Inr (r2, d')"
  shows "resource_ok (e_sec E) (sold - n) r2" and "d' = i64 (d + (pr_weight r2 - pr_weight r))"
    and "i64 (d' - pr_weight r2) = i64 (d - pr_weight r)"
proof -
  note b = resource_bounds [OF ok]
  obtain a ts where r1: "r1 = r\<lparr>adjusted_utilization := a, utilization_timestamp := ts\<rparr>"
    and a: "0 \<le> a" "a \<le> max (utilization r) (adjusted_utilization r)"
    by (rule update_utilization_Inr [OF 1 b(2-5)])
  let ?r = "sub_utilization n r1"
  have f: "assumed_stake_weight ?r = assumed_stake_weight r" "target_weight_ratio ?r = target_weight_ratio r"
    "initial_weight_ratio ?r = initial_weight_ratio r" "initial_timestamp ?r = initial_timestamp r"
    "target_timestamp ?r = target_timestamp r"
    by (simp_all add: sub_utilization_def r1)
  have p: "plan_ok T r" using ok by (simp add: resource_ok_def)
  have p': "plan_ok T ?r" unfolding plan_ok_fields(1) [OF f] by (rule p)
  have w: "weight_at ?r (e_sec E) = weight_at r (e_sec E)" by (rule plan_ok_fields(3) [OF f])
  have pw: "pr_weight ?r = pr_weight r" by (simp add: sub_utilization_def r1)
  have e: "r2 = ?r\<lparr>weight_ratio := ratio_at ?r (e_sec E), pr_weight := weight_at r (e_sec E)\<rparr>"
    "d' = i64 (d + (weight_at r (e_sec E) - pr_weight r))"
    using 2 pw unfolding update_weight_eq [OF p' t] w by auto
  have u: "i64 (utilization r - n) = sold - n"
    using ok n b by (subst i64_id) (auto simp: resource_ok_def i64_max_def)
  have g: "assumed_stake_weight r2 = assumed_stake_weight r" "target_weight_ratio r2 = target_weight_ratio r"
    "initial_weight_ratio r2 = initial_weight_ratio r" "initial_timestamp r2 = initial_timestamp r"
    "target_timestamp r2 = target_timestamp r"
    using f by (simp_all add: e)
  have "weight_at r T \<le> weight_at r (e_sec E)" by (rule weight_at_mono [OF p order_refl t(1)])
  moreover have "a \<le> pr_weight r" using a ok by (auto simp: resource_ok_def)
  ultimately show "resource_ok (e_sec E) (sold - n) r2"
    using ok a u n plan_ok_later [OF p t(1)]
    by (simp add: resource_ok_def plan_ok_fields(1) [OF g] plan_ok_fields(3) [OF g])
      (simp add: e sub_utilization_def r1)
  show d: "d' = i64 (d + (pr_weight r2 - pr_weight r))" by (simp add: e)
  show "i64 (d' - pr_weight r2) = i64 (d - pr_weight r)" by (simp add: d)
qed

lemma process_queue_ok:
  assumes A: "asset_laws (e_assets E)" and ok: "state_ok T s st" and nn: "orders_nonneg s"
    and t: "T \<le> e_sec E" "e_sec E < 4294967296"
    and run: "process_powerup_queue E core st n s = Inr (st', net, cpu, u)"
  shows "state_ok (e_sec E) u st'" "orders_nonneg u"
    and "i64 (net_total u + net - pr_weight (ps_net st')) = i64 (net_total s - pr_weight (ps_net st))"
    and "i64 (cpu_total u + cpu - pr_weight (ps_cpu st')) = i64 (cpu_total s - pr_weight (ps_cpu st))"
    and "min_powerup_fee st' = min_powerup_fee st" "powerup_days st' = powerup_days st"
    and "u = s\<lparr>userres := userres u, limits := limits u, powerorders := powerorders u\<rparr>"
proof -
  obtain n1 c1 nd cd n2 c2 where 1: "update_utilization E (ps_net st) = Inr n1" "update_utilization E (ps_cpu st) = Inr c1"
    and 2: "expire_orders E core n 0 0 s = Inr (nd, cd, u)"
    and 3: "update_weight E (sub_utilization nd n1) nd = Inr (n2, net)"
      "update_weight E (sub_utilization cd c1) cd = Inr (c2, cpu)"
    and st': "st' = st\<lparr>ps_net := n2, ps_cpu := c2\<rparr>"
    using run unfolding process_powerup_queue_def bindR_eq_Inr split_paired_Ex prod.case sum.inject prod.inject
    by (elim exE conjE, hypsubst) (rule that, assumption+)
  have r: "resource_ok T (sold_net s) (ps_net st)" "resource_ok T (sold_cpu s) (ps_cpu st)"
    using ok by (simp_all add: state_ok_def)
  note B = expire_orders_books [OF A 2] and N = expire_orders_nonneg [OF 2 nn]
  have i: "in_i64 nd \<and> in_i64 cd" by (rule expire_orders_rule [OF 2, where P = "\<lambda>n c _. in_i64 n \<and> in_i64 c"])
    (simp_all add: in_i64_def [of 0])
  have s0: "0 \<le> sold_net u" "0 \<le> sold_cpu u" using sold_nonneg N by blast+
  have nd: "nd = sold_net s - sold_net u" "cd = sold_cpu s - sold_cpu u"
  proof -
    have "i64 nd = i64 (sold_net s - sold_net u)"
      using i64_add_cong [OF B(1), of "- sold_net u"] by simp
    moreover have "i64 (sold_net s - sold_net u) = sold_net s - sold_net u"
      using N s0 resource_bounds(6) [OF r(1)] by (subst i64_id) (auto simp: max_amount_def)
    ultimately show "nd = sold_net s - sold_net u" using i by (simp add: i64_in_i64)
    have "i64 cd = i64 (sold_cpu s - sold_cpu u)"
      using i64_add_cong [OF B(2), of "- sold_cpu u"] by simp
    moreover have "i64 (sold_cpu s - sold_cpu u) = sold_cpu s - sold_cpu u"
      using N s0 resource_bounds(6) [OF r(2)] by (subst i64_id) (auto simp: max_amount_def)
    ultimately show "cd = sold_cpu s - sold_cpu u" using i by (simp add: i64_in_i64)
  qed
  have le: "0 \<le> nd" "nd \<le> sold_net s" "0 \<le> cd" "cd \<le> sold_cpu s" using nd N s0 by simp_all
  note L = resource_later [OF r(1) t le(1,2) 1(1) 3(1)] and M = resource_later [OF r(2) t le(3,4) 1(2) 3(2)]
  show "state_ok (e_sec E) u st'" using L(1) M(1) nd by (simp add: state_ok_def st')
  show "orders_nonneg u" using N by simp
  show "min_powerup_fee st' = min_powerup_fee st" "powerup_days st' = powerup_days st" by (simp_all add: st')
  show "u = s\<lparr>userres := userres u, limits := limits u, powerorders := powerorders u\<rparr>" by (rule expire_orders_same [OF 2])
  have "i64 (net_total u + net - pr_weight n2) = i64 (net_total u + nd - pr_weight (ps_net st))"
    using i64_addL_cong [OF L(3), of "net_total u"] by (simp add: algebra_simps)
  also have "\<dots> = i64 (net_total s - pr_weight (ps_net st))"
    using i64_add_cong [OF B(3), of "- pr_weight (ps_net st)"] by (simp add: algebra_simps)
  finally show "i64 (net_total u + net - pr_weight (ps_net st')) = i64 (net_total s - pr_weight (ps_net st))"
    by (simp add: st')
  have "i64 (cpu_total u + cpu - pr_weight c2) = i64 (cpu_total u + cd - pr_weight (ps_cpu st))"
    using i64_addL_cong [OF M(3), of "cpu_total u"] by (simp add: algebra_simps)
  also have "\<dots> = i64 (cpu_total s - pr_weight (ps_cpu st))"
    using i64_add_cong [OF B(4), of "- pr_weight (ps_cpu st)"] by (simp add: algebra_simps)
  finally show "i64 (cpu_total u + cpu - pr_weight (ps_cpu st')) = i64 (cpu_total s - pr_weight (ps_cpu st))"
    by (simp add: st')
qed

section \<open>Buying\<close>

lemma buy_fraction_ok:
  assumes ok: "resource_ok T sold r" and f: "0 \<le> portion" "portion \<le> powerup_frac"
    and buy: "buy_fraction E fee portion r = Inr (fee', n, r')"
  shows "resource_ok T (sold + n) r'" "0 \<le> n" "n = portion * pr_weight r div powerup_frac"
    "pr_weight r' = pr_weight r"
proof -
  note b = resource_bounds [OF ok]
  have w: "0 \<le> pr_weight r" using ok by (simp add: resource_ok_def)
  have p: "0 < powerup_frac" by (simp add: powerup_frac_def)
  have q: "0 \<le> portion * pr_weight r div powerup_frac" "portion * pr_weight r div powerup_frac \<le> pr_weight r"
    using line_div [of "pr_weight r" portion powerup_frac] w f p by (simp_all add: mult.commute)
  have m: "0 \<le> portion * pr_weight r" "portion * pr_weight r \<le> powerup_frac * max_amount"
    using f w b(1) by (auto intro!: mult_mono)
  have "i128 (portion * pr_weight r) = portion * pr_weight r"
    using m by (subst i128_id) (auto simp: powerup_frac_def max_amount_def)
  then have n: "i64 (tdiv (i128 (portion * pr_weight r)) powerup_frac) = portion * pr_weight r div powerup_frac"
    using m p q b(1) by (simp add: i64_id max_amount_def)
  have r: "portion = 0 \<and> n = 0 \<and> r' = r \<or> n = portion * pr_weight r div powerup_frac \<and>
      i64 (utilization r + n) \<le> pr_weight r \<and> r' = r\<lparr>utilization := i64 (utilization r + n)\<rparr>"
    using buy unfolding buy_fraction_def Let_def n by (auto simp: res_simps split: if_splits)
  then show e: "n = portion * pr_weight r div powerup_frac" by auto
  then show "0 \<le> n" using q by simp
  have "i64 (utilization r + n) = sold + n"
    using ok q b(1) unfolding e by (subst i64_id) (auto simp: resource_ok_def max_amount_def)
  then have r': "r' = r\<lparr>utilization := sold + n\<rparr>" "sold + n \<le> pr_weight r"
    using r ok by (auto simp: resource_ok_def)
  then have g: "assumed_stake_weight r' = assumed_stake_weight r" "target_weight_ratio r' = target_weight_ratio r"
    "initial_weight_ratio r' = initial_weight_ratio r" "initial_timestamp r' = initial_timestamp r"
    "target_timestamp r' = target_timestamp r" by simp_all
  show "resource_ok T (sold + n) r'" using ok q(1) r'
    unfolding resource_ok_def plan_ok_fields(1) [OF g] plan_ok_fields(3) [OF g] e by simp
  show "pr_weight r' = pr_weight r" using r' by simp
qed

lemma buy_fraction_fee: "buy_fraction E fee portion r = Inr (fee', n, r') \<Longrightarrow> in_i64 fee \<Longrightarrow> in_i64 fee'"
  unfolding buy_fraction_def Let_def by (auto simp: res_simps split: if_splits)

lemma sorted_le_last_rows:
  assumes "sorted (map fst xs)" "x \<in> set xs"
  shows "fst x \<le> (fst (last xs) :: int)"
  using assms by (induction xs) (auto split: if_splits)

lemma next_key_fresh: "fmlookup t (next_key t) = None"
proof (rule ccontr)
  assume "fmlookup t (next_key t) \<noteq> None"
  then obtain v where "fmlookup t (next_key t) = Some v" by auto
  then have m: "(next_key t, v) \<in> set (rows t)" by (simp add: rows_upd_lookup)
  then have ne: "rows t \<noteq> []" by auto
  have "map fst (rows t) = sorted_list_of_fset (fmdom t)" by (simp add: rows_def sorted_list_of_fmap_def comp_def)
  then have "sorted (map fst (rows t))" by (simp add: sorted_list_of_fset.rep_eq)
  then have "next_key t \<le> fst (last (rows t))"
    using sorted_le_last_rows [OF _ m] by simp
  moreover have "next_key t = fst (last (rows t)) + 1" using ne by (cases "rows t") (simp_all add: next_key_def)
  ultimately show False by simp
qed

lemma powerup_Inr:
  assumes "powerup E payer receiver days net_frac cpu_frac max_payment s = Inr t"
  obtains st m st1 net cpu s1 fee1 net_amount n1 fee cpu_amount c1 s3 s4 s5 k p where
    "powerstate s = Some st" "rammarket s = Some m" "days = powerup_days st"
    "0 \<le> net_frac" "net_frac \<le> powerup_frac" "0 \<le> cpu_frac" "cpu_frac \<le> powerup_frac"
    "process_powerup_queue E (asym (balance (quote m))) st 2 s = Inr (st1, net, cpu, s1)"
    "buy_fraction E 0 net_frac (ps_net st1) = Inr (fee1, net_amount, n1)"
    "buy_fraction E fee1 cpu_frac (ps_cpu st1) = Inr (amount fee, cpu_amount, c1)"
    "asym fee = asym (balance (quote m))" "asym max_payment = asym fee"
    "aa_less (e_assets E) max_payment fee = Inr False" "aa_leq (e_assets E) (min_powerup_fee st1) fee = Inr True"
    "k = next_key (powerorders s1)"
    "p = \<lparr>po_id = k, po_owner = receiver, po_net_weight = net_amount, po_cpu_weight = cpu_amount,
       po_expires = order_expiry E days\<rparr>"
    "adjust_resources E receiver (asym fee) net_amount cpu_amount True
       (s1\<lparr>powerorders := fmupd k p (powerorders s1)\<rparr>) = Inr s3"
    "adjust_resources E reserv_account (asym fee) (i64 (net - net_amount)) (i64 (cpu - cpu_amount)) True s3 = Inr s4"
    "channel_to_rex_or_pools E payer fee True s4 = Inr s5"
    "t = emit (Powup_result fee net_amount cpu_amount) (s5\<lparr>powerstate := Some (st1\<lparr>ps_net := n1, ps_cpu := c1\<rparr>)\<rparr>)"
  using assms unfolding powerup_def require_auth_eq_Inr fetch_eq_Inr core_symbol_eq_Inr check_eq_Inr bindR_eq_Inr
    Let_def split_paired_Ex prod.case sum.inject
proof (elim exE conjE)
  fix st st1 net cpu fee1 na n1 fee2 ca c1 b b' and m :: exchange_state and s1 s3 s4 s5 :: chain
  let ?fee = "\<lparr>amount = fee2, asym = asym (balance (quote m))\<rparr>"
  let ?p = "\<lparr>po_id = next_key (powerorders s1), po_owner = receiver, po_net_weight = na, po_cpu_weight = ca,
    po_expires = order_expiry E days\<rparr>"
  assume a: "powerstate s = Some st" "rammarket s = Some m" "asym max_payment = asym (balance (quote m))"
    "days = powerup_days st" "0 \<le> net_frac" "0 \<le> cpu_frac" "net_frac \<le> powerup_frac" "cpu_frac \<le> powerup_frac"
    "process_powerup_queue E (asym (balance (quote m))) st 2 s = Inr (st1, net, cpu, s1)"
    "buy_fraction E 0 net_frac (ps_net st1) = Inr (fee1, na, n1)"
    "buy_fraction E fee1 cpu_frac (ps_cpu st1) = Inr (fee2, ca, c1)"
    "aa_less (e_assets E) max_payment ?fee = Inr b" "\<not> b" "aa_leq (e_assets E) (min_powerup_fee st1) ?fee = Inr b'" "b'"
    "adjust_resources E receiver (asym (balance (quote m))) na ca True
       (s1\<lparr>powerorders := fmupd (next_key (powerorders s1)) ?p (powerorders s1)\<rparr>) = Inr s3"
    "adjust_resources E reserv_account (asym (balance (quote m))) (i64 (net - na)) (i64 (cpu - ca)) True s3 = Inr s4"
    "channel_to_rex_or_pools E payer ?fee True s4 = Inr s5"
    "emit (Powup_result ?fee na ca) (s5\<lparr>powerstate := Some (st1\<lparr>ps_net := n1, ps_cpu := c1\<rparr>)\<rparr>) = t"
  show thesis
    by (rule that [of st m st1 net cpu s1 fee1 na n1 ?fee ca c1 "next_key (powerorders s1)" ?p s3 s4 s5]) (use a in simp_all)
qed

lemma powerup_ok:
  assumes A: "asset_laws (e_assets E)" and ok: "powerup E payer receiver days nf cf maxp s = Inr t"
    and wf: "market_ok T s" and t: "T \<le> e_sec E" "e_sec E < 4294967296"
  shows "market_ok (e_sec E) t \<and> i64 (power_net t) = i64 (power_net s) \<and> i64 (power_cpu t) = i64 (power_cpu s)"
  using ok
proof (rule powerup_Inr)
  fix st st1 net cpu fee1 na n1 ca c1 k p and m :: exchange_state and s1 s3 s4 s5 :: chain and fee :: asset
  let ?core = "asym (balance (quote m))"
  assume st: "powerstate s = Some st" and f: "0 \<le> nf" "nf \<le> powerup_frac" "0 \<le> cf" "cf \<le> powerup_frac"
    and pq: "process_powerup_queue E ?core st 2 s = Inr (st1, net, cpu, s1)"
    and b: "buy_fraction E 0 nf (ps_net st1) = Inr (fee1, na, n1)" "buy_fraction E fee1 cf (ps_cpu st1) = Inr (amount fee, ca, c1)"
    and k: "k = next_key (powerorders s1)"
    and p: "p = \<lparr>po_id = k, po_owner = receiver, po_net_weight = na, po_cpu_weight = ca, po_expires = order_expiry E days\<rparr>"
    and a: "adjust_resources E receiver (asym fee) na ca True (s1\<lparr>powerorders := fmupd k p (powerorders s1)\<rparr>) = Inr s3"
      "adjust_resources E reserv_account (asym fee) (i64 (net - na)) (i64 (cpu - ca)) True s3 = Inr s4"
    and c: "channel_to_rex_or_pools E payer fee True s4 = Inr s5"
    and t': "t = emit (Powup_result fee na ca) (s5\<lparr>powerstate := Some (st1\<lparr>ps_net := n1, ps_cpu := c1\<rparr>)\<rparr>)"
  have w: "state_ok T s st" "orders_nonneg s" using wf st by (simp_all add: market_ok_def)
  note Q = process_queue_ok [OF A w t pq]
  have r: "resource_ok (e_sec E) (sold_net s1) (ps_net st1)" "resource_ok (e_sec E) (sold_cpu s1) (ps_cpu st1)"
    using Q(1) by (simp_all add: state_ok_def)
  note N = buy_fraction_ok [OF r(1) f(1,2) b(1)] and C = buy_fraction_ok [OF r(2) f(3,4) b(2)]
  have o': "powerorders t = fmupd k p (powerorders s1)"
    using channel_fees [OF c, THEN same_but_fees_fields(20)] adjust_orders [OF a(1)] adjust_orders [OF a(2)]
    by (simp add: t')
  have new: "fmlookup (powerorders s1) k = None" unfolding k by (rule next_key_fresh)
  have "sold_net t = sold_net s1 + na" "sold_cpu t = sold_cpu s1 + ca"
    using new by (simp_all add: sold_net_def sold_cpu_def o' table_sum_upd p)
  then have "state_ok (e_sec E) t (st1\<lparr>ps_net := n1, ps_cpu := c1\<rparr>)" using N(1) C(1) by (simp add: state_ok_def)
  moreover have "orders_nonneg t" using Q(2) N(2) C(2) by (auto simp: orders_nonneg_def o' p split: if_splits)
  ultimately have "market_ok (e_sec E) t" by (simp add: market_ok_def t')
  moreover have u: "userres t = userres s4" using channel_fees [OF c, THEN same_but_fees_fields(2)] by (simp add: t')
  have u_totals: "net_total t = net_total s4" "cpu_total t = cpu_total s4"
    by (simp_all add: net_total_def cpu_total_def u)
  have z: "net_total (s1\<lparr>powerorders := fmupd k p (powerorders s1)\<rparr>) = net_total s1"
    "cpu_total (s1\<lparr>powerorders := fmupd k p (powerorders s1)\<rparr>) = cpu_total s1"
    by (simp_all add: net_total_def cpu_total_def)
  have undo: "i64 (y - w) = i64 (x0 - w0)"
    if "i64 x = i64 (x1 + d)" "i64 y = i64 (x + i64 (e - d))" "i64 (x1 + e - w) = i64 (x0 - w0)" for x y x0 x1 d e w w0
  proof -
    have "i64 (y - w) = i64 (x + i64 (e - d) - w)" using i64_add_cong [OF that(2), of "- w"] by simp
    also have "\<dots> = i64 (x - w + (e - d))" using i64_add_i64(2) [of "x - w" "e - d"] by (simp add: algebra_simps)
    also have "\<dots> = i64 (x1 + e - w)" using i64_add_cong [OF that(1), of "e - d - w"] by (simp add: algebra_simps)
    finally show ?thesis using that(3) by simp
  qed
  note a1 = adjust_resources_totals [OF A a(1), unfolded z] and a2 = adjust_resources_totals [OF A a(2)]
  have "i64 (net_total s4 - pr_weight n1) = i64 (net_total s - pr_weight (ps_net st))"
    by (rule undo [OF a1(1) a2(1)]) (use Q(3) N(4) in simp)
  moreover have "i64 (cpu_total s4 - pr_weight c1) = i64 (cpu_total s - pr_weight (ps_cpu st))"
    by (rule undo [OF a1(2) a2(2)]) (use Q(4) C(4) in simp)
  moreover have "powerstate t = Some (st1\<lparr>ps_net := n1, ps_cpu := c1\<rparr>)" by (simp add: t')
  ultimately show ?thesis using st by (simp add: power_net_def power_cpu_def u_totals)
qed

lemma powerupexec_ok:
  assumes A: "asset_laws (e_assets E)" and ok: "powerupexec E user n s = Inr t"
    and wf: "market_ok T s" and t: "T \<le> e_sec E" "e_sec E < 4294967296"
  shows "market_ok (e_sec E) t \<and> i64 (power_net t) = i64 (power_net s) \<and> i64 (power_cpu t) = i64 (power_cpu s)"
proof -
  obtain st core st1 net cpu and s1 s2 :: chain where st: "powerstate s = Some st"
    and pq: "process_powerup_queue E core st n s = Inr (st1, net, cpu, s1)"
    and a: "adjust_resources E reserv_account core net cpu True s1 = Inr s2"
    and t': "t = s2\<lparr>powerstate := Some st1\<rparr>"
    using ok unfolding powerupexec_def require_auth_eq_Inr fetch_eq_Inr core_symbol_eq_Inr bindR_eq_Inr
      split_paired_Ex prod.case sum.inject
    by (elim exE conjE) (rule that, assumption+, simp)
  have w: "state_ok T s st" "orders_nonneg s" using wf st by (simp_all add: market_ok_def)
  note Q = process_queue_ok [OF A w t pq] and B = adjust_resources_totals [OF A a]
  have "powerorders t = powerorders s1" using adjust_orders [OF a] by (simp add: t')
  then have "market_ok (e_sec E) t" using Q(1,2)
    by (simp add: market_ok_def t' state_ok_def sold_net_def sold_cpu_def orders_nonneg_def)
  moreover have "i64 (net_total s2 - pr_weight (ps_net st1)) = i64 (net_total s - pr_weight (ps_net st))"
    "i64 (cpu_total s2 - pr_weight (ps_cpu st1)) = i64 (cpu_total s - pr_weight (ps_cpu st))"
    using i64_add_cong [OF B(1), of "- pr_weight (ps_net st1)"] i64_add_cong [OF B(2), of "- pr_weight (ps_cpu st1)"] Q(3,4)
    by simp_all
  ultimately show ?thesis using st by (simp add: power_net_def power_cpu_def t') (simp add: net_total_def cpu_total_def)
qed

section \<open>Configuring\<close>

text \<open>The arguments have their types, and the weights planned stay in the range of asset amounts.\<close>

definition config_typed :: "powerup_config_resource \<Rightarrow> bool" where
  "config_typed a \<longleftrightarrow> (\<forall>x. cf_target_timestamp a = Some x \<longrightarrow> x < 4294967296)"

definition moderate :: "powerup_state_resource \<Rightarrow> bool" where
  "moderate r \<longleftrightarrow> assumed_stake_weight r * powerup_frac div target_weight_ratio r \<le> max_amount"

lemma config_target_Inr:
  assumes "config_target E cur tgt a r = Inr x" "config_typed a" "target_timestamp r < 4294967296" "e_sec E < 4294967296"
  shows "e_sec E \<le> x \<and> x < 4294967296"
  using assms by (auto simp: config_target_def res_simps config_typed_def split: if_splits option.splits)

lemma config_resource_Inr:
  assumes ok: "config_resource E core a r = Inr r'" and ty: "config_typed a" "target_timestamp r < 4294967296"
    and t: "0 \<le> e_sec E" "e_sec E < 4294967296"
  obtains cur tgt asw tts e decay minp maxp where
    "r' = r\<lparr>assumed_stake_weight := asw, initial_weight_ratio := cur, target_weight_ratio := tgt,
        initial_timestamp := e_sec E, target_timestamp := tts, exponent := e, decay_secs := decay,
        min_price := minp, max_price := maxp\<rparr>"
    "moderate r' \<longrightarrow> plan_ok (e_sec E) r'"
proof -
  obtain cur tgt asw tts e decay minp maxp where r': "r' = r\<lparr>assumed_stake_weight := asw, initial_weight_ratio := cur,
      target_weight_ratio := tgt, initial_timestamp := e_sec E, target_timestamp := tts, exponent := e, decay_secs := decay,
      min_price := minp, max_price := maxp\<rparr>"
    and c: "config_target E cur tgt a r = Inr tts" "cur \<le> powerup_frac" "0 < tgt" "tgt \<le> cur" "1 \<le> asw"
    using ok unfolding config_resource_def Let_def bindR_eq_Inr split_paired_Ex prod.case check_eq_Inr sum.inject
    by (elim exE conjE) (rule that, erule sym, assumption+)
  show thesis
    by (rule that [OF r']) (use c t config_target_Inr [OF c(1) ty t(2)] in \<open>simp add: r' moderate_def plan_ok_def\<close>)
qed

text \<open>What is known of a resource before it is configured.\<close>

definition base_ok :: "int \<Rightarrow> powerup_state_resource \<Rightarrow> bool" where
  "base_ok sold r \<longleftrightarrow> utilization r = sold \<and> 0 \<le> sold \<and> 0 \<le> adjusted_utilization r \<and> target_timestamp r < 4294967296"

lemma resource_base_ok: "resource_ok T sold r \<Longrightarrow> base_ok sold r"
  by (simp add: resource_ok_def base_ok_def plan_ok_def)

lemma sub_utilization_0: "in_i64 (utilization r) \<Longrightarrow> sub_utilization 0 r = r"
  by (simp add: sub_utilization_def i64_in_i64)

lemma resource_updated:
  assumes ok: "resource_ok T sold r" and t: "T \<le> e_sec E" "e_sec E < 4294967296"
    and 1: "update_utilization E r = Inr r1" and 2: "update_weight E r1 0 = Inr (r2, d)"
  shows "base_ok sold r2" "d = i64 (pr_weight r2 - pr_weight r)"
proof -
  note b = resource_bounds [OF ok]
  obtain a ts where "r1 = r\<lparr>adjusted_utilization := a, utilization_timestamp := ts\<rparr>"
    by (rule update_utilization_Inr [OF 1 b(2-5)])
  then have "sub_utilization 0 r1 = r1" using b by (intro sub_utilization_0) (auto simp: in_i64_def i64_max_def)
  then have 2: "update_weight E (sub_utilization 0 r1) 0 = Inr (r2, d)" using 2 by simp
  have s: "0 \<le> sold" using ok by (simp add: resource_ok_def)
  show "base_ok sold r2" "d = i64 (pr_weight r2 - pr_weight r)"
    using resource_later(1,2) [OF ok t order_refl s 1 2] by (simp_all add: resource_base_ok)
qed

lemma config_base_ok:
  assumes wf: "market_ok T s" and t: "T \<le> e_sec E" "e_sec E < 4294967296"
    and ok: "config_base E (powerstate s) = Inr (st, net, cpu)"
  shows "base_ok (sold_net s) (ps_net st)" "base_ok (sold_cpu s) (ps_cpu st)"
    and "i64 (net_total s + net - pr_weight (ps_net st)) = i64 (power_net s)"
    and "i64 (cpu_total s + cpu - pr_weight (ps_cpu st)) = i64 (power_cpu s)"
proof -
  have "base_ok (sold_net s) (ps_net st) \<and> base_ok (sold_cpu s) (ps_cpu st) \<and>
    i64 (net_total s + net - pr_weight (ps_net st)) = i64 (power_net s) \<and>
    i64 (cpu_total s + cpu - pr_weight (ps_cpu st)) = i64 (power_cpu s)"
  proof (cases "powerstate s")
    case None
    then have "sold_net s = 0" "sold_cpu s = 0" using wf by (simp_all add: market_ok_def sold_net_def sold_cpu_def)
    then show ?thesis using ok None
      by (auto simp: config_base_def base_ok_def power_net_def power_cpu_def new_power_state_def new_power_resource_def)
  next
    case (Some st0)
    then obtain n1 c1 n2 c2 where 1: "update_utilization E (ps_net st0) = Inr n1" "update_utilization E (ps_cpu st0) = Inr c1"
      "update_weight E n1 0 = Inr (n2, net)" "update_weight E c1 0 = Inr (c2, cpu)" "st = st0\<lparr>ps_net := n2, ps_cpu := c2\<rparr>"
      using ok unfolding config_base_def by (auto simp: res_simps)
    have r: "resource_ok T (sold_net s) (ps_net st0)" "resource_ok T (sold_cpu s) (ps_cpu st0)"
      using wf Some by (simp_all add: market_ok_def state_ok_def)
    note N = resource_updated [OF r(1) t 1(1,3)] and C = resource_updated [OF r(2) t 1(2,4)]
    have "i64 (x + i64 (w2 - w) - w2) = i64 (x - w)" for x w2 w
      using i64_add_i64(2) [of "x - w2" "w2 - w"] by (simp add: algebra_simps)
    then show ?thesis using N C Some by (simp add: power_net_def power_cpu_def 1(5))
  qed
  then show "base_ok (sold_net s) (ps_net st)" "base_ok (sold_cpu s) (ps_cpu st)"
    "i64 (net_total s + net - pr_weight (ps_net st)) = i64 (power_net s)"
    "i64 (cpu_total s + cpu - pr_weight (ps_cpu st)) = i64 (power_cpu s)" by simp_all
qed

lemma update_weight_Inr:
  assumes "update_weight E r d = Inr (r', d')"
  obtains q w where "r' = r\<lparr>weight_ratio := q, pr_weight := w\<rparr>" "d' = i64 (d + (w - pr_weight r))"
  using assms by (auto simp: update_weight_def Let_def res_simps intro: that)

lemma resource_configured:
  assumes b: "base_ok sold r" and 1: "config_resource E core a r = Inr r1" and ty: "config_typed a"
    and 2: "update_weight E r1 d = Inr (r2, d')" and w: "utilization r2 \<le> pr_weight r2"
    and m: "moderate (cap_adjusted r2)" and t: "0 \<le> e_sec E" "e_sec E < 4294967296"
  shows "resource_ok (e_sec E) sold (cap_adjusted r2)" "d' = i64 (d + (pr_weight r2 - pr_weight r))"
proof -
  have "target_timestamp r < 4294967296" using b by (simp add: base_ok_def)
  then obtain cur tgt asw tts e decay minp maxp where r1: "r1 = r\<lparr>assumed_stake_weight := asw, initial_weight_ratio := cur,
      target_weight_ratio := tgt, initial_timestamp := e_sec E, target_timestamp := tts, exponent := e, decay_secs := decay,
      min_price := minp, max_price := maxp\<rparr>" and p: "moderate r1 \<longrightarrow> plan_ok (e_sec E) r1"
    by (rule config_resource_Inr [OF 1 ty _ t])
  obtain q v where r2: "r2 = r1\<lparr>weight_ratio := q, pr_weight := v\<rparr>" and d: "d' = i64 (d + (v - pr_weight r1))"
    by (rule update_weight_Inr [OF 2])
  have p: "plan_ok (e_sec E) r1" using m p by (simp add: r2 moderate_def cap_adjusted_def)
  have v: "v = weight_at r1 (e_sec E)" using 2 unfolding update_weight_eq [OF p order_refl t(2)] r2
    by (auto dest: arg_cong [of _ _ pr_weight])
  have g: "assumed_stake_weight (cap_adjusted r2) = assumed_stake_weight r1"
    "target_weight_ratio (cap_adjusted r2) = target_weight_ratio r1"
    "initial_weight_ratio (cap_adjusted r2) = initial_weight_ratio r1"
    "initial_timestamp (cap_adjusted r2) = initial_timestamp r1"
    "target_timestamp (cap_adjusted r2) = target_timestamp r1" by (simp_all add: cap_adjusted_def r2)
  show "resource_ok (e_sec E) sold (cap_adjusted r2)"
    unfolding resource_ok_def plan_ok_fields(1) [OF g] plan_ok_fields(3) [OF g] v [symmetric]
    using p b w weight_at_range(1) [OF p order_refl] v by (simp add: base_ok_def cap_adjusted_def r2 r1)
  show "d' = i64 (d + (pr_weight r2 - pr_weight r))" using d by (simp add: r2 r1)
qed

definition plans_moderate :: "chain \<Rightarrow> bool" where
  "plans_moderate s \<longleftrightarrow> (\<forall>st. powerstate s = Some st \<longrightarrow> moderate (ps_net st) \<and> moderate (ps_cpu st))"

lemma cfgpowerup_ok:
  assumes A: "asset_laws (e_assets E)" and ok: "cfgpowerup E args s = Inr t"
    and ty: "config_typed (cf_net args)" "config_typed (cf_cpu args)" "plans_moderate t"
    and wf: "market_ok T s" and t: "0 \<le> T" "T \<le> e_sec E" "e_sec E < 4294967296"
  shows "market_ok (e_sec E) t \<and> i64 (power_net t) = i64 (power_net s) \<and> i64 (power_cpu t) = i64 (power_cpu s)"
  using ok unfolding cfgpowerup_def Let_def require_auth_eq_Inr core_symbol_eq_Inr bindR_eq_Inr check_eq_Inr
      split_paired_Ex prod.case sum.inject
proof (elim exE conjE)
  fix net cpu fee n1 c1 n2 net' c2 cpu' and st :: powerup_state and s1 :: chain and m :: exchange_state
  let ?core = "asym (balance (quote m))"
  let ?days = "case cf_powerup_days args of None \<Rightarrow> powerup_days st | Some x \<Rightarrow> x"
  assume b: "config_base E (powerstate s) = Inr (st, net, cpu)"
    and n: "config_resource E ?core (cf_net args) (ps_net st) = Inr n1" "update_weight E n1 net = Inr (n2, net')"
      "utilization n2 \<le> pr_weight n2"
    and c: "config_resource E ?core (cf_cpu args) (ps_cpu st) = Inr c1" "update_weight E c1 cpu = Inr (c2, cpu')"
      "utilization c2 \<le> pr_weight c2"
    and a: "adjust_resources E reserv_account ?core net' cpu' True s = Inr s1"
    and t': "s1\<lparr>powerstate := Some \<lparr>ps_net = cap_adjusted n2, ps_cpu = cap_adjusted c2, powerup_days = ?days,
       min_powerup_fee = fee\<rparr>\<rparr> = t"
  note B = config_base_ok [OF wf t(2,3) b] and R = adjust_resources_totals [OF A a]
  have m: "moderate (cap_adjusted n2)" "moderate (cap_adjusted c2)" using ty(3) by (auto simp: plans_moderate_def t' [symmetric])
  have t0: "0 \<le> e_sec E" using t by simp
  note N = resource_configured [OF B(1) n(1) ty(1) n(2,3) m(1) t0 t(3)]
    and C = resource_configured [OF B(2) c(1) ty(2) c(2,3) m(2) t0 t(3)]
  have o': "powerorders t = powerorders s" using adjust_orders [OF a] by (simp add: t' [symmetric])
  have pt: "powerstate t = Some \<lparr>ps_net = cap_adjusted n2, ps_cpu = cap_adjusted c2, powerup_days = ?days, min_powerup_fee = fee\<rparr>"
    by (simp add: t' [symmetric])
  have "orders_nonneg s" using wf by (simp add: market_ok_def)
  then have "market_ok (e_sec E) t" using N(1) C(1)
    by (simp add: pt market_ok_def state_ok_def orders_nonneg_def sold_net_def sold_cpu_def o')
  moreover have grow: "i64 (y - w) = P" if "i64 y = i64 (x + d')" "d' = i64 (d + (w - w0))" "i64 (x + d - w0) = P"
    for x y d d' w w0 P
  proof -
    have "i64 (y - w) = i64 (x + i64 (d + (w - w0)) - w)" using i64_add_cong [OF that(1), of "- w"] that(2) by simp
    also have "\<dots> = i64 (x + d - w0)" using i64_add_i64(2) [of "x - w" "d + (w - w0)"] by (simp add: algebra_simps)
    finally show ?thesis using that(3) by simp
  qed
  have "i64 (net_total s1 - pr_weight n2) = i64 (power_net s)" by (rule grow [OF R(1) N(2) B(3)])
  moreover have "i64 (cpu_total s1 - pr_weight c2) = i64 (power_cpu s)" by (rule grow [OF R(2) C(2) B(4)])
  moreover have "net_total t = net_total s1" "cpu_total t = cpu_total s1"
    by (simp_all add: t' [symmetric] net_total_def cpu_total_def)
  ultimately show ?thesis by (simp add: power_net_def power_cpu_def pt cap_adjusted_def)
qed

section \<open>Runs of the market\<close>

inductive power_step :: "env \<Rightarrow> chain \<Rightarrow> chain \<Rightarrow> bool" for E where
  Configure: "cfgpowerup E args s = Inr t \<Longrightarrow> config_typed (cf_net args) \<Longrightarrow> config_typed (cf_cpu args) \<Longrightarrow>
    plans_moderate t \<Longrightarrow> power_step E s t"
| Execute: "powerupexec E user n s = Inr t \<Longrightarrow> power_step E s t"
| Power_up: "powerup E payer receiver days nf cf maxp s = Inr t \<Longrightarrow> power_step E s t"

inductive_cases power_stepE: "power_step E s t"

lemma power_step_ok:
  assumes "power_step E s t" "asset_laws (e_assets E)" "market_ok T s" "0 \<le> T" "T \<le> e_sec E" "e_sec E < 4294967296"
  shows "market_ok (e_sec E) t \<and> i64 (power_net t) = i64 (power_net s) \<and> i64 (power_cpu t) = i64 (power_cpu s)"
  using assms(1)
proof (rule power_stepE)
  fix args assume "cfgpowerup E args s = Inr t" "config_typed (cf_net args)" "config_typed (cf_cpu args)" "plans_moderate t"
  then show ?thesis by (rule cfgpowerup_ok [OF assms(2) _ _ _ _ assms(3-6)])
next
  fix user n assume "powerupexec E user n s = Inr t"
  then show ?thesis by (rule powerupexec_ok [OF assms(2) _ assms(3,5,6)])
next
  fix payer receiver days nf cf maxp assume "powerup E payer receiver days nf cf maxp s = Inr t"
  then show ?thesis by (rule powerup_ok [OF assms(2) _ assms(3,5,6)])
qed

text \<open>
  Between market operations, in the order of time, other actions may change everything but the
  market's two tables.
\<close>

inductive power_run :: "int \<Rightarrow> chain \<Rightarrow> int \<Rightarrow> chain \<Rightarrow> bool" where
  Stop: "power_run T s T s"
| Market: "power_run T s T' t \<Longrightarrow> asset_laws (e_assets E) \<Longrightarrow> T' \<le> e_sec E \<Longrightarrow> e_sec E < 4294967296 \<Longrightarrow>
    power_step E t u \<Longrightarrow> power_run T s (e_sec E) u"
| Other: "power_run T s T' t \<Longrightarrow> powerstate u = powerstate t \<Longrightarrow> powerorders u = powerorders t \<Longrightarrow>
    power_run T s T' u"

lemma power_run_ok: "power_run T s T' t \<Longrightarrow> 0 \<le> T \<Longrightarrow> market_ok T s \<Longrightarrow> T \<le> T' \<and> market_ok T' t"
proof (induction rule: power_run.induct)
  case (Market T s T' t E u)
  note IH = Market.IH [OF Market.prems]
  have "0 \<le> T'" using IH Market.prems by simp
  with power_step_ok [OF Market.hyps(5,2) conjunct2 [OF IH] _ Market.hyps(3,4)] IH Market.hyps(3)
  show ?case by linarith
next
  case (Other T s T' t u)
  have "market_ok T' u = market_ok T' t"
    unfolding market_ok_def state_ok_def sold_net_def sold_cpu_def orders_nonneg_def Other.hyps(2,3) by (rule refl)
  with Other.IH [OF Other.prems] show ?case by simp
qed simp

section \<open>Properties\<close>

text \<open>
  C12: From before the market is configured, after any operations at increasing times, each
  resource's utilization is exactly the sum of its orders, never above its weight, and neither is
  the adjusted utilization its price is computed from.
\<close>

theorem market_never_oversold:
  assumes "power_run T s T' t" "0 \<le> T" "powerstate s = None" "powerorders s = fmempty" "powerstate t = Some st"
  shows "utilization (ps_net st) = sold_net t \<and> 0 \<le> sold_net t \<and> sold_net t \<le> pr_weight (ps_net st) \<and>
    utilization (ps_cpu st) = sold_cpu t \<and> 0 \<le> sold_cpu t \<and> sold_cpu t \<le> pr_weight (ps_cpu st) \<and>
    adjusted_utilization (ps_net st) \<le> pr_weight (ps_net st) \<and> adjusted_utilization (ps_cpu st) \<le> pr_weight (ps_cpu st)"
proof -
  have "market_ok T s" using assms(3,4) by (simp add: market_ok_def orders_nonneg_def)
  then have "market_ok T' t" using power_run_ok [OF assms(1,2)] by simp
  then show ?thesis using assms(5) by (simp add: market_ok_def state_ok_def resource_ok_def)
qed

text \<open>
  C13: In such a state every operation of the market changes the bandwidth totals of all accounts
  together by exactly what it changes the weights by: what a buyer gets and an expired order gives
  back is taken from and returned to \<open>eosio.reserv\<close>.
\<close>

theorem totals_follow_weights:
  assumes "power_run T s T' t" "0 \<le> T" "powerstate s = None" "powerorders s = fmempty"
    and "asset_laws (e_assets E)" "T' \<le> e_sec E" "e_sec E < 4294967296" "power_step E t u"
  shows "i64 (power_net u) = i64 (power_net t) \<and> i64 (power_cpu u) = i64 (power_cpu t)"
proof -
  have "market_ok T s" using assms(3,4) by (simp add: market_ok_def orders_nonneg_def)
  then have "T \<le> T' \<and> market_ok T' t" by (rule power_run_ok [OF assms(1,2)])
  then show ?thesis using power_step_ok [OF assms(8,5) _ _ assms(6,7)] assms(2) by simp
qed






text \<open>
  The loop over the queue drops orders in the order they expire: a dropped order had expired and no
  remaining one expires earlier; unless the limit was reached, no expired order is left.
\<close>

lemma expire_orders_left:
  assumes "expire_orders E core n net cpu s = Inr (net', cpu', t)"
  shows "(\<forall>k p. fmlookup (powerorders t) k = Some p \<longrightarrow> fmlookup (powerorders s) k = Some p) \<and>
    (\<forall>k p. fmlookup (powerorders s) k = Some p \<longrightarrow> fmlookup (powerorders t) k = None \<longrightarrow> po_expires p \<le> e_sec E)"
proof (rule expire_orders_rule [OF assms], goal_cases)
  case (2 n c u k p s1)
  then show ?case by (auto simp: adjust_orders split: if_splits)
qed simp

lemma expire_orders_count:
  "expire_orders E core n net cpu s = Inr (net', cpu', t) \<Longrightarrow>
     (\<forall>k p. fmlookup (powerorders t) k = Some p \<longrightarrow> e_sec E < po_expires p) \<or>
     fcard (fmdom (powerorders t)) + n = fcard (fmdom (powerorders s))"
proof (induction n arbitrary: net cpu s)
  case (Suc n)
  show ?case
  proof (cases "orders_by_expires s")
    case Nil
    then show ?thesis using Suc.prems orders_by_expires_Nil by simp
  next
    case (Cons kp rs)
    then obtain k p where c: "orders_by_expires s = (k, p) # rs" by (cases kp) auto
    note h = orders_by_expires_Cons [OF c]
    show ?thesis
    proof (cases "e_sec E < po_expires p")
      case True
      then have "\<forall>j q. fmlookup (powerorders s) j = Some q \<longrightarrow> e_sec E < po_expires q" using h(2) by fastforce
      then show ?thesis using Suc.prems c True by simp
    next
      case False
      then obtain s1 where a: "adjust_resources E (po_owner p) core (i64 (- po_net_weight p))
          (i64 (- po_cpu_weight p)) False s = Inr s1"
        and r: "expire_orders E core n (i64 (net + po_net_weight p)) (i64 (cpu + po_cpu_weight p))
          (s1\<lparr>powerorders := fmdrop k (powerorders s1)\<rparr>) = Inr (net', cpu', t)"
        using Suc.prems(1) c by (auto simp: res_simps)
      have "k |\<in>| fmdom (powerorders s)" using h(1) by (rule fmdomI)
      then have "Suc (fcard (fmdom (fmdrop k (powerorders s)))) = fcard (fmdom (powerorders s))"
        by (metis fcard_Suc_fminus1 fmdom_drop)
      then show ?thesis using Suc.IH [OF r] by (simp add: adjust_orders [OF a]) auto
    qed
  qed
qed simp

text \<open>
  C32: Running the queue only removes orders, only expired ones, and either leaves no expired order
  or removes as many as it is allowed to.
\<close>

theorem expire_orders_due:
  assumes "expire_orders E core n net cpu s = Inr (net', cpu', t)"
  shows "(\<forall>k p. fmlookup (powerorders t) k = Some p \<longrightarrow> fmlookup (powerorders s) k = Some p) \<and>
    (\<forall>k p. fmlookup (powerorders s) k = Some p \<longrightarrow> fmlookup (powerorders t) k = None \<longrightarrow> po_expires p \<le> e_sec E) \<and>
    ((\<forall>k p. fmlookup (powerorders t) k = Some p \<longrightarrow> e_sec E < po_expires p) \<or>
     fcard (fmdom (powerorders t)) + n = fcard (fmdom (powerorders s)))"
  using expire_orders_left [OF assms] expire_orders_count [OF assms] by blast

text \<open>
  C31: A successful power-up costs at least the configured minimum and at most what the payer
  allows; that fee arrives in full at the staking pools and the REX pool; and the receiver gets an
  order for the bought fractions of the weights that expires after the configured days.
\<close>

theorem powerup_effect:
  assumes A: "asset_laws (e_assets E)" and ok: "powerup E payer receiver days nf cf maxp s = Inr t"
    and wf: "market_ok T s" and t: "T \<le> e_sec E" "e_sec E < 4294967296"
    and st: "powerstate s = Some st" "0 \<le> amount (min_powerup_fee st)" and u: "powerstate t = Some u"
    and pay: "payer \<noteq> srpool_account" "payer \<noteq> rex_account"
  shows "\<exists>fee k p. amount (min_powerup_fee st) \<le> fee \<and> fee \<le> amount maxp \<and>
    net_in srpool_account (outbox t) + net_in rex_account (outbox t) =
      net_in srpool_account (outbox s) + net_in rex_account (outbox s) + fee \<and>
    fmlookup (powerorders t) k = Some p \<and> po_owner p = receiver \<and> po_expires p = order_expiry E (powerup_days st) \<and>
    po_net_weight p = nf * pr_weight (ps_net u) div powerup_frac \<and>
    po_cpu_weight p = cf * pr_weight (ps_cpu u) div powerup_frac"
  using ok
proof (rule powerup_Inr)
  fix st' st1 net cpu fee1 na n1 ca c1 k p and m :: exchange_state and s1 s3 s4 s5 :: chain and fee :: asset
  let ?core = "asym (balance (quote m))" and ?s2 = "s1\<lparr>powerorders := fmupd k p (powerorders s1)\<rparr>"
  assume st': "powerstate s = Some st'" and d: "days = powerup_days st'"
    and f: "0 \<le> nf" "nf \<le> powerup_frac" "0 \<le> cf" "cf \<le> powerup_frac"
    and pq: "process_powerup_queue E ?core st' 2 s = Inr (st1, net, cpu, s1)"
    and b: "buy_fraction E 0 nf (ps_net st1) = Inr (fee1, na, n1)" "buy_fraction E fee1 cf (ps_cpu st1) = Inr (amount fee, ca, c1)"
    and l: "aa_less (e_assets E) maxp fee = Inr False" "aa_leq (e_assets E) (min_powerup_fee st1) fee = Inr True"
    and p: "p = \<lparr>po_id = k, po_owner = receiver, po_net_weight = na, po_cpu_weight = ca, po_expires = order_expiry E days\<rparr>"
    and a: "adjust_resources E receiver (asym fee) na ca True ?s2 = Inr s3"
      "adjust_resources E reserv_account (asym fee) (i64 (net - na)) (i64 (cpu - ca)) True s3 = Inr s4"
    and c: "channel_to_rex_or_pools E payer fee True s4 = Inr s5"
    and t': "t = emit (Powup_result fee na ca) (s5\<lparr>powerstate := Some (st1\<lparr>ps_net := n1, ps_cpu := c1\<rparr>)\<rparr>)"
  have e: "st' = st" using st st' by simp
  have w: "state_ok T s st" "orders_nonneg s" using wf st by (simp_all add: market_ok_def)
  note Q = process_queue_ok [OF A w t pq [unfolded e]]
  have r: "resource_ok (e_sec E) (sold_net s1) (ps_net st1)" "resource_ok (e_sec E) (sold_cpu s1) (ps_cpu st1)"
    using Q(1) by (simp_all add: state_ok_def)
  note N = buy_fraction_ok [OF r(1) f(1,2) b(1)] and C = buy_fraction_ok [OF r(2) f(3,4) b(2)]
  have fee: "amount (min_powerup_fee st) \<le> amount fee" "amount fee \<le> amount maxp"
    using asset_laws.leq_ok [OF A l(2)] asset_laws.less_ok [OF A l(1)] Q(5) by simp_all
  have "amount fee \<le> i64_max"
    using buy_fraction_fee [OF b(2) buy_fraction_fee [OF b(1)]] by (simp add: in_i64_def i64_max_def)
  then have "net_in srpool_account (outbox s5) + net_in rex_account (outbox s5) =
      net_in srpool_account (outbox s4) + net_in rex_account (outbox s4) + amount fee"
    using channel_required_net [OF A _ _ pay c] fee st(2) by simp
  moreover have "outbox s4 = outbox s"
    using a [THEN adjust_resources_same, THEN same_but_quotas_fields(19)] arg_cong [OF Q(7), of outbox] by simp
  moreover have o': "powerorders t = fmupd k p (powerorders s1)"
    using channel_fees [OF c, THEN same_but_fees_fields(20)] adjust_orders [OF a(1)] adjust_orders [OF a(2)]
    by (simp add: t')
  moreover have "u = st1\<lparr>ps_net := n1, ps_cpu := c1\<rparr>" using u by (simp add: t')
  moreover have "outbox t = outbox s5 @ [Powup_result fee na ca]" by (simp add: t' emit_def)
  ultimately show ?thesis using fee N(3,4) C(3,4)
    by (intro exI [of _ "amount fee"] exI [of _ k] exI [of _ p]) (simp add: p d e msg_in_def)
qed

section \<open>Witnesses\<close>

definition sample_resource_config :: powerup_config_resource where
  "sample_resource_config = \<lparr>cf_current_weight_ratio = Some 100000000000000, cf_target_weight_ratio = Some 100000000000000,
     cf_assumed_stake_weight = Some 1000000, cf_target_timestamp = None, cf_exponent = Some (of_i 2),
     cf_decay_secs = Some 86400, cf_min_price = Some (sys 1000000000), cf_max_price = Some (sys 2000000000)\<rparr>"

definition sample_power_config :: powerup_config where
  "sample_power_config = \<lparr>cf_net = sample_resource_config, cf_cpu = sample_resource_config, cf_powerup_days = Some 1,
     cf_min_powerup_fee = Some (sys 100)\<rparr>"

text \<open>The market is configured, and account 7 powers up account 9 with a thousandth of both resources.\<close>

definition power_story :: "error + (chain \<times> chain)" where
  "power_story =
     bindR (cfgpowerup sample_env sample_power_config sample_rex_chain) (\<lambda>s.
     bindR (powerup sample_env 7 9 1 1000000000000 1000000000000 (sys 5000000) s) (\<lambda>t. Inr (s, t)))"

definition power_story_ok :: "error + (chain \<times> chain) \<Rightarrow> bool" where
  "power_story_ok y = (case y of
     Inr (s, t) \<Rightarrow> (case (powerstate s, powerstate t) of
       (Some st, Some u) \<Rightarrow> moderate (ps_net st) \<and> moderate (ps_cpu st) \<and> amount (min_powerup_fee st) = 100
     | _ \<Rightarrow> False)
   | Inl _ \<Rightarrow> False)"

lemma power_story_ok: "power_story_ok power_story"
  by code_simp

lemma power_story:
  obtains s t st u where "cfgpowerup sample_env sample_power_config sample_rex_chain = Inr s"
    "powerup sample_env 7 9 1 1000000000000 1000000000000 (sys 5000000) s = Inr t"
    "powerstate s = Some st" "amount (min_powerup_fee st) = 100" "powerstate t = Some u" "market_ok 1600000000 s"
    "power_run 0 sample_rex_chain 1600000000 s"
    "power_step sample_env s t"
proof -
  obtain s t st u where 1: "cfgpowerup sample_env sample_power_config sample_rex_chain = Inr s"
    "powerup sample_env 7 9 1 1000000000000 1000000000000 (sys 5000000) s = Inr t"
    "powerstate s = Some st" "amount (min_powerup_fee st) = 100" "powerstate t = Some u"
    "moderate (ps_net st)" "moderate (ps_cpu st)"
    using power_story_ok
    by (auto simp: power_story_ok_def power_story_def bindR_def split: sum.splits prod.splits option.splits)
  have e: "e_sec sample_env = 1600000000" by (simp add: sample_env_def)
  have c: "config_typed (cf_net sample_power_config)" "config_typed (cf_cpu sample_power_config)"
    by (simp_all add: config_typed_def sample_power_config_def sample_resource_config_def)
  have p: "plans_moderate s" using 1 by (simp add: plans_moderate_def)
  have m: "market_ok 0 sample_rex_chain"
    by (simp add: market_ok_def orders_nonneg_def sample_rex_chain_def sample_chain_def initial_chain_def)
  have "market_ok 1600000000 s" using cfgpowerup_ok [OF sample_laws 1(1) c p m] e by simp
  moreover have "power_run 0 sample_rex_chain 1600000000 s"
    using Market [OF Stop sample_laws _ _ Configure [OF 1(1) c p], of 0] e by simp
  moreover have "power_step sample_env s t" by (rule Power_up [OF 1(2)])
  ultimately show thesis using that [OF 1(1-5)] by blast
qed

lemma sample_market: "powerstate sample_rex_chain = None" "powerorders sample_rex_chain = fmempty"
    "outbox sample_rex_chain = []" "e_sec sample_env = 1600000000"
  by (simp_all add: sample_rex_chain_def sample_chain_def initial_chain_def sample_env_def)

theorem market_never_oversold_witness:
  "\<exists>s t u. cfgpowerup sample_env sample_power_config sample_rex_chain = Inr s \<and>
    powerup sample_env 7 9 1 1000000000000 1000000000000 (sys 5000000) s = Inr t \<and> powerstate t = Some u \<and>
    utilization (ps_net u) = sold_net t \<and> sold_net t \<le> pr_weight (ps_net u)"
proof (rule power_story)
  fix s t st u
  assume 1: "cfgpowerup sample_env sample_power_config sample_rex_chain = Inr s"
    "powerup sample_env 7 9 1 1000000000000 1000000000000 (sys 5000000) s = Inr t"
    and u: "powerstate t = Some u" and r: "power_run 0 sample_rex_chain 1600000000 s" "power_step sample_env s t"
  have "power_run 0 sample_rex_chain 1600000000 t"
    using Market [OF r(1) sample_laws _ _ r(2)] sample_market by simp
  then show ?thesis using market_never_oversold [OF _ _ sample_market(1,2) u] 1 u by auto
qed

theorem totals_follow_weights_witness:
  "\<exists>s t. cfgpowerup sample_env sample_power_config sample_rex_chain = Inr s \<and>
    powerup sample_env 7 9 1 1000000000000 1000000000000 (sys 5000000) s = Inr t \<and>
    i64 (power_net t) = i64 (power_net s) \<and> i64 (power_cpu t) = i64 (power_cpu s)"
  by (rule power_story)
    (use totals_follow_weights [OF _ _ sample_market(1,2) sample_laws] sample_market(4) in auto)



definition sample_orders_chain :: chain where
  "sample_orders_chain = sample_chain\<lparr>
     userres := fmupd 9 \<lparr>ur_owner = 9, ur_net_weight = sys 50, ur_cpu_weight = sys 50, ram_bytes = 0\<rparr> fmempty,
     powerorders := fmupd 0 \<lparr>po_id = 0, po_owner = 9, po_net_weight = 20, po_cpu_weight = 10, po_expires = 1599999999\<rparr>
       (fmupd 1 \<lparr>po_id = 1, po_owner = 9, po_net_weight = 30, po_cpu_weight = 40, po_expires = 1600000001\<rparr> fmempty)\<rparr>"

theorem expire_orders_due_witness:
  "\<exists>net cpu t. expire_orders sample_env sys_symbol 2 0 0 sample_orders_chain = Inr (net, cpu, t) \<and>
    (\<forall>k p. fmlookup (powerorders t) k = Some p \<longrightarrow> fmlookup (powerorders sample_orders_chain) k = Some p)"
proof -
  have "succeeds (expire_orders sample_env sys_symbol 2 0 0 sample_orders_chain)" by code_simp
  then obtain y where "expire_orders sample_env sys_symbol 2 0 0 sample_orders_chain = Inr y" by (rule succeedsE)
  then obtain net cpu t where "expire_orders sample_env sys_symbol 2 0 0 sample_orders_chain = Inr (net, cpu, t)"
    by (cases y) auto
  with expire_orders_due [OF this] show ?thesis by blast
qed

theorem powerup_effect_witness:
  "\<exists>s t fee. powerup sample_env 7 9 1 1000000000000 1000000000000 (sys 5000000) s = Inr t \<and> (100 :: int) \<le> fee \<and>
    fee \<le> 5000000 \<and> (\<exists>k p. fmlookup (powerorders t) k = Some p \<and> po_owner p = 9)"
proof (rule power_story)
  fix s t st u
  assume t: "powerup sample_env 7 9 1 1000000000000 1000000000000 (sys 5000000) s = Inr t"
    and st: "powerstate s = Some st" "amount (min_powerup_fee st) = 100" and u: "powerstate t = Some u"
    and m: "market_ok 1600000000 s"
  have a: "(7 :: name) \<noteq> srpool_account" "(7 :: name) \<noteq> rex_account" by (simp_all add: account_defs)
  obtain fee k p where f: "(100 :: int) \<le> fee" "fee \<le> 5000000" "fmlookup (powerorders t) k = Some p" "po_owner p = 9"
    using powerup_effect [OF sample_laws t m _ _ st(1) _ u a] st(2) sample_market(4) by auto
  then have "\<exists>k p. fmlookup (powerorders t) k = Some p \<and> po_owner p = 9" by blast
  with t f show ?thesis by (intro exI [of _ s] exI [of _ t] exI [of _ fee]) simp
qed

text \<open>
  The sum \<open>state.utilization + amount\<close> is computed in 64 bits before it is compared with the weight,
  so a weight above \<open>2 ^ 62\<close>, which \<open>cfgpowerup\<close> accepts, lets a purchase of more than is left pass.
\<close>

definition huge_resource :: powerup_state_resource where
  "huge_resource = new_power_resource\<lparr>pr_weight := 9000000000000000000, utilization := 8000000000000000000,
     adjusted_utilization := 9000000000000000000, min_price := sys 10000, max_price := sys 20000\<rparr>"

lemma oversold_above_half_range: "succeeds (buy_fraction sample_env 0 powerup_frac huge_resource)"
  by code_simp

end
