(* ===== verification/ResourceLimits.thy ===== *)
theory ResourceLimits
  imports System Exchange Powerup
begin

text \<open>
  The NET and CPU limits of an account at the host against its totals (table \<open>userres\<close>), over the
  actions of the whole contract that touch either: the creation of accounts, the limits of single
  accounts, bandwidth, RAM, the exchange, power-up, and the votes, which rewrite the rows that hold
  the managed flags. Shown: each action adjusts limits to totals or leaves both alone, but for
  \<open>setalimits\<close>, which gives limits to an account without totals.
\<close>

section \<open>How limits relate to totals\<close>

text \<open>The total, the managed flag and the limit of each of the two resources of an account.\<close>

definition net_view :: "chain \<Rightarrow> name \<Rightarrow> int \<times> bool \<times> int" where
  "net_view s a = (row_val (\<lambda>r. amount (ur_net_weight r)) (userres s) a, account_flag s a net_managed, fst (snd (limits s a)))"

definition cpu_view :: "chain \<Rightarrow> name \<Rightarrow> int \<times> bool \<times> int" where
  "cpu_view s a = (row_val (\<lambda>r. amount (ur_cpu_weight r)) (userres s) a, account_flag s a cpu_managed, snd (snd (limits s a)))"

definition in_step :: "int \<times> bool \<times> int \<Rightarrow> bool" where
  "in_step v = (case v of (n, managed, limit) \<Rightarrow> managed \<or> limit = n)"

lemma limits_follow_views: "limits_follow s a \<longleftrightarrow> in_step (net_view s a) \<and> in_step (cpu_view s a)"
  by (auto simp: limits_follow_def in_step_def net_view_def cpu_view_def get_resource_limits_def split: prod.split)

text \<open>
  The limits of \<open>a\<close> are brought in step with the totals, or the totals stay and either resource
  stays as it is or is brought in step.
\<close>

definition tracks :: "name \<Rightarrow> chain \<Rightarrow> chain \<Rightarrow> bool" where
  "tracks a s t \<longleftrightarrow> limits_follow t a \<or>
     fst (net_view t a) = fst (net_view s a) \<and> fst (cpu_view t a) = fst (cpu_view s a) \<and>
     (net_view t a = net_view s a \<or> in_step (net_view t a)) \<and> (cpu_view t a = cpu_view s a \<or> in_step (cpu_view t a))"

definition adjusts :: "chain \<Rightarrow> chain \<Rightarrow> bool" where
  "adjusts s t \<longleftrightarrow> (\<forall>a. tracks a s t)"

lemma tracks_trans: "tracks a s t \<Longrightarrow> tracks a t u \<Longrightarrow> tracks a s u"
  unfolding tracks_def limits_follow_views by metis

lemma adjusts_trans [trans]: "adjusts s t \<Longrightarrow> adjusts t u \<Longrightarrow> adjusts s u"
  unfolding adjusts_def using tracks_trans by blast

lemma adjusts_views: "(\<And>a. net_view t a = net_view s a \<and> cpu_view t a = cpu_view s a) \<Longrightarrow> adjusts s t"
  by (simp add: adjusts_def tracks_def)

lemma adjusts_refl [simp]: "adjusts s s"
  by (rule adjusts_views) simp

text \<open>An account with totals of its own has them as its limits.\<close>

definition settled :: "chain \<Rightarrow> name \<Rightarrow> bool" where
  "settled s a \<longleftrightarrow> limits_follow s a \<or> fst (net_view s a) = 0 \<and> fst (cpu_view s a) = 0"

lemma tracks_settled: "tracks a s t \<Longrightarrow> settled s a \<Longrightarrow> settled t a"
  unfolding tracks_def settled_def limits_follow_views by metis

lemma tracks_follows: "tracks a s t \<Longrightarrow> limits_follow s a \<Longrightarrow> limits_follow t a"
  unfolding tracks_def limits_follow_views by metis

section \<open>What changes neither limits nor totals\<close>

definition kept :: "chain \<Rightarrow> chain \<Rightarrow> bool" where
  "kept s t \<longleftrightarrow> userres t = userres s \<and> limits t = limits s \<and>
     (\<forall>a. account_flag t a net_managed = account_flag s a net_managed \<and>
       account_flag t a cpu_managed = account_flag s a cpu_managed)"

lemma kept_adjusts: "kept s t \<Longrightarrow> adjusts s t"
  by (rule adjusts_views) (simp add: kept_def net_view_def cpu_view_def)

lemma kept_refl [simp]: "kept s s"
  by (simp add: kept_def)

lemma kept_trans [trans]: "kept s t \<Longrightarrow> kept t u \<Longrightarrow> kept s u"
  by (simp add: kept_def)

lemma kept_fields: "userres t = userres s \<Longrightarrow> limits t = limits s \<Longrightarrow> voters t = voters s \<Longrightarrow> kept s t"
  by (simp add: kept_def account_flag_def)

lemma kept_upd [simp]:
  "kept s (emit m t) = kept s t" "kept s (t\<lparr>rexfunds := a\<rparr>) = kept s t" "kept s (t\<lparr>rexbalance := b\<rparr>) = kept s t"
  "kept s (t\<lparr>rexorders := c\<rparr>) = kept s t" "kept s (t\<lparr>rexpool := d\<rparr>) = kept s t" "kept s (t\<lparr>delband := e\<rparr>) = kept s t"
  "kept s (t\<lparr>refunds := f, outbox := g\<rparr>) = kept s t" "kept s (t\<lparr>powerstate := h\<rparr>) = kept s t"
  "kept s (t\<lparr>powerorders := i\<rparr>) = kept s t" "kept s (t\<lparr>rammarket := j\<rparr>) = kept s t" "kept s (t\<lparr>gstate := k\<rparr>) = kept s t"
  by (simp_all add: kept_def account_flag_def)

lemma kept_fees: "same_but_fees frm s t \<Longrightarrow> kept s t"
  by (rule kept_fields) (simp_all add: same_but_fees_fields)

lemma kept_pool: "same_but_pool s t \<Longrightarrow> kept s t"
  by (rule kept_fees) (rule same_but_pool_fees)

lemma set_loans_kept [simp]: "kept s (set_loans k l t) = kept s t"
  by (cases k) (simp_all add: set_loans_def kept_def account_flag_def)

text \<open>A change of votes rewrites rows of voters, but not their flags.\<close>

definition flags_of :: "chain \<Rightarrow> name \<Rightarrow> 32 word option" where
  "flags_of s a = map_option flags1 (fmlookup (voters s) a)"

lemma account_flag_of: "account_flag s a f = (case flags_of s a of None \<Rightarrow> False | Some w \<Rightarrow> has_field w f)"
  by (simp add: account_flag_def flags_of_def split: option.split)

lemma kept_votes:
  assumes "without_votes t = without_votes s" "flags_of t = flags_of s"
  shows "kept s t"
  using without_votes_fields [OF assms(1)] assms(2) by (simp add: kept_def account_flag_of)

lemma links_flags: "same_links s t \<Longrightarrow> flags_of t = flags_of s"
  unfolding flags_of_def by (rule ext, rule same_links_map) (simp_all add: links_def)

lemma vote_frame_kept: "vote_frame s t \<Longrightarrow> kept s t"
  unfolding vote_frame_def using kept_votes links_flags by blast

lemma voters_upd_kept:
  assumes "flags1 r = (case fmlookup (voters s) a of None \<Rightarrow> flags1 new_voter | Some r0 \<Rightarrow> flags1 r0)"
  shows "kept s (s\<lparr>voters := fmupd a r (voters s)\<rparr>)"
  using assms new_flags by (auto simp: kept_def account_flag_def split: option.splits)

lemma update_votes_kept:
  assumes "update_votes E v proxy ps b s = Inr t"
  shows "kept s t"
  using assms
proof (rule update_votes_Inr)
  fix r u r'
  assume u: "vote_frame s u" "fmlookup (voters u) v = Some r'" and t: "t = u\<lparr>voters := fmupd v
    (r'\<lparr>last_vote_weight := voter_weight E r, v_producers := ps, v_proxy := proxy\<rparr>) (voters u)\<rparr>"
  have "kept u t" unfolding t using u(2) by (intro voters_upd_kept) simp
  then show ?thesis using vote_frame_kept [OF u(1)] kept_trans by blast
qed

lemma regproxy_kept:
  assumes "regproxy E p b s = Inr t"
  shows "kept s t"
proof (cases "fmlookup (voters s) p")
  case None
  then show ?thesis using assms voters_upd_kept [where s = s and a = p]
    by (auto simp: regproxy_def res_simps)
next
  case (Some r)
  let ?s1 = "s\<lparr>voters := fmupd p (r\<lparr>is_proxy := b\<rparr>) (voters s)\<rparr>"
  have "kept s ?s1" using Some by (intro voters_upd_kept) simp
  moreover have "propagate_weight_change (voting_fuel ?s1) E p ?s1 = Inr t"
    using assms unfolding regproxy_def require_auth_def Some check_eq_Inr option.case Let_def by blast
  then have "kept ?s1 t" using propagate_frame vote_frame_kept by blast
  ultimately show ?thesis by (rule kept_trans)
qed

lemma voting_power_kept:
  assumes "update_voting_power E v n s = Inr t"
  shows "kept s t"
proof -
  let ?r = "with_stake v n s"
  let ?s1 = "s\<lparr>voters := fmupd v ?r (voters s)\<rparr>"
  have "kept s ?s1" by (rule voters_upd_kept) (simp add: with_stake_def split: option.split)
  moreover have "t = ?s1 \<or> update_votes E v (v_proxy ?r) (v_producers ?r) False ?s1 = Inr t"
    using assms by (auto simp: update_voting_power_eq validate_b1_vesting_def Let_def res_simps split: if_splits)
  ultimately show ?thesis using update_votes_kept kept_trans by blast
qed

lemma update_rex_stake_kept:
  assumes "update_rex_stake v s = Inr t"
  shows "kept s t"
proof -
  have "(\<exists>b. t = s\<lparr>rexbalance := b\<rparr>) \<or> (\<exists>b r n. fmlookup (voters s) v = Some r \<and>
      t = s\<lparr>rexbalance := b, voters := fmupd v (r\<lparr>staked := n\<rparr>) (voters s)\<rparr>)"
  proof (cases "fmlookup (rexbalance s) v")
    case None
    then have "t = s\<lparr>rexbalance := rexbalance s\<rparr>" using assms by (simp add: update_rex_stake_def)
    then show ?thesis by blast
  next
    case (Some rb)
    show ?thesis
    proof (cases "rex_available s")
      case True
      then show ?thesis using assms Some unfolding update_rex_stake_def
        by (auto simp: res_simps Let_def split: if_splits option.splits)
    next
      case False
      then have "t = s\<lparr>rexbalance := rexbalance s\<rparr>" using assms Some by (simp add: update_rex_stake_def)
      then show ?thesis by blast
    qed
  qed
  then show ?thesis
  proof (elim disjE exE conjE)
    fix b assume "t = s\<lparr>rexbalance := b\<rparr>"
    then show ?thesis by simp
  next
    fix b r n assume r: "fmlookup (voters s) v = Some r"
      and t: "t = s\<lparr>rexbalance := b, voters := fmupd v (r\<lparr>staked := n\<rparr>) (voters s)\<rparr>"
    have "kept (s\<lparr>rexbalance := b\<rparr>) t" using voters_upd_kept [of "r\<lparr>staked := n\<rparr>" "s\<lparr>rexbalance := b\<rparr>" v] r t by simp
    then show ?thesis by (simp add: kept_def account_flag_def)
  qed
qed

lemma fund_transfers_kept:
  "transfer_to_fund a q s = Inr t \<Longrightarrow> kept s t" "transfer_from_fund E a q s = Inr t \<Longrightarrow> kept s t"
proof -
  show "kept s t" if "transfer_to_fund a q s = Inr t" by (subst transfer_to_fund_same [OF that]) simp
  show "kept s t" if "transfer_from_fund E a q s = Inr t" by (subst transfer_from_fund_same [OF that]) simp
qed

section \<open>What brings limits in step\<close>

lemma elsewhere_views:
  assumes "\<And>b. b \<noteq> a \<Longrightarrow> net_view t b = net_view s b \<and> cpu_view t b = cpu_view s b" "tracks a s t"
  shows "adjusts s t"
  using assms unfolding adjusts_def tracks_def by metis

lemma stored_adjusts: "adjusts s (store_totals a tot (set_limits a r tot s))"
proof (rule elsewhere_views)
  show "tracks a s (store_totals a tot (set_limits a r tot s))" by (simp add: tracks_def stored_follow)
  fix b assume "b \<noteq> a"
  then show "net_view (store_totals a tot (set_limits a r tot s)) b = net_view s b \<and>
      cpu_view (store_totals a tot (set_limits a r tot s)) b = cpu_view s b"
    by (auto simp: net_view_def cpu_view_def store_totals_def set_limits_def set_resource_limits_def account_flag_def
        row_val_def Let_def split: prod.split)
qed

lemma totals_adjusts:
  "adjust_resources E a core n c m s = Inr t \<Longrightarrow> adjusts s t"
  "update_resource_limits E a n c s = Inr t \<Longrightarrow> adjusts s t"
  "add_totals E a net cpu s = Inr t \<Longrightarrow> adjusts s t"
  by (auto simp: adjust_resources_def update_resource_limits_def add_totals_def res_simps stored_adjusts
      split: if_splits)

lemma limits_delta_adjusts: "limits_delta E k a n s = Inr t \<Longrightarrow> adjusts s t"
  by (cases k) (auto simp: limits_delta_def intro: totals_adjusts)

lemma given_limits:
  assumes "limits t = (limits s)(a := (ram, net, cpu))" "fmlookup (userres t) a = r"
    "\<And>b. b \<noteq> a \<Longrightarrow> fmlookup (userres t) b = fmlookup (userres s) b" "voters t = voters s"
  shows "b \<noteq> a \<Longrightarrow> net_view t b = net_view s b \<and> cpu_view t b = cpu_view s b"
    and "net_view t a = (case r of None \<Rightarrow> 0 | Some r \<Rightarrow> amount (ur_net_weight r), account_flag s a net_managed, net)"
    and "cpu_view t a = (case r of None \<Rightarrow> 0 | Some r \<Rightarrow> amount (ur_cpu_weight r), account_flag s a cpu_managed, cpu)"
  using assms by (simp_all add: net_view_def cpu_view_def account_flag_def row_val_def)

section \<open>The exchange\<close>

lemma channel_to_rex_kept: "channel_to_rex E a q s = Inr t \<Longrightarrow> kept s t"
  by (drule channel_to_rex_fees) (rule kept_fees)

lemma channel_namebids_kept: "channel_namebids E s = Inr t \<Longrightarrow> kept s t"
  by (auto simp: channel_namebids_def res_simps dest!: channel_to_rex_kept split: if_splits)

lemma loan_pool_kept:
  "remove_loan_from_rex_pool l s = Inr t \<Longrightarrow> kept s t" "add_loan_to_rex_pool E a n b s = Inr t \<Longrightarrow> kept s t"
  by (auto simp: remove_loan_from_rex_pool_def add_loan_to_rex_pool_def res_simps Let_def kept_pool
      dest!: add_to_rex_return_pool_same kept_pool elim: kept_trans)

lemma update_rex_account_kept:
  assumes "update_rex_account E a f n b s = Inr (m, t)"
  shows "kept s t"
proof -
  obtain core f' n' s1 s2 where
    1: "(f', s1) = (case fmlookup (rexorders s) a of None \<Rightarrow> (f, s)
      | Some o' \<Rightarrow> if is_open o' then (f, s)
        else (i64 (f + amount (ro_proceeds o')), s\<lparr>rexorders := fmdrop a (rexorders s)\<rparr>))"
    and 2: "(if 0 < f' then transfer_to_fund a \<lparr>amount = f', asym = core\<rparr> s1 else Inr s1) = Inr s2"
    and 3: "(if b \<or> n' \<noteq> 0 then update_voting_power E a n' s2 else Inr s2) = Inr t"
    using assms by (fastforce simp: update_rex_account_def core_symbol_eq_Inr bindR_eq_Inr Let_def
        split: option.splits if_splits)
  have "kept s s1" using 1 by (auto split: option.splits if_splits)
  moreover have "kept s1 s2" using 2 fund_transfers_kept(1) by (cases "0 < f'") auto
  moreover have "kept s2 t" using 3 voting_power_kept by (cases "b \<or> n' \<noteq> 0") auto
  ultimately show ?thesis using kept_trans by blast
qed

lemma process_expired_loan_kept:
  assumes "process_expired_loan E k n loan s = Inr (del, d, t)"
  shows "kept s t"
proof -
  obtain s1 n' R where s1: "remove_loan_from_rex_pool loan s = Inr s1"
    and rest: "(if R then
       bindR (add_loan_to_rex_pool E (payment loan) n' False s1) (\<lambda>s2.
       let (delta_stake, loan') = update_renewed_loan n' loan in
       Inr (False, delta_stake, set_loans k (fmupd n loan' (loans k s2)) s2))
     else
       bindR (if 0 < amount (ln_balance loan) then transfer_to_fund (ln_from loan) (ln_balance loan) s1
         else Inr s1) (\<lambda>s2.
       Inr (True, i64 (- amount (total_staked loan)), s2))) = Inr (del, d, t)"
    using assms by (auto simp: process_expired_loan_def res_simps)
  have "kept s1 t"
  proof (cases R)
    case True
    then show ?thesis using rest by (auto simp: res_simps update_renewed_loan_def dest: loan_pool_kept(2))
  next
    case False
    then show ?thesis using rest fund_transfers_kept(1) by (cases "0 < amount (ln_balance loan)") (auto simp: res_simps)
  qed
  then show ?thesis using loan_pool_kept(1) [OF s1] kept_trans by blast
qed

lemma process_loans_adjusts: "process_loans i E k s = Inr t \<Longrightarrow> adjusts s t"
proof (induction i arbitrary: s)
  case (Suc i)
  show ?case
  proof (cases "loans_by_expiration k s = [] \<or> e_now E < expiration (snd (hd (loans_by_expiration k s)))")
    case True
    then show ?thesis using Suc.prems by (auto split: list.splits prod.splits)
  next
    case False
    then obtain n loan rest where nl: "loans_by_expiration k s = (n, loan) # rest"
      by (cases "loans_by_expiration k s") auto
    then obtain del d s1 s2 where 1: "process_expired_loan E k n loan s = Inr (del, d, s1)"
      and 2: "(if d \<noteq> 0 then limits_delta E k (ln_receiver loan) d s1 else Inr s1) = Inr s2"
      and 3: "process_loans i E k (if del then set_loans k (fmdrop n (loans k s2)) s2 else s2) = Inr t"
      using Suc.prems False by (auto simp: res_simps)
    have "adjusts s1 s2" using 2 limits_delta_adjusts by (cases "d = 0") auto
    moreover have "adjusts s2 (if del then set_loans k (fmdrop n (loans k s2)) s2 else s2)" by (rule kept_adjusts) simp
    ultimately show ?thesis
      using kept_adjusts [OF process_expired_loan_kept [OF 1]] Suc.IH [OF 3] adjusts_trans by blast
  qed
qed simp

lemma fill_rex_order_kept: "fill_rex_order E a rex s = Inr (r, t) \<Longrightarrow> kept s t"
  by (auto simp: fill_rex_order_def res_simps Let_def split: option.splits)

lemma process_order_kept: "process_order E x s = Inr t \<Longrightarrow> kept s t"
  by (cases x) (auto simp: process_order_def res_simps Let_def split: option.splits if_splits dest!: fill_rex_order_kept)

lemma process_orders_kept: "foldR (process_order E) xs s = Inr t \<Longrightarrow> kept s t"
proof (induction xs arbitrary: s)
  case (Cons x xs)
  then obtain u where "process_order E x s = Inr u" "foldR (process_order E) xs u = Inr t" by (auto simp: res_simps)
  then show ?case using process_order_kept Cons.IH kept_trans by blast
qed simp

lemma runrex_adjusts:
  assumes "runrex E n s = Inr t"
  shows "adjusts s t"
proof -
  obtain s1 s2 s3 s4 where
    1: "update_rex_pool E s = Inr s1" and 2: "channel_namebids E s1 = Inr s2"
    and 3: "process_loans n E Cpu s2 = Inr s3" and 4: "process_loans n E Net s3 = Inr s4"
    and 5: "foldR (process_order E) (takeWhile (\<lambda>(k, o'). is_open o') (take n (orders_by_time s4))) s4 = Inr t"
    using assms unfolding runrex_def check_eq_Inr bindR_eq_Inr by (elim exE conjE)
  have "adjusts s s2"
    using kept_pool [OF update_rex_pool_same [OF 1]] channel_namebids_kept [OF 2] kept_trans kept_adjusts by blast
  then show ?thesis
    using process_loans_adjusts [OF 3] process_loans_adjusts [OF 4] kept_adjusts [OF process_orders_kept [OF 5]]
      adjusts_trans by blast
qed

lemma purchase_kept:
  "add_to_rex_pool E pay s = Inr (r, t) \<Longrightarrow> kept s t" "add_to_rex_balance E a q r s = Inr (d, t) \<Longrightarrow> kept s t"
proof -
  show "kept s t" if "add_to_rex_pool E pay s = Inr (r, t)" using that by (cases rule: add_to_rex_pool_Inr) simp_all
  show "kept s t" if "add_to_rex_balance E a q r s = Inr (d, t)" by (subst add_to_rex_balance_same [OF that]) simp
qed

lemma modify_rex_kept': "modify_rex a f s = Inr t \<Longrightarrow> kept s t"
  by (auto simp: modify_rex_def res_simps)

text \<open>The bundle of steps that the actions of the exchange are made of.\<close>

lemmas exchange_keeps = fund_transfers_kept update_rex_account_kept purchase_kept modify_rex_kept' fill_rex_order_kept
  loan_pool_kept

lemma after_kept: "kept s u \<Longrightarrow> adjusts u t \<Longrightarrow> adjusts s t" "adjusts s u \<Longrightarrow> kept u t \<Longrightarrow> adjusts s t"
  using kept_adjusts adjusts_trans by blast+

lemma loan_funds_kept:
  "fund_rex_loan E k a n q s = Inr t \<Longrightarrow> kept s t" "defund_rex_loan E k a n q s = Inr t \<Longrightarrow> kept s t"
proof -
  show "kept s t" if "fund_rex_loan E k a n q s = Inr t"
    using that by (auto simp: fund_rex_loan_def res_simps dest: fund_transfers_kept(2))
  show "kept s t" if d: "defund_rex_loan E k a n q s = Inr t"
  proof -
    obtain l where "transfer_to_fund a q (set_loans k l s) = Inr t" using d by (auto simp: defund_rex_loan_def res_simps)
    moreover have "kept s (set_loans k l s)" by simp
    ultimately show ?thesis using fund_transfers_kept(1) kept_trans by blast
  qed
qed

lemma funds_kept:
  "deposit E a q s = Inr t \<Longrightarrow> kept s t" "withdraw E a q s = Inr t \<Longrightarrow> kept s t"
proof -
  show "kept s t" if "deposit E a q s = Inr t"
  proof -
    have "transfer_to_fund a q (emit (Transfer [a] a rex_account q) s) = Inr t" using that by (auto simp: deposit_def res_simps)
    moreover have "kept s (emit (Transfer [a] a rex_account q) s)" by simp
    ultimately show ?thesis using fund_transfers_kept(1) kept_trans by blast
  qed
  show "kept s t" if w: "withdraw E a q s = Inr t"
  proof -
    obtain n s1 s2 where 1: "update_rex_account E a 0 0 False s = Inr (n, s1)" and 2: "transfer_from_fund E a q s1 = Inr s2"
      and t: "t = emit (Transfer [rex_account] rex_account a q) s2"
      using w by (auto simp: withdraw_def res_simps)
    show ?thesis using update_rex_account_kept [OF 1] fund_transfers_kept(2) [OF 2] kept_trans by (auto simp: t)
  qed
qed

lemma buyrex_adjusts:
  assumes "buyrex E a q s = Inr t"
  shows "adjusts s t"
proof -
  obtain s1 s2 s3 s4 s5 r d n where 1: "transfer_from_fund E a q s = Inr s1" and 2: "add_to_rex_pool E q s1 = Inr (r, s2)"
    and 3: "add_to_rex_balance E a q r s2 = Inr (d, s3)" and 4: "runrex E 2 s3 = Inr s4"
    and 5: "update_rex_account E a 0 (amount d) False s4 = Inr (n, s5)" and t: "t = emit (Buy_result r) s5"
    using assms unfolding buyrex_def check_voting_requirement_def by (auto simp: res_simps)
  have "kept s s3" using fund_transfers_kept(2) [OF 1] purchase_kept(1) [OF 2] purchase_kept(2) [OF 3] kept_trans by blast
  moreover have "kept s4 t" using update_rex_account_kept [OF 5] by (simp add: t)
  ultimately show ?thesis using runrex_adjusts [OF 4] after_kept by blast
qed

lemma unstaketorex_adjusts:
  assumes "unstaketorex E a b n c s = Inr t"
  shows "adjusts s t"
proof -
  obtain d s2 pay m s3 r d' s4 s5 k s6 where
    1: "update_resource_limits E b (i64 (- amount n)) (i64 (- amount c)) (s\<lparr>delband := d\<rparr>) = Inr s2"
    and 2: "add_to_rex_pool E pay (emit m s2) = Inr (r, s3)" and 3: "add_to_rex_balance E a pay r s3 = Inr (d', s4)"
    and 4: "runrex E 2 s4 = Inr s5" and 5: "update_rex_account E a 0 0 True s5 = Inr (k, s6)"
    and t: "t = emit (Buy_result r) s6"
    using assms unfolding unstaketorex_def check_voting_requirement_def Let_def require_auth_eq_Inr core_symbol_eq_Inr
      check_eq_Inr bindR_eq_Inr fetch_eq_Inr split_paired_Ex prod.case sum.inject
    by (elim exE conjE) (rule that, assumption+, erule sym)
  have "adjusts s s2" using totals_adjusts(2) [OF 1] after_kept(1) [of s "s\<lparr>delband := d\<rparr>"] by simp
  moreover have "kept s2 s4"
  proof -
    have "kept s2 (emit m s2)" by simp
    then show ?thesis using purchase_kept(1) [OF 2] purchase_kept(2) [OF 3] kept_trans by blast
  qed
  moreover have "kept s5 t" using update_rex_account_kept [OF 5] by (simp add: t)
  ultimately show ?thesis using runrex_adjusts [OF 4] after_kept adjusts_trans by blast
qed

lemma sellrex_adjusts:
  assumes "sellrex E a q s = Inr t"
  shows "adjusts s t"
  using assms
proof (rule sellrex_Inr)
  fix s1 rb s2 r s3 m s4 s5 rb2 rb5
  assume 1: "runrex E 2 s = Inr s1" and 2: "modify_rex a (process_rex_maturities E) s1 = Inr s2"
    and 3: "fill_rex_order E a q s2 = Inr (r, s3)"
    and 4: "update_rex_account E a (amount (out_proceeds r)) (amount (out_stake_change r)) False s3 = Inr (m, s4)"
    and 5: "success r \<and> s5 = s4 \<or> (\<exists>core n. queue_order E a q core s4 = Inr (n, s5))"
    and t: "t = (if success r then emit (Sell_result (out_proceeds r)) s5 else s5)"
  have "kept s1 s4" using modify_rex_kept' [OF 2] fill_rex_order_kept [OF 3] update_rex_account_kept [OF 4] kept_trans by blast
  moreover have "kept s4 s5" using 5 by (auto elim!: queue_order_Inr)
  moreover have "kept s5 t" by (simp add: t)
  ultimately show ?thesis using runrex_adjusts [OF 1] after_kept kept_trans by blast
qed

lemma rent_adjusts:
  assumes "rent E k a b q f s = Inr t"
  shows "adjusts s t"
proof -
  obtain n s1 where 1: "rent_rex E k a b q f s = Inr (n, s1)" and 2: "limits_delta E k b n s1 = Inr t"
    using assms by (auto simp: rent_def res_simps)
  from 1 have "adjusts s s1"
    unfolding rent_rex_def core_symbol_eq_Inr check_eq_Inr bindR_eq_Inr fetch_eq_Inr Let_def sum.inject prod.inject
  proof (elim exE conjE)
    fix u s2 n' s3 l j st
    assume u: "runrex E 2 s = Inr u" "transfer_from_fund E a j u = Inr s2" "add_loan_to_rex_pool E q n' True s2 = Inr s3"
      and s1: "emit (Rent_result st) (set_loans k l s3) = s1"
    have "kept s3 s1" unfolding s1 [symmetric] by simp
    then show ?thesis
      using runrex_adjusts [OF u(1)] fund_transfers_kept(2) [OF u(2)] loan_pool_kept(2) [OF u(3)] after_kept kept_trans by blast
  qed
  then show ?thesis using limits_delta_adjusts [OF 2] adjusts_trans by blast
qed

lemma updaterex_adjusts:
  assumes "updaterex E a s = Inr t"
  shows "adjusts s t"
proof -
  obtain s1 b d n s3 where 1: "runrex E 2 s = Inr s1"
    and 2: "update_rex_account E a 0 d True (s1\<lparr>rexbalance := b\<rparr>) = Inr (n, s3)"
    and 3: "modify_rex a (process_rex_maturities E) s3 = Inr t"
    using assms unfolding updaterex_def Let_def require_auth_eq_Inr core_symbol_eq_Inr bindR_eq_Inr fetch_eq_Inr
      split_paired_Ex prod.case
    by (elim exE conjE) (rule that, assumption+)
  have "kept s1 (s1\<lparr>rexbalance := b\<rparr>)" by simp
  then have "kept s1 t" using update_rex_account_kept [OF 2] modify_rex_kept' [OF 3] kept_trans by blast
  then show ?thesis using runrex_adjusts [OF 1] after_kept by blast
qed

lemma savings_adjust:
  "consolidate E a s = Inr t \<Longrightarrow> adjusts s t" "mvtosavings E a q s = Inr t \<Longrightarrow> adjusts s t"
  "mvfrsavings E a q s = Inr t \<Longrightarrow> adjusts s t"
proof -
  show "adjusts s t" if c: "consolidate E a s = Inr t"
  proof -
    obtain s1 n s2 where 1: "runrex E 2 s = Inr s1" "update_rex_account E a 0 0 False s1 = Inr (n, s2)"
      "modify_rex a (consolidate_rex_balance E n) s2 = Inr t"
      using c by (auto simp: consolidate_def res_simps)
    show ?thesis
      using runrex_adjusts [OF 1(1)] update_rex_account_kept [OF 1(2)] modify_rex_kept' [OF 1(3)] after_kept kept_trans by blast
  qed
  show "adjusts s t" if m: "mvtosavings E a q s = Inr t"
  proof -
    obtain s1 n s2 b where 1: "runrex E 2 s = Inr s1" "update_rex_account E a 0 0 False s1 = Inr (n, s2)"
      and t: "t = s2\<lparr>rexbalance := b\<rparr>"
      using m by (auto simp: mvtosavings_def res_simps Let_def split_beta)
    show ?thesis using runrex_adjusts [OF 1(1)] update_rex_account_kept [OF 1(2)] after_kept by (auto simp: t)
  qed
  show "adjusts s t" if m: "mvfrsavings E a q s = Inr t"
  proof -
    obtain s1 b n where 1: "runrex E 2 s = Inr s1" "update_rex_account E a 0 0 False (s1\<lparr>rexbalance := b\<rparr>) = Inr (n, t)"
      using m by (auto simp: mvfrsavings_def res_simps Let_def split_beta)
    have "kept s1 (s1\<lparr>rexbalance := b\<rparr>)" by simp
    then show ?thesis using runrex_adjusts [OF 1(1)] update_rex_account_kept [OF 1(2)] after_kept kept_trans by blast
  qed
qed

lemma closerex_adjusts:
  assumes "closerex E a s = Inr t"
  shows "adjusts s t"
proof -
  obtain s1 n s2 s3 where 1: "(if rex_system_initialized s then runrex E 2 s else Inr s) = Inr s1"
    and 2: "update_rex_account E a 0 0 False s1 = Inr (n, s2)"
    and s3: "s3 = s2 \<or> s3 = s2\<lparr>rexfunds := fmdrop a (rexfunds s2)\<rparr>"
    and t: "(case fmlookup (rexbalance s3) a of None \<Rightarrow> Inr s3
      | Some rb \<Rightarrow> check (amount (rex_amount rb) = 0) (Rex Remaining_rex_balance) (
         Inr (s3\<lparr>rexbalance := fmdrop a (rexbalance s3)\<rparr>))) = Inr t"
    using assms unfolding closerex_def Let_def require_auth_eq_Inr bindR_eq_Inr split_paired_Ex prod.case
    by (elim exE conjE) (rule that, assumption, assumption, rule if_choice, assumption)
  have "adjusts s s1" using 1 runrex_adjusts by (cases "rex_system_initialized s") auto
  moreover have "kept s2 s3" using s3 by auto
  moreover have "kept s3 t" using t by (cases "fmlookup (rexbalance s3) a") (auto simp: check_eq_Inr)
  ultimately show ?thesis using update_rex_account_kept [OF 2] after_kept(2) kept_trans by blast
qed

lemma exchange_adjusts:
  assumes ok: "exchange E act s = Inr t"
  shows "adjusts s t"
proof (cases act)
  case (Deposit a q) then show ?thesis using ok funds_kept(1) kept_adjusts by simp
next
  case (Withdraw a q) then show ?thesis using ok funds_kept(2) kept_adjusts by simp
next
  case (Buyrex a q) then show ?thesis using ok buyrex_adjusts by simp
next
  case (Unstaketorex a b n c) then show ?thesis using ok unstaketorex_adjusts by simp
next
  case (Sellrex a q) then show ?thesis using ok sellrex_adjusts by simp
next
  case (Cnclrexorder a)
  then have "kept s t" using ok by (auto simp: cnclrexorder_def res_simps)
  then show ?thesis by (rule kept_adjusts)
next
  case (Rentcpu a b q f) then show ?thesis using ok rent_adjusts by (simp add: rentcpu_def)
next
  case (Rentnet a b q f) then show ?thesis using ok rent_adjusts by (simp add: rentnet_def)
next
  case (Fundcpuloan a n q)
  then show ?thesis using ok kept_adjusts [OF loan_funds_kept(1)] by (auto simp: fundcpuloan_def require_auth_eq_Inr)
next
  case (Fundnetloan a n q)
  then show ?thesis using ok kept_adjusts [OF loan_funds_kept(1)] by (auto simp: fundnetloan_def require_auth_eq_Inr)
next
  case (Defcpuloan a n q)
  then show ?thesis using ok kept_adjusts [OF loan_funds_kept(2)] by (auto simp: defcpuloan_def require_auth_eq_Inr)
next
  case (Defnetloan a n q)
  then show ?thesis using ok kept_adjusts [OF loan_funds_kept(2)] by (auto simp: defnetloan_def require_auth_eq_Inr)
next
  case (Updaterex a) then show ?thesis using ok updaterex_adjusts by simp
next
  case (Setrex q)
  then have "kept s t" using ok by (auto simp: setrex_def res_simps)
  then show ?thesis by (rule kept_adjusts)
next
  case (Rexexec a n) then show ?thesis using ok runrex_adjusts by (auto simp: rexexec_def require_auth_eq_Inr)
next
  case (Consolidate a) then show ?thesis using ok savings_adjust(1) by simp
next
  case (Mvtosavings a q) then show ?thesis using ok savings_adjust(2) by simp
next
  case (Mvfrsavings a q) then show ?thesis using ok savings_adjust(3) by simp
next
  case (Closerex a) then show ?thesis using ok closerex_adjusts by simp
qed

section \<open>Bandwidth, RAM, power-up, accounts and votes\<close>

lemma changebw_adjusts:
  assumes "changebw E source receiver net cpu tr s = Inr t"
  shows "adjusts s t"
  using assms
proof (rule changebw_Inr)
  fix tot frm s1 s2 s3 s4
  assume 1: "delegate E frm receiver net cpu s = Inr s1" and 2: "add_totals E receiver net cpu s1 = Inr s2"
    and 3: "(if source \<noteq> stake_account then settle_refund E source frm receiver net cpu tr s2 else Inr s2) = Inr s3"
    and 4: "update_rex_stake frm s3 = Inr s4" and 5: "update_voting_power E frm (amount tot) s4 = Inr t"
  have "kept s s1" by (subst delegate_same [OF 1]) simp
  moreover have "kept s2 s3"
  proof (cases "source \<noteq> stake_account")
    case True
    then have "settle_refund E source frm receiver net cpu tr s2 = Inr s3" using 3 by simp
    from settle_refund_same [OF this] show ?thesis by (metis kept_refl kept_upd(7))
  qed (use 3 in simp)
  then have "kept s2 t" using update_rex_stake_kept [OF 4] voting_power_kept [OF 5] kept_trans by blast
  ultimately show ?thesis using totals_adjusts(3) [OF 2] after_kept by blast
qed

lemma bandwidth_adjusts:
  "delegatebw E a b net cpu tr s = Inr t \<Longrightarrow> adjusts s t" "undelegatebw E a b net cpu s = Inr t \<Longrightarrow> adjusts s t"
  by (auto simp: delegatebw_def undelegatebw_def res_simps intro: changebw_adjusts)

lemma refund_kept: "refund E a s = Inr t \<Longrightarrow> kept s t"
  by (auto simp: refund_def res_simps kept_def account_flag_def)

lemma quota_adjusts:
  assumes "userres u = fmupd a r (userres s)" "limits u = limits s" "voters u = voters s"
    and "amount (ur_net_weight r) = row_val (\<lambda>r. amount (ur_net_weight r)) (userres s) a"
    and "amount (ur_cpu_weight r) = row_val (\<lambda>r. amount (ur_cpu_weight r)) (userres s) a"
  shows "adjusts s (follow_quota a u)"
proof (rule adjusts_views)
  fix b
  obtain ram net cpu where l: "limits s a = (ram, net, cpu)" by (cases "limits s a")
  show "net_view (follow_quota a u) b = net_view s b \<and> cpu_view (follow_quota a u) b = cpu_view s b"
    using assms l by (cases "b = a") (auto simp: net_view_def cpu_view_def follow_quota_def get_resource_limits_def
        set_resource_limits_def account_flag_def row_val_def)
qed

lemma update_ram_supply_kept: "update_ram_supply E s = Inr t \<Longrightarrow> kept s t"
  using update_ram_supply_same by (intro kept_fields) blast+

lemma buyram_adjusts:
  assumes "buyram E payer receiver quant s = Inr t"
  shows "adjusts s t"
  using assms
proof (rule buyram_Inr)
  fix s1 m fee s3 s4 and out :: asset
  let ?n = "i64 (amount quant - fee)"
  let ?s2 = "emit (Transfer [payer, ram_account] payer ram_account (set_amount ?n quant)) s1"
  let ?s2' = "if 0 < fee then emit (Transfer [payer] payer ramfee_account (set_amount fee quant)) ?s2 else ?s2"
  assume 1: "update_ram_supply E s = Inr s1" and f: "same_but_fees ramfee_account ?s2' s3"
    and 2: "trade E (set_amount ?n quant) ram_symbol No_row s3 = Inr (out, s4)"
    and t: "t = follow_quota receiver (add_quota receiver (amount out) (asym quant) (reserve_ram (amount out) ?n s4))"
  let ?u = "add_quota receiver (amount out) (asym quant) (reserve_ram (amount out) ?n s4)"
  have "kept s1 ?s2'" by simp
  moreover have "kept s3 s4" by (subst trade_same [OF 2]) simp
  ultimately have k: "kept s s4" using update_ram_supply_kept [OF 1] kept_fees [OF f] kept_trans by blast
  obtain r where "userres ?u = fmupd receiver r (userres s4)"
    "amount (ur_net_weight r) = row_val (\<lambda>r. amount (ur_net_weight r)) (userres s4) receiver"
    "amount (ur_cpu_weight r) = row_val (\<lambda>r. amount (ur_cpu_weight r)) (userres s4) receiver"
  proof (cases "fmlookup (userres s4) receiver")
    case None
    then show thesis
      by (intro that [of "\<lparr>ur_owner = receiver, ur_net_weight = asset0 (asym quant), ur_cpu_weight = asset0 (asym quant),
        ram_bytes = amount out\<rparr>"]) (simp_all add: add_quota_def reserve_ram_def row_val_def)
  next
    case (Some r)
    then show thesis
      by (intro that [of "r\<lparr>ram_bytes := i64 (ram_bytes r + amount out)\<rparr>"]) (simp_all add: add_quota_def reserve_ram_def row_val_def)
  qed
  then have "adjusts s4 t" unfolding t by (intro quota_adjusts) (simp_all add: add_quota_def reserve_ram_def)
  then show ?thesis using k after_kept by blast
qed

lemma sellram_adjusts:
  assumes "sellram E a n s = Inr t"
  shows "adjusts s t"
  using assms
proof (rule sellram_Inr)
  fix s1 r m q s2 s4 and out :: asset
  let ?s5 = "emit (Transfer [ram_account, a] ram_account a out) s4"
  assume 1: "update_ram_supply E s = Inr s1" and r: "fmlookup (userres s1) a = Some r"
    and 2: "trade E q (asym (balance (quote m))) No_row s1 = Inr (out, s2)"
    and s4: "s4 = follow_quota a (reserve_ram (- n) (- amount out) s2\<lparr>userres :=
       fmupd a (r\<lparr>ram_bytes := i64 (ram_bytes r - n)\<rparr>) (userres s2)\<rparr>)"
    and 3: "(if 0 < ram_fee (amount out) then
       bindR (aa_make (e_assets E) (ram_fee (amount out)) (asym (balance (quote m)))) (\<lambda>q.
       channel_to_rex_or_pools E ramfee_account q False (emit (Transfer [a] a ramfee_account q) ?s5))
     else Inr ?s5) = Inr t"
  have k2: "kept s1 s2" by (subst trade_same [OF 2]) simp
  have "fmlookup (userres s2) a = Some r" using r k2 by (simp add: kept_def)
  then have "adjusts s2 s4" unfolding s4
    by (intro quota_adjusts [where r = "r\<lparr>ram_bytes := i64 (ram_bytes r - n)\<rparr>"]) (simp_all add: reserve_ram_def row_val_def)
  moreover have "kept s4 t"
  proof (cases "0 < ram_fee (amount out)")
    case True
    then obtain q' where c: "channel_to_rex_or_pools E ramfee_account q' False (emit (Transfer [a] a ramfee_account q') ?s5) = Inr t"
      using 3 by (auto simp: bindR_eq_Inr)
    have "kept s4 (emit (Transfer [a] a ramfee_account q') ?s5)" by simp
    then show ?thesis using kept_fees [OF channel_fees [OF c]] kept_trans by blast
  next
    case False
    then have "t = ?s5" using 3 by simp
    then show ?thesis by simp
  qed
  ultimately show ?thesis using update_ram_supply_kept [OF 1] k2 after_kept kept_trans by blast
qed

lemma buyrambytes_adjusts: "buyrambytes E payer receiver n s = Inr t \<Longrightarrow> adjusts s t"
  by (auto simp: buyrambytes_def res_simps intro: buyram_adjusts)

lemma queue_adjusts:
  assumes "process_powerup_queue E core st n s = Inr (st', net, cpu, t)"
  shows "adjusts s t"
proof -
  obtain net' cpu' where e: "expire_orders E core n 0 0 s = Inr (net', cpu', t)"
    using assms unfolding process_powerup_queue_def bindR_eq_Inr split_paired_Ex prod.case sum.inject prod.inject
    by (elim exE conjE) (rule that, simp)
  show ?thesis
  proof (rule expire_orders_rule [OF e, where P = "\<lambda>_ _ u. adjusts s u"])
    fix k p u s1 and net cpu :: int
    assume u: "adjusts s u"
      and "adjust_resources E (po_owner p) core (i64 (- po_net_weight p)) (i64 (- po_cpu_weight p)) False u = Inr s1"
    from this(2) have "adjusts u s1" by (rule totals_adjusts)
    moreover have "kept s1 (s1\<lparr>powerorders := fmdrop k (powerorders s1)\<rparr>)" by simp
    ultimately show "adjusts s (s1\<lparr>powerorders := fmdrop k (powerorders s1)\<rparr>)" using u after_kept(2) adjusts_trans by blast
  qed simp
qed

lemma power_adjusts:
  "powerup E payer receiver days nf cf max_payment s = Inr t \<Longrightarrow> adjusts s t"
  "powerupexec E user n s = Inr t \<Longrightarrow> adjusts s t" "cfgpowerup E args s = Inr t \<Longrightarrow> adjusts s t"
proof -
  show "adjusts s t" if p: "powerup E payer receiver days nf cf max_payment s = Inr t"
    using p
  proof (rule powerup_Inr)
    fix st m st1 net cpu s1 net_amount n1 fee cpu_amount c1 s3 s4 s5 k q
    assume 1: "process_powerup_queue E (asym (balance (quote m))) st 2 s = Inr (st1, net, cpu, s1)"
      and 2: "adjust_resources E receiver (asym fee) net_amount cpu_amount True
        (s1\<lparr>powerorders := fmupd k q (powerorders s1)\<rparr>) = Inr s3"
      and 3: "adjust_resources E reserv_account (asym fee) (i64 (net - net_amount)) (i64 (cpu - cpu_amount)) True s3 = Inr s4"
      and 4: "channel_to_rex_or_pools E payer fee True s4 = Inr s5"
      and t: "t = emit (Powup_result fee net_amount cpu_amount) (s5\<lparr>powerstate := Some (st1\<lparr>ps_net := n1, ps_cpu := c1\<rparr>)\<rparr>)"
    have "kept s1 (s1\<lparr>powerorders := fmupd k q (powerorders s1)\<rparr>)" by simp
    moreover have "kept s4 t" using kept_fees [OF channel_fees [OF 4]] by (simp add: t)
    ultimately show ?thesis
      using queue_adjusts [OF 1] totals_adjusts(1) [OF 2] totals_adjusts(1) [OF 3] after_kept adjusts_trans by blast
  qed
  show "adjusts s t" if p: "powerupexec E user n s = Inr t"
  proof -
    obtain core st st1 net cpu s1 s2 where 1: "process_powerup_queue E core st n s = Inr (st1, net, cpu, s1)"
      and 2: "adjust_resources E reserv_account core net cpu True s1 = Inr s2" and t: "t = s2\<lparr>powerstate := Some st1\<rparr>"
      using p by (auto simp: powerupexec_def res_simps)
    have "kept s2 t" by (simp add: t)
    then show ?thesis using queue_adjusts [OF 1] totals_adjusts(1) [OF 2] after_kept adjusts_trans by blast
  qed
  show "adjusts s t" if c: "cfgpowerup E args s = Inr t"
  proof -
    obtain core net cpu s1 x where 1: "adjust_resources E reserv_account core net cpu True s = Inr s1"
      and t: "s1\<lparr>powerstate := Some x\<rparr> = t"
      using c unfolding cfgpowerup_def Let_def require_auth_eq_Inr core_symbol_eq_Inr check_eq_Inr bindR_eq_Inr
        split_paired_Ex prod.case sum.inject
      by (elim exE conjE) (rule that, assumption+)
    have "kept s1 t" by (simp add: t [symmetric])
    then show ?thesis using totals_adjusts(1) [OF 1] after_kept by blast
  qed
qed

lemma voteproducer_kept:
  assumes "voteproducer E v proxy ps s = Inr t"
  shows "kept s t"
proof -
  obtain s1 where 1: "update_rex_stake v s = Inr s1" and 2: "update_votes E v proxy ps True s1 = Inr t"
    using assms by (auto simp: voteproducer_def check_voting_requirement_def res_simps split: option.splits if_splits)
  show ?thesis using update_rex_stake_kept [OF 1] update_votes_kept [OF 2] kept_trans by blast
qed

text \<open>A new account starts with nothing; the limits of an account without totals may be anything.\<close>

lemma newaccount_adjusts:
  assumes "newaccount E creator a s = Inr t"
  shows "adjusts s t" "limits_follow t a"
proof -
  obtain s1 core where s1: "claim_name E creator a s = Inr s1" and n: "fmlookup (userres s1) a = None"
    and t: "t = set_resource_limits a 0 0 0 (s1\<lparr>userres := fmupd a \<lparr>ur_owner = a,
      ur_net_weight = asset0 core, ur_cpu_weight = asset0 core, ram_bytes = 0\<rparr> (userres s1)\<rparr>)"
    using assms by (auto simp: newaccount_def res_simps)
  have k: "kept s s1" using s1 by (auto simp: claim_name_def res_simps Let_def kept_def account_flag_def split: if_splits)
  note g = given_limits [where s = s1 and t = t and a = a, OF _ refl]
  have f: "limits_follow t a" unfolding limits_follow_views using g(2,3) by (simp add: t set_resource_limits_def in_step_def)
  then show "limits_follow t a" .
  have "adjusts s1 t"
    by (rule elsewhere_views [where a = a]) (use f g(1) in \<open>simp_all add: tracks_def t set_resource_limits_def\<close>)
  then show "adjusts s t" using k after_kept by blast
qed

lemma setalimits_elsewhere:
  assumes "setalimits E a ram net cpu s = Inr t"
  shows "b \<noteq> a \<Longrightarrow> tracks b s t" "settled t a"
proof -
  have t: "t = set_resource_limits a ram net cpu s" and n: "fmlookup (userres s) a = None"
    using assms by (simp_all add: setalimits_def res_simps)
  show "tracks b s t" if "b \<noteq> a"
    using that by (simp add: tracks_def net_view_def cpu_view_def t set_resource_limits_def account_flag_def)
  show "settled t a" using n by (simp add: settled_def net_view_def cpu_view_def t set_resource_limits_def)
qed

lemma limit_of_views: "limit_of net_managed s a = snd (snd (net_view s a))" "limit_of cpu_managed s a = snd (snd (cpu_view s a))"
  using flags_distinct by (auto simp: limit_of_def net_view_def cpu_view_def get_resource_limits_def split: prod.split)

lemma setacct_adjusts:
  assumes field: "field \<in> {ram_managed, net_managed, cpu_managed}" and ok: "setacct field E a v s = Inr t"
  shows "adjusts s t"
proof -
  note L = setacct_effect [OF field ok, unfolded limit_set_def flag_set_def]
  have r: "userres t = userres s" using L by simp
  have n: "limit_of net_managed t b = (if b = a \<and> net_managed = field then (case v of Some n \<Rightarrow> n
      | None \<Rightarrow> row_val (\<lambda>r. amount (ur_net_weight r)) (userres s) a) else limit_of net_managed s b)"
    and c: "limit_of cpu_managed t b = (if b = a \<and> cpu_managed = field then (case v of Some n \<Rightarrow> n
      | None \<Rightarrow> row_val (\<lambda>r. amount (ur_cpu_weight r)) (userres s) a) else limit_of cpu_managed s b)"
    and f: "account_flag t b net_managed = (if b = a \<and> net_managed = field then v \<noteq> None else account_flag s b net_managed)"
      "account_flag t b cpu_managed = (if b = a \<and> cpu_managed = field then v \<noteq> None else account_flag s b cpu_managed)" for b
    using L field flags_distinct flags_distinct [symmetric] by (auto simp: unmanaged_limit_def split: option.split)
  have "tracks b s t" for b
    using n [of b] c [of b] f [of b] r unfolding limit_of_views
    by (cases v) (auto simp: tracks_def in_step_def net_view_def cpu_view_def prod_eq_iff split: if_splits)
  then show ?thesis by (simp add: adjusts_def)
qed

section \<open>The actions together\<close>

text \<open>The actions that write limits, totals or the rows of voters.\<close>

datatype (plugins only: code size) resource_action =
    Create name name | Set_limits name int int int | Set_ram name "int option" | Set_net name "int option"
  | Set_cpu name "int option" | Delegate name name asset asset bool | Undelegate name name asset asset | Take_refund name
  | Buy_ram name name asset | Buy_bytes name name int | Sell_ram name int | Exchange exchange_action
  | Power_up name name int int int asset | Power_exec name nat | Power_config powerup_config
  | Vote_for name name "name list" | Be_proxy name bool

fun resource_act :: "env \<Rightarrow> resource_action \<Rightarrow> chain \<Rightarrow> error + chain" where
  "resource_act E (Create creator a) s = newaccount E creator a s"
| "resource_act E (Set_limits a ram net cpu) s = setalimits E a ram net cpu s"
| "resource_act E (Set_ram a v) s = setacctram E a v s"
| "resource_act E (Set_net a v) s = setacctnet E a v s"
| "resource_act E (Set_cpu a v) s = setacctcpu E a v s"
| "resource_act E (Delegate a b net cpu tr) s = delegatebw E a b net cpu tr s"
| "resource_act E (Undelegate a b net cpu) s = undelegatebw E a b net cpu s"
| "resource_act E (Take_refund a) s = refund E a s"
| "resource_act E (Buy_ram payer a q) s = buyram E payer a q s"
| "resource_act E (Buy_bytes payer a n) s = buyrambytes E payer a n s"
| "resource_act E (Sell_ram a n) s = sellram E a n s"
| "resource_act E (Exchange act) s = exchange E act s"
| "resource_act E (Power_up payer a days net cpu q) s = powerup E payer a days net cpu q s"
| "resource_act E (Power_exec a n) s = powerupexec E a n s"
| "resource_act E (Power_config args) s = cfgpowerup E args s"
| "resource_act E (Vote_for a proxy ps) s = voteproducer E a proxy ps s"
| "resource_act E (Be_proxy a b) s = regproxy E a b s"

text \<open>The account that an action gives limits of its own.\<close>

fun given_limits_to :: "resource_action \<Rightarrow> name set" where
  "given_limits_to (Set_limits a ram net cpu) = {a}"
| "given_limits_to _ = {}"

lemma resource_act_adjusts:
  assumes ok: "resource_act E act s = Inr t" and n: "given_limits_to act = {}"
  shows "adjusts s t"
proof (cases act)
  case (Create creator a) then show ?thesis using ok newaccount_adjusts(1) by simp
next
  case (Set_limits a ram net cpu) then show ?thesis using n by simp
next
  case (Set_ram a v) then show ?thesis using ok setacct_adjusts [of ram_managed] by (simp add: setacct_actions)
next
  case (Set_net a v) then show ?thesis using ok setacct_adjusts [of net_managed] by (simp add: setacct_actions)
next
  case (Set_cpu a v) then show ?thesis using ok setacct_adjusts [of cpu_managed] by (simp add: setacct_actions)
next
  case (Delegate a b net cpu tr) then show ?thesis using ok bandwidth_adjusts(1) by simp
next
  case (Undelegate a b net cpu) then show ?thesis using ok bandwidth_adjusts(2) by simp
next
  case (Take_refund a) then show ?thesis using ok kept_adjusts [OF refund_kept] by simp
next
  case (Buy_ram payer a q) then show ?thesis using ok buyram_adjusts by simp
next
  case (Buy_bytes payer a n) then show ?thesis using ok buyrambytes_adjusts by simp
next
  case (Sell_ram a n) then show ?thesis using ok sellram_adjusts by simp
next
  case (Exchange act) then show ?thesis using ok exchange_adjusts by simp
next
  case (Power_up payer a days net cpu q) then show ?thesis using ok power_adjusts(1) by simp
next
  case (Power_exec a n) then show ?thesis using ok power_adjusts(2) by simp
next
  case (Power_config args) then show ?thesis using ok power_adjusts(3) by simp
next
  case (Vote_for a proxy ps) then show ?thesis using ok kept_adjusts [OF voteproducer_kept] by simp
next
  case (Be_proxy a b) then show ?thesis using ok kept_adjusts [OF regproxy_kept] by simp
qed

text \<open>A run of the actions, with the accounts that were given limits of their own.\<close>

inductive limits_run :: "name set \<Rightarrow> chain \<Rightarrow> chain \<Rightarrow> bool" where
  Begin: "limits_run {} s s"
| Then: "limits_run A s t \<Longrightarrow> resource_act E act t = Inr u \<Longrightarrow> limits_run (A \<union> given_limits_to act) s u"

lemma resource_act_tracks:
  assumes "resource_act E act s = Inr t"
  shows "a \<notin> given_limits_to act \<Longrightarrow> tracks a s t" "settled s a \<Longrightarrow> settled t a"
proof -
  have "tracks a s t \<or> a \<in> given_limits_to act \<and> settled t a" for a
  proof (cases "given_limits_to act = {}")
    case True
    then show ?thesis using resource_act_adjusts [OF assms] by (simp add: adjusts_def)
  next
    case False
    then obtain b ram net cpu where "act = Set_limits b ram net cpu" by (cases act) auto
    then show ?thesis using assms setalimits_elsewhere(1) [of E b ram net cpu s t a] setalimits_elsewhere(2) [of E b ram net cpu s t]
      by (cases "a = b") simp_all
  qed
  then show "a \<notin> given_limits_to act \<Longrightarrow> tracks a s t" "settled s a \<Longrightarrow> settled t a" using tracks_settled by blast+
qed

lemma limits_run_tracks:
  "limits_run A s t \<Longrightarrow> (settled s a \<longrightarrow> settled t a) \<and> (a \<notin> A \<longrightarrow> limits_follow s a \<longrightarrow> limits_follow t a)"
proof (induction rule: limits_run.induct)
  case (Then A s t E act u)
  then show ?case using resource_act_tracks [OF Then.hyps(2)] tracks_follows by blast
qed simp

text \<open>
  C11: Over any run of the actions that create accounts, stake, trade RAM, use the exchange or
  power-up, manage limits or vote: starting with no totals on record, every account that comes to
  have a NET or CPU total has its totals as its NET and CPU limits, but for a limit that the system
  account manages; the limits of an account that once follow its totals (as those of a new account
  do) go on following them, unless \<open>setalimits\<close> gives it others while it has no totals.
\<close>

theorem limits_always_follow:
  assumes "limits_run A s t"
  shows "(userres s = fmempty \<longrightarrow>
      (\<forall>a r. fmlookup (userres t) a = Some r \<longrightarrow> amount (ur_net_weight r) \<noteq> 0 \<or> amount (ur_cpu_weight r) \<noteq> 0 \<longrightarrow>
        (\<not> account_flag t a net_managed \<longrightarrow> limit_of net_managed t a = amount (ur_net_weight r)) \<and>
        (\<not> account_flag t a cpu_managed \<longrightarrow> limit_of cpu_managed t a = amount (ur_cpu_weight r)))) \<and>
    (\<forall>a. a \<notin> A \<longrightarrow> limits_follow s a \<longrightarrow> limits_follow t a) \<and>
    (\<forall>E creator a u. newaccount E creator a t = Inr u \<longrightarrow> limits_follow u a)"
proof -
  have "(\<not> account_flag t a net_managed \<longrightarrow> limit_of net_managed t a = amount (ur_net_weight r)) \<and>
      (\<not> account_flag t a cpu_managed \<longrightarrow> limit_of cpu_managed t a = amount (ur_cpu_weight r))"
    if "userres s = fmempty" "fmlookup (userres t) a = Some r" "amount (ur_net_weight r) \<noteq> 0 \<or> amount (ur_cpu_weight r) \<noteq> 0" for a r
  proof -
    have "settled s a" using that(1) by (simp add: settled_def net_view_def cpu_view_def)
    then have "settled t a" using limits_run_tracks [OF assms] by blast
    then show ?thesis using that(2,3)
      by (auto simp: settled_def limits_follow_views limit_of_views in_step_def net_view_def cpu_view_def row_val_def)
  qed
  then show ?thesis using limits_run_tracks [OF assms] newaccount_adjusts(2) by blast
qed

section \<open>Witnesses\<close>

text \<open>An account stakes 700 for another, whose NET limit is then managed at 500, and released again.\<close>

definition stake_700 :: resource_action where
  "stake_700 = Delegate 7 9 (sys 700) (sys 0) False"

lemma limits_story:
  obtains s t u where "resource_act sample_env stake_700 sample_chain = Inr s"
    "resource_act sample_env (Set_net 9 (Some 500)) s = Inr t" "resource_act sample_env (Set_net 9 None) t = Inr u"
    "limit_of net_managed t 9 = 500"
    "map_option (\<lambda>r. amount (ur_net_weight r)) (fmlookup (userres u) 9) = Some 700" "\<not> account_flag u 9 net_managed"
proof -
  have "case resource_act sample_env stake_700 sample_chain of
      Inr s \<Rightarrow> (case resource_act sample_env (Set_net 9 (Some 500)) s of
        Inr t \<Rightarrow> (case resource_act sample_env (Set_net 9 None) t of
          Inr u \<Rightarrow> limit_of net_managed t 9 = 500 \<and>
            map_option (\<lambda>r. amount (ur_net_weight r)) (fmlookup (userres u) 9) = Some 700 \<and> \<not> account_flag u 9 net_managed
        | Inl _ \<Rightarrow> False) | Inl _ \<Rightarrow> False) | Inl _ \<Rightarrow> False" by code_simp
  then show thesis by (auto split: sum.splits intro: that)
qed

theorem limits_always_follow_witness:
  "\<exists>s t u. delegatebw sample_env 7 9 (sys 700) (sys 0) False sample_chain = Inr s \<and>
    setacctnet sample_env 9 (Some 500) s = Inr t \<and> limit_of net_managed t 9 = 500 \<and>
    setacctnet sample_env 9 None t = Inr u \<and> limit_of net_managed u 9 = 700"
proof (rule limits_story)
  fix s t u
  assume 1: "resource_act sample_env stake_700 sample_chain = Inr s" "resource_act sample_env (Set_net 9 (Some 500)) s = Inr t"
      "resource_act sample_env (Set_net 9 None) t = Inr u"
    and m: "limit_of net_managed t 9 = 500"
    and r: "map_option (\<lambda>r. amount (ur_net_weight r)) (fmlookup (userres u) 9) = Some 700" "\<not> account_flag u 9 net_managed"
  have "limits_run ({} \<union> given_limits_to stake_700 \<union> given_limits_to (Set_net 9 (Some 500)) \<union> given_limits_to (Set_net 9 None)) sample_chain u"
    by (rule Then [OF Then [OF Then [OF Begin 1(1)] 1(2)] 1(3)])
  moreover have "userres sample_chain = fmempty" by (simp add: sample_chain_def initial_chain_def)
  moreover obtain w where "fmlookup (userres u) 9 = Some w" "amount (ur_net_weight w) = 700" using r(1) by auto
  ultimately have "limit_of net_managed u 9 = 700" using limits_always_follow r(2) by fastforce
  then show ?thesis using 1 m by (auto simp: stake_700_def)
qed

end
