(* ===== verification/Rows.thy ===== *)
theory Rows
  imports Producers
begin

text \<open>
  How a producer's row is stored. Two fields were added to the row in later versions
  (\<open>binary_extension\<close>); \<open>write_extensions\<close> (\<open>stream_extensions.hpp\<close>) leaves them off at the end of the
  row and fills the ones before with default values. The other theories work on rows as values;
  here it is shown that storing and reading a row changes nothing they can observe.
\<close>

section \<open>Streams\<close>

text \<open>A data stream is the sequence of the values written to it; their bytes belong to the library.\<close>

datatype (plugins only: code size) field =
    F_name name | F_double f64 | F_key public_key | F_bool bool | F_string string | F_u32 int | F_time int | F_u16 int
  | F_authority signing_authority | F_votes "f64 list option"

text \<open>
  The library reads an extension if the stream holds anything more, and leaves it without a value
  otherwise. \<open>wrap\<close> is how a value of the extension's type stands in the stream.
\<close>

locale extension =
  fixes wrap :: "'a \<Rightarrow> field" and rd :: "field list \<Rightarrow> 'a option \<times> field list"
  assumes absent: "rd [] = (None, [])"
    and present: "rd (wrap v # ds) = (Some v, ds)"

text \<open>An extension with its default value, as it is passed to \<open>write_extensions\<close>.\<close>

type_synonym ext = "field option \<times> field"

fun something_has_value :: "ext list \<Rightarrow> bool" where
  "something_has_value [] = False"
| "something_has_value ((obj, dflt) # objs) = (if obj \<noteq> None then True else something_has_value objs)"

fun write_extensions :: "field list \<Rightarrow> ext list \<Rightarrow> field list" where
  "write_extensions ds [] = ds"
| "write_extensions ds ((obj, dflt) # objs) =
     (if something_has_value ((obj, dflt) # objs)
      then write_extensions (ds @ [case obj of Some v \<Rightarrow> v | None \<Rightarrow> dflt]) objs
      else ds)"

definition default_authority :: signing_authority where
  "default_authority = \<lparr>threshold = 0, keys = []\<rparr>"

definition write_producer :: "producer_info \<Rightarrow> field list" where
  "write_producer t = write_extensions
     [F_name (p_owner t), F_double (total_votes t), F_key (producer_key t), F_bool (is_active t), F_string (url t),
      F_u32 (unpaid_blocks t), F_time (last_claim_time t), F_u16 (location t)]
     [(map_option F_authority (producer_authority t), F_authority default_authority),
      (map_option F_votes (pool_votes t), F_votes None)]"

definition read_producer ::
  "(field list \<Rightarrow> signing_authority option \<times> field list) \<Rightarrow> (field list \<Rightarrow> f64 list option option \<times> field list) \<Rightarrow>
     field list \<Rightarrow> (producer_info \<times> field list) option" where
  "read_producer rd_authority rd_votes ds = (case ds of
     F_name a # F_double b # F_key c # F_bool d # F_string e # F_u32 f # F_time g # F_u16 h # rest \<Rightarrow>
       let (auth, rest1) = rd_authority rest; (pv, rest2) = rd_votes rest1 in
       Some (\<lparr>p_owner = a, total_votes = b, producer_key = c, is_active = d, url = e, unpaid_blocks = f,
         last_claim_time = g, location = h, producer_authority = auth, pool_votes = pv\<rparr>, rest2)
   | _ \<Rightarrow> None)"

section \<open>Reading what was written\<close>

text \<open>The row as it is read back.\<close>

definition stored_producer :: "producer_info \<Rightarrow> producer_info" where
  "stored_producer p = (if producer_authority p = None \<and> pool_votes p \<noteq> None
     then p\<lparr>producer_authority := Some default_authority\<rparr> else p)"

lemma write_producer_fields:
  "write_producer p = [F_name (p_owner p), F_double (total_votes p), F_key (producer_key p), F_bool (is_active p),
     F_string (url p), F_u32 (unpaid_blocks p), F_time (last_claim_time p), F_u16 (location p)] @
   (case producer_authority (stored_producer p) of None \<Rightarrow> [] | Some a \<Rightarrow> F_authority a #
     (case pool_votes p of None \<Rightarrow> [] | Some v \<Rightarrow> [F_votes v]))"
  by (simp add: write_producer_def stored_producer_def split: option.split)

lemma stored_authority: "get_producer_authority (stored_producer p) = get_producer_authority p"
  by (auto simp: stored_producer_def get_producer_authority_def default_authority_def split: option.split)

lemma read_written:
  assumes a: "extension F_authority rda" and v: "extension F_votes rdv"
  shows "read_producer rda rdv (write_producer p) = Some (stored_producer p, [])"
  unfolding write_producer_fields read_producer_def
  by (cases "producer_authority p"; cases "pool_votes p")
    (simp_all add: stored_producer_def extension.absent [OF a] extension.absent [OF v] extension.present [OF a]
      extension.present [OF v])

text \<open>
  C26: A producer's row is read back as it was written, except that a missing authority before
  present pool votes becomes the default authority with threshold zero; the authority that the
  contract uses is the same as before, a second time nothing changes at all, and a row without the
  two later fields is stored without them.
\<close>

theorem producer_row_round_trip:
  assumes "extension F_authority rda" "extension F_votes rdv"
  shows "\<exists>q. read_producer rda rdv (write_producer p) = Some (q, []) \<and>
    (q = p \<or> producer_authority p = None \<and> pool_votes p \<noteq> None \<and> q = p\<lparr>producer_authority := Some default_authority\<rparr>) \<and>
    get_producer_authority q = get_producer_authority p \<and>
    read_producer rda rdv (write_producer q) = Some (q, []) \<and>
    (producer_authority p = None \<longrightarrow> pool_votes p = None \<longrightarrow> length (write_producer p) = 8)"
proof (intro exI conjI impI)
  show "read_producer rda rdv (write_producer p) = Some (stored_producer p, [])" by (rule read_written [OF assms])
  show "stored_producer p = p \<or> producer_authority p = None \<and> pool_votes p \<noteq> None \<and>
    stored_producer p = p\<lparr>producer_authority := Some default_authority\<rparr>" by (simp add: stored_producer_def)
  show "get_producer_authority (stored_producer p) = get_producer_authority p" by (rule stored_authority)
  have "stored_producer (stored_producer p) = stored_producer p" by (simp add: stored_producer_def)
  then show "read_producer rda rdv (write_producer (stored_producer p)) = Some (stored_producer p, [])"
    using read_written [OF assms, of "stored_producer p"] by simp
  assume "producer_authority p = None" "pool_votes p = None"
  then show "length (write_producer p) = 8" by (simp add: write_producer_fields stored_producer_def)
qed

section \<open>The library\<close>

definition read_authority :: "field list \<Rightarrow> signing_authority option \<times> field list" where
  "read_authority ds = (case ds of F_authority a # rest \<Rightarrow> (Some a, rest) | _ \<Rightarrow> (None, ds))"

definition read_votes :: "field list \<Rightarrow> f64 list option option \<times> field list" where
  "read_votes ds = (case ds of F_votes v # rest \<Rightarrow> (Some v, rest) | _ \<Rightarrow> (None, ds))"

interpretation authority_ext: extension F_authority read_authority
  by unfold_locales (simp_all add: read_authority_def)

interpretation votes_ext: extension F_votes read_votes
  by unfold_locales (simp_all add: read_votes_def)

text \<open>A deactivated producer with pool votes: the padded authority is not used.\<close>

theorem producer_row_round_trip_witness:
  "\<exists>q. read_producer read_authority read_votes
      (write_producer ((sample_producer 5 7 2)\<lparr>pool_votes := Some (Some [])\<rparr>)) = Some (q, []) \<and>
    producer_authority q = Some default_authority \<and> get_producer_authority q = \<lparr>threshold = 1, keys = [(11, 1)]\<rparr>"
proof -
  let ?p = "(sample_producer 5 7 2)\<lparr>pool_votes := Some (Some [])\<rparr>"
  have w: "read_producer read_authority read_votes (write_producer ?p) = Some (?p\<lparr>producer_authority := Some default_authority\<rparr>, [])"
    by code_simp
  obtain q where q: "read_producer read_authority read_votes (write_producer ?p) = Some (q, [])"
    "get_producer_authority q = get_producer_authority ?p"
    using producer_row_round_trip [OF authority_ext.extension_axioms votes_ext.extension_axioms, of ?p] by blast
  moreover have "get_producer_authority ?p = \<lparr>threshold = 1, keys = [(11, 1)]\<rparr>" by code_simp
  ultimately show ?thesis using w by auto
qed

end
