(* ===== verification/Spec2Isabelle.thy ===== *)
theory Spec2Isabelle
  imports Savings PoolProxies Names ResourceLimits Powerup Rows
begin

text \<open>
  A model of the EOSIO system contract (\<open>contracts/eosio.system\<close>) and the properties that make it
  correct.

  The contract is a class whose tables are the state of the blockchain's economy. An action checks
  its arguments, changes rows and sends inline actions, or fails, and then nothing has happened.
  Here every action is a function \<open>env \<Rightarrow> arguments \<Rightarrow> chain \<Rightarrow> error + chain\<close>: \<open>chain\<close> (\<open>State\<close>) is
  the database with one table per field and the messages sent so far, \<open>env\<close> (\<open>Platform\<close>) is the
  clock, the authorisations and the library functions of one action, and \<open>error\<close> has a constructor
  per message of \<open>check\<close>, for missing rows, traps and conversions out of range. Integers are \<open>int\<close>
  with the wrap-around of their C++ type written out (\<open>i64\<close>, \<open>u32\<close>, ... of \<open>Prelude\<close>); \<open>double\<close> is
  binary64 with rounding to nearest (\<open>Float64\<close>); bit fields are words.

  Theories, the sources they model (in \<open>include/eosio.system\<close> and \<open>src\<close>), and what they show:

  \<^item> \<open>Prelude\<close>, \<open>Float64\<close>: fallible computations, wrap-around, truncated division, sums over tables;
    floating-point arithmetic with its rounding laws.
  \<^item> \<open>Platform\<close>, \<open>State\<close>: accounts, symbols, assets, messages; constants, rows and index keys of
    \<open>eosio.system.hpp\<close>, \<open>staking_pool.hpp\<close>, \<open>exchange_state.hpp\<close>, and the constructor's defaults.
  \<^item> \<open>Bancor\<close> (\<open>exchange_state.cpp\<close>): bounds of the converter and that converting there and back
    never gains.
  \<^item> \<open>Voting\<close> (\<open>voting.cpp\<close>): \<open>update_votes\<close>, \<open>regproxy\<close>, propagation along proxies; it ends, the proxy
    graph stays acyclic, a ballot counts exactly its difference, and a change of stake repeats the
    voter's ballot with the new weight.
  \<^item> \<open>Quotas\<close>, \<open>Bandwidth\<close> (\<open>delegate_bandwidth.cpp\<close>, parts of \<open>rex.cpp\<close> and \<open>powerup.cpp\<close>): totals and
    limits of accounts; staking, unstaking and refunds. The tables keep their types, a refund waits
    three days, and what is delegated or refundable is what \<open>eosio.stake\<close> holds.
  \<^item> \<open>Ram\<close> (\<open>delegate_bandwidth.cpp\<close>, \<open>eosio.system.cpp\<close>): the RAM market and its supply, which grow
    together; the books of bytes and tokens balance over any run.
  \<^item> \<open>RexBalance\<close>, \<open>RexPool\<close>, \<open>Rex\<close>, \<open>RexBooks\<close>, \<open>RexSupply\<close> (\<open>rex.cpp\<close>): maturity buckets, the pool and
    the return pool, every action with \<open>runrex\<close>; maturing and savings keep the REX of a row, returns
    are conserved, no purchase is below the price, and each action moves what is owed by what
    \<open>eosio.rex\<close> receives and pays.
  \<^item> \<open>RexRows\<close>, \<open>RexSound\<close>, \<open>RexTokens\<close>, \<open>Exchange\<close>: the invariant of the exchange, kept by each of its
    actions: rows of exact amounts, REX issued = REX held, open orders covered by matured REX, a
    balanced pool, buckets of returns in order. Over any sequence of actions the books balance, but
    for what a purchase overwrites when all REX had been sold (\<open>overwritten\<close>).
  \<^item> \<open>Savings\<close> (\<open>rex.cpp\<close>): what moving REX to savings and back, and consolidating, does to a row.
  \<^item> \<open>PoolChannel\<close>, \<open>Pools\<close>, \<open>PoolPay\<close>, \<open>PoolProxies\<close> (\<open>staking_pool.cpp\<close>): fees shared between REX and the staking
    pools, deposits, claims, transfers and upgrades of stake, votes weighted by shares, and pay from
    pools; the pools are what \<open>eosio.srpool\<close> and \<open>eosio.bpspay\<close> hold, and no action makes a cycle of
    proxies.
  \<^item> \<open>Names\<close> (\<open>name_bidding.cpp\<close>, \<open>native::newaccount\<close>): auctions of names, each action
    the event of the abstract auctions (\<open>auction_step\<close>) that belongs to it; open bids and refunds are
    what \<open>eosio.names\<close> holds.
  \<^item> \<open>Powerup\<close> (\<open>powerup.cpp\<close>): configuration, the queue of orders, decay and prices; utilization is the
    sum of the orders and never above the weight, and what exceeds it halves in its decay time.
  \<^item> \<open>Producers\<close>, \<open>ProducerPay\<close> (\<open>voting.cpp\<close>, \<open>producer_pay.cpp\<close>): registration, election, \<open>onblock\<close>,
    inflation and \<open>claimrewards\<close>; a schedule is the best by pools and votes, and the pay buckets are
    what the two pay accounts hold.
  \<^item> \<open>System\<close> (\<open>eosio.system.cpp\<close>, \<open>native.cpp\<close>): the actions of the system account, \<open>setabi\<close>, \<open>init\<close>.
  \<^item> \<open>ResourceLimits\<close>: NET and CPU limits follow totals unless managed, over the actions of all components
    that touch either.
  \<^item> \<open>Rows\<close> (\<open>stream_extensions.hpp\<close>, the stream operators of \<open>producer_info\<close>): storing a producer's
    row and reading it back changes nothing that the contract uses.

  Components rest on three interfaces. \<open>asset_laws\<close> (\<open>Platform\<close>) states what the asset library of the
  contract development toolkit documents; it is interpreted by \<open>cdt_asset\<close>. \<open>ledger\<close> (\<open>Ledger\<close>) is a
  value that votes do not touch, with the lemmas on the amounts by which operations move it; each
  component interprets it with the tokens it accounts for less those transferred to its account,
  and its books follow from one lemma per operation. \<open>extension\<close> (\<open>Rows\<close>) is how the toolkit reads an
  optional last field of a row. A property over many actions is stated on an
  \<open>inductive\<close> run of steps, or on a list of actions for the exchange.

  Recursions: proxies are followed with \<open>voting_fuel\<close> (\<open>pool_fuel\<close>), one more than there are voters,
  which is enough since chains of proxies have no cycle (\<open>propagate_weight_change_ends\<close>,
  \<open>pool_proxies_end\<close>); the loops over loans and orders run at most as often as their argument
  says, as in the code. Balances are compared as 64-bit integers because the code's sums wrap;
  where a product must not overflow that is a hypothesis of the property (\<open>buy_range\<close>, \<open>sell_range\<close>,
  \<open>block_pay_fits\<close>, \<open>step_ok\<close>), and every such property has a witness on a concrete state.

  Parameters stand for code that is not in the repository: the asset library, the token contract's
  supply, \<open>std::pow\<close>, \<open>std::exp\<close>, \<open>std::log1p\<close>, \<open>sha256\<close>, the suffix of a name, the host's answers, and
  the order in which \<open>std::sort\<close> leaves producers of equal location.

  Not modelled: serialisation (except the fields left off a producer's row, \<open>Rows\<close>) and the
  dispatcher; who pays for the storage of rows; memo strings;
  what the host does with privileged calls and deferred transactions (they are messages); the
  native actions with empty bodies (\<open>updateauth\<close>, \<open>deleteauth\<close>, \<open>linkauth\<close>, \<open>unlinkauth\<close>,
  \<open>canceldelay\<close>, \<open>setcode\<close>); and the contracts that only log results (\<open>rex.results\<close>,
  \<open>powerup.results\<close>), whose actions are messages here.
\<close>

section \<open>The life of the RAM market\<close>

lemma init_Inr:
  assumes "init E v core (initial_chain E0 p) = Inr s"
  obtains m where "s = emit (Open_token rex_account core (e_self E)) ((initial_chain E0 p)\<lparr>rammarket := Some m\<rparr>)"
    "amount (balance (base m)) = 64 * 1024 * 1024 * 1024"
  using assms
  by (auto simp: init_def res_simps initial_chain_def get_default_parameters_def free_ram_def u64_id i64_id)

text \<open>
  C6: From the creation of the market by \<open>init\<close> on the chain's first state, over any run of RAM
  actions: the bytes for sale and the quotas are the RAM supply, the reserved bytes are the quotas,
  the tokens staked for RAM are those that \<open>eosio.ram\<close> holds, and the market has these on top of
  what it started with.
\<close>

theorem ram_from_genesis:
  assumes "init E v core (initial_chain E0 p) = Inr s" "ram_run s t"
  shows "i64 (for_sale t + quotas t) = i64 (max_ram_size (gstate t)) \<and>
    i64 (total_ram_bytes_reserved (gstate t)) = i64 (quotas t) \<and>
    i64 (total_ram_stake (gstate t)) = i64 (net_in ram_account (outbox t)) \<and>
    i64 (market_tokens t) = i64 (market_tokens s + net_in ram_account (outbox t))"
  using assms(1)
proof (rule init_Inr)
  fix m assume s: "s = emit (Open_token rex_account core (e_self E)) ((initial_chain E0 p)\<lparr>rammarket := Some m\<rparr>)"
    and m: "amount (balance (base m)) = 64 * 1024 * 1024 * 1024"
  have "supply_net s = 0" "reserved_net s = 0" "ram_stake_net s = 0" "market_net s = market_tokens s"
    using m by (simp_all add: s ram_nets initial_chain_def get_default_parameters_def msg_in_def)
  then have n: "i64 (supply_net t) = 0" "i64 (reserved_net t) = 0" "i64 (ram_stake_net t) = 0"
    "i64 (market_net t) = i64 (market_tokens s)"
    using ram_run_books [OF assms(2)]
    by (simp_all add: ram_moves_def supplyl.moves_def reservedl.moves_def ramstakel.moves_def marketl.moves_def i64_id)
  have i: "i64 a = i64 (b + c)" if "i64 (a - b) = i64 c" for a b c
    using i64_addL_cong [OF that, of b] by simp
  show ?thesis
    using i [of "for_sale t + quotas t" "max_ram_size (gstate t)" 0] i [of "total_ram_bytes_reserved (gstate t)" "quotas t" 0]
      i [of "total_ram_stake (gstate t)" "net_in ram_account (outbox t)" 0]
      i [of "market_tokens t" "net_in ram_account (outbox t)" "market_tokens s"] n
    by (simp add: i64_id supply_net_def reserved_net_def ram_stake_net_def market_net_def add.commute)
qed

definition genesis_story :: "error + chain" where
  "genesis_story = bindR (init sample_env 0 sys_symbol (initial_chain sample_env \<lparr>max_authority_depth = 6, other_parameters = []\<rparr>))
     (buyram ram_sample_env 7 9 (sys 100000))"

theorem ram_from_genesis_witness:
  "\<exists>t. genesis_story = Inr t \<and> i64 (for_sale t + quotas t) = i64 (max_ram_size (gstate t))"
proof -
  have "succeeds genesis_story" by code_simp
  then obtain s t where s: "init sample_env 0 sys_symbol (initial_chain sample_env \<lparr>max_authority_depth = 6, other_parameters = []\<rparr>) = Inr s"
    and t: "buyram ram_sample_env 7 9 (sys 100000) s = Inr t" "genesis_story = Inr t"
    by (rule succeedsE) (auto simp: genesis_story_def bindR_eq_Inr)
  have "ram_run s t" by (rule ram_run.Next [OF ram_run.Stop ram_sample_env(1) ram_step.Buy [OF t(1)]])
  then show ?thesis using ram_from_genesis [OF s] t(2) by blast
qed

end
